(* ===== verification/Geco_Prelude.thy ===== *)
theory Geco_Prelude
  imports Main "HOL-Library.Word"
begin

text \<open>
  What every component of the library shares: the machine types of
  \<^verbatim>\<open>include/geco-basic-type.h\<close>, the 32-bit unsigned arithmetic of the sizes and positions,
  the fault type that stands for a failed \<^verbatim>\<open>assert\<close> or an access outside an array, and the
  bit-level view of a byte array.
\<close>

unbundle bit_operations_syntax

section \<open>Machine types\<close>

type_synonym u8 = "8 word"
type_synonym u16 = "16 word"
type_synonym u32 = "32 word"
type_synonym u64 = "64 word"

text \<open>
  Sizes and positions are \<^verbatim>\<open>unsigned int\<close>. They are kept as natural numbers below
  \<open>2 ^ 32\<close>, and the wrap-around of every addition, subtraction and shift is written out.
\<close>

definition add32 :: "nat \<Rightarrow> nat \<Rightarrow> nat" where
  "add32 a b = (a + b) mod 2 ^ 32"

definition sub32 :: "nat \<Rightarrow> nat \<Rightarrow> nat" where
  "sub32 a b = (a + (2 ^ 32 - b mod 2 ^ 32)) mod 2 ^ 32"

definition shl32 :: "nat \<Rightarrow> nat \<Rightarrow> nat" where
  "shl32 a k = (a * 2 ^ k) mod 2 ^ 32"

definition BITS_TO_BYTES :: "nat \<Rightarrow> nat" where
  "BITS_TO_BYTES x = add32 x 7 div 8"

definition BYTES_TO_BITS :: "nat \<Rightarrow> nat" where
  "BYTES_TO_BITS x = shl32 x 3"

named_theorems u32_arith \<open>32-bit arithmetic that does not wrap\<close>

lemma add32_small [u32_arith]: "a + b < 2 ^ 32 \<Longrightarrow> add32 a b = a + b"
  by (simp add: add32_def)

lemma add32_less [simp]: "add32 a b < 2 ^ 32"
  by (simp add: add32_def)

lemma sub32_small [u32_arith]: "b \<le> a \<Longrightarrow> a < 2 ^ 32 \<Longrightarrow> sub32 a b = a - b"
proof -
  assume ba: "b \<le> a" and a: "a < 2 ^ 32"
  then have "a + (2 ^ 32 - b mod 2 ^ 32) = (a - b) + 2 ^ 32" by simp
  then show ?thesis using a by (simp add: sub32_def)
qed

lemma sub32_wrap: "a < b \<Longrightarrow> b < 2 ^ 32 \<Longrightarrow> sub32 a b = 2 ^ 32 + a - b"
  by (simp add: sub32_def)

lemma sub32_self [simp]: "a < 2 ^ 32 \<Longrightarrow> sub32 a a = 0"
  by (simp add: u32_arith)

lemma sub32_less [simp]: "sub32 a b < 2 ^ 32"
  by (simp add: sub32_def)

lemma shl32_small [u32_arith]: "a * 2 ^ k < 2 ^ 32 \<Longrightarrow> shl32 a k = a * 2 ^ k"
  by (simp add: shl32_def)

lemma BITS_TO_BYTES_small [u32_arith]: "x + 7 < 2 ^ 32 \<Longrightarrow> BITS_TO_BYTES x = (x + 7) div 8"
  by (simp add: BITS_TO_BYTES_def add32_small)

lemma BYTES_TO_BITS_small [u32_arith]: "8 * x < 2 ^ 32 \<Longrightarrow> BYTES_TO_BITS x = 8 * x"
  by (simp add: BYTES_TO_BITS_def shl32_def)

section \<open>Faults\<close>

text \<open>
  \<open>AssertFailed\<close> is an \<^verbatim>\<open>assert\<close> whose condition is false (the sources use the plain C
  \<^verbatim>\<open>assert\<close>, so a build without \<^verbatim>\<open>NDEBUG\<close> stops there); \<open>OutOfBounds\<close> is a read or a write
  outside the array a pointer points into, or through a null or dangling pointer, which the C++
  code does not detect; \<open>OutOfFuel\<close> is a loop that has not ended within the rounds a model gives
  it; \<open>Misaligned\<close> is an access of sixteen bytes that needs an address divisible by 16;
  \<open>NoReturnValue\<close> is the use of the value of a function that ends without a \<^verbatim>\<open>return\<close>, and
  \<open>DivisionByZero\<close> the integer division by zero.
\<close>

datatype fault = AssertFailed | OutOfBounds | OutOfFuel | Misaligned | NoReturnValue | DivisionByZero

type_synonym 'a res = "fault + 'a"

definition rbind :: "'a res \<Rightarrow> ('a \<Rightarrow> 'b res) \<Rightarrow> 'b res" where
  "rbind m f = (case m of Inl e \<Rightarrow> Inl e | Inr x \<Rightarrow> f x)"

lemma rbind_Inl [simp]: "rbind (Inl e) f = Inl e"
  by (simp add: rbind_def)

lemma rbind_Inr [simp]: "rbind (Inr x) f = f x"
  by (simp add: rbind_def)

lemma rbind_Inr_right [simp]: "rbind m Inr = m"
  by (cases m) simp_all

lemma rbind_assoc: "rbind (rbind m f) g = rbind m (\<lambda>x. rbind (f x) g)"
  by (cases m) simp_all

lemma rbind_eq_Inr: "rbind m f = Inr y \<longleftrightarrow> (\<exists>x. m = Inr x \<and> f x = Inr y)"
  by (cases m) auto

lemma rbind_cong [fundef_cong]:
  "m = m' \<Longrightarrow> (\<And>x. m' = Inr x \<Longrightarrow> f x = f' x) \<Longrightarrow> rbind m f = rbind m' f'"
  by (cases m') auto

definition rassert :: "bool \<Rightarrow> unit res" where
  "rassert b = (if b then Inr () else Inl AssertFailed)"

lemma rassert_simps [simp]: "rassert True = Inr ()" "rassert False = Inl AssertFailed"
  by (simp_all add: rassert_def)

lemma rassert_eq_Inr [simp]: "rassert b = Inr u \<longleftrightarrow> b"
  by (simp add: rassert_def)

text \<open>Indexed access to an array held as a list: outside it, a fault.\<close>

definition get_at :: "'a list \<Rightarrow> nat \<Rightarrow> 'a res" where
  "get_at xs i = (if i < length xs then Inr (xs ! i) else Inl OutOfBounds)"

definition put_at :: "'a list \<Rightarrow> nat \<Rightarrow> 'a \<Rightarrow> 'a list res" where
  "put_at xs i x = (if i < length xs then Inr (xs[i := x]) else Inl OutOfBounds)"

lemma get_at_ok [simp]: "i < length xs \<Longrightarrow> get_at xs i = Inr (xs ! i)"
  by (simp add: get_at_def)

lemma put_at_ok [simp]: "i < length xs \<Longrightarrow> put_at xs i x = Inr (xs[i := x])"
  by (simp add: put_at_def)

text \<open>\<^verbatim>\<open>memcpy(dst + i, src, n)\<close>: both ranges have to lie inside their arrays.\<close>

definition copy_into :: "'a list \<Rightarrow> nat \<Rightarrow> 'a list \<Rightarrow> nat \<Rightarrow> 'a list res" where
  "copy_into dst i src n =
     (if n \<le> length src \<and> i + n \<le> length dst
      then Inr (take i dst @ take n src @ drop (i + n) dst) else Inl OutOfBounds)"

lemma copy_into_ok:
  "n \<le> length src \<Longrightarrow> i + n \<le> length dst \<Longrightarrow>
   copy_into dst i src n = Inr (take i dst @ take n src @ drop (i + n) dst)"
  by (simp add: copy_into_def)

section \<open>Bytes as bits\<close>

lemma div8_eq: "8 * q \<le> i \<Longrightarrow> i < 8 * q + 8 \<Longrightarrow> i div 8 = (q :: nat)"
  by (rule div_nat_eqI) simp_all

lemma mod8_eq: "8 * q \<le> i \<Longrightarrow> i < 8 * q + 8 \<Longrightarrow> i mod 8 = i - 8 * (q :: nat)"
  using div8_eq [of q i] by (metis minus_mult_div_eq_mod)

text \<open>
  A byte array read as a string of bits, as the class comment of \<^verbatim>\<open>geco_bit_stream_t\<close> draws
  it: bit \<open>i\<close> is in byte \<open>i div 8\<close>, the most significant bit of a byte first.
\<close>

definition byte_bits :: "u8 \<Rightarrow> bool list" where
  "byte_bits b = map (\<lambda>i. bit b (7 - i)) [0..<8]"

definition bits_of :: "u8 list \<Rightarrow> bool list" where
  "bits_of bs = concat (map byte_bits bs)"

lemma length_byte_bits [simp]: "length (byte_bits b) = 8"
  by (simp add: byte_bits_def)

lemma nth_byte_bits: "i < 8 \<Longrightarrow> byte_bits b ! i = bit b (7 - i)"
  by (simp add: byte_bits_def)

lemma bits_of_Nil [simp]: "bits_of [] = []"
  by (simp add: bits_of_def)

lemma bits_of_Cons [simp]: "bits_of (b # bs) = byte_bits b @ bits_of bs"
  by (simp add: bits_of_def)

lemma bits_of_append [simp]: "bits_of (as @ bs) = bits_of as @ bits_of bs"
  by (simp add: bits_of_def)

lemma length_bits_of [simp]: "length (bits_of bs) = 8 * length bs"
  by (induction bs) auto

lemma nth_bits_of: "i < 8 * length bs \<Longrightarrow> bits_of bs ! i = bit (bs ! (i div 8)) (7 - i mod 8)"
proof (induction bs arbitrary: i)
  case Nil
  then show ?case by simp
next
  case (Cons b bs)
  show ?case
  proof (cases "i < 8")
    case True
    then show ?thesis by (simp add: nth_append nth_byte_bits)
  next
    case False
    then have "i div 8 = Suc ((i - 8) div 8)" and "(i - 8) mod 8 = i mod 8"
      by (simp_all add: div_if mod_if)
    with False Cons show ?thesis by (simp add: nth_append)
  qed
qed

lemma bits_of_take: "bits_of (take n bs) = take (8 * n) (bits_of bs)"
  by (induction bs arbitrary: n) (auto simp: take_Cons split: nat.splits)

lemma bits_of_drop: "bits_of (drop n bs) = drop (8 * n) (bits_of bs)"
  by (induction bs arbitrary: n) (auto simp: drop_Cons split: nat.splits)

lemma byte_bits_inject [simp]: "byte_bits a = byte_bits b \<longleftrightarrow> a = b"
proof
  assume eq: "byte_bits a = byte_bits b"
  show "a = b"
  proof (rule bit_word_eqI)
    fix n assume "n < LENGTH(8)"
    then have n: "7 - n < 8" "7 - (7 - n) = n" by auto
    have "byte_bits a ! (7 - n) = byte_bits b ! (7 - n)" using eq by simp
    then show "bit a n = bit b n" using n by (simp add: nth_byte_bits)
  qed
qed simp

lemma bits_of_inject: "length as = length bs \<Longrightarrow> bits_of as = bits_of bs \<longleftrightarrow> as = bs"
  by (induction as bs rule: list_induct2) auto

section \<open>Swapping the ends of an array\<close>

text \<open>
  The loop that swaps the elements \<open>i\<close> and \<open>n - i - 1\<close> of an array, from \<open>i = 0\<close> up to the
  middle; \<open>k\<close> swaps are left. Several functions of the sources reverse an array that way.
\<close>

fun reverse_loop :: "nat \<Rightarrow> nat \<Rightarrow> 'a list \<Rightarrow> 'a list" where
  "reverse_loop n 0 src = src"
| "reverse_loop n (Suc k) src =
     (let i = n div 2 - Suc k; temp = src ! i
      in reverse_loop n k (src[i := src ! (n - i - 1), n - i - 1 := temp]))"

lemma reverse_loop_nth:
  assumes "k \<le> n div 2" and "n \<le> length src" and "i < length src"
  shows "reverse_loop n k src ! i =
     (if n div 2 - k \<le> i \<and> i < n - (n div 2 - k) \<and> i < n then src ! (n - i - 1) else src ! i)"
  using assms
proof (induction k arbitrary: src)
  case 0
  have "n - i - 1 = i" if "n div 2 \<le> i" "i < n - n div 2" using that by linarith
  then show ?case by auto
next
  case (Suc k)
  define j where "j = n div 2 - Suc k"
  have j: "j < n - j - 1" "n - j - 1 < length src" "n div 2 - k = Suc j" "j < n"
    using Suc.prems by (auto simp: j_def)
  let ?src = "src[j := src ! (n - j - 1), n - j - 1 := src ! j]"
  have "reverse_loop n (Suc k) src ! i = reverse_loop n k ?src ! i" by (simp add: Let_def flip: j_def)
  also have "\<dots> = (if Suc j \<le> i \<and> i < n - Suc j \<and> i < n then ?src ! (n - i - 1) else ?src ! i)"
    using Suc.IH [of ?src] Suc.prems j(3) by simp
  also have "\<dots> = (if j \<le> i \<and> i < n - j \<and> i < n then src ! (n - i - 1) else src ! i)"
  proof -
    consider "i = j" | "i = n - j - 1" "i \<noteq> j" | "Suc j \<le> i" "i < n - Suc j" | "i < j" | "n - j \<le> i"
      using j by linarith
    then show ?thesis
    proof cases
      case 2
      then have "n - i - 1 = j" using j by linarith
      then show ?thesis using 2 j by auto
    next
      case 3
      then have "n - i - 1 \<noteq> j" "n - i - 1 \<noteq> n - j - 1" by linarith+
      then show ?thesis using 3 j by auto
    qed (use j in auto)
  qed
  finally show ?case by (simp flip: j_def)
qed

lemma length_reverse_loop [simp]: "length (reverse_loop n k src) = length src"
  by (induction k arbitrary: src) (auto simp: Let_def)

lemma reverse_loop_rev:
  assumes "n \<le> length src"
  shows "reverse_loop n (n div 2) src = rev (take n src) @ drop n src"
proof (rule nth_equalityI)
  fix i assume "i < length (reverse_loop n (n div 2) src)"
  then have i: "i < length src" by simp
  show "reverse_loop n (n div 2) src ! i = (rev (take n src) @ drop n src) ! i"
    using reverse_loop_nth [OF le_refl assms i] assms i
    by (auto simp: nth_append rev_nth min_def)
qed (use assms in \<open>simp add: min_def\<close>)

section \<open>What holds of the result of an operation\<close>

definition good :: "('a \<Rightarrow> bool) \<Rightarrow> 'a res \<Rightarrow> bool" where
  "good P m \<longleftrightarrow> (\<forall>x. m = Inr x \<longrightarrow> P x)"

lemma good_simps [simp]: "good P (Inr x) \<longleftrightarrow> P x" "good P (Inl f)"
  by (simp_all add: good_def)

lemma good_rbind: "(\<And>x. m = Inr x \<Longrightarrow> good P (f x)) \<Longrightarrow> good P (rbind m f)"
  by (cases m) auto

lemma good_True [simp]: "good (\<lambda>_. True) m"
  by (simp add: good_def)

text \<open>The same rule for automation; its premises make it come after the rules for particular operations.\<close>

lemma good_seq:
  "good (\<lambda>_. True) m \<Longrightarrow> good (\<lambda>_. True) m \<Longrightarrow> (\<And>x. m = Inr x \<Longrightarrow> good P (f x)) \<Longrightarrow> good P (rbind m f)"
  by (rule good_rbind)

lemma good_then: "good Q m \<Longrightarrow> (\<And>x. Q x \<Longrightarrow> good P (f x)) \<Longrightarrow> good P (rbind m f)"
  by (cases m) auto

lemma goodD: "good P m \<Longrightarrow> m = Inr x \<Longrightarrow> P x"
  by (simp add: good_def)

lemma goodI: "(\<And>x. m = Inr x \<Longrightarrow> P x) \<Longrightarrow> good P m"
  by (simp add: good_def)

end
