(* ===== verification/Bit_Buffer.thy ===== *)
theory Bit_Buffer
  imports Geco_Prelude
begin

text \<open>
  The memory half of \<^verbatim>\<open>geco_bit_stream_t\<close>.
\<close>

section \<open>State\<close>

record bstream =
  allocated_bits_size :: nat
  writable_bit_pos :: nat
  readable_bit_pos :: nat
  uchar_data :: "u8 list"
  on_stack :: bool
  can_free :: bool
  is_read_only :: bool
  garbage :: "nat \<Rightarrow> u8"

abbreviation GECO_STREAM_STACK_ALLOC_BYTES :: nat where
  "GECO_STREAM_STACK_ALLOC_BYTES \<equiv> 256"

definition GECO_STREAM_STACK_ALLOC_BITS :: nat where
  "GECO_STREAM_STACK_ALLOC_BITS = BYTES_TO_BITS GECO_STREAM_STACK_ALLOC_BYTES"

definition stream_default :: "(nat \<Rightarrow> u8) \<Rightarrow> bstream" where
  "stream_default g =
     \<lparr>allocated_bits_size = GECO_STREAM_STACK_ALLOC_BITS, writable_bit_pos = 0,
      readable_bit_pos = 0, uchar_data = replicate GECO_STREAM_STACK_ALLOC_BYTES 0,
      on_stack = True, can_free = False, is_read_only = False, garbage = g\<rparr>"

definition stream_sized :: "(nat \<Rightarrow> u8) \<Rightarrow> nat \<Rightarrow> bstream" where
  "stream_sized g initialBytesAllocate =
     (if initialBytesAllocate \<le> GECO_STREAM_STACK_ALLOC_BYTES then stream_default g
      else
     \<lparr>allocated_bits_size = BYTES_TO_BITS initialBytesAllocate, writable_bit_pos = 0,
      readable_bit_pos = 0, uchar_data = replicate initialBytesAllocate 0,
      on_stack = False, can_free = True, is_read_only = False, garbage = g\<rparr>)"

definition stream_from :: "(nat \<Rightarrow> u8) \<Rightarrow> u8 list \<Rightarrow> nat \<Rightarrow> bool \<Rightarrow> bstream res" where
  "stream_from g src len copy =
     (let base = \<lparr>allocated_bits_size = BYTES_TO_BITS len, writable_bit_pos = BYTES_TO_BITS len,
        readable_bit_pos = 0, uchar_data = src, on_stack = False, can_free = False,
        is_read_only = \<not> copy, garbage = g\<rparr>
      in if copy then
           if len > 0 then
             if len \<le> GECO_STREAM_STACK_ALLOC_BYTES then
               rbind (copy_into (replicate GECO_STREAM_STACK_ALLOC_BYTES 0) 0 src len) (\<lambda>d.
                 Inr (base\<lparr>uchar_data := d, on_stack := True,
                           allocated_bits_size := BYTES_TO_BITS GECO_STREAM_STACK_ALLOC_BYTES\<rparr>))
             else
               rbind (copy_into (replicate len 0) 0 src len) (\<lambda>d.
                 Inr (base\<lparr>uchar_data := d, can_free := True\<rparr>))
           else Inr (base\<lparr>uchar_data := []\<rparr>)
         else Inr base)"

section \<open>Growing the buffer\<close>

definition fresh_bytes :: "bstream \<Rightarrow> nat \<Rightarrow> u8 list" where
  "fresh_bytes s n = map (garbage s) [0..<n]"

definition realloc_buffer :: "nat \<Rightarrow> bstream \<Rightarrow> bstream res" where
  "realloc_buffer bytes2Alloc s =
     (if on_stack s then
        if bytes2Alloc > GECO_STREAM_STACK_ALLOC_BYTES then
          rbind (if writable_bit_pos s > 0
                 then copy_into (fresh_bytes s bytes2Alloc) 0 (uchar_data s)
                        (BITS_TO_BYTES (allocated_bits_size s))
                 else Inr (fresh_bytes s bytes2Alloc)) (\<lambda>d.
            Inr (s\<lparr>uchar_data := d, on_stack := False, can_free := True\<rparr>))
        else Inr s
      else Inr (s\<lparr>uchar_data := take bytes2Alloc (uchar_data s) @
                     drop (length (uchar_data s)) (fresh_bytes s bytes2Alloc),
                  can_free := True\<rparr>))"

definition AppendBitsCouldRealloc :: "nat \<Rightarrow> bstream \<Rightarrow> bstream res" where
  "AppendBitsCouldRealloc bits2Append s =
     (let newBitsAllocCount = add32 bits2Append (writable_bit_pos s)
      in rbind (rassert (\<not> is_read_only s)) (\<lambda>_.
         if allocated_bits_size s < newBitsAllocCount then
           let newBitsAllocCount' =
                 (if newBitsAllocCount > 1048576 then add32 newBitsAllocCount 1048576
                  else shl32 newBitsAllocCount 1)
           in rbind (realloc_buffer (BITS_TO_BYTES newBitsAllocCount') s) (\<lambda>s'.
                if newBitsAllocCount' > allocated_bits_size s'
                then Inr (s'\<lparr>allocated_bits_size := newBitsAllocCount'\<rparr>) else Inr s')
         else Inr s))"

section \<open>Invariant\<close>

definition content :: "bstream \<Rightarrow> bool list" where
  "content s = take (writable_bit_pos s) (bits_of (uchar_data s))"

definition payload :: "bstream \<Rightarrow> bool list" where
  "payload s = drop (readable_bit_pos s) (content s)"

definition buffer_ok :: "bstream \<Rightarrow> bool" where
  "buffer_ok s \<longleftrightarrow>
     allocated_bits_size s < 2 ^ 32 \<and>
     allocated_bits_size s \<le> 8 * length (uchar_data s) \<and>
     writable_bit_pos s < 2 ^ 32 \<and>
     writable_bit_pos s \<le> 8 * length (uchar_data s) \<and>
     (on_stack s \<longrightarrow> allocated_bits_size s = 2048 \<and> length (uchar_data s) = 256)"

definition padded :: "nat \<Rightarrow> nat" where
  "padded p = 8 * ((p + 7) div 8)"

definition tail_clean :: "bstream \<Rightarrow> bool" where
  "tail_clean s \<longleftrightarrow>
     (\<forall>i. writable_bit_pos s \<le> i \<longrightarrow> i < padded (writable_bit_pos s) \<longrightarrow>
        \<not> bits_of (uchar_data s) ! i)"

definition max_bits :: nat where
  "max_bits = 2 ^ 32 - 2 ^ 20 - 8"

lemma length_content [simp]: "buffer_ok s \<Longrightarrow> length (content s) = writable_bit_pos s"
  by (simp add: content_def buffer_ok_def)

lemma length_payload [simp]:
  "buffer_ok s \<Longrightarrow> length (payload s) = writable_bit_pos s - readable_bit_pos s"
  by (simp add: payload_def)

lemma stack_bits [simp]: "GECO_STREAM_STACK_ALLOC_BITS = 2048"
  by (simp add: GECO_STREAM_STACK_ALLOC_BITS_def BYTES_TO_BITS_def shl32_def)

lemma padded_0 [simp]: "padded 0 = 0"
  by (simp add: padded_def)

lemma padded_ge: "p \<le> padded p"
  by (simp add: padded_def)

lemma padded_le: "p \<le> 8 * m \<Longrightarrow> padded p \<le> 8 * m"
  by (simp add: padded_def)

lemma stream_default_ok: "buffer_ok (stream_default g)" "tail_clean (stream_default g)"
  "content (stream_default g) = []"
  by (simp_all add: buffer_ok_def tail_clean_def content_def stream_default_def)

lemma length_fresh_bytes [simp]: "length (fresh_bytes s n) = n"
  by (simp add: fresh_bytes_def)

lemma realloc_buffer_ok:
  assumes ok: "buffer_ok s" and big: "writable_bit_pos s \<le> 8 * m" and m: "256 < m \<or> \<not> on_stack s"
  obtains d where "realloc_buffer m s = Inr (s\<lparr>uchar_data := d, on_stack := False, can_free := True\<rparr>)"
    and "length d = m"
    and "take (padded (writable_bit_pos s)) (bits_of d)
         = take (padded (writable_bit_pos s)) (bits_of (uchar_data s))"
proof (cases "on_stack s")
  case True
  let ?w = "writable_bit_pos s"
  have a: "allocated_bits_size s = 2048" "length (uchar_data s) = 256" "?w \<le> 2048"
    using ok True by (auto simp: buffer_ok_def)
  let ?d = "if ?w > 0 then uchar_data s @ drop 256 (fresh_bytes s m) else fresh_bytes s m"
  have "padded ?w \<le> 8 * 256" using a padded_le [of ?w 256] by simp
  then have "take (padded ?w) (bits_of ?d) = take (padded ?w) (bits_of (uchar_data s))"
    using a by auto
  moreover have "realloc_buffer m s = Inr (s\<lparr>uchar_data := ?d, on_stack := False, can_free := True\<rparr>)"
    using True m a
    by (simp add: realloc_buffer_def copy_into_ok BITS_TO_BYTES_small)
  moreover have "length ?d = m" using m True a by auto
  ultimately show thesis using that by blast
next
  case False
  let ?w = "writable_bit_pos s"
  let ?d = "take m (uchar_data s) @ drop (length (uchar_data s)) (fresh_bytes s m)"
  have "?w \<le> 8 * m" "?w \<le> 8 * length (uchar_data s)"
    using ok big by (auto simp: buffer_ok_def)
  then have p: "padded ?w \<le> 8 * m" "padded ?w \<le> 8 * length (uchar_data s)"
    by (auto intro: padded_le)
  then have "take (padded ?w) (bits_of ?d) = take (padded ?w) (bits_of (uchar_data s))"
    by (simp add: bits_of_take min_def)
  moreover have "realloc_buffer m s = Inr (s\<lparr>uchar_data := ?d, on_stack := False, can_free := True\<rparr>)"
    using False by (simp add: realloc_buffer_def)
  moreover have "length ?d = m" by (simp add: min_def)
  ultimately show thesis using that by blast
qed

lemma AppendBits_ok:
  assumes ok: "buffer_ok s" and ro: "\<not> is_read_only s"
    and small: "writable_bit_pos s + n \<le> max_bits"
  obtains s' where "AppendBitsCouldRealloc n s = Inr s'"
    and "buffer_ok s'" and "writable_bit_pos s + n \<le> allocated_bits_size s'"
    and "writable_bit_pos s' = writable_bit_pos s"
    and "readable_bit_pos s' = readable_bit_pos s" and "\<not> is_read_only s'"
    and "garbage s' = garbage s"
    and "take (padded (writable_bit_pos s)) (bits_of (uchar_data s'))
         = take (padded (writable_bit_pos s)) (bits_of (uchar_data s))"
proof -
  let ?w = "writable_bit_pos s"
  have sum: "add32 n ?w = ?w + n"
    using small by (simp add: max_bits_def add32_small)
  show thesis
  proof (cases "allocated_bits_size s < ?w + n")
    case False
    then show thesis using that [of s] ok ro sum by (simp add: AppendBitsCouldRealloc_def Let_def)
  next
    case True
    define m where "m = (if ?w + n > 1048576 then ?w + n + 1048576 else 2 * (?w + n))"
    have m: "(if ?w + n > 1048576 then add32 (?w + n) 1048576 else shl32 (?w + n) 1) = m"
      using small by (simp add: m_def max_bits_def add32_small shl32_small)
    have m_ge: "?w + n + 8 \<le> m \<or> ?w + n < 8" and m_le: "m \<le> ?w + n + 1048576"
      by (auto simp: m_def)
    have m32: "m + 7 < 2 ^ 32" using small m_le by (simp add: max_bits_def)
    have bytes: "BITS_TO_BYTES m = (m + 7) div 8" using m32 by (rule BITS_TO_BYTES_small)
    have ge: "allocated_bits_size s < m" using True by (simp add: m_def)
    have "256 < (m + 7) div 8 \<or> \<not> on_stack s"
    proof (rule disjCI)
      assume "\<not> \<not> on_stack s"
      then have "2048 < ?w + n" using True ok by (auto simp: buffer_ok_def)
      then have "2056 < m" using m_ge by linarith
      then show "256 < (m + 7) div 8" by presburger
    qed
    moreover have "?w \<le> 8 * ((m + 7) div 8)" using m_ge by (simp add: m_def) arith
    ultimately obtain d where
      d: "realloc_buffer ((m + 7) div 8) s = Inr (s\<lparr>uchar_data := d, on_stack := False, can_free := True\<rparr>)"
      and len: "length d = (m + 7) div 8"
      and same: "take (padded ?w) (bits_of d) = take (padded ?w) (bits_of (uchar_data s))"
      using realloc_buffer_ok [OF ok] by metis
    let ?s = "s\<lparr>uchar_data := d, on_stack := False, can_free := True, allocated_bits_size := m\<rparr>"
    have "AppendBitsCouldRealloc n s = Inr ?s"
      using True ro ge by (simp only: AppendBitsCouldRealloc_def Let_def sum m bytes d) simp
    moreover have "buffer_ok ?s"
    proof -
      have "m \<le> 8 * length d" unfolding len by presburger
      moreover have "?w \<le> m" by (simp add: m_def)
      ultimately show ?thesis using m32 ok True ge unfolding buffer_ok_def by auto
    qed
    moreover have "?w + n \<le> m" by (simp add: m_def)
    ultimately show thesis using that [of ?s] ro same by simp
  qed
qed

end
