(* ===== verification/Bit_Write.thy ===== *)
theory Bit_Write
  imports Bit_Buffer
begin

text \<open>
  Writing bits (\<^verbatim>\<open>src/geco-bit-stream.cpp\<close>, \<^verbatim>\<open>include/geco-bit-stream.h\<close>): \<^verbatim>\<open>WriteBits\<close> with its loop over the
  bytes of the input, single bits and bools. The lemmas say that the content grows by just the bits asked for.
\<close>

section \<open>Writing bits\<close>

definition write_byte :: "nat \<Rightarrow> u8 \<Rightarrow> nat \<Rightarrow> bstream \<Rightarrow> bstream res" where
  "write_byte startWritePosBits dataByte bits2Write s =
     (let i = writable_bit_pos s div 8
      in if startWritePosBits = 0 then
           rbind (put_at (uchar_data s) i dataByte) (\<lambda>d. Inr (s\<lparr>uchar_data := d\<rparr>))
         else
           rbind (get_at (uchar_data s) i) (\<lambda>x.
           rbind (put_at (uchar_data s) i (x OR drop_bit startWritePosBits dataByte)) (\<lambda>d.
             if bits2Write > 8 - startWritePosBits then
               rbind (put_at d (i + 1) (push_bit (8 - startWritePosBits) dataByte)) (\<lambda>d'.
                 Inr (s\<lparr>uchar_data := d'\<rparr>))
             else Inr (s\<lparr>uchar_data := d\<rparr>))))"

fun write_loop :: "nat \<Rightarrow> bool \<Rightarrow> u8 list \<Rightarrow> nat \<Rightarrow> bstream \<Rightarrow> bstream res" where
  "write_loop startWritePosBits rightAligned [] bits2Write s =
     (if bits2Write = 0 then Inr s else Inl OutOfBounds)"
| "write_loop startWritePosBits rightAligned (b # src) bits2Write s =
     (if bits2Write = 0 then Inr s
      else
        let dataByte = (if bits2Write < 8 \<and> rightAligned then push_bit (8 - bits2Write) b else b)
        in case write_byte startWritePosBits dataByte bits2Write s of
             Inl e \<Rightarrow> Inl e
           | Inr s' \<Rightarrow>
               if bits2Write \<ge> 8 then
                 write_loop startWritePosBits rightAligned src (bits2Write - 8)
                   (s'\<lparr>writable_bit_pos := add32 (writable_bit_pos s') 8\<rparr>)
               else Inr (s'\<lparr>writable_bit_pos := add32 (writable_bit_pos s') bits2Write\<rparr>))"

definition WriteBits :: "u8 list \<Rightarrow> nat \<Rightarrow> bool \<Rightarrow> bstream \<Rightarrow> bstream res" where
  "WriteBits src bits2Write rightAligned s =
     rbind (rassert (\<not> is_read_only s)) (\<lambda>_.
     rbind (rassert (bits2Write > 0)) (\<lambda>_.
     rbind (AppendBitsCouldRealloc bits2Write s) (\<lambda>s1.
       let startWritePosBits = writable_bit_pos s1 mod 8
       in if startWritePosBits = 0 \<and> bits2Write mod 8 = 0 then
            rbind (copy_into (uchar_data s1) (writable_bit_pos s1 div 8) src (bits2Write div 8)) (\<lambda>d.
              Inr (s1\<lparr>uchar_data := d, writable_bit_pos := add32 (writable_bit_pos s1) bits2Write\<rparr>))
          else write_loop startWritePosBits rightAligned src bits2Write s1)))"

section \<open>What is appended\<close>

fun src_bits :: "bool \<Rightarrow> u8 list \<Rightarrow> nat \<Rightarrow> bool list" where
  "src_bits right [] n = []"
| "src_bits right (b # bs) n =
     (if n \<ge> 8 then byte_bits b @ src_bits right bs (n - 8)
      else take n (byte_bits (if right then push_bit (8 - n) b else b)))"

fun src_clean :: "bool \<Rightarrow> u8 list \<Rightarrow> nat \<Rightarrow> bool" where
  "src_clean right [] n = True"
| "src_clean right (b # bs) n =
     (if n \<ge> 8 then src_clean right bs (n - 8)
      else n = 0 \<or> right \<or> (\<forall>j<8 - n. \<not> bit b j))"

lemma length_src_bits: "n \<le> 8 * length bs \<Longrightarrow> length (src_bits right bs n) = n"
  by (induction right bs n rule: src_bits.induct) auto

lemma src_clean_right [simp]: "src_clean True bs n"
  by (induction True bs n rule: src_clean.induct) auto

lemma src_bits_whole: "n mod 8 = 0 \<Longrightarrow> src_bits right bs n = bits_of (take (n div 8) bs)"
proof (induction right bs n rule: src_bits.induct)
  case (2 right b bs n)
  show ?case
  proof (cases "n \<ge> 8")
    case True
    then have "(n - 8) mod 8 = 0" "n div 8 = Suc ((n - 8) div 8)"
      using 2(2) by (simp_all add: mod_if div_if)
    with True 2 show ?thesis by simp
  qed (use 2 in auto)
qed simp

lemma src_clean_whole: "n mod 8 = 0 \<Longrightarrow> src_clean right bs n"
proof (induction right bs n rule: src_clean.induct)
  case (2 right b bs n)
  then show ?case by (cases "n \<ge> 8") (auto simp: mod_if)
qed simp

section \<open>One byte\<close>

lemma bit_u8_ge: "8 \<le> n \<Longrightarrow> \<not> bit (x :: u8) n"
  using bit_imp_le_length [of x n] by auto

lemma write_byte_bits:
  assumes start: "r = writable_bit_pos s mod 8" and clean: "tail_clean s"
    and k: "k = min 8 bits" "0 < bits" and room: "writable_bit_pos s + k \<le> 8 * length (uchar_data s)"
  obtains d' where "write_byte r d bits s = Inr (s\<lparr>uchar_data := d'\<rparr>)"
    and "length d' = length (uchar_data s)"
    and "\<And>i. i < padded (writable_bit_pos s + k) \<Longrightarrow> bits_of d' ! i =
          (if i < writable_bit_pos s then bits_of (uchar_data s) ! i
           else i - writable_bit_pos s < 8 \<and> bit d (7 - (i - writable_bit_pos s)))"
proof -
  let ?w = "writable_bit_pos s" and ?D = "uchar_data s"
  define q where "q = ?w div 8"
  have w: "?w = 8 * q + r" "r < 8" using start by (simp_all add: q_def)
  have q: "q < length ?D" using room k w by linarith
  have wide: "i < 8 * length ?D" if "i < padded (?w + k)" for i
    using that padded_le [OF room] by simp
  show thesis
  proof (cases "r = 0")
    case True
    let ?d = "?D[q := d]"
    have "write_byte r d bits s = Inr (s\<lparr>uchar_data := ?d\<rparr>)"
      using True q by (simp add: write_byte_def Let_def flip: q_def)
    moreover have "bits_of ?d ! i =
          (if i < ?w then bits_of ?D ! i else i - ?w < 8 \<and> bit d (7 - (i - ?w)))"
      if i: "i < padded (?w + k)" for i
    proof (cases "i < 8 * q")
      case low: True
      then have "i div 8 \<noteq> q" by auto
      with low wide [OF i] w True show ?thesis by (simp add: nth_bits_of)
    next
      case high: False
      have "i < 8 * q + 8" using i True w k padded_le [of "?w + k" "q + 1"] by simp
      then have dv: "i div 8 = q" and md: "i mod 8 = i - 8 * q"
        using high by (simp_all add: div8_eq mod8_eq)
      have "bits_of ?d ! i = bit d (7 - (i - 8 * q))"
        using wide [OF i] q by (simp add: nth_bits_of dv md)
      moreover have "\<not> i < ?w" "i - ?w = i - 8 * q" "i - 8 * q < 8"
        using w True high \<open>i < 8 * q + 8\<close> by linarith+
      ultimately show ?thesis by simp
    qed
    ultimately show thesis using that [of ?d] by simp
  next
    case False
    let ?d1 = "?D[q := ?D ! q OR drop_bit r d]"
    let ?d = "if bits > 8 - r then ?d1[q + 1 := push_bit (8 - r) d] else ?d1"
    have pw: "padded ?w = 8 * q + 8" using w False by (simp add: padded_def) presburger
    have q1: "q + 1 < length ?D" if "bits > 8 - r" using that k room w False by linarith
    have "write_byte r d bits s = Inr (s\<lparr>uchar_data := ?d\<rparr>)"
      using False q q1 by (simp add: write_byte_def Let_def flip: q_def)
    moreover have "bits_of ?d ! i =
          (if i < ?w then bits_of ?D ! i else i - ?w < 8 \<and> bit d (7 - (i - ?w)))"
      if i: "i < padded (?w + k)" for i
    proof -
      define t where "t = i mod 8"
      have len: "i < 8 * length ?d" using wide [OF i] by simp
      consider "i < 8 * q" | "8 * q \<le> i" "i < 8 * q + 8" | "8 * q + 8 \<le> i" by arith
      then show ?thesis
      proof cases
        case 1
        then have "i div 8 \<noteq> q" "i div 8 \<noteq> q + 1" by auto
        with 1 len w wide [OF i] show ?thesis by (simp add: nth_bits_of)
      next
        case 2
        then have dv: "i div 8 = q" and t: "t = i - 8 * q" "t < 8"
          by (simp_all add: t_def div8_eq mod8_eq)
        have "bits_of ?d ! i = bit (?D ! q OR drop_bit r d) (7 - t)"
          using len dv q by (simp add: nth_bits_of t_def)
        also have "\<dots> = (bits_of ?D ! i \<or> bit d (r + (7 - t)))"
          using wide [OF i] dv by (simp add: nth_bits_of bit_simps t_def)
        finally have eq: "bits_of ?d ! i = (bits_of ?D ! i \<or> bit d (r + (7 - t)))" .
        show ?thesis
        proof (cases "i < ?w")
          case True
          then have "8 \<le> r + (7 - t)" using t w 2 by arith
          then show ?thesis using eq True by (simp add: bit_u8_ge)
        next
          case False
          then have "\<not> bits_of ?D ! i" using clean 2 pw by (simp add: tail_clean_def)
          moreover have "r + (7 - t) = 7 - (i - ?w)" "i - ?w < 8" using False t w 2 by arith+
          ultimately show ?thesis using eq False by simp
        qed
      next
        case 3
        have big: "8 - r < k"
        proof (rule ccontr)
          assume "\<not> 8 - r < k"
          then have "padded (?w + k) \<le> 8 * (q + 1)" using w by (intro padded_le) arith
          then show False using i 3 by arith
        qed
        have "padded (?w + k) \<le> 8 * (q + 2)" using w k by (intro padded_le) arith
        then have i16: "i < 8 * q + 16" using i by arith
        have bits: "8 - r < bits" using big k by arith
        have dv: "i div 8 = q + 1" and t: "t = i - 8 * q - 8" "t < 8"
          using 3 i16 div8_eq [of "q + 1" i] mod8_eq [of "q + 1" i] by (simp_all add: t_def)
        have "bits_of ?d ! i = bit (push_bit (8 - r) d) (7 - t)"
          using len bits dv q1 by (simp add: nth_bits_of t_def)
        also have "\<dots> = (8 - r \<le> 7 - t \<and> bit d (7 - t - (8 - r)))"
          by (auto simp: bit_simps)
        also have "\<dots> = (i - ?w < 8 \<and> bit d (7 - (i - ?w)))"
        proof -
          have "(8 - r \<le> 7 - t) = (i - ?w < 8)" using t w 3 False by arith
          moreover have "7 - t - (8 - r) = 7 - (i - ?w)" if "i - ?w < 8"
            using that t w 3 False by arith
          ultimately show ?thesis by auto
        qed
        finally show ?thesis using 3 w by simp
      qed
    qed
    ultimately show thesis using that [of ?d] by simp
  qed
qed


section \<open>The loop\<close>

lemma tail_cleanI:
  assumes "\<And>i. writable_bit_pos s \<le> i \<Longrightarrow> i < padded (writable_bit_pos s) \<Longrightarrow>
             \<not> bits_of (uchar_data s) ! i"
  shows "tail_clean s"
  using assms by (simp add: tail_clean_def)

lemma write_byte_step:
  assumes start: "r = writable_bit_pos s mod 8" and clean: "tail_clean s"
    and k: "k = min 8 bits" "0 < bits" and room: "writable_bit_pos s + k \<le> 8 * length (uchar_data s)"
  obtains d' where "write_byte r d bits s = Inr (s\<lparr>uchar_data := d'\<rparr>)"
    and "length d' = length (uchar_data s)"
    and "take (writable_bit_pos s + k) (bits_of d') = content s @ take k (byte_bits d)"
    and "(\<forall>j<8 - k. \<not> bit d j) \<Longrightarrow>
           tail_clean (s\<lparr>uchar_data := d', writable_bit_pos := writable_bit_pos s + k\<rparr>)"
proof -
  let ?w = "writable_bit_pos s"
  obtain d' where d': "write_byte r d bits s = Inr (s\<lparr>uchar_data := d'\<rparr>)"
    and len: "length d' = length (uchar_data s)"
    and nth: "\<And>i. i < padded (?w + k) \<Longrightarrow> bits_of d' ! i =
          (if i < ?w then bits_of (uchar_data s) ! i
           else i - ?w < 8 \<and> bit d (7 - (i - ?w)))"
    using write_byte_bits [OF assms] by blast
  have "take (?w + k) (bits_of d') = content s @ take k (byte_bits d)"
  proof (rule nth_equalityI)
    show "length (take (?w + k) (bits_of d')) = length (content s @ take k (byte_bits d))"
      using room len k by (simp add: content_def)
  next
    fix i assume "i < length (take (?w + k) (bits_of d'))"
    then have i: "i < ?w + k" and "i < padded (?w + k)" using padded_ge [of "?w + k"] by auto
    show "take (?w + k) (bits_of d') ! i = (content s @ take k (byte_bits d)) ! i"
    proof (cases "i < ?w")
      case True
      then show ?thesis using nth [OF \<open>i < padded (?w + k)\<close>] room i
        by (simp add: nth_append content_def)
    next
      case False
      have "k \<le> 8" using k by simp
      then have "i - ?w < k" "i - ?w < 8" using i False by linarith+
      moreover have "length (content s) = ?w" using room by (simp add: content_def)
      ultimately show ?thesis using nth [OF \<open>i < padded (?w + k)\<close>] i False
        by (simp add: nth_append nth_byte_bits)
    qed
  qed
  moreover have "tail_clean (s\<lparr>uchar_data := d', writable_bit_pos := ?w + k\<rparr>)"
    if low: "\<forall>j<8 - k. \<not> bit d j"
  proof (rule tail_cleanI, simp)
    fix i assume i: "?w + k \<le> i" "i < padded (?w + k)"
    have "\<not> bit d (7 - (i - ?w))" if "i - ?w < 8"
    proof -
      have "7 - (i - ?w) < 8 - k" using i that by linarith
      with low show ?thesis by blast
    qed
    then show "\<not> bits_of d' ! i" using nth [OF i(2)] i(1) by auto
  qed
  ultimately show thesis using that d' len by blast
qed

lemma write_loop_ok:
  assumes "r = writable_bit_pos s mod 8" and "tail_clean s"
    and "bits \<le> 8 * length src" and "writable_bit_pos s + bits \<le> 8 * length (uchar_data s)"
    and "writable_bit_pos s + bits < 2 ^ 32"
  shows "\<exists>d. write_loop r right src bits s
              = Inr (s\<lparr>uchar_data := d, writable_bit_pos := writable_bit_pos s + bits\<rparr>)
           \<and> length d = length (uchar_data s)
           \<and> take (writable_bit_pos s + bits) (bits_of d) = content s @ src_bits right src bits
           \<and> (src_clean right src bits \<longrightarrow>
                tail_clean (s\<lparr>uchar_data := d, writable_bit_pos := writable_bit_pos s + bits\<rparr>))"
  using assms
proof (induction src arbitrary: bits s)
  case Nil
  then show ?case by (intro exI [of _ "uchar_data s"]) (simp add: content_def)
next
  case (Cons b src)
  let ?w = "writable_bit_pos s"
  show ?case
  proof (cases "bits = 0")
    case True
    then show ?thesis using Cons.prems
      by (intro exI [of _ "uchar_data s"]) (simp add: content_def)
  next
    case False
    define k where "k = min 8 bits"
    define d where "d = (if bits < 8 \<and> right then push_bit (8 - bits) b else b)"
    have k: "k = min 8 bits" "0 < bits" "?w + k \<le> 8 * length (uchar_data s)"
      using False Cons.prems(4) by (auto simp: k_def)
    obtain d' where d': "write_byte r d bits s = Inr (s\<lparr>uchar_data := d'\<rparr>)"
      and len: "length d' = length (uchar_data s)"
      and tk: "take (?w + k) (bits_of d') = content s @ take k (byte_bits d)"
      and cl: "(\<forall>j<8 - k. \<not> bit d j) \<Longrightarrow>
                 tail_clean (s\<lparr>uchar_data := d', writable_bit_pos := ?w + k\<rparr>)"
      using write_byte_step [OF Cons.prems(1,2) k] by blast
    let ?s = "s\<lparr>uchar_data := d', writable_bit_pos := ?w + k\<rparr>"
    show ?thesis
    proof (cases "bits \<ge> 8")
      case True
      then have k8: "k = 8" by (simp add: k_def)
      have d: "d = b" using True by (simp add: d_def)
      have step: "write_loop r right (b # src) bits s = write_loop r right src (bits - 8) ?s"
        using True d' k8 Cons.prems(5) by (simp add: d add32_small)
      have "content ?s = content s @ byte_bits b" using tk by (simp add: content_def k8 d)
      moreover have "\<exists>e. write_loop r right src (bits - 8) ?s
              = Inr (?s\<lparr>uchar_data := e, writable_bit_pos := writable_bit_pos ?s + (bits - 8)\<rparr>)
           \<and> length e = length (uchar_data ?s)
           \<and> take (writable_bit_pos ?s + (bits - 8)) (bits_of e) = content ?s @ src_bits right src (bits - 8)
           \<and> (src_clean right src (bits - 8) \<longrightarrow>
                tail_clean (?s\<lparr>uchar_data := e, writable_bit_pos := writable_bit_pos ?s + (bits - 8)\<rparr>))"
      proof (rule Cons.IH)
        show "tail_clean ?s" using cl k8 by simp
      qed (use Cons.prems True k8 len in auto)
      moreover have "?w + 8 + (bits - 8) = ?w + bits" using True by simp
      ultimately show ?thesis using True step len k8 by (auto simp del: write_loop.simps)
    next
      case small: False
      then have kb: "k = bits" by (simp add: k_def)
      have "write_loop r right (b # src) bits s = Inr ?s"
        using small False d' kb Cons.prems(5) by (cases right) (simp_all add: d_def add32_small)
      moreover have "src_clean right (b # src) bits \<Longrightarrow> \<forall>j<8 - k. \<not> bit d j"
        using small False by (auto simp: d_def kb bit_simps)
      ultimately show ?thesis using tk cl len small
        by (intro exI [of _ d']) (simp add: kb d_def)
    qed
  qed
qed

section \<open>WriteBits\<close>

definition stream_ok :: "bstream \<Rightarrow> bool" where
  "stream_ok s \<longleftrightarrow> buffer_ok s \<and> tail_clean s"

lemma WriteBits_content:
  assumes ok: "stream_ok s" and ro: "\<not> is_read_only s" and n: "0 < n" "n \<le> 8 * length src"
    and small: "writable_bit_pos s + n \<le> max_bits"
  obtains s' where "WriteBits src n right s = Inr s'" and "buffer_ok s'"
    and "src_clean right src n \<Longrightarrow> tail_clean s'"
    and "\<not> is_read_only s'" and "content s' = content s @ src_bits right src n"
    and "readable_bit_pos s' = readable_bit_pos s" and "garbage s' = garbage s"
    and "writable_bit_pos s' = writable_bit_pos s + n"
proof -
  let ?w = "writable_bit_pos s"
  have bo: "buffer_ok s" and tc: "tail_clean s" using ok by (simp_all add: stream_ok_def)
  obtain s1 where s1: "AppendBitsCouldRealloc n s = Inr s1"
    and bo1: "buffer_ok s1" and room: "?w + n \<le> allocated_bits_size s1"
    and w1: "writable_bit_pos s1 = ?w" and r1: "readable_bit_pos s1 = readable_bit_pos s"
    and ro1: "\<not> is_read_only s1" and g1: "garbage s1 = garbage s"
    and same: "take (padded ?w) (bits_of (uchar_data s1)) = take (padded ?w) (bits_of (uchar_data s))"
    using AppendBits_ok [OF bo ro small] by blast
  have c1: "content s1 = content s"
  proof -
    have "content s1 = take ?w (take (padded ?w) (bits_of (uchar_data s1)))"
      using w1 padded_ge [of ?w] by (simp add: content_def min_def)
    also have "\<dots> = content s"
      using same padded_ge [of ?w] by (simp add: content_def min_def)
    finally show ?thesis .
  qed
  have tc1: "tail_clean s1"
  proof (rule tail_cleanI)
    fix i assume i: "writable_bit_pos s1 \<le> i" "i < padded (writable_bit_pos s1)"
    have "bits_of (uchar_data s1) ! i = take (padded ?w) (bits_of (uchar_data s1)) ! i"
      using i w1 by simp
    also have "\<dots> = bits_of (uchar_data s) ! i" using i w1 same by simp
    finally show "\<not> bits_of (uchar_data s1) ! i" using tc i w1 by (simp add: tail_clean_def)
  qed
  have room8: "?w + n \<le> 8 * length (uchar_data s1)" and w32: "?w + n < 2 ^ 32"
    using room bo1 small by (auto simp: buffer_ok_def max_bits_def)
  let ?body = "if ?w mod 8 = 0 \<and> n mod 8 = 0 then
            rbind (copy_into (uchar_data s1) (?w div 8) src (n div 8)) (\<lambda>d.
              Inr (s1\<lparr>uchar_data := d, writable_bit_pos := add32 ?w n\<rparr>))
          else write_loop (?w mod 8) right src n s1"
  have body: "WriteBits src n right s = ?body"
    using ro n s1 w1 by (simp add: WriteBits_def Let_def)
  have "\<exists>d. ?body = Inr (s1\<lparr>uchar_data := d, writable_bit_pos := ?w + n\<rparr>)
           \<and> length d = length (uchar_data s1)
           \<and> take (?w + n) (bits_of d) = content s1 @ src_bits right src n
           \<and> (src_clean right src n \<longrightarrow> tail_clean (s1\<lparr>uchar_data := d, writable_bit_pos := ?w + n\<rparr>))"
  proof (cases "?w mod 8 = 0 \<and> n mod 8 = 0")
    case True
    then obtain q m where q: "?w = 8 * q" "n = 8 * m" by (auto simp: mod_eq_0_iff_dvd elim!: dvdE)
    let ?d = "take q (uchar_data s1) @ take m src @ drop (q + m) (uchar_data s1)"
    have len: "length ?d = length (uchar_data s1)" using room8 q n by simp
    have "take (?w + n) (bits_of ?d) = content s1 @ src_bits right src n"
      using room8 q n w1 by (simp add: content_def src_bits_whole bits_of_take bits_of_drop min_def)
    moreover have "tail_clean (s1\<lparr>uchar_data := ?d, writable_bit_pos := ?w + n\<rparr>)"
    proof (rule tail_cleanI)
      fix i assume "writable_bit_pos (s1\<lparr>uchar_data := ?d, writable_bit_pos := ?w + n\<rparr>) \<le> i"
        and "i < padded (writable_bit_pos (s1\<lparr>uchar_data := ?d, writable_bit_pos := ?w + n\<rparr>))"
      moreover have "padded (?w + n) = ?w + n" unfolding q padded_def by presburger
      ultimately show "\<not> bits_of (uchar_data (s1\<lparr>uchar_data := ?d, writable_bit_pos := ?w + n\<rparr>)) ! i"
        by simp
    qed
    moreover have "?body = Inr (s1\<lparr>uchar_data := ?d, writable_bit_pos := ?w + n\<rparr>)"
      using q room8 n w32 by (simp add: copy_into_ok add32_small)
    ultimately show ?thesis using len by blast
  next
    case False
    then show ?thesis
      using write_loop_ok [of "?w mod 8" s1 n src right] w1 tc1 n room8 w32 by auto
  qed
  then obtain d where d: "?body = Inr (s1\<lparr>uchar_data := d, writable_bit_pos := ?w + n\<rparr>)"
    and len: "length d = length (uchar_data s1)"
    and tk: "take (?w + n) (bits_of d) = content s1 @ src_bits right src n"
    and tcd: "src_clean right src n \<longrightarrow> tail_clean (s1\<lparr>uchar_data := d, writable_bit_pos := ?w + n\<rparr>)"
    by blast
  let ?s = "s1\<lparr>uchar_data := d, writable_bit_pos := ?w + n\<rparr>"
  have "buffer_ok ?s" using bo1 room8 w32 len by (simp add: buffer_ok_def)
  moreover have "content ?s = content s @ src_bits right src n"
    using tk c1 by (simp add: content_def)
  ultimately show thesis using that [of ?s] body d ro1 r1 g1 tcd by simp
qed

lemma WriteBits_spec:
  assumes ok: "stream_ok s" and ro: "\<not> is_read_only s" and n: "0 < n" "n \<le> 8 * length src"
    and small: "writable_bit_pos s + n \<le> max_bits" and cl: "src_clean right src n"
  obtains s' where "WriteBits src n right s = Inr s'" and "stream_ok s'"
    and "\<not> is_read_only s'" and "content s' = content s @ src_bits right src n"
    and "readable_bit_pos s' = readable_bit_pos s" and "garbage s' = garbage s"
    and "writable_bit_pos s' = writable_bit_pos s + n"
  using WriteBits_content [OF ok ro n small, where right = right] cl that unfolding stream_ok_def by metis

end
