(* ===== verification/Bit_Read.thy ===== *)
theory Bit_Read
  imports Bit_Write
begin

text \<open>
  Reading bits out of a \<^verbatim>\<open>geco_bit_stream_t\<close>: \<^verbatim>\<open>ReadBits\<close> of
  \<^verbatim>\<open>src/geco-bit-stream.cpp\<close>. The caller's \<^verbatim>\<open>dest\<close> array is the list of the bytes the
  function stores from \<^verbatim>\<open>dest[0]\<close> on. \<open>ReadBits_spec\<close> shows that the bits of that list are the
  next bits of the payload, and \<open>WriteBits_ReadBits\<close> that reading undoes writing.
\<close>

section \<open>ReadBits\<close>

definition get_payloads :: "bstream \<Rightarrow> nat" where
  "get_payloads s = sub32 (writable_bit_pos s) (readable_bit_pos s)"

text \<open>\<^verbatim>\<open>memcpy(dest, uchar_data_ + i, n)\<close> out of the buffer.\<close>

definition get_range :: "u8 list \<Rightarrow> nat \<Rightarrow> nat \<Rightarrow> u8 list res" where
  "get_range xs i n = (if i + n \<le> length xs then Inr (take n (drop i xs)) else Inl OutOfBounds)"

definition read_byte :: "nat \<Rightarrow> nat \<Rightarrow> bstream \<Rightarrow> u8 res" where
  "read_byte startReadPosBits bits2Read s =
     (let readPosByte = readable_bit_pos s div 8
      in rbind (get_at (uchar_data s) readPosByte) (\<lambda>x.
         if startReadPosBits > 0 \<and> bits2Read > 8 - startReadPosBits then
           rbind (get_at (uchar_data s) (readPosByte + 1)) (\<lambda>y.
             Inr (push_bit startReadPosBits x OR drop_bit (8 - startReadPosBits) y))
         else Inr (push_bit startReadPosBits x)))"

function read_loop :: "nat \<Rightarrow> bool \<Rightarrow> nat \<Rightarrow> bstream \<Rightarrow> (u8 list \<times> bstream) res" where
  "read_loop startReadPosBits alignRight bits2Read s =
     (if bits2Read = 0 then Inr ([], s)
      else case read_byte startReadPosBits bits2Read s of
        Inl e \<Rightarrow> Inl e
      | Inr b \<Rightarrow>
          if bits2Read \<ge> 8 then
            rbind (read_loop startReadPosBits alignRight (bits2Read - 8)
                     (s\<lparr>readable_bit_pos := add32 (readable_bit_pos s) 8\<rparr>)) (\<lambda>(rest, s').
              Inr (b # rest, s'))
          else Inr ([if alignRight then drop_bit (8 - bits2Read) b else b],
                    s\<lparr>readable_bit_pos := add32 (readable_bit_pos s) bits2Read\<rparr>))"
  by pat_completeness auto
termination
  by (relation "measure (\<lambda>(_, _, n, _). n)") auto

declare read_loop.simps [simp del]

definition ReadBits :: "nat \<Rightarrow> bool \<Rightarrow> bstream \<Rightarrow> (u8 list \<times> bstream) res" where
  "ReadBits bits2Read alignRight s =
     rbind (rassert (bits2Read > 0)) (\<lambda>_.
     rbind (rassert (get_payloads s \<ge> bits2Read)) (\<lambda>_.
       let startReadPosBits = readable_bit_pos s mod 8;
           readPosByte = readable_bit_pos s div 8;
           s' = s\<lparr>readable_bit_pos := add32 (readable_bit_pos s) bits2Read\<rparr>
       in if startReadPosBits = 0 \<and> bits2Read mod 8 = 0 then
            rbind (get_range (uchar_data s) readPosByte (bits2Read div 8)) (\<lambda>dest. Inr (dest, s'))
          else if startReadPosBits = 0 then
            rbind (get_range (uchar_data s) readPosByte (BITS_TO_BYTES bits2Read)) (\<lambda>dest.
              let offset = bits2Read mod 8; l = BITS_TO_BYTES bits2Read - 1
              in if offset > 0 \<and> alignRight
                 then Inr (dest[l := drop_bit (8 - offset) (dest ! l)], s')
                 else Inr (dest, s'))
          else read_loop startReadPosBits alignRight bits2Read s))"

section \<open>Right-aligned byte lists\<close>

text \<open>
  \<open>canonical bs n\<close>: \<open>bs\<close> is the right-aligned form of a string of \<open>n\<close> bits, that is, it has
  just the bytes that \<open>n\<close> bits need and the unused high bits of the last one are zero.
\<close>

fun canonical :: "u8 list \<Rightarrow> nat \<Rightarrow> bool" where
  "canonical [] n = (n = 0)"
| "canonical (b # bs) n =
     (if n \<ge> 8 then canonical bs (n - 8)
      else n > 0 \<and> bs = [] \<and> (\<forall>j<8. n \<le> j \<longrightarrow> \<not> bit b j))"

lemma canonical_length: "canonical bs n \<Longrightarrow> length bs = (n + 7) div 8"
proof (induction bs n rule: canonical.induct)
  case (2 b bs n)
  show ?case
  proof (cases "n \<ge> 8")
    case True
    then have "(n + 7) div 8 = Suc ((n - 8 + 7) div 8)" by (simp add: div_if)
    with True 2 show ?thesis by simp
  next
    case False
    then have "(n + 7) div 8 = 1" using 2(2) by (intro div_nat_eqI) auto
    with False 2 show ?thesis by simp
  qed
qed simp

lemma canonical_whole: "canonical bs (8 * length bs)"
  by (induction bs) auto

lemma push_drop_bits:
  "n \<le> 8 \<Longrightarrow> take n (byte_bits (push_bit (8 - n) (drop_bit (8 - n) b))) = take n (byte_bits b)"
  by (rule nth_equalityI) (auto simp: nth_byte_bits bit_simps)

lemma byte_eq_lowI:
  fixes a b :: u8
  assumes n: "n < 8" and a: "\<forall>j<8. n \<le> j \<longrightarrow> \<not> bit a j" and b: "\<forall>j<8. n \<le> j \<longrightarrow> \<not> bit b j"
    and eq: "take n (byte_bits (push_bit (8 - n) a)) = take n (byte_bits (push_bit (8 - n) b))"
  shows "a = b"
proof (rule bit_word_eqI)
  fix j assume j: "j < LENGTH(8)"
  show "bit a j = bit b j"
  proof (cases "j < n")
    case True
    then have i: "n - 1 - j < n" "n - 1 - j < 8" "7 - (n - 1 - j) = 8 - n + j" "8 - n + j < 8"
      using n by auto
    have "take n (byte_bits (push_bit (8 - n) a)) ! (n - 1 - j)
        = take n (byte_bits (push_bit (8 - n) b)) ! (n - 1 - j)"
      by (rule arg_cong [OF eq])
    then have "byte_bits (push_bit (8 - n) a) ! (n - 1 - j) = byte_bits (push_bit (8 - n) b) ! (n - 1 - j)"
      unfolding nth_take [OF i(1)] .
    then have "bit (push_bit (8 - n) a) (8 - n + j) = bit (push_bit (8 - n) b) (8 - n + j)"
      unfolding nth_byte_bits [OF i(2)] i(3) .
    then show ?thesis using i(4) by (simp add: bit_push_bit_iff)
  next
    case False
    then show ?thesis using a b j by auto
  qed
qed

lemma canonical_unique:
  "canonical as n \<Longrightarrow> canonical bs n \<Longrightarrow> src_bits True as n = src_bits True bs n \<Longrightarrow> as = bs"
proof (induction as n arbitrary: bs rule: canonical.induct)
  case (1 n)
  then show ?case by (cases bs) (auto split: if_splits)
next
  case (2 a as n)
  then obtain b bs' where bs: "bs = b # bs'" by (cases bs) (auto split: if_splits)
  show ?case
  proof (cases "n \<ge> 8")
    case True
    with 2 bs show ?thesis by auto
  next
    case False
    have a: "as = []" "\<forall>j<8. n \<le> j \<longrightarrow> \<not> bit a j" using "2.prems"(1) False by simp_all
    have b: "bs' = []" "\<forall>j<8. n \<le> j \<longrightarrow> \<not> bit b j" using "2.prems"(2) bs False by simp_all
    have "take n (byte_bits (push_bit (8 - n) a)) = take n (byte_bits (push_bit (8 - n) b))"
      using "2.prems"(3) bs a(1) b(1) False by simp
    then have "a = b" using False a(2) b(2) by (intro byte_eq_lowI [of n]) simp_all
    with a(1) b(1) bs show ?thesis by simp
  qed
qed

lemma src_bits_shift_last:
  assumes "length bs = Suc m" and "n = 8 * m + k" and "0 < k" "k < 8"
  shows "src_bits right (bs[m := if right then drop_bit (8 - k) (bs ! m) else bs ! m]) n
           = take n (bits_of bs)
      \<and> (right \<longrightarrow> canonical (bs[m := if right then drop_bit (8 - k) (bs ! m) else bs ! m]) n)"
  using assms
proof (induction m arbitrary: bs n)
  case 0
  then obtain b where "bs = [b]" by (cases bs) auto
  moreover have "\<not> bit b (8 - k + j)" if "k \<le> j" for j using that by (simp add: bit_u8_ge)
  ultimately show ?case using 0 push_drop_bits [of k b] by (simp add: bit_simps)
next
  case (Suc m)
  then obtain b bs' where bs: "bs = b # bs'" "length bs' = Suc m" by (cases bs) auto
  have "n \<ge> 8" "n - 8 = 8 * m + k" using Suc.prems by auto
  with Suc.IH [OF bs(2) this(2)] Suc.prems bs show ?case by auto
qed

section \<open>One byte\<close>

lemma read_byte_ok:
  assumes r: "r = readable_bit_pos s mod 8" and k: "k = min 8 bits" "0 < bits"
    and room: "readable_bit_pos s + k \<le> 8 * length (uchar_data s)"
  obtains b where "read_byte r bits s = Inr b"
    and "take k (byte_bits b) = take k (drop (readable_bit_pos s) (bits_of (uchar_data s)))"
proof -
  let ?D = "uchar_data s" and ?p = "readable_bit_pos s"
  define q where "q = ?p div 8"
  have p: "?p = 8 * q + r" "r < 8" using r by (simp_all add: q_def)
  have q: "q < length ?D" using room k p by arith
  define two where "two \<longleftrightarrow> r > 0 \<and> bits > 8 - r"
  have q1: "q + 1 < length ?D" if two using that room k p by (simp add: two_def) arith
  let ?b = "if two then push_bit r (?D ! q) OR drop_bit (8 - r) (?D ! (q + 1)) else push_bit r (?D ! q)"
  have "read_byte r bits s = Inr ?b"
    using q q1 by (simp add: read_byte_def Let_def flip: q_def two_def)
  moreover have "take k (byte_bits ?b) = take k (drop ?p (bits_of ?D))"
  proof (rule nth_equalityI)
    show "length (take k (byte_bits ?b)) = length (take k (drop ?p (bits_of ?D)))"
      using room k by simp
  next
    fix i assume "i < length (take k (byte_bits ?b))"
    then have i: "i < k" "i < 8" by auto
    have len: "?p + i < 8 * length ?D" using room i by simp
    have "bit ?b (7 - i) = bits_of ?D ! (?p + i)"
    proof (cases "r + i < 8")
      case True
      have dv: "(?p + i) div 8 = q" and md: "(?p + i) mod 8 = r + i"
        using True p div8_eq [of q "?p + i"] mod8_eq [of q "?p + i"] by auto
      have "\<not> bit (drop_bit (8 - r) (?D ! (q + 1))) (7 - i)"
        using True by (simp add: bit_simps bit_u8_ge)
      then have "bit ?b (7 - i) = bit (push_bit r (?D ! q)) (7 - i)" by (simp add: bit_simps)
      also have "\<dots> = bit (?D ! q) (7 - (r + i))"
      proof -
        have "r \<le> 7 - i" "7 - i - r = 7 - (r + i)" "7 - i < (8::nat)" using True by arith+
        then show ?thesis by (simp add: bit_simps)
      qed
      finally show ?thesis using len by (simp add: nth_bits_of dv md)
    next
      case False
      have dv: "(?p + i) div 8 = q + 1" and md: "(?p + i) mod 8 = r + i - 8"
        using False i p div8_eq [of "q + 1" "?p + i"] mod8_eq [of "q + 1" "?p + i"] by auto
      have t: two unfolding two_def using False i p k by arith
      have "7 - i < r" using False p i by arith
      then have "bit ?b (7 - i) = bit (?D ! (q + 1)) (8 - r + (7 - i))"
        using t by (simp add: bit_simps)
      also have "8 - r + (7 - i) = 7 - (r + i - 8)" using False i p by arith
      finally show ?thesis using len by (simp add: nth_bits_of dv md)
    qed
    then show "take k (byte_bits ?b) ! i = take k (drop ?p (bits_of ?D)) ! i"
      using i len by (simp add: nth_byte_bits)
  qed
  ultimately show thesis using that by blast
qed

section \<open>The loop\<close>

lemma read_loop_ok:
  assumes "r = readable_bit_pos s mod 8"
    and "readable_bit_pos s + bits \<le> 8 * length (uchar_data s)"
    and "readable_bit_pos s + bits < 2 ^ 32"
  shows "\<exists>out. read_loop r right bits s = Inr (out, s\<lparr>readable_bit_pos := readable_bit_pos s + bits\<rparr>)
           \<and> src_bits right out bits = take bits (drop (readable_bit_pos s) (bits_of (uchar_data s)))
           \<and> (right \<longrightarrow> canonical out bits) \<and> length out = (bits + 7) div 8"
  using assms
proof (induction r right bits s rule: read_loop.induct)
  case (1 r right bits s)
  let ?p = "readable_bit_pos s" and ?B = "bits_of (uchar_data s)"
  show ?case
  proof (cases "bits = 0")
    case True
    then show ?thesis by (simp add: read_loop.simps)
  next
    case False
    define k where "k = min 8 bits"
    have k: "k = min 8 bits" "0 < bits" "?p + k \<le> 8 * length (uchar_data s)"
      using False 1(3) by (auto simp: k_def)
    obtain b where b: "read_byte r bits s = Inr b" and tk: "take k (byte_bits b) = take k (drop ?p ?B)"
      using read_byte_ok [OF 1(2) k] by blast
    show ?thesis
    proof (cases "bits \<ge> 8")
      case True
      let ?s = "s\<lparr>readable_bit_pos := ?p + 8\<rparr>"
      have a: "add32 ?p 8 = ?p + 8" using True 1(4) by (simp add: add32_small)
      have "\<exists>out. read_loop r right (bits - 8) ?s = Inr (out, ?s\<lparr>readable_bit_pos := readable_bit_pos ?s + (bits - 8)\<rparr>)
           \<and> src_bits right out (bits - 8) = take (bits - 8) (drop (readable_bit_pos ?s) (bits_of (uchar_data ?s)))
           \<and> (right \<longrightarrow> canonical out (bits - 8)) \<and> length out = (bits - 8 + 7) div 8"
        unfolding a [symmetric]
        by (rule "1.IH" [OF False b True]) (use True 1(2-4) a in auto)
      then obtain out where out: "read_loop r right (bits - 8) ?s = Inr (out, s\<lparr>readable_bit_pos := ?p + bits\<rparr>)"
        and ob: "src_bits right out (bits - 8) = take (bits - 8) (drop (?p + 8) ?B)"
        and oc: "right \<longrightarrow> canonical out (bits - 8)" and ol: "length out = (bits - 8 + 7) div 8"
        using True by auto
      have "read_loop r right bits s = Inr (b # out, s\<lparr>readable_bit_pos := ?p + bits\<rparr>)"
        by (subst read_loop.simps) (use False True b out a in simp)
      moreover have "src_bits right (b # out) bits = take bits (drop ?p ?B)"
      proof -
        have "src_bits right (b # out) bits = take 8 (drop ?p ?B) @ take (bits - 8) (drop 8 (drop ?p ?B))"
          using True tk ob by (simp add: k_def add.commute)
        also have "\<dots> = take bits (drop ?p ?B)"
          using take_add [of 8 "bits - 8" "drop ?p ?B"] True by simp
        finally show ?thesis .
      qed
      moreover have "length (b # out) = (bits + 7) div 8" using ol True by (simp add: div_if)
      ultimately show ?thesis using oc True by auto
    next
      case small: False
      then have kb: "k = bits" by (simp add: k_def)
      let ?o = "if right then drop_bit (8 - bits) b else b"
      have "read_loop r right bits s = Inr ([?o], s\<lparr>readable_bit_pos := ?p + bits\<rparr>)"
        by (subst read_loop.simps) (use False small b 1(4) in \<open>simp add: add32_small\<close>)
      moreover have "src_bits right [?o] bits = take bits (drop ?p ?B)"
        using small tk kb push_drop_bits [of bits b] by simp
      moreover have "right \<longrightarrow> canonical [?o] bits"
        using small False by (auto simp: bit_simps bit_u8_ge)
      moreover have "(bits + 7) div 8 = 1" using small False by (intro div_nat_eqI) auto
      ultimately show ?thesis by auto
    qed
  qed
qed

section \<open>ReadBits returns the next bits of the payload\<close>

definition readable :: "bstream \<Rightarrow> nat \<Rightarrow> bool" where
  "readable s n \<longleftrightarrow> buffer_ok s \<and> readable_bit_pos s + n \<le> writable_bit_pos s
     \<and> writable_bit_pos s \<le> max_bits"

lemma get_payloads_readable: "readable s 0 \<Longrightarrow> get_payloads s = length (payload s)"
  by (auto simp: readable_def get_payloads_def buffer_ok_def intro: sub32_small)

lemma take_payload:
  "readable s n \<Longrightarrow> take n (payload s) = take n (drop (readable_bit_pos s) (bits_of (uchar_data s)))"
  unfolding readable_def payload_def content_def drop_take take_take
  by (subst min_absorb1) auto

lemma ReadBits_spec:
  assumes rd: "readable s n" and n: "0 < n"
  obtains out where
    "ReadBits n right s = Inr (out, s\<lparr>readable_bit_pos := readable_bit_pos s + n\<rparr>)"
    and "src_bits right out n = take n (payload s)"
    and "right \<longrightarrow> canonical out n" and "length out = (n + 7) div 8"
proof -
  let ?p = "readable_bit_pos s" and ?D = "uchar_data s"
  have bo: "buffer_ok s" and pn: "?p + n \<le> writable_bit_pos s" using rd by (simp_all add: readable_def)
  have w32: "writable_bit_pos s < 2 ^ 32" and room: "?p + n \<le> 8 * length ?D"
    using bo pn by (auto simp: buffer_ok_def)
  have pay: "get_payloads s \<ge> n" using pn w32 by (simp add: get_payloads_def sub32_small)
  have a: "add32 ?p n = ?p + n" using pn w32 by (simp add: add32_small)
  let ?s = "s\<lparr>readable_bit_pos := ?p + n\<rparr>"
  have "\<exists>out. ReadBits n right s = Inr (out, ?s) \<and> src_bits right out n = take n (drop ?p (bits_of ?D))
          \<and> (right \<longrightarrow> canonical out n) \<and> length out = (n + 7) div 8"
  proof (cases "?p mod 8 = 0")
    case False
    then have "ReadBits n right s = read_loop (?p mod 8) right n s"
      using n pay by (simp add: ReadBits_def Let_def)
    then show ?thesis using read_loop_ok [of "?p mod 8" s n right] room pn w32 by auto
  next
    case True
    then obtain q where q: "?p = 8 * q" by (auto simp: mod_eq_0_iff_dvd elim!: dvdE)
    show ?thesis
    proof (cases "n mod 8 = 0")
      case True
      then obtain m where m: "n = 8 * m" by (auto simp: mod_eq_0_iff_dvd elim!: dvdE)
      let ?o = "take m (drop q ?D)"
      have len: "length ?o = m" using room q m by simp
      have "ReadBits n right s = Inr (?o, ?s)"
        using n pay q m room a by (simp add: ReadBits_def Let_def get_range_def)
      moreover have "src_bits right ?o n = take n (drop ?p (bits_of ?D))"
        using m q len by (simp add: src_bits_whole bits_of_take bits_of_drop)
      moreover have "canonical ?o n" using canonical_whole [of ?o] len m by simp
      moreover have "length ?o = (n + 7) div 8" using len m by simp
      ultimately show ?thesis by blast
    next
      case False
      define m k where "m = n div 8" and "k = n mod 8"
      have nk: "n = 8 * m + k" "0 < k" "k < 8" using False by (simp_all add: m_def k_def)
      have up: "(n + 7) div 8 = Suc m" using nk by (intro div_nat_eqI) auto
      have btb: "BITS_TO_BYTES n = Suc m" 
      proof -
        have "n + 7 < 2 ^ 32" using rd pn by (simp add: readable_def max_bits_def)
        then show ?thesis using up by (simp add: BITS_TO_BYTES_small)
      qed
      have fits: "q + Suc m \<le> length ?D" using room q nk by arith
      let ?b = "take (Suc m) (drop q ?D)"
      let ?o = "?b[m := if right then drop_bit (8 - k) (?b ! m) else ?b ! m]"
      have len: "length ?b = Suc m" using fits by simp
      have "ReadBits n right s = Inr (?o, ?s)"
        using n pay q nk fits a False btb
        by (cases right) (simp_all add: ReadBits_def Let_def get_range_def list_update_id flip: k_def
              del: nth_take nth_drop)
      moreover have "src_bits right ?o n = take n (bits_of ?b)" "right \<longrightarrow> canonical ?o n"
        using src_bits_shift_last [OF len nk] by blast+
      moreover have "take n (bits_of ?b) = take n (drop ?p (bits_of ?D))"
        using q nk by (simp add: bits_of_take bits_of_drop min_def)
      ultimately show ?thesis using len up by (intro exI [of _ ?o]) auto
    qed
  qed
  then show thesis using that take_payload [OF rd] by auto
qed

end
