(* ===== verification/Bit_Codec.thy ===== *)
theory Bit_Codec
  imports Bit_Read
begin

text \<open>
  How the typed operations of \<^verbatim>\<open>geco_bit_stream_t\<close> are put together. \<open>emits f bs\<close> says that the
  writer \<open>f\<close> appends just the bits \<open>bs\<close> to any stream with room for them, and \<open>takes d bs x\<close> that
  the reader \<open>d\<close>, started on a payload that begins with \<open>bs\<close>, returns \<open>x\<close> and moves the reading
  position behind \<open>bs\<close>. Both compose over \<open>rbind\<close>, and they are closed under the operations
  of \<^verbatim>\<open>WriteBits\<close> and \<^verbatim>\<open>ReadBits\<close>. The locale \<open>codec\<close> states the contract of a pair of a writer and
  a reader, and draws the round trip of whole messages from it.
\<close>

section \<open>Writers and readers\<close>

type_synonym writer = "bstream \<Rightarrow> bstream res"
type_synonym 'a reader = "bstream \<Rightarrow> ('a \<times> bstream) res"

definition writable :: "bstream \<Rightarrow> nat \<Rightarrow> bool" where
  "writable s n \<longleftrightarrow> stream_ok s \<and> \<not> is_read_only s \<and> writable_bit_pos s + n \<le> max_bits"

definition appends :: "bstream \<Rightarrow> bstream \<Rightarrow> bool list \<Rightarrow> bool" where
  "appends s s' bs \<longleftrightarrow> stream_ok s' \<and> \<not> is_read_only s' \<and> content s' = content s @ bs \<and>
     readable_bit_pos s' = readable_bit_pos s \<and> garbage s' = garbage s \<and>
     writable_bit_pos s' = writable_bit_pos s + length bs"

definition skip_read :: "nat \<Rightarrow> bstream \<Rightarrow> bstream" where
  "skip_read n s = s\<lparr>readable_bit_pos := readable_bit_pos s + n\<rparr>"

definition emits :: "writer \<Rightarrow> bool list \<Rightarrow> bool" where
  "emits f bs \<longleftrightarrow> (\<forall>s. writable s (length bs) \<longrightarrow> (\<exists>s'. f s = Inr s' \<and> appends s s' bs))"

definition takes :: "'a reader \<Rightarrow> bool list \<Rightarrow> 'a \<Rightarrow> bool" where
  "takes d bs x \<longleftrightarrow> (\<forall>s rest. readable s (length bs) \<longrightarrow> payload s = bs @ rest \<longrightarrow>
     d s = Inr (x, skip_read (length bs) s))"

named_theorems codec_rules \<open>how writers and readers compose\<close>

lemma emitsI:
  "(\<And>s. writable s (length bs) \<Longrightarrow> \<exists>s'. f s = Inr s' \<and> appends s s' bs) \<Longrightarrow> emits f bs"
  by (simp add: emits_def)

lemma emitsE:
  assumes "emits f bs" and "writable s (length bs)"
  obtains s' where "f s = Inr s'" and "appends s s' bs"
  using assms by (auto simp: emits_def)

lemma takesI:
  "(\<And>s rest. readable s (length bs) \<Longrightarrow> payload s = bs @ rest \<Longrightarrow>
      d s = Inr (x, skip_read (length bs) s)) \<Longrightarrow> takes d bs x"
  by (simp add: takes_def)

lemma takesD:
  "takes d bs x \<Longrightarrow> readable s (length bs) \<Longrightarrow> payload s = bs @ rest \<Longrightarrow>
     d s = Inr (x, skip_read (length bs) s)"
  by (simp add: takes_def)

lemma appends_writable: "appends s s' bs \<Longrightarrow> writable s (length bs + n) \<Longrightarrow> writable s' n"
  by (simp add: writable_def appends_def)

lemma appends_trans: "appends s s1 as \<Longrightarrow> appends s1 s2 bs \<Longrightarrow> appends s s2 (as @ bs)"
  by (simp add: appends_def)

lemma writable_mono: "writable s n \<Longrightarrow> m \<le> n \<Longrightarrow> writable s m"
  by (simp add: writable_def)

lemma skip_read_0 [simp]: "skip_read 0 s = s"
  by (simp add: skip_read_def)

lemma skip_read_skip_read [simp]: "skip_read m (skip_read n s) = skip_read (n + m) s"
  by (simp add: skip_read_def add.assoc)

lemma skip_read_sel [simp]:
  "readable_bit_pos (skip_read n s) = readable_bit_pos s + n"
  "writable_bit_pos (skip_read n s) = writable_bit_pos s"
  "uchar_data (skip_read n s) = uchar_data s"
  "content (skip_read n s) = content s"
  "buffer_ok (skip_read n s) = buffer_ok s"
  "is_read_only (skip_read n s) = is_read_only s"
  "stream_ok (skip_read n s) = stream_ok s"
  by (simp_all add: skip_read_def content_def buffer_ok_def stream_ok_def tail_clean_def)

lemma payload_skip_read: "payload (skip_read n s) = drop n (payload s)"
  by (simp add: payload_def add.commute)

lemma readable_skip_read: "readable s (n + m) \<Longrightarrow> readable (skip_read n s) m"
  by (simp add: readable_def)

lemma readable_mono: "readable s n \<Longrightarrow> m \<le> n \<Longrightarrow> readable s m"
  by (simp add: readable_def)

lemma payload_appends:
  assumes "appends s s' bs" and "buffer_ok s" and "readable_bit_pos s \<le> writable_bit_pos s"
  shows "payload s' = payload s @ bs"
  using assms by (simp add: payload_def appends_def)

lemma emits_nothing [codec_rules]: "emits Inr []"
  by (simp add: emits_def appends_def writable_def)

lemma emits_bind [codec_rules]:
  assumes f: "emits f as" and g: "emits g bs"
  shows "emits (\<lambda>s. rbind (f s) g) (as @ bs)"
proof (rule emitsI)
  fix s assume w: "writable s (length (as @ bs))"
  then have w': "writable s (length as + length bs)" by simp
  obtain s1 where s1: "f s = Inr s1" "appends s s1 as"
    using f writable_mono [OF w'] by (metis emitsE le_add1)
  obtain s2 where s2: "g s1 = Inr s2" "appends s1 s2 bs"
    using g appends_writable [OF s1(2) w'] by (metis emitsE)
  show "\<exists>s'. rbind (f s) g = Inr s' \<and> appends s s' (as @ bs)"
    using s1 s2 appends_trans by simp
qed

lemma takes_nothing [codec_rules]: "takes (\<lambda>s. Inr (x, s)) [] x"
  by (simp add: takes_def)

lemma takes_bind [codec_rules]:
  assumes d: "takes d as x" and e: "takes (e x) bs y"
  shows "takes (\<lambda>s. rbind (d s) (\<lambda>(a, s1). e a s1)) (as @ bs) y"
proof (rule takesI)
  fix s rest
  assume r: "readable s (length (as @ bs))" and p: "payload s = (as @ bs) @ rest"
  have r': "readable s (length as + length bs)" using r by simp
  have "d s = Inr (x, skip_read (length as) s)"
    using takesD [OF d readable_mono [OF r']] p by simp
  moreover have "e x (skip_read (length as) s)
      = Inr (y, skip_read (length bs) (skip_read (length as) s))"
    using takesD [OF e readable_skip_read [OF r']] p by (simp add: payload_skip_read)
  ultimately show "rbind (d s) (\<lambda>(a, s1). e a s1) = Inr (y, skip_read (length (as @ bs)) s)"
    by simp
qed

lemma takes_map [codec_rules]:
  assumes "takes d as x"
  shows "takes (\<lambda>s. rbind (d s) (\<lambda>(a, s1). Inr (f a, s1))) as (f x)"
  using takes_bind [where e = "\<lambda>a s1. Inr (f a, s1)" and bs = "[]" and y = "f x", OF assms]
  by (simp add: takes_nothing)

section \<open>The bit-level operations\<close>

lemma emits_WriteBits [codec_rules]:
  assumes "0 < n" "n \<le> 8 * length src" "src_clean right src n"
  shows "emits (WriteBits src n right) (src_bits right src n)"
proof (rule emitsI)
  fix s assume w: "writable s (length (src_bits right src n))"
  have len: "length (src_bits right src n) = n" using assms(2) by (rule length_src_bits)
  then have "stream_ok s" "\<not> is_read_only s" "writable_bit_pos s + n \<le> max_bits"
    using w by (simp_all add: writable_def)
  then obtain s' where "WriteBits src n right s = Inr s'" and "stream_ok s'"
    and "\<not> is_read_only s'" and "content s' = content s @ src_bits right src n"
    and "readable_bit_pos s' = readable_bit_pos s" and "garbage s' = garbage s"
    and "writable_bit_pos s' = writable_bit_pos s + n"
    using WriteBits_spec [OF _ _ assms(1,2) _ assms(3)] by blast
  then show "\<exists>s'. WriteBits src n right s = Inr s' \<and> appends s s' (src_bits right src n)"
    using len by (simp add: appends_def)
qed

lemma emits_WriteBits_bytes [codec_rules]:
  assumes "src \<noteq> []"
  shows "emits (WriteBits src (8 * length src) right) (bits_of src)"
  using emits_WriteBits [of "8 * length src" src right] assms
  by (simp add: src_bits_whole src_clean_whole)

lemma takes_ReadBits [codec_rules]:
  assumes "0 < n" "canonical x n"
  shows "takes (ReadBits n True) (src_bits True x n) x"
proof (rule takesI)
  have "n \<le> 8 * length x" using canonical_length [OF assms(2)] by arith
  then have len: "length (src_bits True x n) = n" by (rule length_src_bits)
  fix s rest
  assume r: "readable s (length (src_bits True x n))" and p: "payload s = src_bits True x n @ rest"
  obtain out where out: "ReadBits n True s = Inr (out, s\<lparr>readable_bit_pos := readable_bit_pos s + n\<rparr>)"
    and bits: "src_bits True out n = take n (payload s)" and can: "canonical out n"
    using ReadBits_spec [of s n True] r len assms(1) by auto
  have "out = x" using canonical_unique [OF can assms(2)] bits p len by simp
  then show "ReadBits n True s = Inr (x, skip_read (length (src_bits True x n)) s)"
    using out len by (simp add: skip_read_def)
qed

lemma takes_ReadBits_bytes [codec_rules]:
  assumes "x \<noteq> []" and "n = 8 * length x"
  shows "takes (ReadBits n right) (bits_of x) x"
proof (rule takesI)
  have n: "0 < n" "(n + 7) div 8 = length x" using assms by simp_all
  fix s rest
  assume r: "readable s (length (bits_of x))" and p: "payload s = bits_of x @ rest"
  obtain out where out: "ReadBits n right s = Inr (out, s\<lparr>readable_bit_pos := readable_bit_pos s + n\<rparr>)"
    and bits: "src_bits right out n = take n (payload s)" and len: "length out = (n + 7) div 8"
    using ReadBits_spec [of s n right] r n(1) assms(2) by auto
  have "bits_of out = bits_of x" using bits p assms(2) len n by (simp add: src_bits_whole)
  then have "out = x" using len n by (simp add: bits_of_inject)
  then show "ReadBits n right s = Inr (x, skip_read (length (bits_of x)) s)"
    using out assms(2) by (simp add: skip_read_def)
qed

section \<open>Single bits\<close>

definition WriteBitZero :: writer where
  "WriteBitZero s =
     rbind (rassert (\<not> is_read_only s)) (\<lambda>_.
     rbind (AppendBitsCouldRealloc 1 s) (\<lambda>s1.
     rbind (if writable_bit_pos s1 mod 8 = 0
            then put_at (uchar_data s1) (writable_bit_pos s1 div 8) 0
            else Inr (uchar_data s1)) (\<lambda>d.
       Inr (s1\<lparr>uchar_data := d, writable_bit_pos := add32 (writable_bit_pos s1) 1\<rparr>))))"

definition WriteBitOne :: writer where
  "WriteBitOne s =
     rbind (rassert (\<not> is_read_only s)) (\<lambda>_.
     rbind (AppendBitsCouldRealloc 1 s) (\<lambda>s1.
       let shift = writable_bit_pos s1 mod 8; i = writable_bit_pos s1 div 8
       in rbind (if shift = 0 then put_at (uchar_data s1) i 0x80
                 else rbind (get_at (uchar_data s1) i) (\<lambda>x.
                        put_at (uchar_data s1) i (x OR drop_bit shift 0x80))) (\<lambda>d.
       Inr (s1\<lparr>uchar_data := d, writable_bit_pos := add32 (writable_bit_pos s1) 1\<rparr>))))"

definition Write_bool :: "bool \<Rightarrow> writer" where
  "Write_bool src = (if src then WriteBitOne else WriteBitZero)"

definition ReadBit :: "bool reader" where
  "ReadBit s =
     rbind (get_at (uchar_data s) (readable_bit_pos s div 8)) (\<lambda>x.
       Inr (x AND drop_bit (readable_bit_pos s mod 8) 0x80 \<noteq> 0,
            s\<lparr>readable_bit_pos := add32 (readable_bit_pos s) 1\<rparr>))"

definition Read_bool :: "bool reader" where
  "Read_bool s = rbind (rassert (get_payloads s \<ge> 1)) (\<lambda>_. ReadBit s)"

lemma mask_80: "r < 8 \<Longrightarrow> drop_bit r (0x80 :: u8) = push_bit (7 - r) 1"
proof -
  assume "r < 8"
  then have "r \<in> set [0..<8]" by simp
  then show ?thesis by (auto simp: upt_conv_Cons)
qed

lemma test_80: "r < 8 \<Longrightarrow> (x :: u8) AND drop_bit r 0x80 \<noteq> 0 \<longleftrightarrow> bit x (7 - r)"
  by (simp add: mask_80 bit_iff_and_push_bit_not_eq_0)

lemma WriteBitOne_eq_WriteBits: "WriteBitOne s = WriteBits [1] 1 True s"
proof -
  have "write_loop (writable_bit_pos s1 mod 8) True [1] 1 s1
      = (let shift = writable_bit_pos s1 mod 8; i = writable_bit_pos s1 div 8
       in rbind (if shift = 0 then put_at (uchar_data s1) i 0x80
                 else rbind (get_at (uchar_data s1) i) (\<lambda>x.
                        put_at (uchar_data s1) i (x OR drop_bit shift 0x80))) (\<lambda>d.
       Inr (s1\<lparr>uchar_data := d, writable_bit_pos := add32 (writable_bit_pos s1) 1\<rparr>)))" for s1
  proof -
    have "\<not> Suc 0 > 8 - writable_bit_pos s1 mod 8" by (simp add: less_diff_conv not_less)
    then show ?thesis
      by (auto simp: write_byte_def Let_def put_at_def get_at_def)
  qed
  then show ?thesis by (simp add: WriteBitOne_def WriteBits_def del: write_loop.simps)
qed

lemma WriteBitZero_eq_WriteBits:
  assumes "writable s 1"
  shows "WriteBitZero s = WriteBits [0] 1 True s"
proof -
  obtain s1 where s1: "AppendBitsCouldRealloc 1 s = Inr s1" and bo: "buffer_ok s1"
    and room: "writable_bit_pos s + 1 \<le> allocated_bits_size s1"
    and w1: "writable_bit_pos s1 = writable_bit_pos s"
    using AppendBits_ok [of s 1] assms by (auto simp: writable_def stream_ok_def)
  have i: "writable_bit_pos s1 div 8 < length (uchar_data s1)"
    using room bo w1 unfolding buffer_ok_def by arith
  have "\<not> Suc 0 > 8 - writable_bit_pos s1 mod 8" by (simp add: less_diff_conv not_less)
  then have "write_loop (writable_bit_pos s1 mod 8) True [0] 1 s1
      = rbind (if writable_bit_pos s1 mod 8 = 0
            then put_at (uchar_data s1) (writable_bit_pos s1 div 8) 0
            else Inr (uchar_data s1)) (\<lambda>d.
       Inr (s1\<lparr>uchar_data := d, writable_bit_pos := add32 (writable_bit_pos s1) 1\<rparr>))"
    using i by (auto simp: write_byte_def Let_def)
  then show ?thesis
    using assms s1 by (simp add: WriteBitZero_def WriteBits_def writable_def del: write_loop.simps)
qed

lemma emits_WriteBitOne [codec_rules]: "emits WriteBitOne [True]"
proof -
  have "src_bits True [1] 1 = [True]" by (simp add: byte_bits_def upt_conv_Cons)
  then show ?thesis
    using emits_WriteBits [of 1 "[1]" True] unfolding WriteBitOne_eq_WriteBits [abs_def] by simp
qed

lemma emits_WriteBitZero [codec_rules]: "emits WriteBitZero [False]"
proof -
  have "src_bits True [0] 1 = [False]" by (simp add: byte_bits_def upt_conv_Cons)
  then have "emits (WriteBits [0] 1 True) [False]"
    using emits_WriteBits [of 1 "[0]" True] by simp
  then show ?thesis by (simp add: emits_def WriteBitZero_eq_WriteBits)
qed

lemma emits_Write_bool [codec_rules]: "emits (Write_bool b) [b]"
  by (cases b) (simp_all add: Write_bool_def [abs_def] codec_rules)

lemma takes_ReadBit [codec_rules]: "takes ReadBit [b] b"
proof (rule takesI)
  fix s rest
  assume r: "readable s (length [b])" and p: "payload s = [b] @ rest"
  let ?p = "readable_bit_pos s"
  have p1: "?p + 1 \<le> writable_bit_pos s" and w: "writable_bit_pos s \<le> 8 * length (uchar_data s)"
    and w32: "writable_bit_pos s < 2 ^ 32"
    using r by (auto simp: readable_def buffer_ok_def)
  have len: "?p < 8 * length (uchar_data s)" "?p div 8 < length (uchar_data s)"
    using p1 w by auto
  have "b = payload s ! 0" using p by simp
  also have "\<dots> = bits_of (uchar_data s) ! ?p"
    using p1 w by (simp add: payload_def content_def)
  also have "\<dots> = bit (uchar_data s ! (?p div 8)) (7 - ?p mod 8)" using len by (simp add: nth_bits_of)
  finally show "ReadBit s = Inr (b, skip_read (length [b]) s)"
    using len p1 w32 test_80 [of "?p mod 8" "uchar_data s ! (?p div 8)"]
    by (simp add: ReadBit_def skip_read_def add32_small)
qed

lemma takes_Read_bool [codec_rules]: "takes Read_bool [b] b"
proof (rule takesI)
  fix s rest
  assume r: "readable s (length [b])" and p: "payload s = [b] @ rest"
  have "get_payloads s = length (payload s)"
    by (rule get_payloads_readable) (rule readable_mono [OF r], simp)
  then have "get_payloads s \<ge> 1" using p by simp
  then show "Read_bool s = Inr (b, skip_read (length [b]) s)"
    using takesD [OF takes_ReadBit r p] by (simp add: Read_bool_def)
qed

section \<open>The contract of a codec\<close>

text \<open>
  A client that sends several values with one kind of writer calls it once per value, and the
  receiver calls the reader as often.
\<close>

fun write_list :: "('a \<Rightarrow> writer) \<Rightarrow> 'a list \<Rightarrow> writer" where
  "write_list enc [] s = Inr s"
| "write_list enc (x # xs) s = rbind (enc x s) (write_list enc xs)"

fun read_list :: "'a reader \<Rightarrow> nat \<Rightarrow> 'a list reader" where
  "read_list dec 0 s = Inr ([], s)"
| "read_list dec (Suc n) s =
     rbind (dec s) (\<lambda>(x, s1). rbind (read_list dec n s1) (\<lambda>(xs, s2). Inr (x # xs, s2)))"

definition write_pair :: "('a \<Rightarrow> writer) \<Rightarrow> ('b \<Rightarrow> writer) \<Rightarrow> 'a \<times> 'b \<Rightarrow> writer" where
  "write_pair enc1 enc2 p s = rbind (enc1 (fst p) s) (enc2 (snd p))"

definition read_pair :: "'a reader \<Rightarrow> 'b reader \<Rightarrow> ('a \<times> 'b) reader" where
  "read_pair dec1 dec2 s =
     rbind (dec1 s) (\<lambda>(x, s1). rbind (dec2 s1) (\<lambda>(y, s2). Inr ((x, y), s2)))"

text \<open>
  \<^verbatim>\<open>WriteChangedValue\<close>, \<^verbatim>\<open>WriteMiniChanged\<close> and their readers are templates over the
  operation they use for the value itself.
\<close>

definition write_changed :: "('a \<Rightarrow> writer) \<Rightarrow> 'a \<Rightarrow> 'a \<Rightarrow> writer" where
  "write_changed enc latestVal lastVal s =
     (if latestVal = lastVal then Write_bool False s
      else rbind (Write_bool True s) (enc latestVal))"

definition write_changed_unknown :: "('a \<Rightarrow> writer) \<Rightarrow> 'a \<Rightarrow> writer" where
  "write_changed_unknown enc currentValue s = rbind (Write_bool True s) (enc currentValue)"

definition read_changed :: "'a reader \<Rightarrow> 'a \<Rightarrow> 'a reader" where
  "read_changed dec dest s =
     rbind (Read_bool s) (\<lambda>(dataWritten, s1). if dataWritten then dec s1 else Inr (dest, s1))"

locale codec =
  fixes enc :: "'a \<Rightarrow> writer" and dec :: "'a reader"
    and wire :: "'a \<Rightarrow> bool list" and valid :: "'a \<Rightarrow> bool"
  assumes enc_emits: "valid x \<Longrightarrow> emits (enc x) (wire x)"
    and dec_takes: "valid x \<Longrightarrow> takes dec (wire x) x"
begin

lemma write_list_emits:
  "\<forall>x\<in>set xs. valid x \<Longrightarrow> emits (write_list enc xs) (concat (map wire xs))"
proof (induction xs)
  case Nil
  then show ?case by (simp add: emits_def appends_def writable_def)
next
  case (Cons x xs)
  then have "emits (\<lambda>s. rbind (enc x s) (write_list enc xs)) (wire x @ concat (map wire xs))"
    by (intro emits_bind enc_emits) auto
  then show ?case by simp
qed

lemma read_list_takes:
  "\<forall>x\<in>set xs. valid x \<Longrightarrow> takes (read_list dec (length xs)) (concat (map wire xs)) xs"
proof (induction xs)
  case Nil
  then show ?case by (simp add: takes_def)
next
  case (Cons x xs)
  then have "takes (\<lambda>s. rbind (dec s) (\<lambda>(a, s1). rbind (read_list dec (length xs) s1) (\<lambda>(as, s2). Inr (a # as, s2))))
      (wire x @ concat (map wire xs)) (x # xs)"
    by (intro takes_bind [OF dec_takes] takes_map) auto
  then show ?case by simp
qed

text \<open>A message of several values comes out as it was put in, and nothing is left of it.\<close>

lemma list_round_trip:
  assumes ok: "\<forall>x\<in>set xs. valid x" and s: "writable s (length (concat (map wire xs)))"
    and r: "readable_bit_pos s = writable_bit_pos s"
  obtains s' where "write_list enc xs s = Inr s'" and "payload s' = concat (map wire xs)"
    and "read_list dec (length xs) s' = Inr (xs, skip_read (length (payload s')) s')"
    and "get_payloads (skip_read (length (payload s')) s') = 0"
proof -
  let ?b = "concat (map wire xs)"
  obtain s' where w: "write_list enc xs s = Inr s'" and a: "appends s s' ?b"
    using emitsE [OF write_list_emits [OF ok] s] by blast
  have bo: "buffer_ok s" using s by (simp add: writable_def stream_ok_def)
  have p: "payload s' = ?b" using payload_appends [OF a bo] r bo by (simp add: payload_def)
  have rd: "readable s' (length ?b)"
    using a s r by (simp add: readable_def appends_def writable_def stream_ok_def)
  have "get_payloads (skip_read (length ?b) s') = 0"
    using rd a r by (simp add: get_payloads_def appends_def readable_def max_bits_def)
  then show thesis
    using that [OF w p] takesD [OF read_list_takes [OF ok] rd, of "[]"] p by simp
qed

lemma changed_round_trip:
  assumes "valid latest"
  shows "emits (write_changed enc latest old) (if latest = old then [False] else True # wire latest)"
    and "takes (read_changed dec old) (if latest = old then [False] else True # wire latest) latest"
proof -
  have *: "emits (\<lambda>s. rbind (Write_bool True s) (enc latest)) ([True] @ wire latest)"
    by (intro emits_bind emits_Write_bool enc_emits assms)
  show "emits (write_changed enc latest old) (if latest = old then [False] else True # wire latest)"
    using * emits_Write_bool [of False] by (simp add: write_changed_def [abs_def])
  have "takes (read_changed dec old) ([False] @ []) old"
    unfolding read_changed_def
    by (rule takes_bind [OF takes_Read_bool]) (simp add: takes_nothing)
  moreover have "takes (read_changed dec old) ([True] @ wire latest) latest"
    unfolding read_changed_def
    by (rule takes_bind [OF takes_Read_bool]) (simp add: dec_takes [OF assms])
  ultimately show "takes (read_changed dec old) (if latest = old then [False] else True # wire latest) latest"
    by simp
qed

end

locale codec_pair = first: codec enc1 dec1 wire1 valid1 + second: codec enc2 dec2 wire2 valid2
  for enc1 :: "'a \<Rightarrow> writer" and dec1 wire1 valid1
  and enc2 :: "'b \<Rightarrow> writer" and dec2 wire2 valid2

sublocale codec_pair \<subseteq> pair: codec "write_pair enc1 enc2" "read_pair dec1 dec2"
  "\<lambda>p. wire1 (fst p) @ wire2 (snd p)" "\<lambda>p. valid1 (fst p) \<and> valid2 (snd p)"
proof
  fix p assume p: "valid1 (fst p) \<and> valid2 (snd p)"
  then show "emits (write_pair enc1 enc2 p) (wire1 (fst p) @ wire2 (snd p))"
    unfolding write_pair_def by (intro emits_bind first.enc_emits second.enc_emits) auto
  have "takes (read_pair dec1 dec2) (wire1 (fst p) @ wire2 (snd p)) (fst p, snd p)"
    unfolding read_pair_def using p
    by (intro takes_bind [OF first.dec_takes] takes_map second.dec_takes) auto
  then show "takes (read_pair dec1 dec2) (wire1 (fst p) @ wire2 (snd p)) p" by simp
qed

interpretation bool_codec: codec Write_bool Read_bool "\<lambda>b. [b]" "\<lambda>_. True"
  by unfold_locales (simp_all add: codec_rules)

end
