(* ===== verification/Bit_Types.thy ===== *)
theory Bit_Types
  imports Bit_Codec
begin

text \<open>
  The typed operations of \<^verbatim>\<open>include/geco-bit-stream.h\<close> on integers. Whether the machine is big
  endian is a parameter \<open>be\<close> of every operation that asks \<^verbatim>\<open>IsBigEndian()\<close> or
  \<^verbatim>\<open>DoEndianSwap()\<close>, so a writer and a reader on different machines can be put side by side.
\<close>

section \<open>Integers in memory\<close>

fun le_bytes :: "nat \<Rightarrow> 'a::len word \<Rightarrow> u8 list" where
  "le_bytes 0 x = []"
| "le_bytes (Suc n) x = ucast x # le_bytes n (drop_bit 8 x)"

fun le_word :: "u8 list \<Rightarrow> 'a::len word" where
  "le_word [] = 0"
| "le_word (b # bs) = ucast b OR push_bit 8 (le_word bs)"

definition bytes_of_type :: "'a::len word \<Rightarrow> nat" where
  "bytes_of_type (x :: 'a word) = LENGTH('a) div 8"

definition mem_bytes :: "bool \<Rightarrow> 'a::len word \<Rightarrow> u8 list" where
  "mem_bytes be x = (if be then rev (le_bytes (bytes_of_type x) x) else le_bytes (bytes_of_type x) x)"

definition mem_word :: "bool \<Rightarrow> u8 list \<Rightarrow> 'a::len word" where
  "mem_word be bs = le_word (if be then rev bs else bs)"

lemma length_le_bytes [simp]: "length (le_bytes n x) = n"
  by (induction n arbitrary: x) auto

lemma length_mem_bytes [simp]: "length (mem_bytes be x) = bytes_of_type x"
  by (simp add: mem_bytes_def)

lemma bit_le_word_le_bytes:
  "bit (le_word (le_bytes n x) :: 'a::len word) i \<longleftrightarrow> i < LENGTH('a) \<and> i < 8 * n \<and> bit (x :: 'a word) i"
proof (induction n arbitrary: x i)
  case (Suc n)
  show ?case
  proof (cases "i < 8")
    case True
    then show ?thesis by (auto simp: bit_simps Suc)
  next
    case False
    then have "\<not> bit (ucast (ucast x :: u8) :: 'a word) i" by (simp add: bit_simps)
    moreover have "8 \<le> i" "8 + (i - 8) = i" using False by auto
    ultimately show ?thesis using bit_imp_le_length [of x i] by (auto simp: bit_simps Suc)
  qed
qed simp

lemma le_word_le_bytes: "LENGTH('a) \<le> 8 * n \<Longrightarrow> le_word (le_bytes n x) = (x :: 'a::len word)"
  by (rule bit_word_eqI) (simp add: bit_le_word_le_bytes)

lemma le_bytes_cong: "\<forall>i < 8 * n. bit y i = bit z i \<Longrightarrow> le_bytes n y = le_bytes n z"
proof (induction n arbitrary: y z)
  case (Suc n)
  have "ucast y = (ucast z :: u8)"
    by (rule bit_word_eqI) (use Suc.prems in \<open>auto simp: bit_simps\<close>)
  moreover have "le_bytes n (drop_bit 8 y) = le_bytes n (drop_bit 8 z)"
    by (rule Suc.IH) (use Suc.prems in \<open>auto simp: bit_simps\<close>)
  ultimately show ?case by simp
qed simp

lemma le_bytes_le_word:
  "8 * length bs \<le> LENGTH('a) \<Longrightarrow> le_bytes (length bs) (le_word bs :: 'a::len word) = bs"
proof (induction bs)
  case (Cons b bs)
  have len: "8 * length bs + 8 \<le> LENGTH('a)" using Cons.prems by simp
  have "ucast (ucast b OR push_bit 8 (le_word bs) :: 'a word) = b"
  proof (rule bit_word_eqI)
    fix i assume "i < LENGTH(8)"
    then show "bit (ucast (ucast b OR push_bit 8 (le_word bs) :: 'a word) :: u8) i = bit b i"
      using len by (simp add: bit_simps)
  qed
  moreover have "le_bytes (length bs) (drop_bit 8 (ucast b OR push_bit 8 (le_word bs) :: 'a word)) = bs"
  proof -
    have "le_bytes n (drop_bit 8 (ucast b OR push_bit 8 x)) = le_bytes n x"
      if "8 * n + 8 \<le> LENGTH('a)" for n and x :: "'a word"
      by (rule le_bytes_cong) (use that in \<open>auto simp: bit_simps bit_u8_ge\<close>)
    then show ?thesis using len Cons by simp
  qed
  ultimately show ?case by simp
qed simp

lemma bit_above:
  assumes "unat (x :: 'a::len word) < 2 ^ n" and "n \<le> i"
  shows "\<not> bit x i"
proof
  assume b: "bit x i"
  then have "bit (unat x) i" using bit_imp_le_length [OF b] by (simp add: bit_unsigned_iff)
  moreover have "take_bit n (unat x) = unat x" using assms(1) by (rule take_bit_nat_eq_self)
  ultimately show False using assms(2) by (metis bit_take_bit_iff not_le)
qed

section \<open>Reversing bytes\<close>

definition ReverseBytes :: "u8 list \<Rightarrow> nat \<Rightarrow> u8 list" where
  "ReverseBytes src n = map (\<lambda>i. src ! (n - i - 1)) [0..<n]"

definition ReverseBytes_in_place :: "u8 list \<Rightarrow> nat \<Rightarrow> u8 list" where
  "ReverseBytes_in_place src n = reverse_loop n (n div 2) src"

lemma ReverseBytes_rev: "ReverseBytes src (length src) = rev src"
  by (rule nth_equalityI) (simp_all add: ReverseBytes_def rev_nth)

lemma ReverseBytes_in_place_rev:
  "n \<le> length src \<Longrightarrow> ReverseBytes_in_place src n = rev (take n src) @ drop n src"
  by (simp add: ReverseBytes_in_place_def reverse_loop_rev)

section \<open>Write and Read of an integer\<close>

definition DoEndianSwap :: "bool \<Rightarrow> bool" where
  "DoEndianSwap be = (\<not> be)"

definition Write_int :: "bool \<Rightarrow> 'a::len word \<Rightarrow> writer" where
  "Write_int be x =
     (let sz = bytes_of_type x
      in if sz = 1 then WriteBits (mem_bytes be x) (BYTES_TO_BITS sz) True
         else if DoEndianSwap be
         then WriteBits (ReverseBytes (mem_bytes be x) sz) (BYTES_TO_BITS sz) True
         else WriteBits (mem_bytes be x) (BYTES_TO_BITS sz) True)"

definition Read_int :: "bool \<Rightarrow> 'a::len word reader" where
  "Read_int be s =
     (let sz = bytes_of_type (0 :: 'a word)
      in if sz = 1 then
           rbind (ReadBits (sz * 8) True s) (\<lambda>(out, s1). Inr (mem_word be out, s1))
         else if DoEndianSwap be then
           rbind (ReadBits (BYTES_TO_BITS sz) True s) (\<lambda>(out, s1).
             Inr (mem_word be (ReverseBytes out sz), s1))
         else rbind (ReadBits (BYTES_TO_BITS sz) True s) (\<lambda>(out, s1). Inr (mem_word be out, s1)))"

definition net_bits :: "'a::len word \<Rightarrow> bool list" where
  "net_bits x = bits_of (rev (le_bytes (bytes_of_type x) x))"

definition byte_type :: "'a::len word \<Rightarrow> bool" where
  "byte_type (x :: 'a word) \<longleftrightarrow> LENGTH('a) mod 8 = 0 \<and> LENGTH('a) < 2 ^ 31"

lemma byte_type_size:
  assumes "byte_type (x :: 'a::len word)"
  shows "8 * bytes_of_type x = LENGTH('a)" "0 < bytes_of_type x"
    "BYTES_TO_BITS (bytes_of_type x) = 8 * bytes_of_type x"
proof -
  show *: "8 * bytes_of_type x = LENGTH('a)" using assms by (auto simp: byte_type_def bytes_of_type_def)
  then have "bytes_of_type x \<noteq> 0" using len_gt_0 [where 'a = 'a] by (intro notI) simp
  then show "0 < bytes_of_type x" by simp
  show "BYTES_TO_BITS (bytes_of_type x) = 8 * bytes_of_type x"
    using * assms by (intro BYTES_TO_BITS_small) (simp add: byte_type_def)
qed

lemma emits_Write_int [codec_rules]:
  assumes "byte_type (x :: 'a::len word)"
  shows "emits (Write_int be x) (net_bits x)"
proof -
  note sz = byte_type_size [OF assms]
  have one: "rev (le_bytes (bytes_of_type x) x) = le_bytes (bytes_of_type x) x" if "bytes_of_type x = 1"
    using that by simp
  have wb: "emits (WriteBits (rev (le_bytes (bytes_of_type x) x)) (8 * bytes_of_type x) True) (net_bits x)"
    using emits_WriteBits_bytes [of "rev (le_bytes (bytes_of_type x) x)" True] sz
    by (simp add: net_bits_def flip: length_0_conv)
  show ?thesis
  proof (cases "bytes_of_type x = 1")
    case True
    then show ?thesis using wb one sz by (simp add: Write_int_def mem_bytes_def Let_def)
  next
    case False
    have "ReverseBytes (le_bytes (bytes_of_type x) x) (bytes_of_type x) = rev (le_bytes (bytes_of_type x) x)"
      using ReverseBytes_rev [of "le_bytes (bytes_of_type x) x"] by simp
    then show ?thesis
      using wb sz False by (simp add: Write_int_def mem_bytes_def DoEndianSwap_def Let_def)
  qed
qed

lemma takes_Read_int [codec_rules]:
  assumes "byte_type (x :: 'a::len word)"
  shows "takes (Read_int be) (net_bits x) x"
proof -
  define sz where "sz = bytes_of_type (0 :: 'a word)"
  have same: "bytes_of_type x = sz" by (simp add: sz_def bytes_of_type_def)
  have sz: "8 * sz = LENGTH('a)" "0 < sz" "BYTES_TO_BITS sz = 8 * sz"
    using byte_type_size [OF assms] same by simp_all
  let ?m = "rev (le_bytes sz x)"
  have restored: "le_word (le_bytes sz x) = x" using sz by (simp add: le_word_le_bytes)
  have rd: "takes (ReadBits (8 * sz) True) (net_bits x) ?m"
    unfolding net_bits_def same using sz(2)
    by (intro takes_ReadBits_bytes) (auto simp flip: length_0_conv)
  have one: "?m = le_bytes sz x" if "sz = 1" using that by simp
  have reversed: "ReverseBytes ?m sz = le_bytes sz x" using ReverseBytes_rev [of ?m] by simp
  show ?thesis
  proof (cases "sz = 1")
    case True
    have eq: "(Read_int be :: 'a word reader) = (\<lambda>s. rbind (ReadBits (8 * sz) True s) (\<lambda>(out, s1). Inr (mem_word be out, s1)))"
      using True by (simp add: Read_int_def [abs_def] Let_def flip: sz_def)
    show ?thesis unfolding eq
      using takes_map [OF rd, of "mem_word be :: u8 list \<Rightarrow> 'a word"] one [OF True] restored
      by (cases be) (simp_all add: mem_word_def)
  next
    case no: False
    show ?thesis
    proof (cases be)
      case True
      have eq: "(Read_int be :: 'a word reader) = (\<lambda>s. rbind (ReadBits (8 * sz) True s) (\<lambda>(out, s1). Inr (mem_word be out, s1)))"
        using True no sz by (simp add: Read_int_def [abs_def] Let_def DoEndianSwap_def flip: sz_def)
      show ?thesis unfolding eq
        using takes_map [OF rd, of "mem_word be :: u8 list \<Rightarrow> 'a word"] restored True by (simp add: mem_word_def)
    next
      case False
      have eq: "(Read_int be :: 'a word reader) = (\<lambda>s. rbind (ReadBits (8 * sz) True s) (\<lambda>(out, s1). Inr (mem_word be (ReverseBytes out sz), s1)))"
        using False no sz by (simp add: Read_int_def [abs_def] Let_def DoEndianSwap_def flip: sz_def)
      show ?thesis unfolding eq
        using takes_map [OF rd, of "\<lambda>out. mem_word be (ReverseBytes out sz) :: 'a word"] restored reversed False
        by (simp add: mem_word_def)
    qed
  qed
qed

text \<open>
  An integer written on a machine of either byte order is read back on a machine of either byte
  order. \<^verbatim>\<open>guid_t\<close> is a record around one \<^verbatim>\<open>uint64_t\<close>, so its operations are those of \<open>g\<close>.
\<close>

lemma byte_types [simp]:
  "byte_type (x8 :: u8)" "byte_type (x16 :: u16)" "byte_type (x32 :: u32)" "byte_type (x64 :: u64)"
  by (simp_all add: byte_type_def)

lemma type_sizes [simp]:
  "bytes_of_type (x8 :: u8) = 1" "bytes_of_type (x16 :: u16) = 2"
  "bytes_of_type (x32 :: u32) = 4" "bytes_of_type (x64 :: u64) = 8"
  by (simp_all add: bytes_of_type_def)

interpretation u8_codec: codec "Write_int w_be :: u8 \<Rightarrow> writer" "Read_int r_be" net_bits "\<lambda>_. True"
  for w_be r_be by unfold_locales (simp_all add: codec_rules)

interpretation u16_codec: codec "Write_int w_be :: u16 \<Rightarrow> writer" "Read_int r_be" net_bits "\<lambda>_. True"
  for w_be r_be by unfold_locales (simp_all add: codec_rules)

interpretation u32_codec: codec "Write_int w_be :: u32 \<Rightarrow> writer" "Read_int r_be" net_bits "\<lambda>_. True"
  for w_be r_be by unfold_locales (simp_all add: codec_rules)

interpretation u64_codec: codec "Write_int w_be :: u64 \<Rightarrow> writer" "Read_int r_be" net_bits "\<lambda>_. True"
  for w_be r_be by unfold_locales (simp_all add: codec_rules)

lemma length_net_bits: "byte_type x \<Longrightarrow> length (net_bits (x :: 'a::len word)) = LENGTH('a)"
  by (simp add: net_bits_def byte_type_size)

definition WriteCasted :: "('b::len word \<Rightarrow> 'a::len word) \<Rightarrow> bool \<Rightarrow> 'b word \<Rightarrow> writer" where
  "WriteCasted cast be value = Write_int be (cast value)"

definition ReadCasted :: "('a::len word \<Rightarrow> 'b::len word) \<Rightarrow> bool \<Rightarrow> 'b word reader" where
  "ReadCasted cast be s = rbind (Read_int be s) (\<lambda>(val, s1). Inr (cast val, s1))"

lemma casted_round_trip:
  assumes "byte_type (ucast value :: 'a::len word)" and "ucast (ucast value :: 'a word) = (value :: 'b::len word)"
  shows "emits (WriteCasted (ucast :: 'b word \<Rightarrow> 'a word) be value) (net_bits (ucast value :: 'a word))"
    and "takes (ReadCasted (ucast :: 'a word \<Rightarrow> 'b word) be') (net_bits (ucast value :: 'a word)) value"
proof -
  show "emits (WriteCasted (ucast :: 'b word \<Rightarrow> 'a word) be value) (net_bits (ucast value :: 'a word))"
    unfolding WriteCasted_def by (rule emits_Write_int) (rule assms)
  have "takes (\<lambda>s. rbind (Read_int be' s) (\<lambda>(val :: 'a word, s1). Inr ((ucast val :: 'b word), s1)))
          (net_bits (ucast value :: 'a word)) (ucast (ucast value :: 'a word))"
    by (rule takes_map [OF takes_Read_int]) (rule assms)
  then show "takes (ReadCasted (ucast :: 'a word \<Rightarrow> 'b word) be') (net_bits (ucast value :: 'a word)) value"
    using assms(2) by (simp add: ReadCasted_def [abs_def])
qed

section \<open>Three-byte integers\<close>

text \<open>
  \<^verbatim>\<open>uint24_t\<close> keeps its three bytes in a \<^verbatim>\<open>uint val\<close>. On a big endian machine the writer reverses
  the first three bytes of \<^verbatim>\<open>val\<close> in place, so the value after the call is part of the result.
\<close>

definition Write_uint24 :: "bool \<Rightarrow> u32 \<Rightarrow> u32 reader" where
  "Write_uint24 be val s =
     (if \<not> be then
        rbind (WriteBits (mem_bytes be val) 24 False s) (\<lambda>s1. Inr (val, s1))
      else
        let m = ReverseBytes_in_place (mem_bytes be val) 3
        in rbind (WriteBits m 24 False s) (\<lambda>s1. Inr (mem_word be m, s1)))"

definition Read_uint24 :: "bool \<Rightarrow> u32 \<Rightarrow> u32 reader" where
  "Read_uint24 be dest s =
     rbind (rassert (get_payloads s \<ge> 24)) (\<lambda>_.
     rbind (ReadBits 24 False s) (\<lambda>(out, s1).
     rbind (copy_into (mem_bytes be dest) 0 out (length out)) (\<lambda>m.
       if \<not> be then Inr (mem_word be (m[3 := 0]), s1)
       else Inr (mem_word be ((ReverseBytes_in_place m 3)[0 := 0]), s1))))"

definition enc_uint24 :: "bool \<Rightarrow> u32 \<Rightarrow> writer" where
  "enc_uint24 be val s = rbind (Write_uint24 be val s) (\<lambda>(_, s1). Inr s1)"

lemma le_bytes_4:
  "le_bytes 4 (x :: u32) = [ucast x, ucast (drop_bit 8 x), ucast (drop_bit 16 x), ucast (drop_bit 24 x)]"
  by (simp add: numeral_eq_Suc)

lemma uint24_word:
  assumes "x < 2 ^ 24"
  shows "le_word [ucast x, ucast (drop_bit 8 x), ucast (drop_bit 16 x), 0] = (x :: u32)"
proof -
  have "ucast (drop_bit 24 x) = (0 :: u8)"
  proof (rule bit_word_eqI)
    fix n assume "n < LENGTH(8)"
    have "unat x < 2 ^ 24" using assms by (simp add: word_less_nat_alt)
    then have "\<not> bit x (24 + n)" by (rule bit_above) simp
    then show "bit (ucast (drop_bit 24 x) :: u8) n = bit 0 n" by (simp add: bit_simps)
  qed
  then show ?thesis using le_word_le_bytes [of 4 x] by (simp add: le_bytes_4)
qed

definition uint24_bits :: "u32 \<Rightarrow> bool list" where
  "uint24_bits x = bits_of [ucast x, ucast (drop_bit 8 x), ucast (drop_bit 16 x)]"

lemma emits_uint24: "emits (enc_uint24 False x) (uint24_bits x)"
proof -
  have "emits (WriteBits (mem_bytes False x) 24 False) (uint24_bits x)"
    using emits_WriteBits [of 24 "mem_bytes False x" False]
    by (simp add: mem_bytes_def le_bytes_4 src_bits_whole src_clean_whole uint24_bits_def)
  moreover have "enc_uint24 False x = WriteBits (mem_bytes False x) 24 False"
    by (rule ext) (simp add: enc_uint24_def Write_uint24_def rbind_def split: sum.split)
  ultimately show ?thesis by simp
qed

lemma takes_uint24:
  assumes "x < 2 ^ 24"
  shows "takes (Read_uint24 False dest) (uint24_bits x) x"
proof (rule takesI)
  let ?b = "[ucast x, ucast (drop_bit 8 x), ucast (drop_bit 16 x)] :: u8 list"
  fix s rest
  assume r: "readable s (length (uint24_bits x))" and p: "payload s = uint24_bits x @ rest"
  have "get_payloads s = length (payload s)"
    by (rule get_payloads_readable) (rule readable_mono [OF r], simp)
  then have pay: "get_payloads s \<ge> 24" using p by (simp add: uint24_bits_def)
  have rd: "ReadBits 24 False s = Inr (?b, skip_read (length (uint24_bits x)) s)"
    using takesD [OF takes_ReadBits_bytes [of ?b 24 False], of s rest] r p
    by (simp add: uint24_bits_def)
  have "copy_into (mem_bytes False dest) 0 ?b (length ?b) = Inr (?b @ [ucast (drop_bit 24 dest)])"
    by (simp add: copy_into_ok mem_bytes_def le_bytes_4)
  then show "Read_uint24 False dest s = Inr (x, skip_read (length (uint24_bits x)) s)"
    using pay rd uint24_word [OF assms] by (simp add: Read_uint24_def mem_word_def)
qed

interpretation uint24_codec: codec "enc_uint24 False" "Read_uint24 False dest" uint24_bits
  "\<lambda>x. x < 2 ^ 24" for dest
  by unfold_locales (simp_all only: emits_uint24 takes_uint24)

end
