(* ===== verification/Bit_Mini.thy ===== *)
theory Bit_Mini
  imports Bit_Types
begin

text \<open>
  \<^verbatim>\<open>WriteMini\<close> and \<^verbatim>\<open>ReadMini\<close>, the compression of an integer whose high bytes are zero (or
  all ones). The bytes of the value are given in the order of the machine's memory, \<open>n\<close> of them
  (\<^verbatim>\<open>bits2Write >> 3\<close>, the size of an integer type, so at least one).
\<close>

section \<open>WriteMini\<close>

fun write_mini_le :: "u8 \<Rightarrow> u8 list \<Rightarrow> nat \<Rightarrow> bstream \<Rightarrow> (bool \<times> bstream) res" where
  "write_mini_le byteMatch src 0 s = Inr (False, s)"
| "write_mini_le byteMatch src (Suc c) s =
     (if src ! Suc c = byteMatch
      then rbind (Write_bool True s) (write_mini_le byteMatch src c)
      else rbind (Write_bool False s) (\<lambda>s1.
           rbind (WriteBits src ((Suc c + 1) * 8) True s1) (\<lambda>s2. Inr (True, s2))))"

text \<open>The big endian loop counts up; \<open>k\<close> is \<^verbatim>\<open>(bits2Write >> 3) - 1 - currByte\<close>.\<close>

fun write_mini_be :: "u8 \<Rightarrow> u8 list \<Rightarrow> nat \<Rightarrow> bstream \<Rightarrow> (bool \<times> bstream) res" where
  "write_mini_be byteMatch src 0 s = Inr (False, s)"
| "write_mini_be byteMatch src (Suc k) s =
     (let currByte = length src - 1 - Suc k
      in if src ! currByte = byteMatch
         then rbind (Write_bool True s) (write_mini_be byteMatch src k)
         else rbind (Write_bool False s) (\<lambda>s1.
              rbind (WriteBits (drop currByte src) (length src * 8 - currByte * 8) True s1) (\<lambda>s2.
                Inr (True, s2))))"

definition WriteMini :: "bool \<Rightarrow> bool \<Rightarrow> u8 list \<Rightarrow> writer" where
  "WriteMini be isUnsigned src s =
     (let byteMatch = (if isUnsigned then 0 else 0xFF); n = length src
      in rbind (if \<not> be then write_mini_le byteMatch src (n - 1) s
                else write_mini_be byteMatch src (n - 1) s) (\<lambda>(returned, s1).
         if returned then Inr s1
         else
           let currByte = (if \<not> be then 0 else n - 1)
           in if src ! currByte AND 0xF0 = 0 \<or> src ! currByte AND 0xF0 = 0xF0
              then rbind (Write_bool True s1) (WriteBits (drop currByte src) 4 True)
              else rbind (Write_bool False s1) (WriteBits (drop currByte src) 8 True)))"

section \<open>ReadMini\<close>

text \<open>
  \<^verbatim>\<open>ReadMini\<close> reads into the memory of a variable, so its result depends on the bytes \<open>dest\<close>
  holds before. The parameter \<^verbatim>\<open>isUnsigned\<close> is overwritten with each bit read.
\<close>

fun read_mini_le :: "u8 \<Rightarrow> nat \<Rightarrow> u8 list \<Rightarrow> (bool \<times> u8 list) reader" where
  "read_mini_le byteMatch 0 dest s = Inr ((False, dest), s)"
| "read_mini_le byteMatch (Suc c) dest s =
     rbind (Read_bool s) (\<lambda>(b, s1).
       if b then rbind (put_at dest (Suc c) byteMatch) (\<lambda>d. read_mini_le byteMatch c d s1)
       else rbind (ReadBits ((Suc c + 1) * 8) True s1) (\<lambda>(out, s2).
            rbind (copy_into dest 0 out (length out)) (\<lambda>d. Inr ((True, d), s2))))"

fun read_mini_be :: "u8 \<Rightarrow> nat \<Rightarrow> u8 list \<Rightarrow> (bool \<times> u8 list) reader" where
  "read_mini_be byteMatch 0 dest s = Inr ((False, dest), s)"
| "read_mini_be byteMatch (Suc k) dest s =
     (let currByte = length dest - 1 - Suc k
      in rbind (Read_bool s) (\<lambda>(b, s1).
         if b then rbind (put_at dest currByte byteMatch) (\<lambda>d. read_mini_be byteMatch k d s1)
         else rbind (ReadBits (length dest * 8 - currByte * 8) True s1) (\<lambda>(out, s2).
              rbind (copy_into dest 0 out (length out)) (\<lambda>d. Inr ((True, d), s2)))))"

definition ReadMini :: "bool \<Rightarrow> bool \<Rightarrow> u8 list \<Rightarrow> u8 list reader" where
  "ReadMini be isUnsigned dest s =
     (let byteMatch = (if isUnsigned then 0 else 0xFF);
          halfByteMatch = (if isUnsigned then 0 else 0xF0); n = length dest
      in rbind (if \<not> be then read_mini_le byteMatch (n - 1) dest s
                else read_mini_be byteMatch (n - 1) dest s) (\<lambda>((returned, d), s1).
         if returned then Inr (d, s1)
         else
           let currByte = (if \<not> be then 0 else n - 1)
           in rbind (rassert (get_payloads s1 \<ge> 1)) (\<lambda>_.
              rbind (Read_bool s1) (\<lambda>(b, s2).
                if b then
                  rbind (ReadBits 4 True s2) (\<lambda>(out, s3).
                  rbind (copy_into d currByte out (length out)) (\<lambda>d1.
                  rbind (get_at d1 currByte) (\<lambda>x.
                  rbind (put_at d1 currByte (x OR halfByteMatch)) (\<lambda>d2. Inr (d2, s3)))))
                else
                  rbind (ReadBits 8 True s2) (\<lambda>(out, s3).
                  rbind (copy_into d currByte out (length out)) (\<lambda>d1. Inr (d1, s3)))))))"

section \<open>The wire format on a little endian machine\<close>

definition nibble_flag :: "u8 \<Rightarrow> bool" where
  "nibble_flag b \<longleftrightarrow> b AND 0xF0 = 0 \<or> b AND 0xF0 = 0xF0"

definition low_bits :: "u8 \<Rightarrow> bool list" where
  "low_bits b = (if nibble_flag b then True # src_bits True [b] 4 else False # byte_bits b)"

fun mini_bits :: "u8 \<Rightarrow> u8 list \<Rightarrow> nat \<Rightarrow> bool list" where
  "mini_bits m src 0 = low_bits (src ! 0)"
| "mini_bits m src (Suc c) =
     (if src ! Suc c = m then True # mini_bits m src c else False # bits_of (take (Suc c + 1) src))"

lemma emits_low: "src \<noteq> [] \<Longrightarrow>
  emits (\<lambda>s. if nibble_flag (src ! 0) then rbind (Write_bool True s) (WriteBits src 4 True)
             else rbind (Write_bool False s) (WriteBits src 8 True)) (low_bits (src ! 0))"
proof -
  assume "src \<noteq> []"
  then obtain b bs where src: "src = b # bs" by (cases src) auto
  have "emits (WriteBits src 4 True) (src_bits True [b] 4)"
    using emits_WriteBits [of 4 src True] src by simp
  moreover have "emits (WriteBits src 8 True) (byte_bits b)"
    using emits_WriteBits [of 8 src True] src by (simp add: src_bits_whole)
  ultimately show ?thesis
    using emits_bind [OF emits_Write_bool [of True]] emits_bind [OF emits_Write_bool [of False]] src
    by (simp add: low_bits_def)
qed

lemma emits_WriteMini:
  assumes "src \<noteq> []"
  shows "emits (WriteMini False u src) (mini_bits (if u then 0 else 0xFF) src (length src - 1))"
proof -
  define m :: u8 where "m = (if u then 0 else 0xFF)"
  define low where "low = (\<lambda>s. if nibble_flag (src ! 0) then rbind (Write_bool True s) (WriteBits src 4 True)
             else rbind (Write_bool False s) (WriteBits src 8 True))"
  have low: "emits low (low_bits (src ! 0))" unfolding low_def by (rule emits_low [OF assms])
  have "emits (\<lambda>s. rbind (write_mini_le m src c s) (\<lambda>(returned, s1). if returned then Inr s1 else low s1))
          (mini_bits m src c)" if "c < length src" for c
    using that
  proof (induction c)
    case 0
    then show ?case using low by simp
  next
    case (Suc c)
    show ?case
    proof (cases "src ! Suc c = m")
      case True
      have "emits (\<lambda>s. rbind (Write_bool True s) (\<lambda>s. rbind (write_mini_le m src c s) (\<lambda>(returned, s1). if returned then Inr s1 else low s1)))
          ([True] @ mini_bits m src c)"
        by (rule emits_bind [OF emits_Write_bool]) (use Suc in auto)
      then show ?thesis using True by (simp add: rbind_assoc)
    next
      case False
      have "emits (WriteBits src ((Suc c + 1) * 8) True) (bits_of (take (Suc c + 1) src))"
        using emits_WriteBits [of "(Suc c + 1) * 8" src True] Suc.prems by (simp add: src_bits_whole)
      then have "emits (\<lambda>s. rbind (Write_bool False s) (\<lambda>s. WriteBits src ((Suc c + 1) * 8) True s))
          ([False] @ bits_of (take (Suc c + 1) src))"
        by (intro emits_bind [OF emits_Write_bool])
      then show ?thesis using False by (simp add: rbind_assoc)
    qed
  qed
  from this [of "length src - 1"]
  have "emits (\<lambda>s. rbind (write_mini_le m src (length src - 1) s) (\<lambda>(returned, s1). if returned then Inr s1 else low s1))
          (mini_bits m src (length src - 1))" using assms by simp
  moreover have "WriteMini False u src
      = (\<lambda>s. rbind (write_mini_le m src (length src - 1) s) (\<lambda>(returned, s1). if returned then Inr s1 else low s1))"
    by (rule ext) (simp add: WriteMini_def Let_def low_def nibble_flag_def cong: if_cong flip: m_def)
  ultimately show ?thesis by (simp add: m_def)
qed

section \<open>Reading it back\<close>

text \<open>
  \<open>mini_back u src\<close> is what the reader restores: the value, except that the high half of the
  lowest byte comes from the sign when it was left out.
\<close>

definition restored_low :: "bool \<Rightarrow> u8 \<Rightarrow> u8" where
  "restored_low u b = (if nibble_flag b then (b AND 0x0F) OR (if u then 0 else 0xF0) else b)"

definition mini_back :: "bool \<Rightarrow> u8 list \<Rightarrow> u8 list" where
  "mini_back u src =
     (if \<forall>i\<in>set [1..<length src]. src ! i = (if u then 0 else 0xFF)
      then src[0 := restored_low u (src ! 0)] else src)"

lemma takes_low_nibble: "takes (ReadBits 4 True) (src_bits True [b] 4) [b AND 0x0F]"
proof -
  have "(0x0F :: u8) = mask 4" by (simp add: mask_eq_exp_minus_1)
  then have bit0F: "bit (0x0F :: u8) i \<longleftrightarrow> i < 4" for i
    by (simp only: bit_mask_iff) auto
  have low: "bit (b AND 0x0F) i \<longleftrightarrow> bit b i \<and> i < 4" for i
    by (simp only: bit_and_iff bit0F)
  have "canonical [b AND 0x0F] 4" using low by (simp del: bit_and_iff)
  moreover have "src_bits True [b AND 0x0F] 4 = src_bits True [b] 4"
  proof (rule nth_equalityI)
    fix i assume "i < length (src_bits True [b AND 0x0F] 4)"
    then have "i < 4" by simp
    then have "bit (push_bit 4 (b AND 0x0F)) (7 - i) = bit (push_bit 4 b) (7 - i)"
      unfolding bit_push_bit_iff low by auto
    then show "src_bits True [b AND 0x0F] 4 ! i = src_bits True [b] 4 ! i"
      using \<open>i < 4\<close> by (simp add: nth_byte_bits)
  qed simp
  ultimately show ?thesis using takes_ReadBits [of 4 "[b AND 0x0F]"] by simp
qed

definition read_low :: "bool \<Rightarrow> u8 list \<Rightarrow> u8 list reader" where
  "read_low u d s =
     rbind (rassert (get_payloads s \<ge> 1)) (\<lambda>_.
     rbind (Read_bool s) (\<lambda>(b, s2).
       if b then
         rbind (ReadBits 4 True s2) (\<lambda>(out, s3).
         rbind (copy_into d 0 out (length out)) (\<lambda>d1.
         rbind (get_at d1 0) (\<lambda>x.
         rbind (put_at d1 0 (x OR (if u then 0 else 0xF0))) (\<lambda>d2. Inr (d2, s3)))))
       else
         rbind (ReadBits 8 True s2) (\<lambda>(out, s3).
         rbind (copy_into d 0 out (length out)) (\<lambda>d1. Inr (d1, s3)))))"

lemma takes_payload_assert:
  assumes "takes d (b # bs) x"
  shows "takes (\<lambda>s. rbind (rassert (get_payloads s \<ge> 1)) (\<lambda>_. d s)) (b # bs) x"
proof (rule takesI)
  fix s rest
  assume r: "readable s (length (b # bs))" and p: "payload s = (b # bs) @ rest"
  have "get_payloads s = length (payload s)"
    by (rule get_payloads_readable) (rule readable_mono [OF r], simp)
  then have "get_payloads s \<ge> 1" using p by simp
  then show "rbind (rassert (get_payloads s \<ge> 1)) (\<lambda>_. d s) = Inr (x, skip_read (length (b # bs)) s)"
    using takesD [OF assms r p] by simp
qed

lemma takes_read_low:
  assumes "d \<noteq> []"
  shows "takes (read_low u d) (low_bits b) (d[0 := restored_low u b])"
proof -
  obtain e ds where d: "d = e # ds" using assms by (cases d) auto
  let ?yes = "\<lambda>s. rbind (ReadBits 4 True s) (\<lambda>(out, s3).
         rbind (copy_into d 0 out (length out)) (\<lambda>d1.
         rbind (get_at d1 0) (\<lambda>x.
         rbind (put_at d1 0 (x OR (if u then 0 else 0xF0))) (\<lambda>d2. Inr (d2, s3)))))"
  let ?no = "\<lambda>s. rbind (ReadBits 8 True s) (\<lambda>(out, s3).
         rbind (copy_into d 0 out (length out)) (\<lambda>d1. Inr (d1, s3)))"
  let ?go = "\<lambda>b s. if b then ?yes s else ?no s"
  show ?thesis
  proof (cases "nibble_flag b")
    case True
    have "takes ?yes (src_bits True [b] 4 @ []) (d[0 := restored_low u b])"
      by (rule takes_bind [OF takes_low_nibble])
        (simp add: d copy_into_ok takes_nothing restored_low_def True)
    then have "takes (?go True) (src_bits True [b] 4) (d[0 := restored_low u b])" by simp
    from takes_bind [where e = ?go, OF takes_Read_bool [of True] this]
    have "takes (\<lambda>s. rbind (Read_bool s) (\<lambda>(b, s1). ?go b s1)) (True # src_bits True [b] 4)
        (d[0 := restored_low u b])" by simp
    then show ?thesis unfolding read_low_def low_bits_def if_P [OF True]
      by (rule takes_payload_assert)
  next
    case False
    have "takes ?no (bits_of [b] @ []) (d[0 := restored_low u b])"
      by (rule takes_bind [OF takes_ReadBits_bytes])
        (simp_all add: d copy_into_ok takes_nothing restored_low_def False)
    then have "takes (?go False) (byte_bits b) (d[0 := restored_low u b])" by simp
    from takes_bind [where e = ?go, OF takes_Read_bool [of False] this]
    have "takes (\<lambda>s. rbind (Read_bool s) (\<lambda>(b, s1). ?go b s1)) (False # byte_bits b)
        (d[0 := restored_low u b])" by simp
    then show ?thesis unfolding read_low_def low_bits_def if_not_P [OF False]
      by (rule takes_payload_assert)
  qed
qed

lemma takes_ReadMini:
  assumes "src \<noteq> []" and "length dest = length src"
  shows "takes (ReadMini False u dest) (mini_bits (if u then 0 else 0xFF) src (length src - 1))
           (mini_back u src)"
proof -
  define m :: u8 where "m = (if u then 0 else 0xFF)"
  let ?k = "\<lambda>((returned, d'), s1). if returned then Inr (d', s1) else read_low u d' s1"
  let ?src = "src[0 := restored_low u (src ! 0)]"
  have "takes (\<lambda>s. rbind (read_mini_le m c d s) ?k) (mini_bits m src c)
          (if \<forall>i\<in>set [1..<Suc c]. src ! i = m then ?src else src)"
    if "c < length src" "length d = length src" "\<forall>i. c < i \<longrightarrow> i < length src \<longrightarrow> d ! i = src ! i" for c d
    using that
  proof (induction c arbitrary: d)
    case 0
    have "d[0 := restored_low u (src ! 0)] = ?src"
    proof (rule nth_equalityI)
      fix i assume "i < length (d[0 := restored_low u (src ! 0)])"
      then show "d[0 := restored_low u (src ! 0)] ! i = ?src ! i"
        using 0 by (cases "i = 0") auto
    qed (use 0 in simp)
    moreover have "d \<noteq> []" using 0 by auto
    ultimately show ?case using takes_read_low [of d u "src ! 0"] by simp
  next
    case (Suc c)
    let ?no = "\<lambda>s1. rbind (ReadBits ((Suc c + 1) * 8) True s1) (\<lambda>(out, s2).
            rbind (copy_into d 0 out (length out)) (\<lambda>d1. ?k ((True, d1), s2)))"
    let ?yes = "\<lambda>s1. rbind (put_at d (Suc c) m) (\<lambda>d1. rbind (read_mini_le m c d1 s1) ?k)"
    let ?go = "\<lambda>b s1. if b then ?yes s1 else ?no s1"
    have eq: "(\<lambda>s. rbind (read_mini_le m (Suc c) d s) ?k) = (\<lambda>s. rbind (Read_bool s) (\<lambda>(b, s1). ?go b s1))"
      by (rule ext) (auto simp: rbind_assoc split_beta intro!: rbind_cong)
    show ?case
    proof (cases "src ! Suc c = m")
      case True
      have "takes ?yes (mini_bits m src c) (if \<forall>i\<in>set [1..<Suc c]. src ! i = m then ?src else src)"
      proof -
        have "d[Suc c := m] ! i = src ! i" if "c < i" "i < length src" for i
          using that Suc.prems True by (cases "i = Suc c") auto
        then show ?thesis using Suc.IH [of "d[Suc c := m]"] Suc.prems by simp
      qed
      then have "takes (?go True) (mini_bits m src c) (if \<forall>i\<in>set [1..<Suc c]. src ! i = m then ?src else src)"
        by simp
      from takes_bind [where e = ?go, OF takes_Read_bool [of True] this]
      show ?thesis unfolding eq using True by simp
    next
      case False
      let ?out = "take (Suc c + 1) src"
      have len: "length ?out = Suc c + 1" using Suc.prems by simp
      have "copy_into d 0 ?out (length ?out) = Inr src"
      proof -
        have "drop (Suc c + 1) d = drop (Suc c + 1) src"
          by (rule nth_equalityI) (use Suc.prems in auto)
        then have "take (Suc c + 1) src @ drop (Suc c + 1) d = src" by simp
        then show ?thesis using Suc.prems len by (simp add: copy_into_ok)
      qed
      then have "takes ?no (bits_of ?out @ []) src"
        using len by (intro takes_bind [OF takes_ReadBits_bytes]) (auto simp: takes_nothing)
      then have "takes (?go False) (bits_of ?out) src" by simp
      from takes_bind [where e = ?go, OF takes_Read_bool [of False] this]
      show ?thesis unfolding eq using False by simp
    qed
  qed
  note all = this
  have "takes (\<lambda>s. rbind (read_mini_le m (length src - 1) dest s) ?k) (mini_bits m src (length src - 1))
          (if \<forall>i\<in>set [1..<Suc (length src - 1)]. src ! i = m then ?src else src)"
    by (rule all) (use assms in auto)
  moreover have "Suc (length src - 1) = length src" using assms(1) by simp
  ultimately have "takes (\<lambda>s. rbind (read_mini_le m (length src - 1) dest s) ?k)
          (mini_bits m src (length src - 1)) (mini_back u src)"
    by (simp only: mini_back_def m_def)
  moreover have "ReadMini False u dest = (\<lambda>s. rbind (read_mini_le m (length src - 1) dest s) ?k)"
    using assms(2) by (intro ext) (simp add: ReadMini_def Let_def read_low_def m_def cong: if_cong)
  ultimately show ?thesis by (simp add: m_def)
qed

section \<open>Which values survive\<close>

definition Write_mini_int :: "bool \<Rightarrow> bool \<Rightarrow> 'a::len word \<Rightarrow> writer" where
  "Write_mini_int be u x = WriteMini be u (mem_bytes be x)"

definition Read_mini_int :: "bool \<Rightarrow> bool \<Rightarrow> 'a::len word \<Rightarrow> 'a word reader" where
  "Read_mini_int be u dest s =
     rbind (ReadMini be u (mem_bytes be dest) s) (\<lambda>(d, s1). Inr (mem_word be d, s1))"

definition mini_wire :: "bool \<Rightarrow> 'a::len word \<Rightarrow> bool list" where
  "mini_wire u x = mini_bits (if u then 0 else 0xFF) (mem_bytes False x) (bytes_of_type x - 1)"

definition mini_value :: "bool \<Rightarrow> 'a::len word \<Rightarrow> 'a word" where
  "mini_value u x = mem_word False (mini_back u (mem_bytes False x))"

lemma emits_Write_mini_int [codec_rules]:
  "byte_type x \<Longrightarrow> emits (Write_mini_int False u x) (mini_wire u x)"
  using emits_WriteMini [of "mem_bytes False x" u] byte_type_size(2) [of x]
  by (simp add: Write_mini_int_def mini_wire_def flip: length_0_conv)

lemma takes_Read_mini_int [codec_rules]:
  assumes "byte_type (x :: 'a::len word)"
  shows "takes (Read_mini_int False u dest) (mini_wire u x) (mini_value u x)"
proof -
  have "bytes_of_type dest = bytes_of_type x" by (simp add: bytes_of_type_def)
  moreover have "mem_bytes False x \<noteq> []"
    using byte_type_size(2) [OF assms] by (simp flip: length_0_conv)
  ultimately have "takes (ReadMini False u (mem_bytes False dest)) (mini_wire u x)
      (mini_back u (mem_bytes False x))"
    using takes_ReadMini [of "mem_bytes False x" "mem_bytes False dest" u] by (simp add: mini_wire_def)
  from takes_map [where f = "mem_word False :: _ \<Rightarrow> 'a word", OF this]
  show ?thesis by (simp add: Read_mini_int_def [abs_def] mini_value_def)
qed

text \<open>
  Of the unsigned values just those from \<open>0xF0\<close> to \<open>0xFF\<close> are damaged: the writer leaves their
  high half byte out because it is \<open>0xF\<close>, and the reader puts \<open>0\<close> there.
\<close>

lemma le_bytes_zero: "le_bytes n (0 :: 'a::len word) = replicate n 0"
  by (induction n) simp_all

lemma drop_bit_8_zero_iff: "drop_bit 8 x = 0 \<longleftrightarrow> unat (x :: 'a::len word) < 256"
proof -
  have "unat (drop_bit 8 x) = unat x div 256"
    unfolding unsigned_drop_bit_eq by (simp add: drop_bit_eq_div take_bit_nat_eq_self)
  then have "unat (drop_bit 8 x) = 0 \<longleftrightarrow> unat x < 256" by (simp add: div_eq_0_iff)
  then show ?thesis by (simp only: unat_0_iff)
qed

lemma nibble_cases:
  "nibble_flag b \<longleftrightarrow> unat b < 16 \<or> 240 \<le> unat (b :: u8)"
proof -
  have "\<forall>i \<in> set [0..<256]. nibble_flag (of_nat i) = (i < 16 \<or> 240 \<le> i)"
    by code_simp
  then have "\<forall>i < 256. nibble_flag (of_nat i) = (i < 16 \<or> 240 \<le> i)" by simp
  moreover have "unat b < 256" using unsigned_less [of b] by simp
  ultimately have "nibble_flag (of_nat (unat b)) = (unat b < 16 \<or> 240 \<le> unat b)" by blast
  then show ?thesis by simp
qed

lemma restored_low_unsigned:
  "restored_low True b = b \<longleftrightarrow> unat (b :: u8) < 240"
proof -
  have "\<forall>i \<in> set [0..<256]. (restored_low True (of_nat i) = of_nat i) = (i < 240)"
    by code_simp
  then have "\<forall>i < 256. (restored_low True (of_nat i) = of_nat i) = (i < 240)" by simp
  moreover have "unat b < 256" using unsigned_less [of b] by simp
  ultimately have "(restored_low True (of_nat (unat b)) = of_nat (unat b)) = (unat b < 240)" by blast
  then show ?thesis by simp
qed

lemma le_bytes_drop_zero:
  assumes "LENGTH('a) \<le> 8 * Suc k"
  shows "le_bytes k (drop_bit 8 (x :: 'a::len word)) = replicate k 0 \<longleftrightarrow> drop_bit 8 x = 0"
proof
  assume z: "le_bytes k (drop_bit 8 x) = replicate k 0"
  have "le_word (le_bytes k (drop_bit 8 x)) = drop_bit 8 x"
    by (rule bit_word_eqI) (use assms bit_imp_le_length in \<open>force simp: bit_le_word_le_bytes bit_drop_bit_eq\<close>)
  moreover have "le_word (replicate k 0) = (0 :: 'a word)" by (induction k) simp_all
  ultimately show "drop_bit 8 x = 0" using z by simp
qed (simp add: le_bytes_zero)

lemma mini_back_Cons:
  "mini_back u (b # bs)
     = (if bs = replicate (length bs) (if u then 0 else 0xFF) then restored_low u b # bs else b # bs)"
proof -
  have "(\<forall>i\<in>set [1..<length (b # bs)]. (b # bs) ! i = c) \<longleftrightarrow> bs = replicate (length bs) c" for c
  proof
    assume all: "\<forall>i\<in>set [1..<length (b # bs)]. (b # bs) ! i = c"
    show "bs = replicate (length bs) c"
    proof (rule nth_equalityI)
      fix i assume i: "i < length bs"
      then have "(b # bs) ! Suc i = c" using all by (intro bspec [OF all]) auto
      then show "bs ! i = replicate (length bs) c ! i" using i by simp
    qed simp
  next
    assume eq: "bs = replicate (length bs) c"
    have "bs ! j = c" if "j < length bs" for j by (subst eq) (use that in simp)
    then show "\<forall>i\<in>set [1..<length (b # bs)]. (b # bs) ! i = c" by (auto simp: nth_Cons split: nat.split)
  qed
  then show ?thesis by (simp add: mini_back_def)
qed

theorem mini_unsigned_lossless:
  assumes "byte_type (x :: 'a::len word)"
  shows "mini_value True x = x \<longleftrightarrow> unat x < 0xF0 \<or> 0x100 \<le> unat x"
proof -
  define k where "k = bytes_of_type x - 1"
  have sz: "bytes_of_type x = Suc k" "8 * Suc k = LENGTH('a)"
    using byte_type_size [OF assms] by (simp_all add: k_def)
  let ?b = "ucast x :: u8" and ?bs = "le_bytes k (drop_bit 8 x)"
  have mem: "mem_bytes False x = ?b # ?bs" by (simp add: mem_bytes_def sz)
  have orig: "le_word (?b # ?bs) = x" using le_word_le_bytes [of "Suc k" x] sz by simp
  have inj: "le_word (c # ?bs) = x \<longleftrightarrow> c = ?b" for c
  proof
    assume "le_word (c # ?bs) = x"
    then have "le_bytes (Suc k) (le_word (c # ?bs) :: 'a word) = le_bytes (Suc k) x" by simp
    then show "c = ?b" using le_bytes_le_word [of "c # ?bs", where 'a = 'a] sz by simp
  qed (use orig in simp)
  show ?thesis
  proof (cases "drop_bit 8 x = 0")
    case True
    then have small: "unat x < 256" by (simp add: drop_bit_8_zero_iff)
    then have u: "unat ?b = unat x" by (simp add: unsigned_ucast_eq take_bit_nat_eq_self)
    have "?bs = replicate (length ?bs) 0" using True by (simp add: le_bytes_zero)
    then have "mini_back True (?b # ?bs) = restored_low True ?b # ?bs" by (simp add: mini_back_Cons)
    then have "mini_value True x = x \<longleftrightarrow> restored_low True ?b = ?b"
      using inj by (simp add: mini_value_def mem_word_def mem del: le_word.simps)
    then show ?thesis using u small by (simp add: restored_low_unsigned)
  next
    case False
    then have "\<not> unat x < 256" by (simp add: drop_bit_8_zero_iff)
    moreover have "?bs \<noteq> replicate (length ?bs) 0" using False le_bytes_drop_zero [of k x] sz by simp
    ultimately show ?thesis
      using orig by (simp add: mini_value_def mem_word_def mem mini_back_Cons)
  qed
qed

interpretation mini32_codec: codec "Write_mini_int False True :: u32 \<Rightarrow> writer"
  "Read_mini_int False True dest" "mini_wire True" "\<lambda>x. unat x < 0xF0 \<or> 0x100 \<le> unat x" for dest
proof
  fix x :: u32 assume x: "unat x < 0xF0 \<or> 0x100 \<le> unat x"
  show "emits (Write_mini_int False True x) (mini_wire True x)" by (simp add: codec_rules)
  have "mini_value True x = x" using x mini_unsigned_lossless [of x] by simp
  then show "takes (Read_mini_int False True dest) (mini_wire True x) x"
    using takes_Read_mini_int [of x True dest] by simp
qed

lemma length_mini_wire:
  assumes "byte_type (x :: 'a::len word)"
  shows "length (mini_wire u x) \<le> 9 * bytes_of_type x"
proof -
  have low: "length (low_bits b) \<le> 9" for b by (simp add: low_bits_def)
  have "length (mini_bits m src c) \<le> 9 * Suc c" if "c < length src" for m src c
    using that
  proof (induction c)
    case 0
    then show ?case using low by simp
  qed auto
  from this [of "bytes_of_type x - 1" "mem_bytes False x" "if u then 0 else 0xFF"]
  show ?thesis using byte_type_size(2) [OF assms] by (simp add: mini_wire_def)
qed

end
