(* ===== verification/Bit_Ranged.thy ===== *)
theory Bit_Ranged
  imports Bit_Mini
begin

text \<open>
  Integers of a known range: \<^verbatim>\<open>get_leading_zeros_size\<close>, \<^verbatim>\<open>write_ranged_integer\<close> and
  \<^verbatim>\<open>ReadIntegerRange\<close> of \<^verbatim>\<open>include/geco-bit-stream.h\<close>, at the unsigned types. Only the bits the
  largest distance from the minimum needs are written.
\<close>

section \<open>Leading zeros\<close>

text \<open>One line \<^verbatim>\<open>y = x >> k; if (y != 0) { n = n - k; x = y; }\<close> of the functions.\<close>

definition lz_step :: "nat \<Rightarrow> nat \<times> nat \<Rightarrow> nat \<times> nat" where
  "lz_step k = (\<lambda>(n, x). let y = drop_bit k x in if y \<noteq> 0 then (n - k, y) else (n, x))"

definition lz_last :: "nat \<times> nat \<Rightarrow> nat" where
  "lz_last = (\<lambda>(n, x). let y = drop_bit 1 x in if y \<noteq> 0 then n - 2 else n - x)"

definition get_leading_zeros_size8 :: "u8 \<Rightarrow> nat" where
  "get_leading_zeros_size8 x = lz_last (lz_step 2 (lz_step 4 (8, unat x)))"

definition get_leading_zeros_size16 :: "u16 \<Rightarrow> nat" where
  "get_leading_zeros_size16 x = lz_last (lz_step 2 (lz_step 4 (lz_step 8 (16, unat x))))"

definition get_leading_zeros_size32 :: "u32 \<Rightarrow> nat" where
  "get_leading_zeros_size32 x =
     lz_last (lz_step 2 (lz_step 4 (lz_step 8 (lz_step 16 (32, unat x)))))"

definition get_leading_zeros_size64 :: "u64 \<Rightarrow> nat" where
  "get_leading_zeros_size64 x =
     lz_last (lz_step 2 (lz_step 4 (lz_step 8 (lz_step 16 (lz_step 32 (64, unat x))))))"

text \<open>The number of bits of a number.\<close>

fun bitlen :: "nat \<Rightarrow> nat" where
  "bitlen n = (if n = 0 then 0 else Suc (bitlen (n div 2)))"

declare bitlen.simps [simp del]

lemma bitlen_0 [simp]: "bitlen 0 = 0" by (simp add: bitlen.simps)

lemma bitlen_pos: "n \<noteq> 0 \<Longrightarrow> bitlen n = Suc (bitlen (n div 2))" by (subst bitlen.simps) simp

lemma bitlen_less: "n < 2 ^ bitlen n"
proof (induction n rule: bitlen.induct)
  case (1 n)
  then show ?case by (cases "n = 0") (auto simp: bitlen_pos)
qed

lemma bitlen_le: "n \<noteq> 0 \<Longrightarrow> 2 ^ (bitlen n - 1) \<le> n"
proof (induction n rule: bitlen.induct)
  case (1 n)
  show ?case
  proof (cases "n div 2 = 0")
    case True
    then have "n = 1" using 1(2) by auto
    then show ?thesis by (simp add: bitlen_pos)
  next
    case False
    then have "2 ^ (bitlen (n div 2) - 1) \<le> n div 2" "0 < bitlen (n div 2)"
      using 1 by (auto simp: bitlen_pos)
    then have "2 ^ bitlen (n div 2) \<le> 2 * (n div 2)"
      by (metis Suc_diff_1 mult_le_mono2 power_Suc)
    then show ?thesis using 1(2) by (simp add: bitlen_pos)
  qed
qed

lemma bitlen_div: "n div 2 ^ k \<noteq> 0 \<Longrightarrow> bitlen n = bitlen (n div 2 ^ k) + k"
proof (induction k arbitrary: n)
  case (Suc k)
  have d: "n div 2 ^ Suc k = n div 2 div 2 ^ k" by (simp add: div_mult2_eq mult.commute)
  have "n \<noteq> 0" using Suc.prems by (metis div_0)
  then have "bitlen n = Suc (bitlen (n div 2))" by (rule bitlen_pos)
  then show ?case using Suc.IH [of "n div 2"] Suc.prems d by simp
qed simp

definition lz_inv :: "nat \<Rightarrow> nat \<Rightarrow> nat \<Rightarrow> nat \<times> nat \<Rightarrow> bool" where
  "lz_inv w x0 b p \<longleftrightarrow> snd p < 2 ^ b \<and> b \<le> fst p \<and> fst p + bitlen x0 = w + bitlen (snd p)"

lemma lz_step_inv: "lz_inv w x0 (k + k) p \<Longrightarrow> lz_inv w x0 k (lz_step k p)"
proof -
  assume inv: "lz_inv w x0 (k + k) p"
  obtain n x where p: "p = (n, x)" by (cases p)
  have x: "x < 2 ^ (k + k)" "k + k \<le> n" "n + bitlen x0 = w + bitlen x" using inv p by (auto simp: lz_inv_def)
  show ?thesis
  proof (cases "x div 2 ^ k = 0")
    case True
    then have "x < 2 ^ k" by (simp add: div_eq_0_iff)
    then show ?thesis using True x p by (simp add: lz_step_def lz_inv_def drop_bit_eq_div)
  next
    case False
    have "x div 2 ^ k < 2 ^ k" using x(1) by (simp add: power_add less_mult_imp_div_less)
    then show ?thesis using False bitlen_div [OF False] x p
      by (simp add: lz_step_def lz_inv_def drop_bit_eq_div)
  qed
qed

lemma lz_last_inv: "lz_inv w x0 2 p \<Longrightarrow> lz_last p + bitlen x0 = w"
proof -
  assume inv: "lz_inv w x0 2 p"
  obtain n x where p: "p = (n, x)" by (cases p)
  have x: "x < 4" "2 \<le> n" "n + bitlen x0 = w + bitlen x" using inv p by (auto simp: lz_inv_def)
  have "x \<in> {0, 1, 2, 3}" using x(1) by auto
  then show ?thesis using x p by (auto simp: lz_last_def drop_bit_eq_div bitlen_pos)
qed

lemma lz_start: "LENGTH('a::len) = w \<Longrightarrow> lz_inv w (unat x) w (w, unat (x :: 'a word))"
  using unsigned_less [of x, where ?'a = nat] by (auto simp: lz_inv_def)

lemma get_leading_zeros_size:
  "get_leading_zeros_size8 a + bitlen (unat a) = 8"
  "get_leading_zeros_size16 b + bitlen (unat b) = 16"
  "get_leading_zeros_size32 c + bitlen (unat c) = 32"
  "get_leading_zeros_size64 d + bitlen (unat d) = 64"
  unfolding get_leading_zeros_size8_def get_leading_zeros_size16_def
    get_leading_zeros_size32_def get_leading_zeros_size64_def
  by (rule lz_last_inv, (rule lz_step_inv, simp)+, rule lz_start, simp)+

section \<open>Integers of a range\<close>

definition write_ranged_bits :: "bool \<Rightarrow> 'a::len word \<Rightarrow> 'a word \<Rightarrow> 'a word \<Rightarrow> nat \<Rightarrow> bool \<Rightarrow> writer" where
  "write_ranged_bits be value mini maxi requiredBits allowOutsideRange s =
     rbind (rassert (maxi \<ge> mini)) (\<lambda>_.
     rbind (rassert (allowOutsideRange \<or> (value \<ge> mini \<and> value \<le> maxi))) (\<lambda>_.
       let inside = (\<lambda>s1. let valueBeyondMini = value - mini
             in if be then
                  WriteBits (ReverseBytes (mem_bytes be valueBeyondMini) (bytes_of_type value))
                    requiredBits True s1
                else WriteBits (mem_bytes be valueBeyondMini) requiredBits True s1)
       in if allowOutsideRange then
            if value < mini \<or> value > maxi then
              rbind (Write_bool True s) (Write_mini_int be True value)
            else rbind (Write_bool False s) inside
          else inside s))"

definition read_ranged_bits ::
  "bool \<Rightarrow> 'a::len word \<Rightarrow> 'a word \<Rightarrow> 'a word \<Rightarrow> nat \<Rightarrow> bool \<Rightarrow> 'a word reader" where
  "read_ranged_bits be value minimum maximum requiredBits allowOutsideRange s =
     rbind (rassert (maximum \<ge> minimum)) (\<lambda>_.
       let inside = (\<lambda>s1.
             rbind (ReadBits requiredBits True s1) (\<lambda>(out, s2).
             rbind (copy_into (mem_bytes be (0 :: 'a word)) 0 out (length out)) (\<lambda>m.
               let v = mem_word be (if be then ReverseBytes_in_place m (bytes_of_type value) else m)
               in Inr (v + minimum, s2))))
       in if allowOutsideRange then
            rbind (Read_bool s) (\<lambda>(isOutsideRange, s1).
              if isOutsideRange then Read_mini_int be True value s1 else inside s1)
          else inside s)"

definition write_ranged_integer ::
  "('a::len word \<Rightarrow> nat) \<Rightarrow> bool \<Rightarrow> 'a word \<Rightarrow> 'a word \<Rightarrow> 'a word \<Rightarrow> bool \<Rightarrow> writer" where
  "write_ranged_integer leading_zeros be value mini maxi allowOutsideRange =
     (let diff = maxi - mini; requiredBits = BYTES_TO_BITS (bytes_of_type value) - leading_zeros diff
      in write_ranged_bits be value mini maxi requiredBits allowOutsideRange)"

definition ReadIntegerRange ::
  "('a::len word \<Rightarrow> nat) \<Rightarrow> bool \<Rightarrow> 'a word \<Rightarrow> 'a word \<Rightarrow> 'a word \<Rightarrow> bool \<Rightarrow> 'a word reader" where
  "ReadIntegerRange leading_zeros be value minimum maximum allowOutsideRange =
     (let diff = maximum - minimum;
          requiredBits = BYTES_TO_BITS (bytes_of_type value) - leading_zeros diff
      in read_ranged_bits be value minimum maximum requiredBits allowOutsideRange)"

definition range_wire :: "nat \<Rightarrow> 'a::len word \<Rightarrow> bool list" where
  "range_wire n x = src_bits True (le_bytes (bytes_of_type x) x) n"

lemma canonical_le_bytes:
  "unat (x :: 'a::len word) < 2 ^ n \<Longrightarrow> m = (n + 7) div 8 \<Longrightarrow> canonical (le_bytes m x) n"
proof (induction m arbitrary: x n)
  case 0
  then have "n = 0" by arith
  then show ?case by simp
next
  case (Suc m)
  show ?case
  proof (cases "n \<ge> 8")
    case True
    have "unat (drop_bit 8 x) = unat x div 256"
      unfolding unsigned_drop_bit_eq by (simp add: drop_bit_eq_div take_bit_nat_eq_self)
    moreover have "(2 :: nat) ^ n = 2 ^ (n - 8) * 256"
      using True power_add [of "2 :: nat" "n - 8" 8] by simp
    ultimately have "unat (drop_bit 8 x) < 2 ^ (n - 8)"
      using Suc.prems(1) by (simp only: less_mult_imp_div_less)
    moreover have "m = (n - 8 + 7) div 8" using Suc.prems(2) True by arith
    ultimately have "canonical (le_bytes m (drop_bit 8 x)) (n - 8)" by (rule Suc.IH)
    then show ?thesis using True by simp
  next
    case False
    then have "m = 0" "0 < n" using Suc.prems(2) by arith+
    then show ?thesis using False bit_above [OF Suc.prems(1)] by (auto simp: bit_simps)
  qed
qed

lemma src_bits_take: "src_bits right (take ((n + 7) div 8) bs) n = src_bits right bs n"
proof (induction right bs n rule: src_bits.induct)
  case (2 right b bs n)
  show ?case
  proof (cases "n \<ge> 8")
    case True
    then have "(n + 7) div 8 = Suc ((n - 8 + 7) div 8)" by arith
    with True 2 show ?thesis by simp
  next
    case False
    show ?thesis
    proof (cases "n = 0")
      case False
      then have "(n + 7) div 8 = 1" using \<open>\<not> n \<ge> 8\<close> by (intro div_nat_eqI) auto
      then show ?thesis using \<open>\<not> n \<ge> 8\<close> by simp
    qed simp
  qed
qed simp

lemma le_bytes_split: "le_bytes (m + k) x = le_bytes m x @ le_bytes k (drop_bit (8 * m) x)"
  by (induction m arbitrary: x) (simp_all add: drop_bit_drop_bit add.commute)

lemma le_bytes_pad:
  assumes "unat (x :: 'a::len word) < 2 ^ n" and "n \<le> 8 * m"
  shows "le_bytes (m + k) x = le_bytes m x @ replicate k 0"
proof -
  have "drop_bit (8 * m) x = 0"
    by (rule bit_word_eqI) (use assms bit_above [OF assms(1)] in \<open>auto simp: bit_simps\<close>)
  then show ?thesis by (simp add: le_bytes_split le_bytes_zero)
qed

section \<open>Round trip\<close>

definition write_inside :: "bool \<Rightarrow> 'a::len word \<Rightarrow> nat \<Rightarrow> writer" where
  "write_inside be v requiredBits =
     WriteBits (if be then ReverseBytes (mem_bytes be v) (bytes_of_type v) else mem_bytes be v)
       requiredBits True"

definition read_inside :: "bool \<Rightarrow> 'a::len word \<Rightarrow> nat \<Rightarrow> 'a word reader" where
  "read_inside be minimum requiredBits s =
     rbind (ReadBits requiredBits True s) (\<lambda>(out, s2).
     rbind (copy_into (mem_bytes be (0 :: 'a word)) 0 out (length out)) (\<lambda>m.
       Inr (mem_word be (if be then ReverseBytes_in_place m (bytes_of_type minimum) else m) + minimum, s2)))"

lemma emits_inside:
  assumes "0 < rb" "rb \<le> 8 * bytes_of_type v"
  shows "emits (write_inside be v rb) (range_wire rb v)"
proof -
  have "(if be then ReverseBytes (mem_bytes be v) (bytes_of_type v) else mem_bytes be v)
      = le_bytes (bytes_of_type v) v"
    using ReverseBytes_rev [of "rev (le_bytes (bytes_of_type v) v)"] by (simp add: mem_bytes_def)
  then show ?thesis
    using emits_WriteBits [of rb "le_bytes (bytes_of_type v) v" True] assms
    by (simp add: write_inside_def range_wire_def)
qed

lemma takes_inside:
  assumes rb: "0 < rb" "rb \<le> 8 * bytes_of_type v" and v: "unat (v :: 'a::len word) < 2 ^ rb"
    and bt: "byte_type v"
  shows "takes (read_inside be minimum rb) (range_wire rb v) (v + minimum)"
proof -
  define sz where "sz = bytes_of_type v"
  define m where "m = (rb + 7) div 8"
  have m: "m \<le> sz" "rb \<le> 8 * m" using rb(2) by (simp_all add: m_def sz_def)
  have sizes: "bytes_of_type (0 :: 'a word) = sz" "bytes_of_type minimum = sz"
    by (simp_all add: sz_def bytes_of_type_def)
  have sz: "LENGTH('a) \<le> 8 * sz" using byte_type_size [OF bt] by (simp add: sz_def)
  have pad: "le_bytes m v @ replicate (sz - m) 0 = le_bytes sz v"
    using le_bytes_pad [OF v m(2), of "sz - m"] m(1) by simp
  have tk: "take m (le_bytes sz v) = le_bytes m v" unfolding pad [symmetric] by simp
  have wire: "range_wire rb v = src_bits True (le_bytes m v) rb"
    using src_bits_take [of True rb "le_bytes sz v"] tk by (simp add: range_wire_def m_def sz_def)
  have rd: "takes (ReadBits rb True) (range_wire rb v) (le_bytes m v)"
    unfolding wire by (rule takes_ReadBits [OF rb(1) canonical_le_bytes [OF v]]) (simp add: m_def)
  have zero: "mem_bytes be (0 :: 'a word) = replicate sz 0"
    by (simp add: mem_bytes_def sizes le_bytes_zero)
  have "copy_into (mem_bytes be (0 :: 'a word)) 0 (le_bytes m v) (length (le_bytes m v)) = Inr (le_bytes sz v)"
    using m(1) by (simp add: zero copy_into_ok pad)
  moreover have "mem_word be (if be then ReverseBytes_in_place (le_bytes sz v) sz else le_bytes sz v) = v"
    using le_word_le_bytes [OF sz, of v] ReverseBytes_in_place_rev [of sz "le_bytes sz v"]
    by (simp add: mem_word_def)
  ultimately have *: "takes (\<lambda>s2. rbind (copy_into (mem_bytes be (0 :: 'a word)) 0 (le_bytes m v) (length (le_bytes m v))) (\<lambda>m.
       Inr (mem_word be (if be then ReverseBytes_in_place m (bytes_of_type minimum) else m) + minimum, s2))) []
      (v + minimum)"
    by (cases be) (simp_all add: sizes takes_nothing)
  show ?thesis
    unfolding read_inside_def
    using takes_bind [where e = "\<lambda>out s2. rbind (copy_into (mem_bytes be (0 :: 'a word)) 0 out (length out)) (\<lambda>m.
       Inr (mem_word be (if be then ReverseBytes_in_place m (bytes_of_type minimum) else m) + minimum, s2))",
      OF rd *] by simp
qed

definition ranged_wire :: "nat \<Rightarrow> 'a::len word \<Rightarrow> 'a word \<Rightarrow> 'a word \<Rightarrow> bool \<Rightarrow> bool list" where
  "ranged_wire rb value mini maxi allow =
     (if allow then
        if value < mini \<or> value > maxi then True # mini_wire True value
        else False # range_wire rb (value - mini)
      else range_wire rb (value - mini))"

lemma write_ranged_bits_eq:
  "mini \<le> maxi \<Longrightarrow> allow \<or> mini \<le> value \<and> value \<le> maxi \<Longrightarrow>
   write_ranged_bits be value mini maxi rb allow =
     (if allow then
        if value < mini \<or> value > maxi then (\<lambda>s. rbind (Write_bool True s) (Write_mini_int be True value))
        else (\<lambda>s. rbind (Write_bool False s) (write_inside be (value - mini) rb))
      else write_inside be (value - mini) rb)"
  by (rule ext) (simp add: write_ranged_bits_def write_inside_def bytes_of_type_def Let_def)

lemma read_ranged_bits_eq:
  "minimum \<le> maximum \<Longrightarrow>
   read_ranged_bits be dest minimum maximum rb allow =
     (if allow then (\<lambda>s. rbind (Read_bool s) (\<lambda>(isOutsideRange, s1).
        (if isOutsideRange then Read_mini_int be True dest else read_inside be minimum rb) s1))
      else read_inside be minimum rb)"
  by (rule ext)
    (auto simp: read_ranged_bits_def read_inside_def bytes_of_type_def Let_def split_beta intro!: rbind_cong)

lemma range_bits:
  assumes mm: "mini < maxi" and inside: "mini \<le> value" "value \<le> (maxi :: 'a::len word)"
    and bt: "byte_type value" and rb: "rb = bitlen (unat (maxi - mini))"
  shows "0 < rb" "rb \<le> 8 * bytes_of_type (value - mini)" "unat (value - mini) < 2 ^ rb"
    "byte_type (value - mini)"
proof -
  have "maxi - mini \<noteq> 0" using mm by auto
  then have nz: "unat (maxi - mini) \<noteq> 0" by (simp add: unat_0_iff)
  then show pos: "0 < rb" by (simp add: rb bitlen_pos)
  show bt': "byte_type (value - mini)" using bt by (simp add: byte_type_def)
  have "(2 :: nat) ^ (rb - 1) \<le> unat (maxi - mini)" using bitlen_le [OF nz] by (simp add: rb)
  also have "\<dots> < 2 ^ LENGTH('a)" by simp
  finally have "rb - 1 < LENGTH('a)" by simp
  then show "rb \<le> 8 * bytes_of_type (value - mini)" using pos byte_type_size(1) [OF bt'] by simp
  have "unat (value - mini) \<le> unat (maxi - mini)"
    using inside mm by (simp add: unat_sub word_le_nat_alt)
  also have "\<dots> < 2 ^ rb" using bitlen_less by (simp add: rb)
  finally show "unat (value - mini) < 2 ^ rb" .
qed

lemma ranged_inside:
  assumes mm: "mini < maxi" and inside: "mini \<le> value" "value \<le> (maxi :: 'a::len word)"
    and bt: "byte_type value" and rb: "rb = bitlen (unat (maxi - mini))"
  shows "emits (write_ranged_bits be value mini maxi rb allow) (ranged_wire rb value mini maxi allow)"
    and "takes (read_ranged_bits be' dest mini maxi rb allow) (ranged_wire rb value mini maxi allow) value"
proof -
  note range = range_bits [OF assms]
  have le: "mini \<le> maxi" "\<not> (value < mini \<or> maxi < value)" using mm inside by auto
  have e: "emits (write_inside be (value - mini) rb) (range_wire rb (value - mini))"
    using range(1,2) by (rule emits_inside)
  have t: "takes (read_inside be' mini rb) (range_wire rb (value - mini)) value"
    using takes_inside [OF range, of be' mini] by simp
  show "emits (write_ranged_bits be value mini maxi rb allow) (ranged_wire rb value mini maxi allow)"
    using e emits_bind [OF emits_Write_bool e, of False] le inside
    by (simp add: write_ranged_bits_eq ranged_wire_def)
  have "takes (\<lambda>s. rbind (Read_bool s) (\<lambda>(isOutsideRange, s1).
        (if isOutsideRange then Read_mini_int be' True dest else read_inside be' mini rb) s1))
      ([False] @ range_wire rb (value - mini)) value"
    by (rule takes_bind [OF takes_Read_bool]) (simp add: t)
  then show "takes (read_ranged_bits be' dest mini maxi rb allow) (ranged_wire rb value mini maxi allow) value"
    using t le inside by (simp add: read_ranged_bits_eq ranged_wire_def)
qed

lemma ranged_outside:
  assumes mm: "mini \<le> maxi" and outside: "value < mini \<or> maxi < (value :: 'a::len word)"
    and bt: "byte_type value"
  shows "emits (write_ranged_bits False value mini maxi rb True) (ranged_wire rb value mini maxi True)"
    and "takes (read_ranged_bits False dest mini maxi rb True) (ranged_wire rb value mini maxi True)
           (mini_value True value)"
proof -
  show "emits (write_ranged_bits False value mini maxi rb True) (ranged_wire rb value mini maxi True)"
    using emits_bind [OF emits_Write_bool emits_Write_mini_int [OF bt], of True True] mm outside
    by (simp add: write_ranged_bits_eq ranged_wire_def)
  have "takes (\<lambda>s. rbind (Read_bool s) (\<lambda>(isOutsideRange, s1).
        (if isOutsideRange then Read_mini_int False True dest else read_inside False mini rb) s1))
      ([True] @ mini_wire True value) (mini_value True value)"
    by (rule takes_bind [OF takes_Read_bool]) (simp add: takes_Read_mini_int [OF bt])
  then show "takes (read_ranged_bits False dest mini maxi rb True) (ranged_wire rb value mini maxi True)
      (mini_value True value)"
    using mm outside by (simp add: read_ranged_bits_eq ranged_wire_def)
qed

text \<open>The wrappers compute the bits from the leading zeros.\<close>

lemma required_bits_u32:
  "BYTES_TO_BITS (bytes_of_type (x :: u32)) - get_leading_zeros_size32 d = bitlen (unat d)"
  using get_leading_zeros_size(3) [of d] by (simp add: BYTES_TO_BITS_def shl32_def)

lemma required_bits_u64:
  "BYTES_TO_BITS (bytes_of_type (x :: u64)) - get_leading_zeros_size64 d = bitlen (unat d)"
  using get_leading_zeros_size(4) [of d] by (simp add: BYTES_TO_BITS_def shl32_def)

lemma required_bits_u16:
  "BYTES_TO_BITS (bytes_of_type (x :: u16)) - get_leading_zeros_size16 d = bitlen (unat d)"
  using get_leading_zeros_size(2) [of d] by (simp add: BYTES_TO_BITS_def shl32_def)

lemma required_bits_u8:
  "BYTES_TO_BITS (bytes_of_type (x :: u8)) - get_leading_zeros_size8 d = bitlen (unat d)"
  using get_leading_zeros_size(1) [of d] by (simp add: BYTES_TO_BITS_def shl32_def)

lemmas required_bits = required_bits_u8 required_bits_u16 required_bits_u32 required_bits_u64

end
