(* ===== verification/Fast_Hash.thy ===== *)
theory Fast_Hash
  imports Geco_Prelude
begin

text \<open>
  The hash functions of \<^verbatim>\<open>src/geco-globals.cpp\<close>. \<^verbatim>\<open>char\<close> is signed on the supported compilers,
  so a single byte is sign-extended, while \<^verbatim>\<open>get16bits\<close> goes through \<^verbatim>\<open>unsigned char\<close>.
\<close>

section \<open>One block\<close>

definition get16bits :: "u8 \<Rightarrow> u8 \<Rightarrow> u32" where
  "get16bits b0 b1 = push_bit 8 (ucast b1) + ucast b0"

fun hash_words :: "nat \<Rightarrow> u8 list \<Rightarrow> u32 \<Rightarrow> u32 \<times> u8 list" where
  "hash_words (Suc n) (b0 # b1 # b2 # b3 # data) hash =
     (let hash = hash + get16bits b0 b1;
          tmp = push_bit 11 (get16bits b2 b3) XOR hash;
          hash = push_bit 16 hash XOR tmp
      in hash_words n data (hash + drop_bit 11 hash))"
| "hash_words _ data hash = (hash, data)"

definition hash_tail :: "nat \<Rightarrow> u8 list \<Rightarrow> u32 \<Rightarrow> u32" where
  "hash_tail rem data hash =
     (if rem = 3 then
        let hash = hash + get16bits (data ! 0) (data ! 1);
            hash = hash XOR push_bit 16 hash;
            hash = hash XOR push_bit 18 (scast (data ! 2))
        in hash + drop_bit 11 hash
      else if rem = 2 then
        let hash = hash + get16bits (data ! 0) (data ! 1);
            hash = hash XOR push_bit 11 hash
        in hash + drop_bit 17 hash
      else if rem = 1 then
        let hash = hash + scast (data ! 0);
            hash = hash XOR push_bit 10 hash
        in hash + drop_bit 1 hash
      else hash)"

definition hash_avalanche :: "u32 \<Rightarrow> u32" where
  "hash_avalanche hash =
     (let hash = hash XOR push_bit 3 hash;
          hash = hash + drop_bit 5 hash;
          hash = hash XOR push_bit 4 hash;
          hash = hash + drop_bit 17 hash;
          hash = hash XOR push_bit 25 hash
      in hash + drop_bit 6 hash)"

text \<open>\<open>data\<close> holds the \<open>len\<close> bytes the function is told of; the null pointer is \<open>None\<close>.\<close>

definition SuperFastHashIncremental :: "u8 list option \<Rightarrow> nat \<Rightarrow> u32 \<Rightarrow> u32 res" where
  "SuperFastHashIncremental data len lastHash =
     (case data of
        None \<Rightarrow> Inr 0
      | Some bs \<Rightarrow>
          if len = 0 then Inr 0
          else if len > length bs then Inl OutOfBounds
          else let (hash, rest) = hash_words (len div 4) bs lastHash
               in Inr (hash_avalanche (hash_tail (len mod 4) rest hash)))"

section \<open>The whole data\<close>

abbreviation INCREMENTAL_READ_BLOCK :: nat where
  "INCREMENTAL_READ_BLOCK \<equiv> 65536"

function hash_blocks :: "u8 list \<Rightarrow> nat \<Rightarrow> u32 \<Rightarrow> u32 res" where
  "hash_blocks data bytesRemaining lastHash =
     (if bytesRemaining \<ge> INCREMENTAL_READ_BLOCK then
        rbind (SuperFastHashIncremental (Some data) INCREMENTAL_READ_BLOCK lastHash)
          (hash_blocks (drop INCREMENTAL_READ_BLOCK data) (bytesRemaining - INCREMENTAL_READ_BLOCK))
      else if bytesRemaining > 0 then SuperFastHashIncremental (Some data) bytesRemaining lastHash
      else Inr lastHash)"
  by pat_completeness auto
termination
  by (relation "measure (\<lambda>(_, n, _). n)") auto

declare hash_blocks.simps [simp del]

definition SuperFastHash :: "u8 list \<Rightarrow> nat \<Rightarrow> u32 res" where
  "SuperFastHash data len = hash_blocks data len (of_nat len)"

text \<open>
  The file variant reads each block into a buffer of its own: \<^verbatim>\<open>fread\<close> delivers the next bytes
  of the file, whose length \<^verbatim>\<open>ftell\<close> has returned before.
\<close>

function hash_file_blocks :: "u8 list \<Rightarrow> nat \<Rightarrow> u32 \<Rightarrow> u32 res" where
  "hash_file_blocks file bytesRemaining lastHash =
     (if bytesRemaining \<ge> INCREMENTAL_READ_BLOCK then
        let readBlock = take INCREMENTAL_READ_BLOCK file
        in rbind (SuperFastHashIncremental (Some readBlock) INCREMENTAL_READ_BLOCK lastHash)
             (hash_file_blocks (drop INCREMENTAL_READ_BLOCK file) (bytesRemaining - INCREMENTAL_READ_BLOCK))
      else if bytesRemaining > 0 then
        SuperFastHashIncremental (Some (take bytesRemaining file)) bytesRemaining lastHash
      else Inr lastHash)"
  by pat_completeness auto
termination
  by (relation "measure (\<lambda>(_, n, _). n)") auto

declare hash_file_blocks.simps [simp del]

definition SuperFastHashFilePtr :: "u8 list \<Rightarrow> u32 res" where
  "SuperFastHashFilePtr file = hash_file_blocks file (length file) (of_nat (length file))"

section \<open>The variants agree\<close>

lemma four_bytes:
  assumes "4 \<le> length bs"
  obtains b0 b1 b2 b3 data where "bs = b0 # b1 # b2 # b3 # data"
proof -
  have "\<exists>b0 b1 b2 b3 data. bs = b0 # b1 # b2 # b3 # data"
    using assms by (simp add: numeral_eq_Suc Suc_le_length_iff) blast
  then show thesis using that by blast
qed

lemma hash_words_take:
  "4 * n \<le> m \<Longrightarrow> m \<le> length bs \<Longrightarrow>
     hash_words n (take m bs) h = (fst (hash_words n bs h), take (m - 4 * n) (snd (hash_words n bs h)))"
proof (induction n arbitrary: m bs h)
  case (Suc n)
  obtain b0 b1 b2 b3 data where bs: "bs = b0 # b1 # b2 # b3 # data"
    by (rule four_bytes [of bs]) (use Suc.prems in auto)
  define k where "k = m - 4"
  have m: "m = Suc (Suc (Suc (Suc k)))" and k: "4 * n \<le> k" "k \<le> length data"
    using Suc.prems by (simp_all add: k_def bs)
  show ?case by (simp add: bs m Let_def Suc.IH [OF k])
qed simp

lemma SuperFastHashIncremental_take:
  assumes "len \<le> length bs"
  shows "SuperFastHashIncremental (Some (take len bs)) len h = SuperFastHashIncremental (Some bs) len h"
proof -
  have q: "4 * (len div 4) \<le> len" "len - 4 * (len div 4) = len mod 4"
    by (simp_all add: minus_mult_div_eq_mod)
  obtain h' rest where w: "hash_words (len div 4) bs h = (h', rest)" by (cases "hash_words (len div 4) bs h")
  then have "hash_words (len div 4) (take len bs) h = (h', take (len mod 4) rest)"
    using hash_words_take [OF q(1) assms, of h] q(2) by simp
  then show ?thesis
    using w assms by (simp add: SuperFastHashIncremental_def hash_tail_def Let_def)
qed

lemma hash_file_blocks_eq:
  "len \<le> length bs \<Longrightarrow> hash_file_blocks bs len h = hash_blocks bs len h"
proof (induction bs len h rule: hash_file_blocks.induct)
  case (1 bs len h)
  show ?case
  proof (cases "len \<ge> INCREMENTAL_READ_BLOCK")
    case True
    have "rbind (SuperFastHashIncremental (Some bs) INCREMENTAL_READ_BLOCK h)
            (hash_file_blocks (drop INCREMENTAL_READ_BLOCK bs) (len - INCREMENTAL_READ_BLOCK))
        = rbind (SuperFastHashIncremental (Some bs) INCREMENTAL_READ_BLOCK h)
            (hash_blocks (drop INCREMENTAL_READ_BLOCK bs) (len - INCREMENTAL_READ_BLOCK))"
      by (rule rbind_cong [OF refl], rule "1.IH" [OF True refl])
        (use True "1.prems" SuperFastHashIncremental_take [of INCREMENTAL_READ_BLOCK bs h] in auto)
    then show ?thesis
      using True SuperFastHashIncremental_take [of INCREMENTAL_READ_BLOCK bs h] "1.prems"
      by (simp add: hash_file_blocks.simps [of bs] hash_blocks.simps [of bs])
  next
    case False
    then show ?thesis
      using SuperFastHashIncremental_take [of len bs h] "1.prems"
      by (simp add: hash_file_blocks.simps [of bs] hash_blocks.simps [of bs])
  qed
qed

end
