(* ===== verification/Text_Numbers.thy ===== *)
theory Text_Numbers
  imports Geco_Prelude "HOL-Library.Signed_Division"
begin

text \<open>
  \<^verbatim>\<open>Itoa\<close> of \<^verbatim>\<open>src/geco-globals.cpp\<close>, which prints an integer in a base from 2 to 16, and the
  standard library's \<^verbatim>\<open>atoi\<close>, which the address parser uses. A C string is the list of its
  characters before the terminating zero.
\<close>

section \<open>Itoa\<close>

definition hex_digit :: "nat \<Rightarrow> char" where
  "hex_digit d = ''0123456789abcdef'' ! d"

lemma abs_sdiv: "0 < (b :: int) \<Longrightarrow> \<bar>q sdiv b\<bar> = \<bar>q\<bar> div b"
  by (simp add: signed_divide_int_def abs_mult sgn_if pos_imp_zdiv_nonneg_iff)

lemma sdiv_decreases: "2 \<le> (b :: int) \<Longrightarrow> q sdiv b \<noteq> 0 \<Longrightarrow> \<bar>q sdiv b\<bar> < \<bar>q\<bar>"
  using int_div_less_self [of "\<bar>q\<bar>" b] by (cases "q = 0") (simp_all add: abs_sdiv)

function itoa_loop :: "int \<Rightarrow> int \<Rightarrow> string" where
  "itoa_loop base quot =
     (if base < 2 then []
      else
        let absQModB = \<bar>quot smod base\<bar>;
            c = hex_digit (nat absQModB);
            quot' = quot sdiv base
        in if quot' = 0 then [c] else c # itoa_loop base quot')"
  by pat_completeness auto

termination
  by (relation "measure (\<lambda>(b, q). nat \<bar>q\<bar>)") (auto simp: sdiv_decreases)

declare itoa_loop.simps [simp del]

definition Itoa :: "int \<Rightarrow> int \<Rightarrow> string" where
  "Itoa value base =
     (if base < 2 \<or> base > 16 then []
      else
        let out = itoa_loop base value;
            out' = (if value < 0 \<and> base = 10 then out @ ''-'' else out)
        in reverse_loop (length out') (length out' div 2) out')"

section \<open>atoi\<close>

definition is_digit :: "char \<Rightarrow> bool" where
  "is_digit c \<longleftrightarrow> 48 \<le> (of_char c :: nat) \<and> of_char c \<le> (57 :: nat)"

definition is_space :: "char \<Rightarrow> bool" where
  "is_space c \<longleftrightarrow> (of_char c :: nat) = 32 \<or> 9 \<le> (of_char c :: nat) \<and> of_char c \<le> (13 :: nat)"

fun atoi_digits :: "int \<Rightarrow> string \<Rightarrow> int" where
  "atoi_digits acc [] = acc"
| "atoi_digits acc (c # cs) =
     (if is_digit c then atoi_digits (10 * acc + (of_char c - 48)) cs else acc)"

text \<open>A value outside \<^verbatim>\<open>int\<close> is undefined in C; it is left unbounded here.\<close>

definition atoi :: "string \<Rightarrow> int" where
  "atoi s =
     (case dropWhile is_space s of
        [] \<Rightarrow> 0
      | c # cs \<Rightarrow> if c = CHR ''-'' then - atoi_digits 0 cs
                  else if c = CHR ''+'' then atoi_digits 0 cs
                  else atoi_digits 0 (c # cs))"

section \<open>Printing a number and reading it back\<close>

lemma hex_digit_10:
  assumes "d < 10"
  shows "is_digit (hex_digit d)" and "(of_char (hex_digit d) :: int) - 48 = int d"
    and "hex_digit d \<noteq> CHR ''-''" and "hex_digit d \<noteq> CHR ''+''" and "\<not> is_space (hex_digit d)"
proof -
  have "d \<in> {0, 1, 2, 3, 4, 5, 6, 7, 8, 9}" using assms by auto
  then show "is_digit (hex_digit d)" and "(of_char (hex_digit d) :: int) - 48 = int d"
    and "hex_digit d \<noteq> CHR ''-''" and "hex_digit d \<noteq> CHR ''+''" and "\<not> is_space (hex_digit d)"
    by (auto simp: hex_digit_def is_digit_def is_space_def)
qed

lemma abs_smod:
  assumes "0 < (b :: int)"
  shows "\<bar>q smod b\<bar> = \<bar>q\<bar> mod b"
proof -
  have "\<bar>q\<bar> mod b = \<bar>q\<bar> - b * (\<bar>q\<bar> div b)" by (simp add: minus_mult_div_eq_mod)
  moreover have "q smod b = sgn q * (\<bar>q\<bar> - b * (\<bar>q\<bar> div b))"
    unfolding signed_modulo_int_def signed_divide_int_def using assms
    by (cases q "0 :: int" rule: linorder_cases) (simp_all add: minus_mult_div_eq_mod [symmetric])
  moreover have "0 \<le> \<bar>q\<bar> mod b" using assms by simp
  ultimately show ?thesis by (cases "q = 0") (simp_all add: abs_mult sgn_if)
qed

lemma itoa_loop_10:
  "cs = rev (itoa_loop 10 q) \<Longrightarrow>
     cs \<noteq> [] \<and> (\<forall>c\<in>set cs. \<exists>d<10. c = hex_digit d)
     \<and> atoi_digits acc cs = acc * 10 ^ length cs + \<bar>q\<bar>"
proof (induction "10 :: int" q arbitrary: acc cs rule: itoa_loop.induct)
  case (1 q)
  let ?q = "q sdiv 10"
  define e where "e = nat \<bar>q smod 10\<bar>"
  have d: "e < 10" "int e = \<bar>q\<bar> mod 10" by (simp_all add: abs_smod e_def)
  have q: "\<bar>q\<bar> = 10 * \<bar>?q\<bar> + \<bar>q\<bar> mod 10" by (simp add: abs_sdiv)
  have snoc: "atoi_digits a (ds @ [c]) = 10 * atoi_digits a ds + (of_char c - 48)"
    if "\<forall>x\<in>set ds. is_digit x" "is_digit c" for a ds c
    using that by (induction a ds rule: atoi_digits.induct) auto
  show ?case
  proof (cases "?q = 0")
    case True
    then have cs: "cs = [hex_digit e]" using 1(2) by (subst (asm) itoa_loop.simps) (simp add: Let_def e_def)
    have "int e = \<bar>q\<bar>" using q d(2) True by linarith
    moreover have "atoi_digits acc cs = acc * 10 ^ length cs + int e"
      unfolding cs using hex_digit_10(1,2) [OF d(1)] by simp
    ultimately have "atoi_digits acc cs = acc * 10 ^ length cs + \<bar>q\<bar>" by simp
    then show ?thesis using cs d(1) by auto
  next
    case False
    define ds where "ds = rev (itoa_loop 10 ?q)"
    have cs: "cs = ds @ [hex_digit e]"
      using 1(2) False by (subst (asm) itoa_loop.simps) (simp add: Let_def ds_def e_def)
    have IH: "ds \<noteq> [] \<and> (\<forall>c\<in>set ds. \<exists>d<10. c = hex_digit d)
        \<and> atoi_digits acc ds = acc * 10 ^ length ds + \<bar>?q\<bar>"
      using 1(1) [OF _ refl refl refl _ ds_def] False by simp
    have dig: "\<forall>x\<in>set ds. is_digit x"
    proof
      fix x assume "x \<in> set ds"
      then obtain d where "d < 10" "x = hex_digit d" using IH by blast
      then show "is_digit x" by (simp add: hex_digit_10(1))
    qed
    have IH': "atoi_digits acc ds = acc * 10 ^ length ds + \<bar>?q\<bar>" using IH by blast
    have "atoi_digits acc cs = 10 * (acc * 10 ^ length ds + \<bar>?q\<bar>) + int e"
      unfolding cs snoc [OF dig hex_digit_10(1) [OF d(1)]] IH' hex_digit_10(2) [OF d(1)] ..
    then have "atoi_digits acc cs = acc * 10 ^ length cs + \<bar>q\<bar>"
      using q d(2) by (simp add: cs algebra_simps)
    then show ?thesis using IH cs d(1) by auto
  qed
qed

lemma Itoa_10_chars: "0 \<le> v \<Longrightarrow> \<forall>c\<in>set (Itoa v 10). is_digit c" "Itoa v 10 \<noteq> []"
  using itoa_loop_10 [OF refl, of v 0] hex_digit_10(1)
  by (auto simp: Itoa_def Let_def reverse_loop_rev)

lemma atoi_digits_Itoa: "0 \<le> v \<Longrightarrow> atoi_digits 0 (Itoa v 10) = v"
  using itoa_loop_10 [OF refl, of v 0] by (simp add: Itoa_def Let_def reverse_loop_rev)

lemma atoi_Itoa_10: "atoi (Itoa v 10) = v"
proof -
  let ?cs = "rev (itoa_loop 10 v)"
  have cs: "?cs \<noteq> []" "\<forall>c\<in>set ?cs. \<exists>d<10. c = hex_digit d" "atoi_digits 0 ?cs = \<bar>v\<bar>"
    using itoa_loop_10 [OF refl, of v 0] by auto
  then obtain c ds where eq: "?cs = c # ds" by (cases ?cs) auto
  then obtain d where d: "d < 10" "c = hex_digit d" using cs(2) by auto
  show ?thesis
  proof (cases "v < 0")
    case True
    then have "Itoa v 10 = CHR ''-'' # ?cs" by (simp add: Itoa_def Let_def reverse_loop_rev)
    then show ?thesis using cs(3) True by (simp add: atoi_def is_space_def)
  next
    case False
    then have "Itoa v 10 = c # ds" using eq by (simp add: Itoa_def Let_def reverse_loop_rev)
    then show ?thesis using cs(3) False eq hex_digit_10 [OF d(1)] d(2) by (simp add: atoi_def)
  qed
qed

lemma itoa_loop_length:
  "\<bar>q\<bar> < 10 ^ Suc k \<Longrightarrow> length (itoa_loop 10 q) \<le> Suc k"
proof (induction k arbitrary: q)
  case 0
  then have "q sdiv 10 = 0" using abs_sdiv [of 10 q] by simp
  then show ?case by (subst itoa_loop.simps) (simp add: Let_def)
next
  case (Suc k)
  have "\<bar>q sdiv 10\<bar> < 10 ^ Suc k"
    using Suc.prems by (simp add: abs_sdiv div_less_iff_less_mult)
  then have "length (itoa_loop 10 (q sdiv 10)) \<le> Suc k" by (rule Suc.IH)
  then show ?case by (subst itoa_loop.simps) (simp add: Let_def)
qed

lemma Itoa_10_length: "0 \<le> v \<Longrightarrow> v < 100000 \<Longrightarrow> length (Itoa v 10) \<le> 5"
  using itoa_loop_length [of v 4] by (simp add: Itoa_def Let_def)

end
