(* ===== verification/Net_Types.thy ===== *)
theory Net_Types
  imports Fast_Hash Text_Numbers
begin

text \<open>
  \<^verbatim>\<open>network_address_t\<close> and \<^verbatim>\<open>guid_t\<close> of \<^verbatim>\<open>include/geco-net-type.h\<close> and
  \<^verbatim>\<open>src/geco-net-type.cpp\<close>, in the configuration without IPv6 (\<^verbatim>\<open>NET_SUPPORT_IPV6\<close> is 0). The
  fields of \<^verbatim>\<open>sockaddr_in\<close> keep the network byte order of the sources: \<open>sin_port\<close> and \<open>s_addr\<close>
  are the numbers the machine reads there. The socket library is a parameter: \<open>inet_addr\<close> and
  \<open>inet_ntoa\<close> convert between dotted text and an address, \<open>resolve\<close> stands for
  \<^verbatim>\<open>DomainNameToIP\<close> (the empty string when the lookup fails).
\<close>

section \<open>Byte order\<close>

definition swap16 :: "u16 \<Rightarrow> u16" where
  "swap16 x = push_bit 8 x OR drop_bit 8 x"

definition htons :: "bool \<Rightarrow> u16 \<Rightarrow> u16" where
  "htons be x = (if be then x else swap16 x)"

definition ntohs :: "bool \<Rightarrow> u16 \<Rightarrow> u16" where
  "ntohs be x = (if be then x else swap16 x)"

definition htonl :: "bool \<Rightarrow> u32 \<Rightarrow> u32" where
  "htonl be x = (if be then x else
     push_bit 24 x OR (push_bit 8 x AND 0xFF0000) OR (drop_bit 8 x AND 0xFF00) OR drop_bit 24 x)"

lemma swap16_swap16 [simp]: "swap16 (swap16 x) = x"
proof (rule bit_word_eqI)
  fix n assume "n < LENGTH(16)"
  then show "bit (swap16 (swap16 x)) n = bit x n"
    using bit_imp_le_length [of x] by (auto simp: swap16_def bit_simps)
qed

lemma ntohs_htons [simp]: "ntohs be (htons be x) = x" "htons be (ntohs be x) = x"
  by (simp_all add: ntohs_def htons_def)

section \<open>Addresses\<close>

abbreviation AF_INET :: u16 where
  "AF_INET \<equiv> 2"

record network_address =
  sin_family :: u16
  sin_port :: u16
  s_addr :: u32
  systemIndex :: u16
  debugPort :: u16

text \<open>
  The default constructor leaves the port and the address as they are in memory;
  \<open>junk_port\<close> and \<open>junk_addr\<close> are what is there. \<^verbatim>\<open>JACKIE_NULL_ADDRESS\<close> is a static object, whose
  memory is zero.
\<close>

definition address_default :: "u16 \<Rightarrow> u32 \<Rightarrow> network_address" where
  "address_default junk_port junk_addr =
     \<lparr>sin_family = AF_INET, sin_port = junk_port, s_addr = junk_addr, systemIndex = -1, debugPort = 0\<rparr>"

definition JACKIE_NULL_ADDRESS :: network_address where
  "JACKIE_NULL_ADDRESS = address_default 0 0"

definition EqualsExcludingPort :: "network_address \<Rightarrow> network_address \<Rightarrow> bool" where
  "EqualsExcludingPort a right \<longleftrightarrow> sin_family a = AF_INET \<and> s_addr a = s_addr right"

definition address_eq :: "network_address \<Rightarrow> network_address \<Rightarrow> bool" where
  "address_eq a right \<longleftrightarrow> sin_port a = sin_port right \<and> EqualsExcludingPort a right"

definition address_less :: "network_address \<Rightarrow> network_address \<Rightarrow> bool" where
  "address_less a right =
     (if sin_port a = sin_port right then s_addr a < s_addr right else sin_port a < sin_port right)"

definition address_greater :: "network_address \<Rightarrow> network_address \<Rightarrow> bool" where
  "address_greater a right =
     (if sin_port a = sin_port right then s_addr a > s_addr right else sin_port a > sin_port right)"

definition GetIPVersion :: "network_address \<Rightarrow> u8" where
  "GetIPVersion a = (if sin_family a = AF_INET then 4 else 6)"

definition SetPortHostOrder :: "bool \<Rightarrow> u16 \<Rightarrow> network_address \<Rightarrow> network_address" where
  "SetPortHostOrder be s a = a\<lparr>sin_port := htons be s, debugPort := s\<rparr>"

definition SetPortNetworkOrder :: "bool \<Rightarrow> u16 \<Rightarrow> network_address \<Rightarrow> network_address" where
  "SetPortNetworkOrder be s a = a\<lparr>sin_port := s, debugPort := ntohs be s\<rparr>"

definition SetPortNetworkOrderFrom :: "network_address \<Rightarrow> network_address \<Rightarrow> network_address" where
  "SetPortNetworkOrderFrom right a = a\<lparr>sin_port := sin_port right, debugPort := debugPort right\<rparr>"

definition GetPortHostOrder :: "bool \<Rightarrow> network_address \<Rightarrow> u16" where
  "GetPortHostOrder be a = ntohs be (sin_port a)"

definition GetPortNetworkOrder :: "network_address \<Rightarrow> u16" where
  "GetPortNetworkOrder a = sin_port a"

definition IsLoopback :: "bool \<Rightarrow> network_address \<Rightarrow> bool" where
  "IsLoopback be a \<longleftrightarrow>
     GetIPVersion a = 4 \<and> (htonl be (s_addr a) = 2130706433 \<or> s_addr a = 0)"

text \<open>The branch of \<^verbatim>\<open>IsLANAddress\<close> for the systems other than Windows.\<close>

definition IsLANAddress :: "network_address \<Rightarrow> bool" where
  "IsLANAddress a \<longleftrightarrow> drop_bit 24 (s_addr a) = 10 \<or> drop_bit 24 (s_addr a) = 192"

definition address_ToHashCode :: "(u16 \<Rightarrow> u8 list) \<Rightarrow> (u32 \<Rightarrow> u8 list) \<Rightarrow> network_address \<Rightarrow> u32 res" where
  "address_ToHashCode port_bytes addr_bytes sa =
     rbind (SuperFastHashIncremental (Some (port_bytes (sin_port sa))) 2 2) (\<lambda>lastHash.
       SuperFastHashIncremental (Some (addr_bytes (s_addr sa))) 4 lastHash)"

section \<open>Guids\<close>

record guid =
  g :: u64
  guid_systemIndex :: u16

definition guid_of :: "u64 \<Rightarrow> guid" where
  "guid_of x = \<lparr>g = x, guid_systemIndex = -1\<rparr>"

definition JACKIE_NULL_GUID :: guid where
  "JACKIE_NULL_GUID = \<lparr>g = -1, guid_systemIndex = -1\<rparr>"

definition guid_eq :: "guid \<Rightarrow> guid \<Rightarrow> bool" where
  "guid_eq a right \<longleftrightarrow> g a = g right"

definition guid_ToUInt32 :: "guid \<Rightarrow> u64" where
  "guid_ToUInt32 x = drop_bit 32 (g x) XOR (g x AND 0xFFFFFFFF)"

section \<open>Text to address\<close>

fun isDomainIPAddr :: "string \<Rightarrow> bool" where
  "isDomainIPAddr [] = False"
| "isDomainIPAddr (c # cs) =
     ((103 \<le> (of_char c :: nat) \<and> of_char c \<le> (122 :: nat) \<or> 65 \<le> (of_char c :: nat) \<and> of_char c \<le> (90 :: nat))
      \<or> isDomainIPAddr cs)"

definition to_lower :: "char \<Rightarrow> nat" where
  "to_lower c = (if 65 \<le> (of_char c :: nat) \<and> of_char c \<le> (90 :: nat) then of_char c + 32 else of_char c)"

text \<open>\<^verbatim>\<open>strncasecmp(str, "localhost", 9) == 0\<close>\<close>

definition is_localhost :: "string \<Rightarrow> bool" where
  "is_localhost str \<longleftrightarrow> map to_lower (take 9 str) = map of_char ''localhost''"

text \<open>
  The two scanning loops. \<open>room\<close> counts the iterations the bound on the index leaves. The first
  returns the characters copied to \<^verbatim>\<open>IPPart\<close> and the rest of the text from \<^verbatim>\<open>str[index]\<close> on.
\<close>

fun scan_ip :: "char \<Rightarrow> nat \<Rightarrow> string \<Rightarrow> string \<times> string" where
  "scan_ip delim 0 str = ([], str)"
| "scan_ip delim (Suc room) [] = ([], [])"
| "scan_ip delim (Suc room) (c # cs) =
     (if c = delim then ([], c # cs)
      else if c \<noteq> CHR ''.'' \<and> \<not> is_digit c then ([], c # cs)
      else let (ip, rest) = scan_ip delim room cs in (c # ip, rest))"

fun scan_port :: "nat \<Rightarrow> string \<Rightarrow> string" where
  "scan_port 0 str = []"
| "scan_port (Suc room) [] = []"
| "scan_port (Suc room) (c # cs) = (if is_digit c then c # scan_port room cs else [])"

definition SetIP4Address ::
  "(string \<Rightarrow> u32) \<Rightarrow> (string \<Rightarrow> string) \<Rightarrow> bool \<Rightarrow> string \<Rightarrow> char \<Rightarrow> network_address
     \<Rightarrow> (bool \<times> network_address) res" where
  "SetIP4Address inet_addr resolve be str portDelineator a =
     (if isDomainIPAddr str then
        if is_localhost str then
          let a1 = a\<lparr>s_addr := inet_addr ''127.0.0.1''\<rparr>
          in Inr (True, if drop 9 str \<noteq> [] then SetPortHostOrder be (of_int (atoi (drop 9 str))) a1 else a1)
        else
          let ip = resolve str
          in if ip \<noteq> [] then Inr (True, a\<lparr>s_addr := inet_addr ip\<rparr>)
             else Inr (False, JACKIE_NULL_ADDRESS)
      else
        let (IPPart, rest) = scan_ip portDelineator 22 str
        in rbind (if length IPPart < 22 then Inr () else Inl OutOfBounds) (\<lambda>_.
           let portPart =
                 (if rest \<noteq> [] \<and> tl rest \<noteq> []
                  then scan_port (min 10 (32 - (length IPPart + 1))) (tl rest) else [])
           in rbind (if length portPart < 10 then Inr () else Inl OutOfBounds) (\<lambda>_.
              let a1 = (if IPPart \<noteq> [] then a\<lparr>s_addr := inet_addr IPPart\<rparr> else a);
                  a2 = (if portPart \<noteq> []
                        then let p = htons be (of_int (atoi portPart))
                             in a1\<lparr>sin_port := p, debugPort := ntohs be p\<rparr>
                        else a1)
              in Inr (True, a2))))"

definition FromString ::
  "(string \<Rightarrow> u32) \<Rightarrow> (string \<Rightarrow> string) \<Rightarrow> bool \<Rightarrow> string \<Rightarrow> char \<Rightarrow> network_address
     \<Rightarrow> (bool \<times> network_address) res" where
  "FromString inet_addr resolve be str portDelineator a =
     SetIP4Address inet_addr resolve be str portDelineator a"

definition FromStringPort ::
  "(string \<Rightarrow> u32) \<Rightarrow> (string \<Rightarrow> string) \<Rightarrow> bool \<Rightarrow> string \<Rightarrow> u16 \<Rightarrow> network_address
     \<Rightarrow> (bool \<times> network_address) res" where
  "FromStringPort inet_addr resolve be str port a =
     rbind (FromString inet_addr resolve be str (CHR 0x00) a) (\<lambda>(b, a1).
       if \<not> b then Inr (False, JACKIE_NULL_ADDRESS)
       else Inr (True, a1\<lparr>sin_port := htons be port, debugPort := ntohs be (htons be port)\<rparr>))"

section \<open>Address to text\<close>

definition ToString_IPV4 :: "(u32 \<Rightarrow> string) \<Rightarrow> bool \<Rightarrow> bool \<Rightarrow> char \<Rightarrow> network_address \<Rightarrow> string" where
  "ToString_IPV4 inet_ntoa be writePort portDelineator a =
     (if address_eq a JACKIE_NULL_ADDRESS then ''UNASSIGNED_SYSTEM_ADDRESS''
      else if writePort
      then inet_ntoa (s_addr a) @ [portDelineator] @ Itoa (int (unat (GetPortHostOrder be a))) 10
      else inet_ntoa (s_addr a))"

definition SetToLoopBack ::
  "(string \<Rightarrow> u32) \<Rightarrow> (string \<Rightarrow> string) \<Rightarrow> bool \<Rightarrow> u8 \<Rightarrow> network_address
     \<Rightarrow> (bool \<times> network_address) res" where
  "SetToLoopBack inet_addr resolve be ipVersion a =
     (if ipVersion = 4 then FromString inet_addr resolve be ''127.0.0.1'' (CHR 0x00) a
      else FromString inet_addr resolve be ''::1'' (CHR 0x00) a)"

definition FixForIPVersion ::
  "(string \<Rightarrow> u32) \<Rightarrow> (string \<Rightarrow> string) \<Rightarrow> (u32 \<Rightarrow> string) \<Rightarrow> bool \<Rightarrow> network_address
     \<Rightarrow> network_address \<Rightarrow> network_address res" where
  "FixForIPVersion inet_addr resolve inet_ntoa be bound a =
     (if ToString_IPV4 inet_ntoa be False CHR ''|'' a = ''::1'' then
        if GetIPVersion bound = 4
        then rbind (FromString inet_addr resolve be ''127.0.0.1'' (CHR 0x00) a) (\<lambda>(_, a1). Inr a1)
        else Inr a
      else Inr a)"

section \<open>The order of addresses\<close>

text \<open>The port and the address, the fields that the comparison operators look at.\<close>

datatype endpoint = Endpoint u16 u32

instantiation endpoint :: linorder
begin

fun less_eq_endpoint :: "endpoint \<Rightarrow> endpoint \<Rightarrow> bool" where
  "less_eq_endpoint (Endpoint p x) (Endpoint q y) \<longleftrightarrow> p < q \<or> p = q \<and> x \<le> y"

definition less_endpoint :: "endpoint \<Rightarrow> endpoint \<Rightarrow> bool" where
  "less_endpoint a b \<longleftrightarrow> a \<le> b \<and> \<not> b \<le> a"

instance
proof
  fix a b c :: endpoint
  show "a < b \<longleftrightarrow> a \<le> b \<and> \<not> b \<le> a" by (rule less_endpoint_def)
  show "a \<le> a" by (cases a) simp
  show "a \<le> b \<Longrightarrow> b \<le> c \<Longrightarrow> a \<le> c" by (cases a; cases b; cases c) auto
  show "a \<le> b \<Longrightarrow> b \<le> a \<Longrightarrow> a = b" by (cases a; cases b) auto
  show "a \<le> b \<or> b \<le> a" by (cases a; cases b) auto
qed

end

definition endpoint_of :: "network_address \<Rightarrow> endpoint" where
  "endpoint_of a = Endpoint (sin_port a) (s_addr a)"

lemma address_less_endpoint: "address_less a b \<longleftrightarrow> endpoint_of a < endpoint_of b"
  by (auto simp: address_less_def endpoint_of_def less_endpoint_def)

lemma address_greater_endpoint: "address_greater a b \<longleftrightarrow> endpoint_of b < endpoint_of a"
  by (auto simp: address_greater_def endpoint_of_def less_endpoint_def)

lemma address_eq_endpoint:
  "sin_family a = AF_INET \<Longrightarrow> address_eq a b \<longleftrightarrow> endpoint_of a = endpoint_of b"
  by (auto simp: address_eq_def EqualsExcludingPort_def endpoint_of_def)

section \<open>Parsing what was printed\<close>

lemma scan_ip_stop:
  assumes "\<forall>c\<in>set ip. (c = CHR ''.'' \<or> is_digit c) \<and> c \<noteq> delim"
  shows "length ip < room \<Longrightarrow> scan_ip delim room (ip @ delim # rest) = (ip, delim # rest)"
    and "length ip < room \<Longrightarrow> scan_ip delim room ip = (ip, [])"
  using assms
proof (induction ip arbitrary: room)
  case Nil
  { case 1 then show ?case by (cases room) auto }
  { case 2 then show ?case by (cases room) auto }
next
  case (Cons c ip)
  { case 1 then show ?case using Cons(1) [of "room - 1"] by (cases room) auto }
  { case 2 then show ?case using Cons(2) [of "room - 1"] by (cases room) auto }
qed

lemma scan_port_digits: "\<forall>c\<in>set ds. is_digit c \<Longrightarrow> length ds \<le> room \<Longrightarrow> scan_port room ds = ds"
proof (induction ds arbitrary: room)
  case Nil
  then show ?case by (cases room) auto
next
  case (Cons d ds)
  then show ?case by (cases room) auto
qed

lemma digit_not_letter:
  "is_digit c \<Longrightarrow> \<not> (103 \<le> (of_char c :: nat) \<and> of_char c \<le> (122 :: nat)
     \<or> 65 \<le> (of_char c :: nat) \<and> of_char c \<le> (90 :: nat))"
  by (auto simp: is_digit_def)

lemma isDomainIPAddr_append: "isDomainIPAddr (s @ t) \<longleftrightarrow> isDomainIPAddr s \<or> isDomainIPAddr t"
  by (induction s) auto

lemma isDomainIPAddr_digits:
  "\<forall>c\<in>set s. c = CHR ''.'' \<or> is_digit c \<Longrightarrow> \<not> isDomainIPAddr s"
proof (induction s)
  case (Cons c s)
  have "c = CHR ''.'' \<or> is_digit c" using Cons.prems by simp
  then have "\<not> (103 \<le> (of_char c :: nat) \<and> of_char c \<le> (122 :: nat)
     \<or> 65 \<le> (of_char c :: nat) \<and> of_char c \<le> (90 :: nat))"
  proof
    assume "c = CHR ''.''"
    then show ?thesis by simp
  qed (rule digit_not_letter)
  moreover have "\<not> isDomainIPAddr s" using Cons by simp
  ultimately show ?case unfolding isDomainIPAddr.simps by blast
qed simp

definition dotted_text :: "(string \<Rightarrow> u32) \<Rightarrow> (u32 \<Rightarrow> string) \<Rightarrow> bool" where
  "dotted_text inet_addr inet_ntoa \<longleftrightarrow>
     (\<forall>x. inet_addr (inet_ntoa x) = x \<and> inet_ntoa x \<noteq> [] \<and> length (inet_ntoa x) \<le> 15
        \<and> (\<forall>c\<in>set (inet_ntoa x). c = CHR ''.'' \<or> is_digit c))"

lemma SetIP4Address_ToString:
  assumes os: "dotted_text inet_addr inet_ntoa"
    and delim: "\<not> is_digit delim" "delim \<noteq> CHR ''.''" "\<not> isDomainIPAddr [delim]"
    and a: "\<not> address_eq a JACKIE_NULL_ADDRESS"
  shows "SetIP4Address inet_addr resolve be (ToString_IPV4 inet_ntoa be True delim a) delim b
    = Inr (True, b\<lparr>s_addr := s_addr a, sin_port := sin_port a, debugPort := GetPortHostOrder be a\<rparr>)"
proof -
  define ip where "ip = inet_ntoa (s_addr a)"
  define port where "port = Itoa (int (unat (GetPortHostOrder be a))) 10"
  have ip: "inet_addr ip = s_addr a" "ip \<noteq> []" "length ip \<le> 15" "\<forall>c\<in>set ip. c = CHR ''.'' \<or> is_digit c"
    using os by (auto simp: dotted_text_def ip_def)
  have small: "int (unat (GetPortHostOrder be a)) < 100000"
    using unsigned_less [of "GetPortHostOrder be a", where ?'a = int] by simp
  have port: "\<forall>c\<in>set port. is_digit c" "port \<noteq> []" "length port \<le> 5"
    "atoi port = int (unat (GetPortHostOrder be a))"
    using Itoa_10_chars Itoa_10_length [OF _ small] atoi_Itoa_10 by (auto simp: port_def)
  have str: "ToString_IPV4 inet_ntoa be True delim a = ip @ delim # port"
    using a by (simp add: ToString_IPV4_def ip_def port_def)
  have "\<not> isDomainIPAddr (ip @ [delim] @ port)"
    using isDomainIPAddr_digits [OF ip(4)] isDomainIPAddr_digits [of port] port(1) delim(3)
    by (simp only: isDomainIPAddr_append) blast
  moreover have "scan_ip delim 22 (ip @ delim # port) = (ip, delim # port)"
    using ip(3,4) delim by (intro scan_ip_stop(1)) auto
  moreover have "scan_port (min 10 (32 - (length ip + 1))) port = port"
    using port(1,3) ip(3) by (intro scan_port_digits) auto
  moreover have "htons be (of_int (atoi port)) = sin_port a"
    unfolding port(4) by (simp add: GetPortHostOrder_def)
  ultimately show ?thesis
    unfolding str using ip port by (simp add: SetIP4Address_def Let_def GetPortHostOrder_def)
qed

lemma SetIP4Address_overflow:
  assumes "22 \<le> length str" and "\<forall>c\<in>set (take 22 str). (c = CHR ''.'' \<or> is_digit c) \<and> c \<noteq> delim"
    and "\<not> isDomainIPAddr str"
  shows "SetIP4Address inet_addr resolve be str delim a = Inl OutOfBounds"
proof -
  have "length (fst (scan_ip delim room str)) = room"
    if "room \<le> length str" "\<forall>c\<in>set (take room str). (c = CHR ''.'' \<or> is_digit c) \<and> c \<noteq> delim"
    for room str
    using that
  proof (induction room arbitrary: str)
    case (Suc room)
    then show ?case by (cases str) (auto simp: split_beta Let_def)
  qed simp
  from this [OF assms(1,2)] show ?thesis
    using assms(3) by (simp add: SetIP4Address_def split_beta Let_def)
qed

end
