(* ===== verification/Bit_Stream_Ops.thy ===== *)
theory Bit_Stream_Ops
  imports Bit_Ranged Net_Types
begin

text \<open>
  The operations of \<^verbatim>\<open>geco_bit_stream_t\<close> on whole values: alignment, arrays of bytes, padding,
  addresses and the copy of one stream into another.
\<close>

section \<open>Alignment\<close>

definition aligned_pos :: "nat \<Rightarrow> nat" where
  "aligned_pos p = add32 p (8 - (sub32 p 1 mod 8 + 1))"

definition align_writable_bit_pos :: "bstream \<Rightarrow> bstream" where
  "align_writable_bit_pos s = s\<lparr>writable_bit_pos := aligned_pos (writable_bit_pos s)\<rparr>"

definition align_readable_bit_pos :: "bstream \<Rightarrow> bstream" where
  "align_readable_bit_pos s = s\<lparr>readable_bit_pos := aligned_pos (readable_bit_pos s)\<rparr>"

lemma aligned_pos_padded:
  assumes "p \<le> max_bits"
  shows "aligned_pos p = padded p"
proof (cases "p = 0")
  case True
  then show ?thesis by (simp add: aligned_pos_def sub32_def add32_def)
next
  case False
  then have "sub32 p 1 = p - 1" using assms by (simp add: sub32_small max_bits_def)
  moreover have "p + (8 - ((p - 1) mod 8 + 1)) = padded p"
  proof -
    obtain q where p: "p = Suc q" using False by (cases p) auto
    define a b where "a = q div 8" and "b = q mod 8"
    have q: "q = 8 * a + b" "b < 8" by (simp_all add: a_def b_def)
    have "(p + 7) div 8 = a + 1" using q p by (intro div8_eq) simp_all
    then have "padded p = 8 * a + 8" by (simp add: padded_def)
    then show ?thesis using q by (simp add: p flip: b_def)
  qed
  ultimately show ?thesis using assms by (simp add: aligned_pos_def add32_small max_bits_def)
qed

definition gap :: "nat \<Rightarrow> bool list" where
  "gap p = replicate (padded p - p) False"

lemma length_gap [simp]: "length (gap p) = padded p - p"
  by (simp add: gap_def)

lemma padded_mod [simp]: "padded p mod 8 = 0"
  by (simp add: padded_def)

lemma padded_small: "padded p < p + 8"
  using div_mult_mod_eq [of "p + 7" 8] by (simp add: padded_def)

lemma align_appends:
  assumes "writable s n" "padded (writable_bit_pos s) - writable_bit_pos s \<le> n"
  shows "appends s (align_writable_bit_pos s) (gap (writable_bit_pos s))"
proof -
  let ?w = "writable_bit_pos s"
  have ok: "buffer_ok s" "tail_clean s" "\<not> is_read_only s" "?w + n \<le> max_bits"
    using assms(1) by (simp_all add: writable_def stream_ok_def)
  have eq: "align_writable_bit_pos s = s\<lparr>writable_bit_pos := padded ?w\<rparr>"
    using ok by (simp add: align_writable_bit_pos_def aligned_pos_padded)
  have le: "padded ?w \<le> 8 * length (uchar_data s)" "padded ?w < 2 ^ 32"
    using ok padded_le [of ?w] padded_small [of ?w] by (simp_all add: buffer_ok_def max_bits_def)
  have "take (padded ?w) (bits_of (uchar_data s)) = content s @ gap ?w"
  proof (rule nth_equalityI)
    show "length (take (padded ?w) (bits_of (uchar_data s))) = length (content s @ gap ?w)"
      using le ok padded_ge [of ?w] by simp
  next
    fix i assume "i < length (take (padded ?w) (bits_of (uchar_data s)))"
    then have i: "i < padded ?w" "i < 8 * length (uchar_data s)" by auto
    show "take (padded ?w) (bits_of (uchar_data s)) ! i = (content s @ gap ?w) ! i"
    proof (cases "i < ?w")
      case True
      then show ?thesis using i ok by (simp add: nth_append content_def)
    next
      case False
      then show ?thesis using i ok by (simp add: nth_append tail_clean_def gap_def)
    qed
  qed
  moreover have "tail_clean (s\<lparr>writable_bit_pos := padded ?w\<rparr>)"
    by (rule tail_cleanI) (simp add: padded_def)
  moreover have "buffer_ok (s\<lparr>writable_bit_pos := padded ?w\<rparr>)" using ok le by (simp add: buffer_ok_def)
  ultimately show ?thesis
    using ok padded_ge [of ?w] by (simp add: eq appends_def stream_ok_def content_def)
qed

section \<open>Arrays of bytes\<close>

definition Write_bytes :: "u8 list \<Rightarrow> nat \<Rightarrow> writer" where
  "Write_bytes src bytes2Write = WriteBits src (BYTES_TO_BITS bytes2Write) True"

definition Read_bytes :: "nat \<Rightarrow> u8 list reader" where
  "Read_bytes numberOfBytes = ReadBits (BYTES_TO_BITS numberOfBytes) True"

definition write_aligned_bytes :: "u8 list \<Rightarrow> nat \<Rightarrow> writer" where
  "write_aligned_bytes src numberOfBytesWrite s =
     Write_bytes src numberOfBytesWrite (align_writable_bit_pos s)"

definition ReadAlignedBytes :: "nat \<Rightarrow> u8 list reader" where
  "ReadAlignedBytes bytes2Read s =
     rbind (rassert (bytes2Read > 0)) (\<lambda>_.
     rbind (rassert (get_payloads s \<ge> BYTES_TO_BITS bytes2Read)) (\<lambda>_.
       let s1 = align_readable_bit_pos s
       in rbind (get_range (uchar_data s1) (readable_bit_pos s1 div 8) bytes2Read) (\<lambda>dest.
            Inr (dest, s1\<lparr>readable_bit_pos := add32 (readable_bit_pos s1) (shl32 bytes2Read 3)\<rparr>))))"

definition write_aligned_bytes_max :: "bool \<Rightarrow> u8 list option \<Rightarrow> u32 \<Rightarrow> u32 \<Rightarrow> writer" where
  "write_aligned_bytes_max be src bytes2Write maxBytes2Write s =
     (case src of
        None \<Rightarrow> WriteBitZero s
      | Some bs \<Rightarrow>
          if bytes2Write = 0 then WriteBitZero s
          else rbind (Write_mini_int be True bytes2Write s)
                 (write_aligned_bytes bs
                    (unat (if bytes2Write < maxBytes2Write then bytes2Write else maxBytes2Write))))"

text \<open>The result is what \<^verbatim>\<open>dest\<close> receives; \<^verbatim>\<open>bytes2Read\<close> is its length.\<close>

definition ReadAlignedBytes_max :: "nat \<Rightarrow> u8 list reader" where
  "ReadAlignedBytes_max maxBytes2Read s =
     rbind (ReadBit s) (\<lambda>(b, s1).
       let bytes2Read = (if b then 1 else 0);
           bytes2Read = (if bytes2Read > maxBytes2Read then maxBytes2Read else bytes2Read)
       in if bytes2Read = 0 then Inr ([], s1) else ReadAlignedBytes bytes2Read s1)"

text \<open>
  The variant that allocates frees the old array first and returns the null pointer when no
  bytes come.
\<close>

definition ReadAlignedBytesAlloc :: "nat \<Rightarrow> u8 list option reader" where
  "ReadAlignedBytesAlloc maxBytes2Read s =
     rbind (ReadBit s) (\<lambda>(b, s1).
       let bytes2Read = (if b then 1 else 0);
           bytes2Read = (if bytes2Read > maxBytes2Read then maxBytes2Read else bytes2Read)
       in if bytes2Read = 0 then Inr (None, s1)
          else rbind (ReadAlignedBytes bytes2Read s1) (\<lambda>(dest, s2). Inr (Some dest, s2)))"

section \<open>Padding and copies of the buffer\<close>

definition pad_zeros_up_to :: "nat \<Rightarrow> writer" where
  "pad_zeros_up_to bytes s =
     (let numWrite = sub32 bytes (BITS_TO_BYTES (writable_bit_pos s))
      in if 0 < numWrite \<and> numWrite < 2 ^ 31 then
           let s1 = align_writable_bit_pos s
           in rbind (AppendBitsCouldRealloc (BYTES_TO_BITS numWrite) s1) (\<lambda>s2.
              rbind (copy_into (uchar_data s2) (writable_bit_pos s2 div 8) (replicate numWrite 0) numWrite) (\<lambda>d.
                Inr (s2\<lparr>uchar_data := d,
                        writable_bit_pos := add32 (writable_bit_pos s2) (BYTES_TO_BITS numWrite)\<rparr>)))
         else Inr s)"

definition copy_data :: "bstream \<Rightarrow> (u8 list \<times> nat) res" where
  "copy_data s =
     rbind (rassert (writable_bit_pos s > 0)) (\<lambda>_.
     rbind (get_range (uchar_data s) 0 (BITS_TO_BYTES (writable_bit_pos s))) (\<lambda>d.
       Inr (d, writable_bit_pos s)))"

definition swap_bytes :: "bool \<Rightarrow> nat \<Rightarrow> nat \<Rightarrow> bstream \<Rightarrow> bstream res" where
  "swap_bytes be byteOffset len s =
     (if DoEndianSwap be then
        rbind (get_range (uchar_data s) byteOffset len) (\<lambda>old.
        rbind (copy_into (uchar_data s) byteOffset (ReverseBytes_in_place old len) len) (\<lambda>d.
          Inr (s\<lparr>uchar_data := d\<rparr>)))
      else Inr s)"

definition skip_read_bits :: "nat \<Rightarrow> bstream \<Rightarrow> bstream" where
  "skip_read_bits numberOfBits s =
     s\<lparr>readable_bit_pos := add32 (readable_bit_pos s) numberOfBits\<rparr>"

definition skip_read_bytes :: "nat \<Rightarrow> bstream \<Rightarrow> bstream" where
  "skip_read_bytes numberOfBytes = skip_read_bits (BYTES_TO_BITS numberOfBytes)"

definition reset_stream :: "bstream \<Rightarrow> bstream" where
  "reset_stream s = s\<lparr>writable_bit_pos := 0, readable_bit_pos := 0\<rparr>"

definition reset_readable_bit_pos :: "bstream \<Rightarrow> bstream" where
  "reset_readable_bit_pos s = s\<lparr>readable_bit_pos := 0\<rparr>"

definition reset_writable_bit_pos :: "bstream \<Rightarrow> bstream" where
  "reset_writable_bit_pos s = s\<lparr>writable_bit_pos := 0\<rparr>"

definition AssertStreamEmpty :: "bstream \<Rightarrow> unit res" where
  "AssertStreamEmpty s = rassert (readable_bit_pos s = writable_bit_pos s)"

section \<open>One, two and four aligned bytes\<close>

definition put_aligned :: "u8 list \<Rightarrow> writer" where
  "put_aligned bs s =
     rbind (rassert (writable_bit_pos s mod 8 = 0)) (\<lambda>_.
     rbind (AppendBitsCouldRealloc (8 * length bs) s) (\<lambda>s1.
     rbind (copy_into (uchar_data s1) (writable_bit_pos s1 div 8) bs (length bs)) (\<lambda>d.
       Inr (s1\<lparr>uchar_data := d, writable_bit_pos := add32 (writable_bit_pos s1) (8 * length bs)\<rparr>))))"

definition get_aligned :: "nat \<Rightarrow> u8 list reader" where
  "get_aligned n s =
     rbind (rassert (readable_bit_pos s mod 8 = 0)) (\<lambda>_.
     rbind (rassert (get_payloads s \<ge> 8 * n)) (\<lambda>_.
     rbind (get_range (uchar_data s) (readable_bit_pos s div 8) n) (\<lambda>bs.
       Inr (bs, s\<lparr>readable_bit_pos := add32 (readable_bit_pos s) (8 * n)\<rparr>))))"

definition write_one_aligned_byte :: "u8 list \<Rightarrow> writer" where
  "write_one_aligned_byte src = put_aligned [src ! 0]"

definition read_one_aligned_byte :: "u8 list reader" where
  "read_one_aligned_byte = get_aligned 1"

definition write_two_aligned_bytes :: "bool \<Rightarrow> u8 list \<Rightarrow> writer" where
  "write_two_aligned_bytes be src =
     (if DoEndianSwap be then put_aligned [src ! 1, src ! 0] else put_aligned [src ! 0, src ! 1])"

definition read_two_aligned_bytes :: "bool \<Rightarrow> u8 list reader" where
  "read_two_aligned_bytes be s =
     rbind (get_aligned 2 s) (\<lambda>(b, s1).
       Inr (if DoEndianSwap be then [b ! 1, b ! 0] else [b ! 0, b ! 1], s1))"

definition WriteFourAlignedBytes :: "bool \<Rightarrow> u8 list \<Rightarrow> writer" where
  "WriteFourAlignedBytes be src =
     (if DoEndianSwap be then put_aligned [src ! 3, src ! 2, src ! 1, src ! 0]
      else put_aligned [src ! 0, src ! 1, src ! 2, src ! 3])"

definition ReadFourAlignedBytes :: "bool \<Rightarrow> u8 list reader" where
  "ReadFourAlignedBytes be s =
     rbind (get_aligned 4 s) (\<lambda>(b, s1).
       Inr (if DoEndianSwap be then [b ! 3, b ! 2, b ! 1, b ! 0] else [b ! 0, b ! 1, b ! 2, b ! 3], s1))"

section \<open>What they do\<close>

lemma replace_range:
  assumes "i + n \<le> length d" and "length src = n"
  shows "take (8 * (i + n)) (bits_of (take i d @ src @ drop (i + n) d)) = take (8 * i) (bits_of d) @ bits_of src"
  using assms by (simp add: bits_of_take bits_of_drop min_def)

lemma padded_bytes: "padded (8 * n) = 8 * n"
  by (simp add: padded_def)

lemma put_range_appends:
  assumes ok: "buffer_ok s" "\<not> is_read_only s" and al: "writable_bit_pos s = 8 * q"
    and small: "8 * q + 8 * length bs \<le> max_bits" and len: "length bs < 2 ^ 29"
  shows "\<exists>s'. rbind (AppendBitsCouldRealloc (8 * length bs) s) (\<lambda>s1.
     rbind (copy_into (uchar_data s1) (writable_bit_pos s1 div 8) bs (length bs)) (\<lambda>d.
       Inr (s1\<lparr>uchar_data := d, writable_bit_pos := add32 (writable_bit_pos s1) (8 * length bs)\<rparr>))) = Inr s'
     \<and> appends s s' (bits_of bs)"
proof -
  obtain s1 where s1: "AppendBitsCouldRealloc (8 * length bs) s = Inr s1"
    and bo1: "buffer_ok s1" and room: "writable_bit_pos s + 8 * length bs \<le> allocated_bits_size s1"
    and w1: "writable_bit_pos s1 = writable_bit_pos s" and r1: "readable_bit_pos s1 = readable_bit_pos s"
    and ro1: "\<not> is_read_only s1" and g1: "garbage s1 = garbage s"
    and same: "take (padded (writable_bit_pos s)) (bits_of (uchar_data s1))
       = take (padded (writable_bit_pos s)) (bits_of (uchar_data s))"
    using AppendBits_ok [OF ok, of "8 * length bs"] small al by auto
  have fits: "q + length bs \<le> length (uchar_data s1)"
    using room bo1 al unfolding buffer_ok_def by arith
  have pad: "padded (8 * q) = 8 * q" by (simp add: padded_def)
  let ?d = "take q (uchar_data s1) @ bs @ drop (q + length bs) (uchar_data s1)"
  let ?s = "s1\<lparr>uchar_data := ?d, writable_bit_pos := 8 * q + 8 * length bs\<rparr>"
  have "content ?s = content s @ bits_of bs"
    using replace_range [OF fits refl] same al pad by (simp add: content_def distrib_left)
  moreover have "tail_clean ?s"
    using padded_bytes [of "q + length bs"] by (intro tail_cleanI) (simp add: distrib_left)
  moreover have "buffer_ok ?s" using bo1 fits small by (auto simp: buffer_ok_def max_bits_def)
  ultimately have "appends s ?s (bits_of bs)"
    using r1 ro1 g1 al by (simp add: appends_def stream_ok_def)
  then show ?thesis
    using s1 w1 al fits small by (simp add: copy_into_ok add32_small max_bits_def)
qed

lemma put_aligned_appends:
  assumes w: "writable s (8 * length bs)" and al: "writable_bit_pos s mod 8 = 0"
  shows "\<exists>s'. put_aligned bs s = Inr s' \<and> appends s s' (bits_of bs)"
proof -
  obtain q where q: "writable_bit_pos s = 8 * q" using al by (auto simp: mod_eq_0_iff_dvd elim!: dvdE)
  have "buffer_ok s" "\<not> is_read_only s" "8 * q + 8 * length bs \<le> max_bits"
    using w q by (simp_all add: writable_def stream_ok_def)
  moreover from this(3) have "length bs < 2 ^ 29" by (simp add: max_bits_def)
  ultimately show ?thesis using put_range_appends [OF _ _ q, of bs] al by (simp add: put_aligned_def)
qed

lemma get_aligned_takes:
  assumes rd: "readable s (8 * length bs)" and al: "readable_bit_pos s mod 8 = 0"
    and p: "payload s = bits_of bs @ rest"
  shows "get_aligned (length bs) s = Inr (bs, skip_read (8 * length bs) s)"
proof -
  obtain q where q: "readable_bit_pos s = 8 * q" using al by (auto simp: mod_eq_0_iff_dvd elim!: dvdE)
  have bo: "buffer_ok s" and le: "8 * q + 8 * length bs \<le> writable_bit_pos s"
    and w: "writable_bit_pos s \<le> 8 * length (uchar_data s)" "writable_bit_pos s < 2 ^ 32"
    using rd q by (auto simp: readable_def buffer_ok_def)
  have fits: "q + length bs \<le> length (uchar_data s)" using le w by arith
  have "bits_of bs = take (8 * length bs) (payload s)" using p by simp
  also have "\<dots> = take (8 * length bs) (drop (8 * q) (bits_of (uchar_data s)))"
    using take_payload [OF rd] q by simp
  also have "\<dots> = bits_of (take (length bs) (drop q (uchar_data s)))"
    by (simp add: bits_of_take bits_of_drop)
  finally have "bs = take (length bs) (drop q (uchar_data s))"
    using fits by (subst (asm) bits_of_inject) auto
  moreover have "get_payloads s \<ge> 8 * length bs"
    using le w q by (simp add: get_payloads_def sub32_small)
  ultimately show ?thesis
    using al fits le w q by (simp add: get_aligned_def get_range_def skip_read_def add32_small)
qed

lemma write_aligned_bytes_appends:
  assumes w: "writable s (padded (writable_bit_pos s) - writable_bit_pos s + 8 * n)"
    and n: "0 < n" "n \<le> length src"
  shows "\<exists>s'. write_aligned_bytes src n s = Inr s'
     \<and> appends s s' (gap (writable_bit_pos s) @ bits_of (take n src))"
proof -
  let ?p = "writable_bit_pos s"
  have al: "appends s (align_writable_bit_pos s) (gap ?p)" using align_appends [OF w] by simp
  have n32: "BYTES_TO_BITS n = 8 * n"
    using w by (intro BYTES_TO_BITS_small) (simp add: writable_def max_bits_def)
  have w1: "writable (align_writable_bit_pos s) (8 * n)" using appends_writable [OF al] w by simp
  have e: "emits (WriteBits src (8 * n) True) (bits_of (take n src))"
    using emits_WriteBits [of "8 * n" src True] n by (simp add: src_bits_whole)
  obtain s' where "WriteBits src (8 * n) True (align_writable_bit_pos s) = Inr s'"
    and "appends (align_writable_bit_pos s) s' (bits_of (take n src))"
    using emitsE [OF e] w1 n by (metis length_bits_of length_take min_absorb2)
  then show ?thesis
    using appends_trans [OF al] by (auto simp: write_aligned_bytes_def Write_bytes_def n32)
qed

lemma aligned_bytes_back:
  assumes w: "writable s (padded (writable_bit_pos s) - writable_bit_pos s + 8 * n)"
    and n: "0 < n" "n \<le> length src" and r: "readable_bit_pos s = writable_bit_pos s"
  obtains s' where "write_aligned_bytes src n s = Inr s'"
    and "ReadAlignedBytes n s' = Inr (take n src, s'\<lparr>readable_bit_pos := writable_bit_pos s'\<rparr>)"
proof -
  let ?p = "writable_bit_pos s"
  obtain s' where s': "write_aligned_bytes src n s = Inr s'"
    and a: "appends s s' (gap ?p @ bits_of (take n src))"
    using write_aligned_bytes_appends [OF w n] by blast
  have len: "length (take n src) = n" using n by simp
  have wr: "writable_bit_pos s' = padded ?p + 8 * n" "readable_bit_pos s' = ?p" "buffer_ok s'" "?p \<le> max_bits"
    "padded ?p + 8 * n \<le> max_bits"
    using a r w len padded_ge [of ?p] by (auto simp: appends_def stream_ok_def writable_def)
  have al: "align_readable_bit_pos s' = s'\<lparr>readable_bit_pos := padded ?p\<rparr>"
    using wr by (simp add: align_readable_bit_pos_def aligned_pos_padded)
  let ?s = "s'\<lparr>readable_bit_pos := padded ?p\<rparr>"
  have "payload s' = gap ?p @ bits_of (take n src)"
  proof -
    have "payload s' = payload s @ gap ?p @ bits_of (take n src)"
      using a w r by (intro payload_appends) (auto simp: writable_def stream_ok_def)
    moreover have "payload s = []"
      using w r by (simp add: payload_def writable_def stream_ok_def)
    ultimately show ?thesis by simp
  qed
  moreover have "payload ?s = drop (padded ?p - ?p) (payload s')"
    using wr(2) padded_ge [of ?p] by (simp add: payload_def content_def)
  ultimately have pay: "payload ?s = bits_of (take n src) @ []" by simp
  have rd: "readable ?s (8 * length (take n src))"
    using wr len by (simp add: readable_def buffer_ok_def)
  have "get_aligned (length (take n src)) ?s = Inr (take n src, skip_read (8 * length (take n src)) ?s)"
    by (rule get_aligned_takes [OF rd _ pay]) simp
  then have "get_range (uchar_data s') (padded ?p div 8) n = Inr (take n src)"
    unfolding len by (auto simp: get_aligned_def rbind_eq_Inr)
  moreover have "get_payloads s' \<ge> 8 * n"
    using wr padded_ge [of ?p] by (simp add: get_payloads_def sub32_small buffer_ok_def)
  moreover have "BYTES_TO_BITS n = 8 * n" "shl32 n 3 = 8 * n"
    using wr by (simp_all add: max_bits_def BYTES_TO_BITS_small shl32_small)
  ultimately have "ReadAlignedBytes n s' = Inr (take n src, s'\<lparr>readable_bit_pos := writable_bit_pos s'\<rparr>)"
    using n wr al by (simp add: ReadAlignedBytes_def Let_def add32_small max_bits_def)
  then show thesis using that s' by blast
qed

lemma pad_zeros_fills:
  assumes s: "stream_ok s" "\<not> is_read_only s" "writable_bit_pos s \<le> max_bits"
    and n: "(writable_bit_pos s + 7) div 8 < bytes" "8 * bytes \<le> max_bits" "bytes < 2 ^ 31"
  obtains s' where "pad_zeros_up_to bytes s = Inr s'"
    and "appends s s' (replicate (8 * bytes - writable_bit_pos s) False)"
    and "BITS_TO_BYTES (writable_bit_pos s') = bytes"
proof -
  let ?p = "writable_bit_pos s"
  define q where "q = (?p + 7) div 8"
  define m where "m = bytes - q"
  have pq: "padded ?p = 8 * q" by (simp add: padded_def q_def)
  have btb: "BITS_TO_BYTES ?p = q" using s by (simp add: BITS_TO_BYTES_small max_bits_def q_def)
  have m: "sub32 bytes q = m" "0 < m" "m < 2 ^ 31" "8 * q + 8 * m = 8 * bytes"
    using n by (auto simp: sub32_small m_def q_def)
  have m8: "BYTES_TO_BITS m = 8 * m" using m n by (simp add: BYTES_TO_BITS_small max_bits_def)
  have w: "writable s (padded ?p - ?p)" using s n pq m padded_ge [of ?p] by (simp add: writable_def)
  have al: "appends s (align_writable_bit_pos s) (gap ?p)" by (rule align_appends [OF w]) simp
  let ?s = "align_writable_bit_pos s"
  have pos: "writable_bit_pos ?s = 8 * q" using al pq padded_ge [of ?p] by (simp add: appends_def)
  have "\<exists>s'. rbind (AppendBitsCouldRealloc (8 * length (replicate m (0 :: u8))) ?s) (\<lambda>s1.
     rbind (copy_into (uchar_data s1) (writable_bit_pos s1 div 8) (replicate m 0) (length (replicate m (0 :: u8)))) (\<lambda>d.
       Inr (s1\<lparr>uchar_data := d, writable_bit_pos := add32 (writable_bit_pos s1) (8 * length (replicate m (0 :: u8)))\<rparr>))) = Inr s'
     \<and> appends ?s s' (bits_of (replicate m 0))"
    by (rule put_range_appends [OF _ _ pos]) (use al m n in \<open>auto simp: appends_def stream_ok_def max_bits_def\<close>)
  then obtain s' where s': "pad_zeros_up_to bytes s = Inr s'" and a: "appends ?s s' (bits_of (replicate m 0))"
    using m m8 btb by (auto simp: pad_zeros_up_to_def Let_def)
  have zero: "bits_of (replicate m (0 :: u8)) = replicate (8 * m) False"
    by (induction m) (simp_all add: byte_bits_def upt_conv_Cons replicate_add [symmetric] numeral_eq_Suc)
  have "gap ?p @ bits_of (replicate m 0) = replicate (8 * bytes - ?p) False"
    using pq m(4) padded_ge [of ?p] by (simp add: gap_def zero flip: replicate_add)
  then have app: "appends s s' (replicate (8 * bytes - ?p) False)" using appends_trans [OF al a] by simp
  have "?p \<le> 8 * bytes" using pq m(4) padded_ge [of ?p] by simp
  then have "writable_bit_pos s' = 8 * bytes" using app by (simp add: appends_def)
  then have "BITS_TO_BYTES (writable_bit_pos s') = bytes"
    using n by (simp add: BITS_TO_BYTES_small max_bits_def)
  then show thesis using that s' app by blast
qed

section \<open>Addresses on the wire\<close>

text \<open>
  The address and the port are kept in network order in memory, so they are written as they are;
  the bits of the address are inverted against routers that rewrite addresses.
\<close>

definition Write_address :: "bool \<Rightarrow> network_address \<Rightarrow> writer" where
  "Write_address be src s =
     (let version = GetIPVersion src
      in rbind (Write_int be version s) (\<lambda>s1.
         if version = 4 then
           let binaryAddress = NOT (s_addr src); p = GetPortNetworkOrder src
           in rbind (WriteBits (mem_bytes be binaryAddress) (BYTES_TO_BITS 4) True s1)
                (WriteBits (mem_bytes be p) (BYTES_TO_BITS 2) True)
         else Inr s1))"

definition Read_address :: "bool \<Rightarrow> network_address \<Rightarrow> network_address reader" where
  "Read_address be dest s =
     rbind (Read_int be s) (\<lambda>(ipVersion :: u8, s1).
       if ipVersion = 4 then
         rbind (ReadBits (BYTES_TO_BITS 4) True s1) (\<lambda>(m, s2).
         rbind (ReadBits (BYTES_TO_BITS 2) True s2) (\<lambda>(p, s3).
           let port = mem_word be p
           in Inr (dest\<lparr>sin_family := AF_INET, s_addr := NOT (mem_word be m),
                        sin_port := port, debugPort := ntohs be port\<rparr>, s3)))
       else Inr (dest, s1))"

definition Write_mini_address :: "bool \<Rightarrow> network_address \<Rightarrow> writer" where
  "Write_mini_address be src s =
     (let version = GetIPVersion src
      in rbind (Write_mini_int be True version s) (\<lambda>s1.
         if version = 4 then
           rbind (Write_mini_int be True (NOT (s_addr src)) s1)
             (Write_mini_int be True (GetPortNetworkOrder src))
         else Inr s1))"

text \<open>The variables the reader declares without a value hold \<open>junk\<close> before it reads them.\<close>

definition Read_mini_address :: "bool \<Rightarrow> u8 \<Rightarrow> u32 \<Rightarrow> network_address \<Rightarrow> network_address reader" where
  "Read_mini_address be junk8 junk32 dest s =
     rbind (Read_mini_int be True junk8 s) (\<lambda>(ipVersion, s1).
       if ipVersion = 4 then
         rbind (Read_mini_int be True junk32 s1) (\<lambda>(binaryAddress, s2).
         rbind (Read_mini_int be True (sin_port dest) s2) (\<lambda>(port, s3).
           Inr (dest\<lparr>sin_family := AF_INET, s_addr := NOT binaryAddress,
                     sin_port := port, debugPort := ntohs be port\<rparr>, s3)))
       else Inr (dest, s1))"

definition raw_bits :: "bool \<Rightarrow> 'a::len word \<Rightarrow> bool list" where
  "raw_bits be x = bits_of (mem_bytes be x)"

lemma emits_raw [codec_rules]:
  assumes "byte_type (x :: 'a::len word)" and "n = bytes_of_type x"
  shows "emits (WriteBits (mem_bytes be x) (BYTES_TO_BITS n) True) (raw_bits be x)"
  using emits_WriteBits_bytes [of "mem_bytes be x" True] byte_type_size [OF assms(1)] assms(2)
  by (simp add: raw_bits_def flip: length_0_conv)

lemma takes_raw [codec_rules]:
  assumes "byte_type (x :: 'a::len word)" and "n = bytes_of_type x"
  shows "takes (ReadBits (BYTES_TO_BITS n) True) (raw_bits be x) (mem_bytes be x)"
  using takes_ReadBits_bytes [of "mem_bytes be x" "BYTES_TO_BITS n" True] byte_type_size [OF assms(1)] assms(2)
  by (simp add: raw_bits_def flip: length_0_conv)

lemma mem_word_mem_bytes [simp]:
  assumes "byte_type (x :: 'a::len word)"
  shows "mem_word be (mem_bytes be x) = x"
  using le_word_le_bytes [of "bytes_of_type x" x] byte_type_size(1) [OF assms]
  by (simp add: mem_word_def mem_bytes_def)

definition address_wire :: "bool \<Rightarrow> network_address \<Rightarrow> bool list" where
  "address_wire be a = net_bits (4 :: u8) @ raw_bits be (NOT (s_addr a)) @ raw_bits be (sin_port a)"

definition address_received :: "bool \<Rightarrow> network_address \<Rightarrow> network_address \<Rightarrow> network_address" where
  "address_received be dest a = dest\<lparr>sin_family := AF_INET, s_addr := s_addr a,
     sin_port := sin_port a, debugPort := ntohs be (sin_port a)\<rparr>"

lemma emits_Write_address:
  assumes "sin_family a = AF_INET"
  shows "emits (Write_address be a) (address_wire be a)"
proof -
  have "emits (\<lambda>s. rbind (Write_int be (4 :: u8) s) (\<lambda>s1.
      rbind (WriteBits (mem_bytes be (NOT (s_addr a))) (BYTES_TO_BITS 4) True s1)
        (WriteBits (mem_bytes be (sin_port a)) (BYTES_TO_BITS 2) True)))
      (net_bits (4 :: u8) @ raw_bits be (NOT (s_addr a)) @ raw_bits be (sin_port a))"
    by (intro emits_bind emits_Write_int emits_raw) simp_all
  then show ?thesis
    using assms by (simp add: Write_address_def [abs_def] GetIPVersion_def GetPortNetworkOrder_def
        address_wire_def Let_def)
qed

lemma takes_Read_address: "takes (Read_address be dest) (address_wire be a) (address_received be dest a)"
proof -
  let ?fin = "\<lambda>m p s3. Inr (dest\<lparr>sin_family := AF_INET, s_addr := NOT (mem_word be m),
       sin_port := mem_word be p, debugPort := ntohs be (mem_word be p)\<rparr>, s3)"
  let ?tail = "\<lambda>s1. rbind (ReadBits (BYTES_TO_BITS 4) True s1) (\<lambda>(m, s2).
         rbind (ReadBits (BYTES_TO_BITS 2) True s2) (\<lambda>(p, s3). ?fin m p s3))"
  have "takes (\<lambda>s2. rbind (ReadBits (BYTES_TO_BITS 2) True s2) (\<lambda>(p, s3). ?fin (mem_bytes be (NOT (s_addr a))) p s3))
          (raw_bits be (sin_port a)) (address_received be dest a)"
    using takes_map [where f = "\<lambda>p. dest\<lparr>sin_family := AF_INET,
        s_addr := NOT (mem_word be (mem_bytes be (NOT (s_addr a)))),
        sin_port := mem_word be p, debugPort := ntohs be (mem_word be p)\<rparr>",
      OF takes_raw [of "sin_port a" 2 be]]
    by (simp add: address_received_def)
  from takes_bind [where e = "\<lambda>m s2. rbind (ReadBits (BYTES_TO_BITS 2) True s2) (\<lambda>(p, s3). ?fin m p s3)",
      OF takes_raw [of "NOT (s_addr a)" 4 be] this]
  have "takes ?tail (raw_bits be (NOT (s_addr a)) @ raw_bits be (sin_port a)) (address_received be dest a)"
    by simp
  then have "takes (if (4 :: u8) = 4 then ?tail else (\<lambda>s1. Inr (dest, s1)))
      (raw_bits be (NOT (s_addr a)) @ raw_bits be (sin_port a)) (address_received be dest a)" by simp
  from takes_bind [where e = "\<lambda>(v :: u8). if v = 4 then ?tail else (\<lambda>s1. Inr (dest, s1))",
      OF takes_Read_int [of "4 :: u8" be] this]
  show ?thesis
    by (simp add: Read_address_def [abs_def] address_wire_def Let_def if_distribR cong: if_cong)
qed

definition mini_address_wire :: "network_address \<Rightarrow> bool list" where
  "mini_address_wire a =
     mini_wire True (4 :: u8) @ mini_wire True (NOT (s_addr a)) @ mini_wire True (sin_port a)"

lemma emits_Write_mini_address:
  assumes "sin_family a = AF_INET"
  shows "emits (Write_mini_address False a) (mini_address_wire a)"
proof -
  have "emits (\<lambda>s. rbind (Write_mini_int False True (4 :: u8) s) (\<lambda>s1.
      rbind (Write_mini_int False True (NOT (s_addr a)) s1) (Write_mini_int False True (sin_port a))))
      (mini_address_wire a)"
    unfolding mini_address_wire_def by (intro emits_bind emits_Write_mini_int) simp_all
  then show ?thesis
    using assms by (simp add: Write_mini_address_def [abs_def] GetIPVersion_def GetPortNetworkOrder_def Let_def)
qed

lemma takes_Read_mini_address:
  "takes (Read_mini_address False junk8 junk32 dest) (mini_address_wire a)
     (dest\<lparr>sin_family := AF_INET, s_addr := NOT (mini_value True (NOT (s_addr a))),
           sin_port := mini_value True (sin_port a),
           debugPort := ntohs False (mini_value True (sin_port a))\<rparr>)" (is "takes _ _ ?res")
proof -
  let ?fin = "\<lambda>x port. dest\<lparr>sin_family := AF_INET, s_addr := NOT x, sin_port := port, debugPort := ntohs False port\<rparr>"
  let ?ports = "\<lambda>x s2. rbind (Read_mini_int False True (sin_port dest) s2) (\<lambda>(port, s3). Inr (?fin x port, s3))"
  let ?tail = "\<lambda>s1. rbind (Read_mini_int False True junk32 s1) (\<lambda>(x, s2). ?ports x s2)"
  have "takes (?ports (mini_value True (NOT (s_addr a)))) (mini_wire True (sin_port a)) ?res"
    using takes_map [where f = "?fin (mini_value True (NOT (s_addr a)))",
        OF takes_Read_mini_int [of "sin_port a" True "sin_port dest"]] by simp
  from takes_bind [where e = ?ports, OF takes_Read_mini_int [of "NOT (s_addr a)" True junk32] this]
  have "takes ?tail (mini_wire True (NOT (s_addr a)) @ mini_wire True (sin_port a)) ?res" by simp
  then have "takes (if mini_value True (4 :: u8) = 4 then ?tail else (\<lambda>s1. Inr (dest, s1)))
      (mini_wire True (NOT (s_addr a)) @ mini_wire True (sin_port a)) ?res"
    using mini_unsigned_lossless [of "4 :: u8"] by simp
  from takes_bind [where e = "\<lambda>(v :: u8). if v = 4 then ?tail else (\<lambda>s1. Inr (dest, s1))",
      OF takes_Read_mini_int [of "4 :: u8" True junk8] this]
  show ?thesis
    by (simp add: Read_mini_address_def [abs_def] mini_address_wire_def if_distribR cong: if_cong)
qed

interpretation address_codec: codec "Write_address be" "Read_address be dest" "address_wire be"
  "\<lambda>a. sin_family a = AF_INET \<and> address_received be dest a = a" for be dest
proof
  fix a assume a: "sin_family a = AF_INET \<and> address_received be dest a = a"
  then show "emits (Write_address be a) (address_wire be a)" by (intro emits_Write_address) simp
  show "takes (Read_address be dest) (address_wire be a) a"
    using takes_Read_address [of be dest a] a by simp
qed

end
