(* ===== verification/Bit_Stream_Copy.thy ===== *)
theory Bit_Stream_Copy
  imports Bit_Stream_Ops
begin

text \<open>
  \<^verbatim>\<open>geco_bit_stream_t::Write(geco_bit_stream_t*, bit_size_t)\<close>: the bits up to the next byte
  boundary of the source one by one, the rest with \<^verbatim>\<open>WriteBits\<close>. The loop condition
  \<^verbatim>\<open>while (newBits2Read-- > 0)\<close> leaves the counter at \<open>2 ^ 32 - 1\<close>, which is then subtracted from
  the number of bits to write.
\<close>

definition copy_bit :: "bstream \<Rightarrow> bstream \<Rightarrow> (bstream \<times> bstream) res" where
  "copy_bit dst src =
     (let numberOfBitsMod8 = writable_bit_pos dst mod 8; i = writable_bit_pos dst div 8
      in rbind (get_at (uchar_data src) (readable_bit_pos src div 8)) (\<lambda>x.
         let one = (x AND drop_bit (readable_bit_pos src mod 8) 0x80 \<noteq> 0)
         in rbind (if numberOfBitsMod8 = 0 then put_at (uchar_data dst) i (if one then 0x80 else 0)
                   else rbind (get_at (uchar_data dst) i) (\<lambda>y.
                          put_at (uchar_data dst) i
                            (y OR (if one then drop_bit numberOfBitsMod8 0x80 else 0)))) (\<lambda>d.
              Inr (dst\<lparr>uchar_data := d, writable_bit_pos := add32 (writable_bit_pos dst) 1\<rparr>,
                   src\<lparr>readable_bit_pos := add32 (readable_bit_pos src) 1\<rparr>))))"

fun copy_bits :: "nat \<Rightarrow> bstream \<Rightarrow> bstream \<Rightarrow> (bstream \<times> bstream) res" where
  "copy_bits 0 dst src = Inr (dst, src)"
| "copy_bits (Suc n) dst src = rbind (copy_bit dst src) (\<lambda>(dst', src'). copy_bits n dst' src')"

definition Write_stream :: "nat \<Rightarrow> bstream \<Rightarrow> bstream \<Rightarrow> (bstream \<times> bstream) res" where
  "Write_stream bits2Write src dst =
     rbind (rassert (\<not> is_read_only dst)) (\<lambda>_.
     rbind (rassert (bits2Write > 0)) (\<lambda>_.
     rbind (rassert (bits2Write \<le> get_payloads src)) (\<lambda>_.
     rbind (AppendBitsCouldRealloc bits2Write dst) (\<lambda>dst1.
       let newBits2Read = 8 - readable_bit_pos src mod 8
       in rbind (copy_bits newBits2Read dst1 src) (\<lambda>(dst2, src2).
          let bits2Write' = sub32 bits2Write (2 ^ 32 - 1)
          in rbind (rassert (readable_bit_pos src2 mod 8 = 0)) (\<lambda>_.
             rbind (WriteBits (drop (readable_bit_pos src2 div 8) (uchar_data src2)) bits2Write' False dst2) (\<lambda>dst3.
               Inr (dst3, src2\<lparr>readable_bit_pos := add32 (readable_bit_pos src2) bits2Write'\<rparr>))))))))"

text \<open>The overloads without a count, and by reference.\<close>

definition Write_whole_stream :: "bstream \<Rightarrow> bstream \<Rightarrow> (bstream \<times> bstream) res" where
  "Write_whole_stream src = Write_stream (get_payloads src) src"

section \<open>One bit\<close>

lemma copy_bit_ok:
  assumes ok: "stream_ok dst" "\<not> is_read_only dst" and room: "writable_bit_pos dst < 8 * length (uchar_data dst)"
    and small: "writable_bit_pos dst < max_bits" "readable_bit_pos src < max_bits"
    and src: "readable_bit_pos src < 8 * length (uchar_data src)"
  obtains dst' where "copy_bit dst src = Inr (dst', skip_read 1 src)"
    and "appends dst dst' [bits_of (uchar_data src) ! readable_bit_pos src]"
    and "length (uchar_data dst') = length (uchar_data dst)"
proof -
  let ?w = "writable_bit_pos dst" and ?D = "uchar_data dst"
  define b where "b = bits_of (uchar_data src) ! readable_bit_pos src"
  define r where "r = ?w mod 8"
  have si: "readable_bit_pos src div 8 < length (uchar_data src)" using src by auto
  have one: "(uchar_data src ! (readable_bit_pos src div 8)
      AND drop_bit (readable_bit_pos src mod 8) 0x80 \<noteq> 0) = b"
    using test_80 [of "readable_bit_pos src mod 8"] src by (simp add: b_def nth_bits_of)
  have di: "?w div 8 < length ?D" using room by auto
  define x :: u8 where "x = (if b then 0x80 else 0)"
  have k: "1 = min 8 (1 :: nat)" "0 < (1 :: nat)" "?w + 1 \<le> 8 * length ?D" using room by simp_all
  obtain d' where d': "write_byte r x 1 dst = Inr (dst\<lparr>uchar_data := d'\<rparr>)"
    and len: "length d' = length ?D"
    and tk: "take (?w + 1) (bits_of d') = content dst @ take 1 (byte_bits x)"
    and cl: "\<forall>j<8 - 1. \<not> bit x j \<Longrightarrow> tail_clean (dst\<lparr>uchar_data := d', writable_bit_pos := ?w + 1\<rparr>)"
    using write_byte_step [OF r_def _ k] ok by (auto simp: stream_ok_def)
  have x80: "bit (0x80 :: u8) j \<longleftrightarrow> j = 7" for j
  proof -
    have "(0x80 :: u8) = push_bit 7 1" by simp
    then show ?thesis by (simp only: bit_push_bit_iff) (auto simp: bit_1_iff)
  qed
  have "\<not> 1 > 8 - r" by (simp add: r_def less_diff_conv not_less)
  then have put: "(if r = 0 then put_at ?D (?w div 8) (if b then 0x80 else 0)
       else rbind (get_at ?D (?w div 8)) (\<lambda>y. put_at ?D (?w div 8) (y OR (if b then drop_bit r 0x80 else 0)))) = Inr d'"
    using d' di
    by (auto simp: write_byte_def Let_def x_def rbind_eq_Inr split: if_splits
        dest: arg_cong [where f = uchar_data])
  let ?dst = "dst\<lparr>uchar_data := d', writable_bit_pos := ?w + 1\<rparr>"
  have "copy_bit dst src = Inr (?dst, skip_read 1 src)"
    unfolding copy_bit_def Let_def one using put si small
    by (cases b; cases "r = 0")
      (simp_all add: one skip_read_def add32_small max_bits_def flip: r_def)
  moreover have "appends dst ?dst [b]"
  proof -
    have xbit: "bit x j \<longleftrightarrow> b \<and> j = 7" for j
      unfolding x_def by (cases b) (simp_all only: x80 if_True if_False, simp_all)
    then have "take 1 (byte_bits x) = [b]" by (simp add: byte_bits_def upt_conv_Cons)
    moreover have "tail_clean ?dst" by (rule cl) (simp add: xbit)
    moreover have "buffer_ok ?dst" using ok room len small by (simp add: stream_ok_def buffer_ok_def max_bits_def)
    ultimately show ?thesis using ok tk by (simp add: appends_def stream_ok_def content_def)
  qed
  ultimately show thesis using that len by (simp add: b_def)
qed

section \<open>The whole copy\<close>

lemma copy_bits_ok:
  assumes "stream_ok dst" "\<not> is_read_only dst" and "writable_bit_pos dst + n \<le> 8 * length (uchar_data dst)"
    and "writable_bit_pos dst + n \<le> max_bits" "readable_bit_pos src + n \<le> max_bits"
    and "readable_bit_pos src + n \<le> 8 * length (uchar_data src)"
  shows "\<exists>dst'. copy_bits n dst src = Inr (dst', skip_read n src)
     \<and> appends dst dst' (take n (drop (readable_bit_pos src) (bits_of (uchar_data src))))"
  using assms
proof (induction n arbitrary: dst src)
  case 0
  then show ?case by (simp add: appends_def)
next
  case (Suc n)
  let ?B = "bits_of (uchar_data src)" and ?p = "readable_bit_pos src"
  obtain d where d: "copy_bit dst src = Inr (d, skip_read 1 src)" and a: "appends dst d [?B ! ?p]"
    and len: "length (uchar_data d) = length (uchar_data dst)"
    using copy_bit_ok [of dst src] Suc.prems by auto
  obtain dst' where "copy_bits n d (skip_read 1 src) = Inr (dst', skip_read n (skip_read 1 src))"
    and a': "appends d dst' (take n (drop (?p + 1) ?B))"
    using Suc.IH [of d "skip_read 1 src"] Suc.prems a len by (auto simp: appends_def)
  moreover have "?B ! ?p # take n (drop (?p + 1) ?B) = take (Suc n) (drop ?p ?B)"
    using Suc.prems by (simp add: Cons_nth_drop_Suc [symmetric])
  ultimately show ?case using d appends_trans [OF a a'] by simp
qed

lemma src_bits_left: "n \<le> 8 * length bs \<Longrightarrow> src_bits False bs n = take n (bits_of bs)"
proof (induction bs arbitrary: n)
  case (Cons b bs)
  show ?case
  proof (cases "n \<ge> 8")
    case True
    then show ?thesis using Cons by simp
  qed simp
qed simp

lemma Write_stream_overshoots:
  assumes dst: "writable dst (n + 9)" and src: "readable src n" and n: "8 \<le> n"
    and mem: "readable_bit_pos src + (8 - readable_bit_pos src mod 8) + n + 1 \<le> 8 * length (uchar_data src)"
  defines "m \<equiv> (8 - readable_bit_pos src mod 8) + n + 1"
  obtains dst' where "Write_stream n src dst = Inr (dst', skip_read m src)"
    and "content dst' = content dst @ take m (drop (readable_bit_pos src) (bits_of (uchar_data src)))"
    and "take n (drop (length (content dst)) (content dst')) = take n (payload src)"
proof -
  let ?p = "readable_bit_pos src" and ?w = "writable_bit_pos dst" and ?B = "bits_of (uchar_data src)"
  define k where "k = 8 - ?p mod 8"
  have k: "0 < k" "k \<le> 8" "(?p + k) mod 8 = 0"
  proof -
    have "?p + k = 8 * (?p div 8 + 1)" by (simp add: k_def minus_mod_eq_mult_div [symmetric])
    then show "(?p + k) mod 8 = 0" by simp
  qed (simp_all add: k_def)
  have D: "stream_ok dst" "\<not> is_read_only dst" "?w + (n + 9) \<le> max_bits"
    using dst by (simp_all add: writable_def)
  have S: "?p + n \<le> writable_bit_pos src" "writable_bit_pos src \<le> max_bits"
    using src by (simp_all add: readable_def)
  have pay: "n \<le> get_payloads src" using S by (simp add: get_payloads_def sub32_small max_bits_def)
  obtain dst1 where dst1: "AppendBitsCouldRealloc n dst = Inr dst1" and bo1: "buffer_ok dst1"
    and room: "?w + n \<le> allocated_bits_size dst1" and w1: "writable_bit_pos dst1 = ?w"
    and ro1: "\<not> is_read_only dst1"
    and same: "take (padded ?w) (bits_of (uchar_data dst1)) = take (padded ?w) (bits_of (uchar_data dst))"
    using AppendBits_ok [of dst n] D by (auto simp: stream_ok_def)
  have c1: "content dst1 = content dst"
    using arg_cong [OF same, of "take ?w"] w1 padded_ge [of ?w] by (simp add: content_def min_absorb1)
  have tc1: "tail_clean dst1"
  proof (rule tail_cleanI)
    fix i assume i: "writable_bit_pos dst1 \<le> i" "i < padded (writable_bit_pos dst1)"
    then have "bits_of (uchar_data dst1) ! i = bits_of (uchar_data dst) ! i"
      using arg_cong [OF same, of "\<lambda>xs. xs ! i"] w1 by simp
    then show "\<not> bits_of (uchar_data dst1) ! i" using D i w1 by (simp add: stream_ok_def tail_clean_def)
  qed
  obtain dst2 where dst2: "copy_bits k dst1 src = Inr (dst2, skip_read k src)"
    and a2: "appends dst1 dst2 (take k (drop ?p ?B))"
  proof -
    have "\<exists>dst2. copy_bits k dst1 src = Inr (dst2, skip_read k src)
        \<and> appends dst1 dst2 (take k (drop ?p ?B))"
      by (rule copy_bits_ok)
        (use bo1 tc1 ro1 w1 room k n D S mem in \<open>auto simp: stream_ok_def buffer_ok_def k_def\<close>)
    then show thesis using that by blast
  qed
  have len2: "length (take k (drop ?p ?B)) = k" using mem by (simp add: k_def)
  have sub: "sub32 n (2 ^ 32 - 1) = n + 1" using S by (simp add: sub32_def max_bits_def)
  let ?rest = "drop ((?p + k) div 8) (uchar_data src)"
  have q: "8 * ((?p + k) div 8) = ?p + k" using k(3) by (simp add: mod_eq_0_iff_dvd)
  have rlen: "n + 1 \<le> 8 * length ?rest" using mem q unfolding k_def [symmetric] by (simp add: diff_mult_distrib2)
  obtain dst3 where dst3: "WriteBits ?rest (n + 1) False dst2 = Inr dst3"
    and c3: "content dst3 = content dst2 @ src_bits False ?rest (n + 1)"
  proof (rule WriteBits_content [of dst2 "n + 1" ?rest False])
    show "stream_ok dst2" "\<not> is_read_only dst2" using a2 by (simp_all add: appends_def)
    show "0 < n + 1" "n + 1 \<le> 8 * length ?rest" using rlen by simp_all
    show "writable_bit_pos dst2 + (n + 1) \<le> max_bits" using a2 len2 w1 D k(2) by (simp add: appends_def)
  qed
  have c: "content dst3 = content dst @ take m (drop ?p ?B)"
  proof -
    have "src_bits False ?rest (n + 1) = take (n + 1) (drop k (drop ?p ?B))"
      using rlen q by (simp add: src_bits_left bits_of_drop add.commute)
    then have "content dst3 = content dst @ take k (drop ?p ?B) @ take (n + 1) (drop k (drop ?p ?B))"
      using c3 a2 c1 by (simp add: appends_def)
    also have "take k (drop ?p ?B) @ take (n + 1) (drop k (drop ?p ?B)) = take m (drop ?p ?B)"
      unfolding m_def by (simp only: take_add add.assoc flip: k_def)
    finally show ?thesis .
  qed
  have "Write_stream n src dst = Inr (dst3, skip_read m src)"
  proof -
    have "add32 (?p + k) (n + 1) = ?p + m" using S k(2) by (simp add: m_def add32_small max_bits_def flip: k_def)
    then show ?thesis
      using D n pay dst1 dst2 dst3 sub k(3)
      by (simp add: Write_stream_def Let_def skip_read_def flip: k_def)
  qed
  moreover have "take n (drop (length (content dst)) (content dst3)) = take n (payload src)"
    using c take_payload [OF src] by (simp add: m_def)
  ultimately show thesis using that c by blast
qed

end
