(* ===== verification/Stream_Properties.thy ===== *)
theory Stream_Properties
  imports Bit_Stream_Copy
begin

text \<open>
  The properties of the bit stream, of addresses and of the text and hash functions, each over the
  definitions of the theories this one imports, with an instance at a concrete input.
\<close>

section \<open>A stream to start from\<close>

abbreviation fresh_stream :: bstream where
  "fresh_stream \<equiv> stream_default (\<lambda>_. 0)"

lemma fresh_writable: "n \<le> max_bits \<Longrightarrow> writable fresh_stream n"
  using stream_default_ok by (simp add: writable_def stream_ok_def stream_default_def)

lemma fresh_pos [simp]: "readable_bit_pos fresh_stream = 0" "writable_bit_pos fresh_stream = 0"
  "\<not> is_read_only fresh_stream" "content fresh_stream = []"
  by (simp_all add: stream_default_def content_def)

lemma fresh_ok: "buffer_ok fresh_stream" "stream_ok fresh_stream"
  using stream_default_ok by (simp_all add: stream_ok_def)

lemma max_bits_ge [simp]: "n \<le> 1000000 \<Longrightarrow> n \<le> max_bits"
  by (simp add: max_bits_def)

definition loaded_stream :: bstream where
  "loaded_stream = fresh_stream\<lparr>uchar_data := [0xA5, 0x3C] @ replicate 254 0, writable_bit_pos := 16\<rparr>"

lemma loaded_readable: "n \<le> 16 \<Longrightarrow> readable loaded_stream n"
  by (simp add: readable_def buffer_ok_def loaded_stream_def stream_default_def)

section \<open>Integers\<close>

lemma int_codec: "byte_type (0 :: 'a::len word) \<Longrightarrow>
  codec (Write_int w_be :: 'a word \<Rightarrow> writer) (Read_int r_be) net_bits (\<lambda>_. True)"
  by unfold_locales (simp_all add: byte_type_def codec_rules)

lemma length_net_concat:
  "byte_type (0 :: 'a::len word) \<Longrightarrow> length (concat (map net_bits xs)) = LENGTH('a) * length (xs :: 'a word list)"
  by (induction xs) (simp_all add: length_net_bits byte_type_def)

text \<open>C1: A list of integers of any width in whole bytes, written by a machine of either byte order
  into a stream that has been read to its end, is read back by a machine of either byte order, and
  no bit of it is left.\<close>

theorem int_messages_round_trip:
  assumes "byte_type (0 :: 'a::len word)" and "writable s (LENGTH('a) * length xs)"
    and "readable_bit_pos s = writable_bit_pos s"
  shows "\<exists>s'. write_list (Write_int w_be) (xs :: 'a word list) s = Inr s'
     \<and> read_list (Read_int r_be) (length xs) s' = Inr (xs, skip_read (LENGTH('a) * length xs) s')
     \<and> get_payloads (skip_read (LENGTH('a) * length xs) s') = 0"
proof -
  note len = length_net_concat [OF assms(1), of xs]
  obtain s' where "write_list (Write_int w_be) xs s = Inr s'" "payload s' = concat (map net_bits xs)"
    and "read_list (Read_int r_be) (length xs) s' = Inr (xs, skip_read (length (payload s')) s')"
    and "get_payloads (skip_read (length (payload s')) s') = 0"
    using codec.list_round_trip [OF int_codec [OF assms(1)], of xs s w_be r_be] assms(2,3) len by auto
  then show ?thesis using len by auto
qed

theorem int_messages_round_trip_witness:
  "\<exists>s'. write_list (Write_int True) [1, 0xDEADBEEF, 3 :: u64] fresh_stream = Inr s'
     \<and> read_list (Read_int False) (length [1, 0xDEADBEEF, 3 :: u64]) s' = Inr ([1, 0xDEADBEEF, 3 :: u64], skip_read 192 s')
     \<and> get_payloads (skip_read 192 s') = 0"
  using int_messages_round_trip [of fresh_stream "[1, 0xDEADBEEF, 3 :: u64]" True False]
  by (simp add: fresh_writable del: read_list.simps write_list.simps)

text \<open>C12: \<open>WriteBits\<close> appends exactly the bits asked for to what the stream holds, the last byte
  taken from its right or its left end, leaves the reading position alone and keeps the buffer
  consistent, growing it when it has to.\<close>

theorem WriteBits_appends:
  assumes "stream_ok s" "\<not> is_read_only s" "0 < n" "n \<le> 8 * length src"
    and "writable_bit_pos s + n \<le> max_bits"
  shows "\<exists>s'. WriteBits src n right s = Inr s' \<and> buffer_ok s'
     \<and> content s' = content s @ src_bits right src n
     \<and> readable_bit_pos s' = readable_bit_pos s"
  using WriteBits_content [OF assms, where right = right] by metis

theorem WriteBits_appends_witness:
  "\<exists>s'. WriteBits [0xFF, 0x05] 11 True fresh_stream = Inr s' \<and> buffer_ok s'
     \<and> content s' = src_bits True [0xFF, 0x05] 11 \<and> readable_bit_pos s' = 0"
  using WriteBits_appends [of fresh_stream 11 "[0xFF, 0x05]" True]
  by (simp add: fresh_ok del: src_bits.simps)

text \<open>C13: \<open>ReadBits\<close> delivers the next bits of the payload, right-aligned on demand, in as many
  bytes as they need, and moves the reading position just behind them; nothing else changes.\<close>

theorem ReadBits_delivers:
  assumes "readable s n" "0 < n"
  shows "\<exists>out. ReadBits n right s = Inr (out, s\<lparr>readable_bit_pos := readable_bit_pos s + n\<rparr>)
     \<and> src_bits right out n = take n (payload s) \<and> length out = (n + 7) div 8
     \<and> (right \<longrightarrow> canonical out n)"
  using ReadBits_spec [OF assms, where right = right] by metis

theorem ReadBits_delivers_witness:
  "\<exists>out. ReadBits 11 True loaded_stream = Inr (out, loaded_stream\<lparr>readable_bit_pos := 11\<rparr>)
     \<and> src_bits True out 11 = take 11 (payload loaded_stream) \<and> length out = 2 \<and> canonical out 11"
  using ReadBits_delivers [of loaded_stream 11 True] loaded_readable [of 11]
  by (simp add: loaded_stream_def stream_default_def)

text \<open>Growing the buffer keeps every bit written so far, makes room for the bits announced and
  keeps the buffer consistent, on the stack or on the heap.\<close>

lemma AppendBits_keeps_content:
  assumes "buffer_ok s" "\<not> is_read_only s" "writable_bit_pos s + n \<le> max_bits"
  shows "\<exists>s'. AppendBitsCouldRealloc n s = Inr s' \<and> buffer_ok s' \<and> content s' = content s
     \<and> writable_bit_pos s + n \<le> allocated_bits_size s' \<and> readable_bit_pos s' = readable_bit_pos s"
proof -
  let ?w = "writable_bit_pos s"
  obtain s' where "AppendBitsCouldRealloc n s = Inr s'" "buffer_ok s'"
    "?w + n \<le> allocated_bits_size s'" "writable_bit_pos s' = ?w"
    "readable_bit_pos s' = readable_bit_pos s"
    and same: "take (padded ?w) (bits_of (uchar_data s')) = take (padded ?w) (bits_of (uchar_data s))"
    using AppendBits_ok [OF assms] by metis
  moreover have "content s' = content s"
    using arg_cong [OF same, of "take ?w"] calculation(4) padded_ge [of ?w]
    by (simp add: content_def min_absorb1)
  ultimately show ?thesis by blast
qed

text \<open>Writing one bit with the special function is writing one bit with \<open>WriteBits\<close>, whatever
  the state of the stream, faults included.\<close>

lemma WriteBitOne_is_WriteBits: "WriteBitOne s = WriteBits [1] 1 True s"
  by (rule WriteBitOne_eq_WriteBits)

section \<open>Compressed and ranged integers\<close>

text \<open>C23: On a little endian machine the compressed form of an unsigned integer, written into an
  empty stream and read into a variable of any content, gives the integer back exactly when it is
  not one of \<open>0xF0\<close> to \<open>0xFF\<close>.\<close>

theorem mini_round_trip_iff:
  assumes bt: "byte_type (x :: 'a::len word)" and s: "writable s (length (mini_wire True x))"
    and r: "readable_bit_pos s = writable_bit_pos s"
  shows "\<exists>s' y. Write_mini_int False True x s = Inr s'
     \<and> Read_mini_int False True dest s' = Inr (y, skip_read (length (mini_wire True x)) s')
     \<and> (y = x \<longleftrightarrow> unat x < 0xF0 \<or> 0x100 \<le> unat x)"
proof -
  obtain s' where w: "Write_mini_int False True x s = Inr s'" and a: "appends s s' (mini_wire True x)"
    using emitsE [OF emits_Write_mini_int [OF bt] s] by blast
  have bo: "buffer_ok s" using s by (simp add: writable_def stream_ok_def)
  have p: "payload s' = mini_wire True x @ []"
    using payload_appends [OF a bo] r bo by (simp add: payload_def)
  have rd: "readable s' (length (mini_wire True x))"
    using a s r by (simp add: readable_def appends_def writable_def stream_ok_def)
  show ?thesis
    using w takesD [OF takes_Read_mini_int [OF bt, of True dest] rd p] mini_unsigned_lossless [OF bt] by blast
qed

theorem mini_round_trip_iff_witness:
  "\<exists>s' y. Write_mini_int False True (0xF5 :: u32) fresh_stream = Inr s'
     \<and> Read_mini_int False True (7 :: u32) s' = Inr (y, skip_read (length (mini_wire True (0xF5 :: u32))) s')
     \<and> y \<noteq> 0xF5"
proof -
  have "length (mini_wire True (0xF5 :: u32)) \<le> max_bits"
    using length_mini_wire [of "0xF5 :: u32" True] by simp
  then show ?thesis
    using mini_round_trip_iff [of "0xF5 :: u32" fresh_stream 7] by (simp add: fresh_writable)
qed

text \<open>An address whose port in network order is one of \<open>0xF0\<close> to \<open>0xFF\<close> (ports 61440,
  61696, \<dots>, 65280 on a little endian host) does not survive the compressed form: the reader gets
  another port. Every other part of the way works.\<close>

lemma mini_address_loses_port:
  assumes a: "sin_family a = AF_INET" and p: "0xF0 \<le> unat (sin_port a)" "unat (sin_port a) \<le> 0xFF"
    and s: "writable s (length (mini_address_wire a))" and r: "readable_bit_pos s = writable_bit_pos s"
  shows "\<exists>s' b. Write_mini_address False a s = Inr s'
     \<and> Read_mini_address False junk8 junk32 dest s'
         = Inr (b, skip_read (length (mini_address_wire a)) s')
     \<and> sin_port b \<noteq> sin_port a \<and> \<not> address_eq b a"
proof -
  obtain s' where w: "Write_mini_address False a s = Inr s'" and ap: "appends s s' (mini_address_wire a)"
    using emitsE [OF emits_Write_mini_address [OF a] s] by blast
  have bo: "buffer_ok s" using s by (simp add: writable_def stream_ok_def)
  have pay: "payload s' = mini_address_wire a @ []"
    using payload_appends [OF ap bo] r bo by (simp add: payload_def)
  have rd: "readable s' (length (mini_address_wire a))"
    using ap s r by (simp add: readable_def appends_def writable_def stream_ok_def)
  have "mini_value True (sin_port a) \<noteq> sin_port a"
    using mini_unsigned_lossless [of "sin_port a"] p by simp
  then show ?thesis
    using w takesD [OF takes_Read_mini_address rd pay, of junk8 junk32 dest]
    by (auto simp: address_eq_def)
qed

text \<open>A value sent as a change against a last value both sides know is restored by the reader,
  at the price of one bit when nothing has changed.\<close>

lemma changed_value_round_trip:
  assumes "byte_type (x :: 'a::len word)" "writable s (1 + LENGTH('a))"
    and "readable_bit_pos s = writable_bit_pos s"
  shows "\<exists>s'. write_changed (Write_int w_be) x old s = Inr s'
     \<and> read_changed (Read_int r_be) old s' = Inr (x, s'\<lparr>readable_bit_pos := writable_bit_pos s'\<rparr>)
     \<and> writable_bit_pos s' = writable_bit_pos s + (if x = old then 1 else 1 + LENGTH('a))"
proof -
  have bt0: "byte_type (0 :: 'a word)" using assms(1) by (simp add: byte_type_def)
  note c = codec.changed_round_trip [OF int_codec [OF bt0, of w_be r_be] TrueI, where latest = x and old = old]
  let ?b = "if x = old then [False] else True # net_bits x"
  have len: "length ?b = (if x = old then 1 else 1 + LENGTH('a))" using length_net_bits [OF assms(1)] by simp
  have w: "writable s (length ?b)" by (rule writable_mono [OF assms(2)]) (simp add: len)
  obtain s' where w': "write_changed (Write_int w_be) x old s = Inr s'" and a: "appends s s' ?b"
    using emitsE [OF c(1) w] by auto
  have bo: "buffer_ok s" using w by (simp add: writable_def stream_ok_def)
  have pay: "payload s' = ?b @ []"
    using payload_appends [OF a bo] assms(3) bo by (simp add: payload_def)
  have rd: "readable s' (length ?b)"
    using a w assms(3) by (simp add: readable_def appends_def writable_def stream_ok_def)
  have "read_changed (Read_int r_be) old s' = Inr (x, skip_read (length ?b) s')"
    using takesD [OF c(2) rd pay] by simp
  moreover have "writable_bit_pos s' = writable_bit_pos s + length ?b"
    "readable_bit_pos s' = writable_bit_pos s"
    using a assms(3) by (simp_all add: appends_def)
  ultimately show ?thesis using w' len by (simp add: skip_read_def)
qed

text \<open>An integer of a known range is written with just the bits the width of the range needs,
  after one bit that tells an outside value when those are allowed, and it is read back, whatever
  the byte orders of the two machines.\<close>

lemma ranged_integer_round_trip:
  assumes range: "mini < maxi" "mini \<le> value" "value \<le> (maxi :: u32)"
    and s: "writable s 33" and r: "readable_bit_pos s = writable_bit_pos s"
  shows "\<exists>s'. write_ranged_integer get_leading_zeros_size32 w_be value mini maxi allow s = Inr s'
     \<and> ReadIntegerRange get_leading_zeros_size32 r_be dest mini maxi allow s'
         = Inr (value, s'\<lparr>readable_bit_pos := writable_bit_pos s'\<rparr>)
     \<and> writable_bit_pos s' = writable_bit_pos s + (if allow then 1 else 0) + bitlen (unat (maxi - mini))"
proof -
  define rb where "rb = bitlen (unat (maxi - mini))"
  let ?b = "ranged_wire rb value mini maxi allow"
  have bt: "byte_type value" by simp
  have e: "emits (write_ranged_bits w_be value mini maxi rb allow) ?b"
    and t: "takes (read_ranged_bits r_be dest mini maxi rb allow) ?b value"
    using ranged_inside [OF range bt rb_def] by blast+
  have rb: "rb \<le> 32" "rb \<le> 8 * bytes_of_type (value - mini)"
    using range_bits(2) [OF range bt rb_def] by simp_all
  have len: "length ?b = (if allow then 1 else 0) + rb"
    using range rb(2) length_src_bits [of rb "le_bytes 4 (value - mini)" True]
    by (auto simp: ranged_wire_def range_wire_def)
  have w: "writable s (length ?b)" by (rule writable_mono [OF s]) (use rb(1) in \<open>simp add: len\<close>)
  obtain s' where w': "write_ranged_bits w_be value mini maxi rb allow s = Inr s'" and a: "appends s s' ?b"
    using emitsE [OF e w] by blast
  have bo: "buffer_ok s" using s by (simp add: writable_def stream_ok_def)
  have pay: "payload s' = ?b @ []" using payload_appends [OF a bo] r bo by (simp add: payload_def)
  have rd: "readable s' (length ?b)"
    using a w r by (simp add: readable_def appends_def writable_def stream_ok_def)
  have "write_ranged_integer get_leading_zeros_size32 w_be value mini maxi allow s = Inr s'"
    using w' by (simp add: write_ranged_integer_def required_bits_u32 [simplified] Let_def rb_def)
  moreover have "ReadIntegerRange get_leading_zeros_size32 r_be dest mini maxi allow s'
      = Inr (value, skip_read (length ?b) s')"
    using takesD [OF t rd pay] by (simp add: ReadIntegerRange_def required_bits_u32 [simplified] Let_def rb_def)
  moreover have "writable_bit_pos s' = writable_bit_pos s + length ?b" "readable_bit_pos s' = writable_bit_pos s"
    using a r by (simp_all add: appends_def)
  ultimately show ?thesis by (simp add: len skip_read_def flip: rb_def)
qed

text \<open>A range of a single value cannot be written: no bit is needed, and \<open>WriteBits\<close> asserts
  that it gets at least one.\<close>

lemma ranged_single_value_asserts:
  "write_ranged_integer get_leading_zeros_size32 be x x x False s = Inl AssertFailed"
  by (simp add: write_ranged_integer_def required_bits_u32 [simplified] write_ranged_bits_def WriteBits_def Let_def rassert_def)

text \<open>\<open>get_leading_zeros_size\<close> counts the leading zeros at each width: the highest bit set of a
  number other than zero is the one just below them.\<close>

lemma leading_zeros_64:
  assumes "x \<noteq> 0"
  shows "get_leading_zeros_size64 x < 64 \<and> 2 ^ (63 - get_leading_zeros_size64 x) \<le> unat x
     \<and> unat x < 2 ^ (64 - get_leading_zeros_size64 x)"
proof -
  have nz: "unat x \<noteq> 0" using assms by (simp add: unat_0_iff)
  have sum: "get_leading_zeros_size64 x + bitlen (unat x) = 64" by (rule get_leading_zeros_size(4))
  moreover have "0 < bitlen (unat x)" using nz by (simp add: bitlen_pos)
  ultimately have "63 - get_leading_zeros_size64 x = bitlen (unat x) - 1"
    "64 - get_leading_zeros_size64 x = bitlen (unat x)" "get_leading_zeros_size64 x < 64" by linarith+
  then show ?thesis using bitlen_le [OF nz] bitlen_less [of "unat x"] by simp
qed

text \<open>Both forms of \<open>ReverseBytes\<close>, the copy and the swap in place, reverse the bytes and leave
  those behind the given length alone.\<close>

lemma ReverseBytes_agree:
  assumes "n \<le> length src"
  shows "ReverseBytes (take n src) n = rev (take n src)
     \<and> ReverseBytes_in_place src n = ReverseBytes (take n src) n @ drop n src"
proof -
  have len: "length (take n src) = n" using assms by simp
  show ?thesis
    using ReverseBytes_rev [of "take n src", unfolded len] ReverseBytes_in_place_rev [OF assms] by simp
qed

section \<open>Arrays, padding, addresses, copies\<close>

text \<open>Bytes written at a byte boundary are read back from a byte boundary, whatever the bit
  position the two streams of calls start from.\<close>

lemma aligned_bytes_round_trip:
  assumes "writable s (7 + 8 * n)" "0 < n" "n \<le> length src" "readable_bit_pos s = writable_bit_pos s"
  shows "\<exists>s'. write_aligned_bytes src n s = Inr s'
     \<and> ReadAlignedBytes n s' = Inr (take n src, s'\<lparr>readable_bit_pos := writable_bit_pos s'\<rparr>)"
proof -
  have "writable s (padded (writable_bit_pos s) - writable_bit_pos s + 8 * n)"
    by (rule writable_mono [OF assms(1)]) (use padded_small [of "writable_bit_pos s"] in simp)
  then show ?thesis using aligned_bytes_back [OF _ assms(2-4)] by metis
qed

text \<open>\<open>pad_zeros_up_to\<close> fills a stream with zero bits until it has the bytes asked for.\<close>

lemma pad_zeros_up_to_fills:
  assumes "stream_ok s" "\<not> is_read_only s" "writable_bit_pos s \<le> max_bits"
    and "(writable_bit_pos s + 7) div 8 < bytes" "8 * bytes \<le> max_bits" "bytes < 2 ^ 31"
  shows "\<exists>s'. pad_zeros_up_to bytes s = Inr s'
     \<and> content s' = content s @ replicate (8 * bytes - writable_bit_pos s) False
     \<and> BITS_TO_BYTES (writable_bit_pos s') = bytes"
  using pad_zeros_fills [OF assms] unfolding appends_def by metis

text \<open>An IPv4 address written into an empty stream and read on a machine of the same byte order
  comes back with its address and port, whatever the variable held before.\<close>

lemma address_round_trip:
  assumes a: "sin_family a = AF_INET" and s: "writable s 56" and r: "readable_bit_pos s = writable_bit_pos s"
  shows "\<exists>s' b. Write_address be a s = Inr s'
     \<and> Read_address be dest s' = Inr (b, s'\<lparr>readable_bit_pos := writable_bit_pos s'\<rparr>)
     \<and> address_eq b a \<and> GetPortHostOrder be b = debugPort b"
proof -
  have len: "length (address_wire be a) = 56"
    by (simp add: address_wire_def raw_bits_def length_net_bits)
  obtain s' where w: "Write_address be a s = Inr s'" and ap: "appends s s' (address_wire be a)"
    using emitsE [OF emits_Write_address [OF a], of s be] s len by metis
  have bo: "buffer_ok s" using s by (simp add: writable_def stream_ok_def)
  have pay: "payload s' = address_wire be a @ []"
    using payload_appends [OF ap bo] r bo by (simp add: payload_def)
  have rd: "readable s' (length (address_wire be a))"
    using ap s r len by (simp add: readable_def appends_def writable_def stream_ok_def)
  have "skip_read (length (address_wire be a)) s' = s'\<lparr>readable_bit_pos := writable_bit_pos s'\<rparr>"
    using ap r by (simp add: appends_def skip_read_def)
  then have "Read_address be dest s'
      = Inr (address_received be dest a, s'\<lparr>readable_bit_pos := writable_bit_pos s'\<rparr>)"
    using takesD [OF takes_Read_address rd pay] by simp
  moreover have "address_eq (address_received be dest a) a"
    using a by (simp add: address_received_def address_eq_def EqualsExcludingPort_def)
  moreover have "GetPortHostOrder be (address_received be dest a) = debugPort (address_received be dest a)"
    by (simp add: GetPortHostOrder_def address_received_def)
  ultimately show ?thesis using w by blast
qed

text \<open>Copying \<open>n\<close> bits of one stream into another begins with the right bits and then goes on:
  the bits up to the next byte boundary of the source are not taken off the count, and one more is
  added, so the target gets up to nine bits too many and the source is read past them.\<close>

lemma stream_copy_overshoots:
  assumes "writable dst (n + 9)" "readable src n" "8 \<le> n"
    and "readable_bit_pos src + (8 - readable_bit_pos src mod 8) + n + 1 \<le> 8 * length (uchar_data src)"
  shows "\<exists>dst' src'. Write_stream n src dst = Inr (dst', src')
     \<and> take n (drop (length (content dst)) (content dst')) = take n (payload src)
     \<and> length (content dst') = length (content dst) + n + (9 - readable_bit_pos src mod 8)
     \<and> readable_bit_pos src' = readable_bit_pos src + n + (9 - readable_bit_pos src mod 8)"
proof -
  let ?m = "8 - readable_bit_pos src mod 8 + n + 1"
  obtain dst' where "Write_stream n src dst = Inr (dst', skip_read ?m src)"
    and "content dst' = content dst @ take ?m (drop (readable_bit_pos src) (bits_of (uchar_data src)))"
    and "take n (drop (length (content dst)) (content dst')) = take n (payload src)"
    using Write_stream_overshoots [OF assms] by metis
  moreover have "readable_bit_pos src mod 8 < 8" by simp
  ultimately show ?thesis using assms(4) by (auto simp: min_def)
qed

section \<open>Addresses as text\<close>

text \<open>C24: An address printed with its port and parsed again is the same address and port; the
  delimiter must not be a digit, a point or a letter that marks a host name. The socket library's
  conversions are taken to be inverse to each other and to print at most 15 digits and points.\<close>

theorem address_text_round_trip:
  assumes "dotted_text inet_addr inet_ntoa" "\<not> is_digit delim" "delim \<noteq> CHR ''.''" "\<not> isDomainIPAddr [delim]"
    and "\<not> address_eq a JACKIE_NULL_ADDRESS"
  shows "SetIP4Address inet_addr resolve be (ToString_IPV4 inet_ntoa be True delim a) delim b
    = Inr (True, b\<lparr>s_addr := s_addr a, sin_port := sin_port a, debugPort := GetPortHostOrder be a\<rparr>)"
  using assms by (rule SetIP4Address_ToString)

definition plain_ntoa :: "u32 \<Rightarrow> string" where
  "plain_ntoa x = Itoa (uint x) 10"

definition plain_addr :: "string \<Rightarrow> u32" where
  "plain_addr s = of_int (atoi s)"

lemma plain_dotted: "dotted_text plain_addr plain_ntoa"
proof -
  have "length (Itoa (uint x) 10) \<le> 15" for x :: u32
    using itoa_loop_length [of "uint x" 14] unsigned_less [of x, where ?'a = int]
    by (simp add: Itoa_def Let_def)
  then show ?thesis
    using Itoa_10_chars by (auto simp: dotted_text_def plain_addr_def plain_ntoa_def atoi_Itoa_10)
qed

theorem address_text_round_trip_witness:
  "SetIP4Address plain_addr (\<lambda>_. []) False
     (ToString_IPV4 plain_ntoa False True CHR ''|'' (JACKIE_NULL_ADDRESS\<lparr>s_addr := 77, sin_port := 0x61EA\<rparr>))
     CHR ''|'' JACKIE_NULL_ADDRESS
   = Inr (True, JACKIE_NULL_ADDRESS\<lparr>s_addr := 77, sin_port := 0x61EA, debugPort := 60001\<rparr>)"
proof -
  have "GetPortHostOrder False (JACKIE_NULL_ADDRESS\<lparr>s_addr := 77, sin_port := 0x61EA\<rparr>) = 60001"
    by code_simp
  then show ?thesis
    using address_text_round_trip [OF plain_dotted, of "CHR ''|''" "JACKIE_NULL_ADDRESS\<lparr>s_addr := 77, sin_port := 0x61EA\<rparr>"
        "\<lambda>_. []" False JACKIE_NULL_ADDRESS]
    by (simp add: is_digit_def address_eq_def JACKIE_NULL_ADDRESS_def address_default_def)
qed

text \<open>Twenty-two digits and points in a row make the address parser write the terminating zero
  behind its buffer of twenty-two characters.\<close>

lemma address_text_overflow:
  assumes "22 \<le> length str" "\<forall>c\<in>set (take 22 str). (c = CHR ''.'' \<or> is_digit c) \<and> c \<noteq> delim"
    and "\<not> isDomainIPAddr str"
  shows "SetIP4Address inet_addr resolve be str delim a = Inl OutOfBounds"
  using assms by (rule SetIP4Address_overflow)

text \<open>The comparison operators order the IPv4 addresses linearly: of any two just one of less,
  equal and greater holds, less and greater are inverse, and less is transitive.\<close>

lemma address_order:
  assumes "sin_family a = AF_INET" "sin_family b = AF_INET"
  shows "((address_less a b \<and> \<not> address_eq a b \<and> \<not> address_greater a b)
      \<or> (\<not> address_less a b \<and> address_eq a b \<and> \<not> address_greater a b)
      \<or> (\<not> address_less a b \<and> \<not> address_eq a b \<and> address_greater a b))
    \<and> (address_less a b \<longleftrightarrow> address_greater b a)
    \<and> (\<forall>c. address_less a b \<longrightarrow> address_less b c \<longrightarrow> address_less a c)"
  unfolding address_less_endpoint address_greater_endpoint address_eq_endpoint [OF assms(1)]
  by auto

section \<open>Numbers and hashes\<close>

text \<open>The hash of a file is the hash of its contents in memory.\<close>

lemma file_hash_is_memory_hash: "SuperFastHashFilePtr file = SuperFastHash file (length file)"
  by (simp add: SuperFastHashFilePtr_def SuperFastHash_def hash_file_blocks_eq)

text \<open>A number printed in base ten reads back as the same number.\<close>

lemma Itoa_atoi: "atoi (Itoa v 10) = v"
  by (rule atoi_Itoa_10)

end
