(* ===== verification/Bit_Floats.thy ===== *)
theory Bit_Floats
  imports Bit_Mini "HOL-Library.Log_Nat"
begin

text \<open>
  Numbers with a fraction on the bit stream (\<^verbatim>\<open>include/geco-bit-stream.h\<close>, \<^verbatim>\<open>src/geco-bit-stream.cpp\<close>): the
  compressed \<^verbatim>\<open>float\<close> and \<^verbatim>\<open>double\<close> of \<^verbatim>\<open>WriteMini\<close>, the float of a known range in 16 bits, and normal vectors.
  A \<^verbatim>\<open>float\<close> or \<^verbatim>\<open>double\<close> is the rational number it stands for; each operation of the source is done exactly and
  rounded to the nearest number of the type, ties to even, with the gradual underflow of IEEE 754. Infinities
  and NaNs are left out: no operation below gets near the largest number.
\<close>

section \<open>Rounding\<close>

definition round_even :: "rat \<Rightarrow> int" where
  "round_even x =
     (let n = \<lfloor>x\<rfloor>; d = x - of_int n in if d < 1 / 2 \<or> (d = 1 / 2 \<and> even n) then n else n + 1)"

text \<open>The exponent: the \<open>e\<close> with \<open>2 powi e \<le> x < 2 powi (e + 1)\<close>, for \<open>x > 0\<close>.\<close>

definition exponent :: "rat \<Rightarrow> int" where
  "exponent x =
     (let (a, b) = quotient_of x; e = int (floorlog 2 (nat a)) - int (floorlog 2 (nat b))
      in if 2 powi e \<le> x then e else e - 1)"

text \<open>To \<open>p\<close> binary digits, but to no multiple of a number less than \<open>2 powi emin\<close>.\<close>

definition fl :: "nat \<Rightarrow> int \<Rightarrow> rat \<Rightarrow> rat" where
  "fl p emin x =
     (if x = 0 then 0
      else let q = 2 powi max (exponent \<bar>x\<bar> - int p + 1) emin in of_int (round_even (x / q)) * q)"

definition fl32 :: "rat \<Rightarrow> rat" where "fl32 = fl 24 (-149)"

definition fl64 :: "rat \<Rightarrow> rat" where "fl64 = fl 53 (-1074)"

text \<open>The conversion to an unsigned integer cuts off the fraction; a value out of its range is undefined.\<close>

definition float_to_word :: "rat \<Rightarrow> 'a::len word res" where
  "float_to_word v = (if -1 < v \<and> v < 2 ^ LENGTH('a) then Inr (of_int (if v < 0 then 0 else \<lfloor>v\<rfloor>)) else Inl OutOfBounds)"

section \<open>Operations\<close>

definition WriteMini_float :: "bool \<Rightarrow> rat \<Rightarrow> writer" where
  "WriteMini_float be src s =
     rbind (rassert (src > - fl32 (101 / 100) \<and> src < fl32 (101 / 100))) (\<lambda>_.
     let varCopy = (if src < -1 then -1 else src); varCopy = (if varCopy > 1 then 1 else varCopy)
     in rbind (float_to_word (fl32 (fl32 (varCopy + 1) * (65535 / 2)))) (\<lambda>c :: u16. Write_mini_int be True c s))"

definition ReadMini_float :: "bool \<Rightarrow> u16 \<Rightarrow> rat reader" where
  "ReadMini_float be junk s =
     rbind (Read_mini_int be True junk s) (\<lambda>(compressedFloat, s).
       Inr (fl32 (fl32 (of_nat (unat compressedFloat) / (65535 / 2)) - 1), s))"

definition WriteMini_double :: "bool \<Rightarrow> rat \<Rightarrow> writer" where
  "WriteMini_double be src s =
     rbind (rassert (src > - fl32 (101 / 100) \<and> src < fl32 (101 / 100))) (\<lambda>_.
     let varCopy = (if src < -1 then -1 else src); varCopy = (if varCopy > 1 then 1 else varCopy)
     in rbind (float_to_word (fl64 (fl64 (varCopy + 1) * 2147483648))) (\<lambda>c :: u32. Write_mini_int be True c s))"

definition ReadMini_double :: "bool \<Rightarrow> u32 \<Rightarrow> rat reader" where
  "ReadMini_double be junk s =
     rbind (Read_mini_int be True junk s) (\<lambda>(compressedFloat, s).
       Inr (fl64 (fl64 (of_nat (unat compressedFloat) / 2147483648) - 1), s))"

definition write_ranged_float :: "bool \<Rightarrow> rat \<Rightarrow> rat \<Rightarrow> rat \<Rightarrow> writer" where
  "write_ranged_float be floatMin floatMax src s =
     rbind (rassert (floatMax > floatMin)) (\<lambda>_.
     rbind (rassert (src < fl32 (floatMax + fl32 (1 / 1000)))) (\<lambda>_.
     rbind (rassert (src \<ge> fl32 (floatMin - fl32 (1 / 1000)))) (\<lambda>_.
     let percentile = fl32 (65535 * fl32 (fl32 (src - floatMin) / fl32 (floatMax - floatMin)));
         percentile = (if percentile < 0 then 0 else percentile);
         percentile = (if percentile > 65535 then 65535 else percentile)
     in rbind (float_to_word percentile) (\<lambda>c :: u16. Write_mini_int be True c s))))"

definition read_ranged_float :: "bool \<Rightarrow> u16 \<Rightarrow> rat \<Rightarrow> rat \<Rightarrow> rat reader" where
  "read_ranged_float be junk floatMin floatMax s =
     rbind (rassert (floatMax > floatMin)) (\<lambda>_.
     rbind (Read_mini_int be True junk s) (\<lambda>(percentile, s).
       let out = fl32 (floatMin + fl32 (fl32 (of_nat (unat percentile) / 65535) * fl32 (floatMax - floatMin)))
       in Inr (if out < floatMin then floatMin else if out > floatMax then floatMax else out, s)))"

text \<open>The cast to \<^verbatim>\<open>float\<close> rounds a vector of doubles and leaves one of floats as it is.\<close>

definition write_normal_vector :: "bool \<Rightarrow> rat \<times> rat \<times> rat \<Rightarrow> writer" where
  "write_normal_vector be = (\<lambda>(x, y, z) s.
     let m = fl64 (101 / 100)
     in rbind (rassert (x \<le> m \<and> y \<le> m \<and> z \<le> m \<and> x \<ge> -m \<and> y \<ge> -m \<and> z \<ge> -m)) (\<lambda>_.
        rbind (write_ranged_float be (-1) 1 (fl32 x) s) (\<lambda>s.
        rbind (write_ranged_float be (-1) 1 (fl32 y) s) (write_ranged_float be (-1) 1 (fl32 z)))))"

definition ReadNormVector :: "bool \<Rightarrow> u16 \<Rightarrow> (rat \<times> rat \<times> rat) reader" where
  "ReadNormVector be junk s =
     rbind (read_ranged_float be junk (-1) 1 s) (\<lambda>(x, s).
     rbind (read_ranged_float be junk (-1) 1 s) (\<lambda>(y, s).
     rbind (read_ranged_float be junk (-1) 1 s) (\<lambda>(z, s). Inr ((x, y, z), s))))"

section \<open>How far rounding goes\<close>

lemma round_even_close: "\<bar>of_int (round_even x) - x\<bar> \<le> 1 / 2"
proof -
  have "of_int \<lfloor>x\<rfloor> \<le> x" "x < of_int \<lfloor>x\<rfloor> + 1" by linarith+
  then show ?thesis by (auto simp: round_even_def Let_def abs_le_iff field_simps)
qed

lemma round_even_nonneg: "0 \<le> x \<Longrightarrow> 0 \<le> round_even x"
  by (simp add: round_even_def Let_def)

lemma exponent_le:
  assumes "0 < x"
  shows "2 powi exponent x \<le> x"
proof -
  obtain a b where ab: "quotient_of x = (a, b)" by fastforce
  then have b: "b > 0" and x: "x = of_int a / of_int b" by (auto simp: quotient_of_denom_pos quotient_of_div)
  then have a: "a > 0" using assms by (simp add: zero_less_divide_iff)
  define m n where "m = floorlog 2 (nat a)" and "n = floorlog 2 (nat b)"
  have "2 ^ (m - 1) \<le> nat a" "m \<noteq> 0" "nat b < 2 ^ n"
    using floorlog_bounds [of "nat a" 2] floorlog_bounds [of "nat b" 2] a b
    by (auto simp: m_def n_def floorlog_eq_zero_iff)
  then have "2 ^ (m - 1) \<le> a" "b \<le> 2 ^ n" using a b by (simp_all add: le_nat_iff nat_less_iff)
  then have "of_int (2 ^ (m - 1)) \<le> (of_int a :: rat)" "of_int b \<le> (of_int (2 ^ n) :: rat)"
    unfolding of_int_le_iff .
  then have lo: "(2 :: rat) ^ (m - 1) \<le> of_int a" and hi: "of_int b \<le> (2 :: rat) ^ n" by simp_all
  have "2 powi (int m - int n - 1) = (2 :: rat) ^ (m - 1) / 2 ^ n"
    using \<open>m \<noteq> 0\<close> by (simp add: power_int_diff power_diff)
  also have "\<dots> \<le> of_int a / of_int b" using lo hi a b by (intro frac_le) simp_all
  finally have "2 powi (int m - int n - 1) \<le> x" by (simp add: x)
  then show ?thesis by (simp add: exponent_def ab m_def n_def Let_def)
qed

lemma fl_close: "\<bar>fl p emin x - x\<bar> \<le> \<bar>x\<bar> / 2 ^ p + 2 powi (emin - 1)"
proof (cases "x = 0")
  case False
  let ?e = "exponent \<bar>x\<bar> - int p + 1"
  define q :: rat where "q = 2 powi max ?e emin"
  have q: "q > 0" by (simp add: q_def)
  have "fl p emin x - x = (of_int (round_even (x / q)) - x / q) * q"
    using False q by (simp add: fl_def q_def [symmetric] Let_def left_diff_distrib)
  then have "\<bar>fl p emin x - x\<bar> \<le> 1 / 2 * q"
    using round_even_close [of "x / q"] q by (simp add: abs_mult)
  moreover have "1 / 2 * q \<le> 2 powi (?e - 1) + 2 powi (emin - 1)"
  proof (cases "?e \<le> emin")
    case True
    then show ?thesis by (simp add: q_def max_def power_int_diff)
  next
    case False
    then have "1 / 2 * q = 2 powi (?e - 1)" by (simp add: q_def max_def power_int_diff power_int_add)
    then show ?thesis by simp
  qed
  moreover have "2 powi (?e - 1) = (2 :: rat) powi exponent \<bar>x\<bar> / 2 ^ p"
    by (simp add: power_int_diff)
  moreover have "2 powi exponent \<bar>x\<bar> / 2 ^ p \<le> \<bar>x\<bar> / (2 :: rat) ^ p"
    using exponent_le [of "\<bar>x\<bar>"] False by (intro divide_right_mono) simp_all
  ultimately show ?thesis by linarith
qed (simp add: fl_def)

lemma fl_nonneg: "0 \<le> x \<Longrightarrow> 0 \<le> fl p emin x"
  by (simp add: fl_def Let_def round_even_nonneg)

lemma fl_types_nonneg [simp]: "0 \<le> x \<Longrightarrow> 0 \<le> fl32 x" "0 \<le> x \<Longrightarrow> 0 \<le> fl64 x"
  by (simp_all add: fl32_def fl64_def fl_nonneg)

text \<open>The same with numbers that linear arithmetic can take: \<open>16777216 = 2 ^ 24\<close> and \<open>9007199254740992 = 2 ^ 53\<close>.\<close>

lemma fl32_close: "\<bar>x\<bar> \<le> m \<Longrightarrow> \<bar>fl32 x - x\<bar> \<le> m / 16777216 + 1 / 10000000000000000"
proof -
  assume "\<bar>x\<bar> \<le> m"
  then have "\<bar>x\<bar> / 2 ^ 24 \<le> m / 2 ^ 24" by (rule divide_right_mono) simp
  moreover have "(2 :: rat) powi (-149 - 1) \<le> 1 / 10000000000000000" by (simp add: power_int_minus)
  ultimately show ?thesis using fl_close [of 24 "-149" x] unfolding fl32_def by simp
qed

lemma fl64_close: "\<bar>x\<bar> \<le> m \<Longrightarrow> \<bar>fl64 x - x\<bar> \<le> m / 9007199254740992 + 1 / 2 ^ 200"
proof -
  assume "\<bar>x\<bar> \<le> m"
  then have "\<bar>x\<bar> / 2 ^ 53 \<le> m / 2 ^ 53" by (rule divide_right_mono) simp
  moreover have "(2 :: rat) powi (-1074 - 1) \<le> 1 / 2 ^ 200" by (simp add: power_int_minus)
  ultimately show ?thesis using fl_close [of 53 "-1074" x] unfolding fl64_def by simp
qed

lemma float_to_word_ok:
  assumes "0 \<le> v" and "v < 2 ^ LENGTH('a::len)"
  shows "\<exists>c :: 'a word. float_to_word v = Inr c \<and> of_nat (unat c) \<le> v \<and> v < of_nat (unat c) + 1"
proof -
  have n: "0 \<le> \<lfloor>v\<rfloor>" using assms(1) by simp
  have "\<lfloor>v\<rfloor> < 2 ^ LENGTH('a)" using assms(2) by (simp add: floor_less_iff)
  then have "uint (of_int \<lfloor>v\<rfloor> :: 'a word) = \<lfloor>v\<rfloor>" using n by (simp add: uint_word_of_int take_bit_int_eq_self)
  then have "of_nat (unat (of_int \<lfloor>v\<rfloor> :: 'a word)) = (of_int \<lfloor>v\<rfloor> :: rat)" by (metis of_int_of_nat_eq uint_nat)
  then show ?thesis using assms by (simp add: float_to_word_def) linarith
qed

text \<open>Of sixteen values the compressed integer is read back less by 240.\<close>

lemma mini_value_lossy:
  assumes "240 \<le> unat x" and "unat x < 256"
  shows "unat (mini_value True (x :: u16)) = unat x - 240"
proof -
  have all: "\<forall>i \<in> set [240..<256]. unat (mini_value True (of_nat i :: u16)) = i - 240" by code_simp
  have "unat x \<in> set [240..<256]" unfolding set_upt using assms by simp
  from bspec [OF all this] show ?thesis by simp
qed

lemma mini_value_16:
  "unat (mini_value True (x :: u16)) = (if 240 \<le> unat x \<and> unat x < 256 then unat x - 240 else unat x)"
  using mini_value_lossy [of x] mini_unsigned_lossless [of x] by (auto simp: not_le)

section \<open>What is written and what is read\<close>

lemma float_bounds: "1 < fl32 (101 / 100)" "1 < fl64 (101 / 100)" "fl32 2 = 2" "0 < fl32 (1 / 1000)"
  by code_simp+

text \<open>The integer a float of the unit range is written as, up to what is lost by rounding.\<close>

lemma WriteMini_float_int:
  assumes "-1 \<le> x" and "x \<le> 1"
  obtains c :: u16 where "\<And>be s. WriteMini_float be x s = Write_mini_int be True c s"
    and "of_nat (unat c) \<le> (x + 1) * (65535 / 2) + 1 / 100" and "(x + 1) * (65535 / 2) - 101 / 100 < of_nat (unat c)"
proof -
  define t where "t = fl32 (x + 1)"
  define v where "v = fl32 (t * (65535 / 2))"
  have t: "\<bar>t - (x + 1)\<bar> \<le> 2 / 16777216 + 1 / 10000000000000000"
    unfolding t_def by (rule fl32_close) (use assms in simp)
  then have t3: "\<bar>t * (65535 / 2)\<bar> \<le> 65536" using assms by linarith
  have v: "\<bar>v - t * (65535 / 2)\<bar> \<le> 65536 / 16777216 + 1 / 10000000000000000" unfolding v_def by (rule fl32_close [OF t3])
  have w: "\<bar>v - (x + 1) * (65535 / 2)\<bar> \<le> 1 / 100"
    using t v unfolding distrib_right by linarith
  have "0 \<le> v" unfolding v_def t_def using assms by simp
  moreover have "v < 65536" using w assms unfolding distrib_right by linarith
  ultimately obtain c :: u16 where c: "float_to_word v = Inr c" "of_nat (unat c) \<le> v" "v < of_nat (unat c) + 1"
    using float_to_word_ok [of v, where 'a = 16] by auto
  have "WriteMini_float be x s = Write_mini_int be True c s" for be s
    using assms float_bounds(1) c(1) by (simp add: WriteMini_float_def v_def t_def)
  then show ?thesis
  proof (rule that)
    show "of_nat (unat c) \<le> (x + 1) * (65535 / 2) + 1 / 100" using c(2) w by linarith
    show "(x + 1) * (65535 / 2) - 101 / 100 < of_nat (unat c)" using c(3) w by linarith
  qed
qed

lemma ReadMini_float_takes:
  "takes (ReadMini_float False junk) (mini_wire True c)
     (fl32 (fl32 (of_nat (unat (mini_value True (c :: u16))) / (65535 / 2)) - 1))"
  using takes_map [where f = "\<lambda>c. fl32 (fl32 (of_nat (unat c) / (65535 / 2)) - 1)",
      OF takes_Read_mini_int [of c True junk]]
  by (simp add: ReadMini_float_def [abs_def])

lemma float_back:
  assumes "n < 65536"
  shows "\<bar>fl32 (fl32 (of_nat n / (65535 / 2)) - 1) - (of_nat n / (65535 / 2) - 1)\<bar> \<le> 1 / 4194304"
proof -
  define r :: rat where "r = of_nat n / (65535 / 2)"
  define t where "t = fl32 r"
  have r: "0 \<le> r" "r \<le> 2" using assms by (simp_all add: r_def)
  then have "\<bar>t - r\<bar> \<le> 2 / 16777216 + 1 / 10000000000000000" unfolding t_def by (intro fl32_close) simp
  moreover from this have "\<bar>t - 1\<bar> \<le> 3 / 2" using r by linarith
  then have "\<bar>fl32 (t - 1) - (t - 1)\<bar> \<le> (3 / 2) / 16777216 + 1 / 10000000000000000" by (rule fl32_close)
  ultimately show ?thesis unfolding r_def [symmetric] t_def [symmetric] by linarith
qed

section \<open>Floats of a known range\<close>

lemma write_ranged_float_int:
  assumes "-1 \<le> x" and "x \<le> 1"
  obtains c :: u16 where "\<And>be s. write_ranged_float be (-1) 1 x s = Write_mini_int be True c s"
    and "of_nat (unat c) \<le> (x + 1) * (65535 / 2) + 1 / 80" and "(x + 1) * (65535 / 2) - 81 / 80 < of_nat (unat c)"
proof -
  define t where "t = fl32 (x + 1)"
  define u where "u = fl32 (t / 2)"
  define v where "v = fl32 (65535 * u)"
  have t: "\<bar>t - (x + 1)\<bar> \<le> 2 / 16777216 + 1 / 10000000000000000"
    unfolding t_def by (rule fl32_close) (use assms in simp)
  then have "\<bar>t / 2\<bar> \<le> 101 / 100" using assms by linarith
  then have u: "\<bar>u - t / 2\<bar> \<le> (101 / 100) / 16777216 + 1 / 10000000000000000" unfolding u_def by (rule fl32_close)
  then have "\<bar>65535 * u\<bar> \<le> 65536" using t assms by linarith
  then have v: "\<bar>v - 65535 * u\<bar> \<le> 65536 / 16777216 + 1 / 10000000000000000" unfolding v_def by (rule fl32_close)
  have w: "\<bar>v - (x + 1) * (65535 / 2)\<bar> \<le> 1 / 80" using t u v unfolding distrib_right by linarith
  have v0: "0 \<le> v" unfolding v_def u_def t_def using assms by simp
  define v' where "v' = (if v > 65535 then 65535 else v)"
  have "0 \<le> v'" "v' < 2 ^ LENGTH(16)" using v0 by (simp_all add: v'_def)
  then obtain c :: u16 where c: "float_to_word v' = Inr c" "of_nat (unat c) \<le> v'" "v' < of_nat (unat c) + 1"
    using float_to_word_ok [of v', where 'a = 16] by blast
  have edges: "x < fl32 (1 + fl32 (1 / 1000))" "fl32 (-1 - fl32 (1 / 1000)) \<le> x"
  proof -
    have e: "\<bar>fl32 (1 / 1000) - 1 / 1000\<bar> \<le> (1 / 1000) / 16777216 + 1 / 10000000000000000"
      by (rule fl32_close) simp
    then have "\<bar>1 + fl32 (1 / 1000)\<bar> \<le> 2" "\<bar>-1 - fl32 (1 / 1000)\<bar> \<le> 2" by linarith+
    from fl32_close [OF this(1)] fl32_close [OF this(2)] e
    have "1 < fl32 (1 + fl32 (1 / 1000))" "fl32 (-1 - fl32 (1 / 1000)) < -1" by linarith+
    then show "x < fl32 (1 + fl32 (1 / 1000))" "fl32 (-1 - fl32 (1 / 1000)) \<le> x" using assms by linarith+
  qed
  have "write_ranged_float be (-1) 1 x s = Write_mini_int be True c s" for be s
    using c(1) edges v0 float_bounds(3) unfolding v'_def v_def u_def t_def
    by (simp add: write_ranged_float_def Let_def add.commute [of x 1] cong: if_cong)
  then show ?thesis
  proof (rule that)
    have "v' \<le> v" "v' = v \<or> (x + 1) * (65535 / 2) \<le> v'" using assms by (auto simp: v'_def)
    then show "of_nat (unat c) \<le> (x + 1) * (65535 / 2) + 1 / 80" "(x + 1) * (65535 / 2) - 81 / 80 < of_nat (unat c)"
      using c(2,3) w by linarith+
  qed
qed

definition ranged_back :: "u16 \<Rightarrow> rat" where
  "ranged_back percentile =
     (let out = fl32 (-1 + fl32 (fl32 (of_nat (unat percentile) / 65535) * fl32 (1 - -1)))
      in if out < -1 then -1 else if out > 1 then 1 else out)"

lemma read_ranged_float_takes:
  "takes (read_ranged_float False junk (-1) 1) (mini_wire True c) (ranged_back (mini_value True c))"
proof -
  have "read_ranged_float False junk (-1) 1 =
      (\<lambda>s. rbind (Read_mini_int False True junk s) (\<lambda>(a, s1). Inr (ranged_back a, s1)))"
    by (simp add: fun_eq_iff read_ranged_float_def ranged_back_def Let_def)
  then show ?thesis using takes_map [where f = ranged_back, OF takes_Read_mini_int [of c True junk]] by simp
qed

lemma ranged_back_close: "\<bar>ranged_back c - (of_nat (unat c) / (65535 / 2) - 1)\<bar> \<le> 1 / 2000000"
proof -
  define r :: rat where "r = of_nat (unat c) / 65535"
  define a where "a = fl32 r"
  define b where "b = fl32 (a * 2)"
  define d where "d = fl32 (-1 + b)"
  obtain n where n: "unat c = n" "n < 65536" using unsigned_less [of c] by simp
  then have r: "0 \<le> r" "r \<le> 1" unfolding r_def n(1) by simp_all
  then have a: "\<bar>a - r\<bar> \<le> 1 / 16777216 + 1 / 10000000000000000" unfolding a_def by (intro fl32_close) simp
  then have "\<bar>a * 2\<bar> \<le> 201 / 100" using r by linarith
  then have b: "\<bar>b - a * 2\<bar> \<le> (201 / 100) / 16777216 + 1 / 10000000000000000" unfolding b_def by (rule fl32_close)
  then have "\<bar>-1 + b\<bar> \<le> 11 / 10" using a r by linarith
  then have d: "\<bar>d - (-1 + b)\<bar> \<le> (11 / 10) / 16777216 + 1 / 10000000000000000" unfolding d_def by (rule fl32_close)
  have "\<bar>d - (2 * r - 1)\<bar> \<le> 1 / 2000000" using a b d by linarith
  moreover have "ranged_back c = (if d < -1 then -1 else if d > 1 then 1 else d)"
    using float_bounds(3) by (simp add: ranged_back_def Let_def d_def b_def a_def r_def)
  ultimately have "\<bar>ranged_back c - (2 * r - 1)\<bar> \<le> 1 / 2000000" using r by (auto simp: abs_le_iff)
  moreover have "2 * r = of_nat (unat c) / (65535 / 2)" by (simp add: r_def)
  ultimately show ?thesis by (simp only:)
qed

section \<open>Doubles\<close>

lemma exponent_power: "exponent (2 ^ k) = int k"
proof -
  have "quotient_of (2 ^ k) = (2 ^ k, 1)" using quotient_of_rat_of_int [of "2 ^ k"] by simp
  moreover have "floorlog 2 (2 ^ k) = k + 1" using floorlog_power [of 1 2 k] by (simp add: floorlog_def)
  ultimately show ?thesis by (simp add: exponent_def nat_power_eq floorlog_def)
qed

lemma fl64_power: "k \<le> 52 \<Longrightarrow> fl64 (2 ^ k) = 2 ^ k"
proof -
  assume k: "k \<le> 52"
  have "(2 ^ k :: rat) / 2 powi (int k - 52) = of_int (2 ^ 52)" using k by (simp add: power_int_diff)
  then have "round_even (2 ^ k / 2 powi (int k - 52)) = 2 ^ 52" by (simp add: round_even_def)
  then show ?thesis by (simp add: fl64_def fl_def exponent_power max_def power_int_diff)
qed

text \<open>The double 1 is written as \<open>2 ^ 32\<close>, which no unsigned integer of 32 bits is.\<close>

lemma WriteMini_double_one:
  assumes "1 \<le> x" and "x < fl32 (101 / 100)"
  shows "WriteMini_double be x s = Inl OutOfBounds"
proof -
  have "fl64 (fl64 (1 + 1) * 2147483648) = 4294967296"
    using fl64_power [of 1] fl64_power [of 32] by simp
  then have "float_to_word (fl64 (fl64 (1 + 1) * 2147483648)) = (Inl OutOfBounds :: u32 res)" by (simp add: float_to_word_def)
  then show ?thesis using assms by (cases "x = 1") (simp_all add: WriteMini_double_def)
qed

lemma WriteMini_double_int:
  assumes "-1 \<le> x" and "x \<le> 1 - 1 / 10 ^ 14"
  obtains c :: u32 where "\<And>be s. WriteMini_double be x s = Write_mini_int be True c s"
    and "of_nat (unat c) \<le> (x + 1) * 2147483648 + 1 / 100000" and "(x + 1) * 2147483648 - 100001 / 100000 < of_nat (unat c)"
proof -
  define t where "t = fl64 (x + 1)"
  define v where "v = fl64 (t * 2147483648)"
  have edge: "1 - 1 / 10 ^ 14 = (99999999999999 :: rat) / 100000000000000" by simp
  have e: "(1 :: rat) / 2 ^ 200 \<le> 1 / 10000000000000000000000000000000000000000" by simp
  have "\<bar>t - (x + 1)\<bar> \<le> 2 / 9007199254740992 + 1 / 2 ^ 200"
    unfolding t_def by (rule fl64_close) (use assms in simp)
  then have t: "\<bar>t - (x + 1)\<bar> \<le> 2 / 9007199254740992 + 1 / 10000000000000000000000000000000000000000"
    using e by linarith
  then have "\<bar>t * 2147483648\<bar> \<le> 4294967296"
    using assms unfolding edge by linarith
  then have "\<bar>v - t * 2147483648\<bar> \<le> 4294967296 / 9007199254740992 + 1 / 2 ^ 200" unfolding v_def by (rule fl64_close)
  then have v: "\<bar>v - t * 2147483648\<bar> \<le> 4294967296 / 9007199254740992 + 1 / 10000000000000000000000000000000000000000"
    using e by linarith
  have w: "\<bar>v - (x + 1) * 2147483648\<bar> \<le> 1 / 500000" using t v unfolding distrib_right by linarith
  have "0 \<le> v" unfolding v_def t_def using assms by simp
  moreover have "v < 4294967296" using w assms unfolding edge distrib_right by linarith
  then have "v < 2 ^ LENGTH(32)" by simp
  ultimately obtain c :: u32 where c: "float_to_word v = Inr c" "of_nat (unat c) \<le> v" "v < of_nat (unat c) + 1"
    using float_to_word_ok [of v, where 'a = 32] by blast
  have "WriteMini_double be x s = Write_mini_int be True c s" for be s
    using assms float_bounds(1) c(1) by (simp add: WriteMini_double_def v_def t_def)
  then show ?thesis
  proof (rule that)
    show "of_nat (unat c) \<le> (x + 1) * 2147483648 + 1 / 100000" using c(2) w by linarith
    show "(x + 1) * 2147483648 - 100001 / 100000 < of_nat (unat c)" using c(3) w by linarith
  qed
qed

lemma mini_value_32:
  "unat x < 240 \<or> 256 \<le> unat x \<Longrightarrow> mini_value True (x :: u32) = x"
  using mini_unsigned_lossless [of x] by simp

lemma ReadMini_double_takes:
  "takes (ReadMini_double False junk) (mini_wire True c)
     (fl64 (fl64 (of_nat (unat (mini_value True (c :: u32))) / 2147483648) - 1))"
  using takes_map [where f = "\<lambda>c. fl64 (fl64 (of_nat (unat c) / 2147483648) - 1)",
      OF takes_Read_mini_int [of c True junk]]
  by (simp add: ReadMini_double_def [abs_def])

lemma double_back:
  assumes "n < 4294967296"
  shows "\<bar>fl64 (fl64 (of_nat n / 2147483648) - 1) - (of_nat n / 2147483648 - 1)\<bar> \<le> 1 / 1000000000000000"
proof -
  define r :: rat where "r = of_nat n / 2147483648"
  define t where "t = fl64 r"
  have e: "(1 :: rat) / 2 ^ 200 \<le> 1 / 10000000000000000000000000000000000000000" by simp
  have r: "0 \<le> r" "r \<le> 2" using assms by (simp_all add: r_def)
  then have t: "\<bar>t - r\<bar> \<le> 2 / 9007199254740992 + 1 / 2 ^ 200" unfolding t_def by (intro fl64_close) simp
  then have "\<bar>t - 1\<bar> \<le> 3 / 2" using r e by linarith
  then have "\<bar>fl64 (t - 1) - (t - 1)\<bar> \<le> (3 / 2) / 9007199254740992 + 1 / 2 ^ 200" by (rule fl64_close)
  then show ?thesis using t e unfolding r_def [symmetric] t_def [symmetric] by linarith
qed

section \<open>How close the numbers come back\<close>

text \<open>Outside the sixteen values that lose 240, a float comes back a little more than one step of the grid below.\<close>

definition off_gap :: "rat \<Rightarrow> bool" where
  "off_gap x \<longleftrightarrow> 9 \<le> \<bar>(x + 1) * (65535 / 2) - 248\<bar>"

lemma off_gap_int:
  assumes "off_gap x" and "of_nat n \<le> (x + 1) * (65535 / 2) + 1 / 80" and "(x + 1) * (65535 / 2) - 81 / 80 < of_nat n"
  shows "n < 240 \<or> 256 \<le> n"
proof (cases "(x + 1) * (65535 / 2) - 248 < 0")
  case True
  then have "of_nat n < (240 :: rat)" using assms unfolding off_gap_def by linarith
  then show ?thesis by simp
next
  case False
  then have "(255 :: rat) < of_nat n" using assms unfolding off_gap_def by linarith
  then show ?thesis by simp
qed

lemma steps: "r / (65535 / 2) = 2 / 65535 * (r :: rat)"
  by simp

lemma mini_float_values:
  assumes "-1 \<le> x" and "x \<le> 1"
  obtains bs y where "emits (WriteMini_float False x) bs" "takes (ReadMini_float False junk) bs y" "length bs \<le> 18"
    "off_gap x \<Longrightarrow> \<bar>y - x\<bar> \<le> 1 / 32000" "\<bar>(x + 1) * (65535 / 2) - 248\<bar> \<le> 6 \<Longrightarrow> y < x - 1 / 140"
proof -
  obtain c :: u16 where c: "\<And>be s. WriteMini_float be x s = Write_mini_int be True c s"
    "of_nat (unat c) \<le> (x + 1) * (65535 / 2) + 1 / 100" "(x + 1) * (65535 / 2) - 101 / 100 < of_nat (unat c)"
    using WriteMini_float_int [OF assms] by blast
  obtain n where n: "unat c = n" "n < 65536" using unsigned_less [of c] by simp
  define m where "m = unat (mini_value True c)"
  have m: "m = (if 240 \<le> n \<and> n < 256 then n - 240 else n)" by (simp add: m_def mini_value_16 n(1))
  define y where "y = fl32 (fl32 (of_nat m / (65535 / 2)) - 1)"
  have y: "\<bar>y - (of_nat m / (65535 / 2) - 1)\<bar> \<le> 1 / 4194304" unfolding y_def by (rule float_back) (use n(2) m in auto)
  note near = c(2,3) [unfolded n(1)]
  show ?thesis
  proof (rule that)
    have "WriteMini_float False x = Write_mini_int False True c" using c(1) by (simp add: fun_eq_iff)
    then show "emits (WriteMini_float False x) (mini_wire True c)" by (simp add: codec_rules)
    show "takes (ReadMini_float False junk) (mini_wire True c) y" unfolding y_def m_def by (rule ReadMini_float_takes)
    show "length (mini_wire True c) \<le> 18" using length_mini_wire [of c True] by simp
    show "\<bar>y - x\<bar> \<le> 1 / 32000" if "off_gap x"
    proof -
      have "n < 240 \<or> 256 \<le> n" by (rule off_gap_int [OF that]) (use near in linarith)+
      then have "m = n" using m by auto
      from y [unfolded this] show ?thesis using near unfolding distrib_right steps by linarith
    qed
    show "y < x - 1 / 140" if "\<bar>(x + 1) * (65535 / 2) - 248\<bar> \<le> 6"
    proof -
      have "(240 :: rat) \<le> of_nat n" "of_nat n < (256 :: rat)" using that near by linarith+
      then have "240 \<le> n" "n < 256" by simp_all
      then have "(of_nat m :: rat) = of_nat n - 240" using m by (simp add: of_nat_diff)
      then show ?thesis using near y unfolding distrib_right steps by linarith
    qed
  qed
qed

lemma ranged_float_values:
  assumes "-1 \<le> x" and "x \<le> 1" and "off_gap x"
  obtains bs y where "emits (write_ranged_float False (-1) 1 x) bs" "takes (read_ranged_float False junk (-1) 1) bs y"
    "length bs \<le> 18" "\<bar>y - x\<bar> \<le> 1 / 31500"
proof -
  obtain c :: u16 where c: "\<And>be s. write_ranged_float be (-1) 1 x s = Write_mini_int be True c s"
    "of_nat (unat c) \<le> (x + 1) * (65535 / 2) + 1 / 80" "(x + 1) * (65535 / 2) - 81 / 80 < of_nat (unat c)"
    using write_ranged_float_int [OF assms(1,2)] by blast
  have "mini_value True c = c" using off_gap_int [OF assms(3) c(2,3)] mini_unsigned_lossless [of c] by simp
  then have t: "takes (read_ranged_float False junk (-1) 1) (mini_wire True c) (ranged_back c)"
    using read_ranged_float_takes [of junk c] by simp
  show ?thesis
  proof (rule that [OF _ t])
    have "write_ranged_float False (-1) 1 x = Write_mini_int False True c" using c(1) by (simp add: fun_eq_iff)
    then show "emits (write_ranged_float False (-1) 1 x) (mini_wire True c)" by (simp add: codec_rules)
    show "length (mini_wire True c) \<le> 18" using length_mini_wire [of c True] by simp
    show "\<bar>ranged_back c - x\<bar> \<le> 1 / 31500" using ranged_back_close [of c] c(2,3) unfolding distrib_right steps by linarith
  qed
qed

end
