(* ===== verification/Bit_Serialize.thy ===== *)
theory Bit_Serialize
  imports Bit_Stream_Ops Bit_Ranged Bit_Floats
begin

text \<open>
  The operations of \<^verbatim>\<open>include/geco-bit-stream.h\<close> that write or read, as their first argument says, so that one
  routine describes a message for both sides. Each returns the variable it is given, which reading replaces. The locale
  \<open>two_way\<close> is their contract, and composes them.
\<close>

section \<open>Values that changed, in the compressed form\<close>

definition WriteMiniChanged :: "bool \<Rightarrow> 'a::len word \<Rightarrow> 'a word \<Rightarrow> writer" where
  "WriteMiniChanged be currVal lastValue s =
     (if currVal = lastValue then Write_bool False s
      else rbind (Write_bool True s) (Write_mini_int be True currVal))"

definition WriteMiniChanged_unknown :: "bool \<Rightarrow> 'a::len word \<Rightarrow> writer" where
  "WriteMiniChanged_unknown be currentValue s = rbind (Write_bool True s) (Write_mini_int be True currentValue)"

definition ReadMiniChanged :: "bool \<Rightarrow> 'a::len word \<Rightarrow> 'a word reader" where
  "ReadMiniChanged be dest s =
     rbind (Read_bool s) (\<lambda>(dataWritten, s). if dataWritten then Read_mini_int be True dest s else Inr (dest, s))"

text \<open>\<^verbatim>\<open>WritePtr\<close> writes an integer through its address, and a guid is written as its number.\<close>

definition WritePtr :: "bool \<Rightarrow> 'a::len word \<Rightarrow> writer" where
  "WritePtr be src =
     (let sz = bytes_of_type src
      in if sz = 1 then WriteBits (mem_bytes be src) (BYTES_TO_BITS sz) True
         else if DoEndianSwap be then WriteBits (ReverseBytes (mem_bytes be src) sz) (BYTES_TO_BITS sz) True
         else WriteBits (mem_bytes be src) (BYTES_TO_BITS sz) True)"

definition Write_guid :: "bool \<Rightarrow> guid \<Rightarrow> writer" where
  "Write_guid be x = Write_int be (g x)"

definition Read_guid :: "bool \<Rightarrow> guid \<Rightarrow> guid reader" where
  "Read_guid be dest s = rbind (Read_int be s) (\<lambda>(x, s). Inr (dest\<lparr>g := x\<rparr>, s))"

section \<open>One operation for both ways\<close>

type_synonym 'a serializer = "bool \<Rightarrow> 'a \<Rightarrow> bstream \<Rightarrow> ('a \<times> bstream) res"

definition either_way :: "('a \<Rightarrow> writer) \<Rightarrow> ('a \<Rightarrow> 'a reader) \<Rightarrow> 'a serializer" where
  "either_way wr rd writeBitstream x s =
     (if writeBitstream then rbind (wr x s) (\<lambda>s. Inr (x, s)) else rd x s)"

definition serialize_bytes :: "nat \<Rightarrow> u8 list serializer" where
  "serialize_bytes numberOfBytes =
     either_way (\<lambda>x. Write_bytes x numberOfBytes) (\<lambda>_. Read_bytes numberOfBytes)"

definition serialize_int :: "bool \<Rightarrow> 'a::len word serializer" where
  "serialize_int be = either_way (Write_int be) (\<lambda>_. Read_int be)"

definition serialize_changed_value :: "bool \<Rightarrow> 'a::len word \<Rightarrow> 'a word serializer" where
  "serialize_changed_value be lastValue =
     either_way (\<lambda>x. write_changed (Write_int be) x lastValue) (read_changed (Read_int be))"

definition serialize_changed_value_unknown :: "bool \<Rightarrow> 'a::len word serializer" where
  "serialize_changed_value_unknown be = either_way (write_changed_unknown (Write_int be)) (read_changed (Read_int be))"

definition serialize_mini_value :: "bool \<Rightarrow> 'a::len word serializer" where
  "serialize_mini_value be = either_way (Write_mini_int be True) (Read_mini_int be True)"

definition serialize_mini_changed_value :: "bool \<Rightarrow> 'a::len word \<Rightarrow> 'a word serializer" where
  "serialize_mini_changed_value be lastValue =
     either_way (\<lambda>x. WriteMiniChanged be x lastValue) (ReadMiniChanged be)"

definition serialize_mini_changed_value_unknown :: "bool \<Rightarrow> 'a::len word serializer" where
  "serialize_mini_changed_value_unknown be = either_way (WriteMiniChanged_unknown be) (ReadMiniChanged be)"

definition serialize_casted_integer ::
  "('b::len word \<Rightarrow> 'a::len word) \<Rightarrow> ('a word \<Rightarrow> 'b word) \<Rightarrow> bool \<Rightarrow> 'b word serializer" where
  "serialize_casted_integer cast back be = either_way (WriteCasted cast be) (\<lambda>_. ReadCasted back be)"

definition serialize_ranged_integer ::
  "('a::len word \<Rightarrow> nat) \<Rightarrow> bool \<Rightarrow> 'a word \<Rightarrow> 'a word \<Rightarrow> bool \<Rightarrow> 'a word serializer" where
  "serialize_ranged_integer leading_zeros be minimum maximum allowOutsideRange =
     either_way (\<lambda>x. write_ranged_integer leading_zeros be x minimum maximum allowOutsideRange)
       (\<lambda>x. ReadIntegerRange leading_zeros be x minimum maximum allowOutsideRange)"

definition serialize_float_range_with_16Bits :: "bool \<Rightarrow> u16 \<Rightarrow> rat \<Rightarrow> rat \<Rightarrow> rat serializer" where
  "serialize_float_range_with_16Bits be junk floatMin floatMax =
     either_way (write_ranged_float be floatMin floatMax) (\<lambda>_. read_ranged_float be junk floatMin floatMax)"

definition serialize_normal_vector :: "bool \<Rightarrow> u16 \<Rightarrow> (rat \<times> rat \<times> rat) serializer" where
  "serialize_normal_vector be junk = either_way (write_normal_vector be) (\<lambda>_. ReadNormVector be junk)"

definition serialize_bits :: "nat \<Rightarrow> bool \<Rightarrow> u8 list serializer" where
  "serialize_bits numberOfBitsSerialize rightAlignedBits =
     either_way (\<lambda>x. WriteBits x numberOfBitsSerialize rightAlignedBits)
       (\<lambda>_. ReadBits numberOfBitsSerialize rightAlignedBits)"

section \<open>The contract of the two ways\<close>

locale two_way =
  fixes ser :: "'a serializer" and wire :: "'a \<Rightarrow> bool list" and valid :: "'a \<Rightarrow> bool"
  assumes ser_emits: "valid x \<Longrightarrow> emits (\<lambda>s. rbind (ser True x s) (\<lambda>(_, s). Inr s)) (wire x)"
    and ser_keeps: "ser True x s = Inr (y, s') \<Longrightarrow> y = x"
    and ser_takes: "valid x \<Longrightarrow> takes (ser False old) (wire x) x"
begin

text \<open>What one side writes the other side has afterwards, whatever its variable held, and nothing is left.\<close>

lemma both_ways:
  assumes x: "valid x" and s: "writable s n" "length (wire x) \<le> n" and r: "readable_bit_pos s = writable_bit_pos s"
  shows "\<exists>s' s''. ser True x s = Inr (x, s') \<and> ser False old s' = Inr (x, s'') \<and> get_payloads s'' = 0"
proof -
  have w: "writable s (length (wire x))" by (rule writable_mono [OF s])
  obtain s' where e: "rbind (ser True x s) (\<lambda>(_, s). Inr s) = Inr s'" and a: "appends s s' (wire x)"
    using emitsE [OF ser_emits [OF x] w] .
  then have out: "ser True x s = Inr (x, s')" using ser_keeps by (fastforce simp: rbind_eq_Inr)
  have bo: "buffer_ok s" using w by (simp add: writable_def stream_ok_def)
  have p: "payload s' = wire x" using payload_appends [OF a bo] r bo by (simp add: payload_def)
  have rd: "readable s' (length (wire x))"
    using a w r by (simp add: readable_def appends_def writable_def stream_ok_def)
  have "get_payloads (skip_read (length (wire x)) s') = 0"
    using rd a r by (simp add: get_payloads_def appends_def readable_def max_bits_def)
  then show ?thesis using out takesD [OF ser_takes [OF x] rd, of "[]" old] p by auto
qed

end

lemma either_way_two_way:
  assumes "\<And>x. valid x \<Longrightarrow> emits (wr x) (wire x)" and "\<And>old x. valid x \<Longrightarrow> takes (rd old) (wire x) x"
  shows "two_way (either_way wr rd) wire valid"
proof
  fix x old :: 'a assume x: "valid x"
  have "rbind r Inr = r" for r :: "bstream res" by (cases r) simp_all
  then show "emits (\<lambda>s. rbind (either_way wr rd True x s) (\<lambda>(_, s). Inr s)) (wire x)"
    using assms(1) [OF x] by (simp add: either_way_def rbind_assoc)
  show "takes (either_way wr rd False old) (wire x) x"
    using assms(2) [OF x, of old] by (simp add: either_way_def [abs_def])
qed (auto simp: either_way_def rbind_eq_Inr)

text \<open>One operation after the other, as a routine does them.\<close>

definition ser_pair :: "'a serializer \<Rightarrow> 'b serializer \<Rightarrow> ('a \<times> 'b) serializer" where
  "ser_pair ser1 ser2 w = (\<lambda>(x, y) s. rbind (ser1 w x s) (\<lambda>(x, s). rbind (ser2 w y s) (\<lambda>(y, s). Inr ((x, y), s))))"

locale two_ways = first: two_way ser1 wire1 valid1 + second: two_way ser2 wire2 valid2
  for ser1 :: "'a serializer" and wire1 valid1 and ser2 :: "'b serializer" and wire2 valid2

sublocale two_ways \<subseteq> pair: two_way "ser_pair ser1 ser2" "\<lambda>p. wire1 (fst p) @ wire2 (snd p)"
  "\<lambda>p. valid1 (fst p) \<and> valid2 (snd p)"
proof
  fix p old :: "'a \<times> 'b" assume p: "valid1 (fst p) \<and> valid2 (snd p)"
  have "rbind (ser_pair ser1 ser2 True p s) (\<lambda>(_, s). Inr s) =
      rbind (rbind (ser1 True (fst p) s) (\<lambda>(_, s). Inr s)) (\<lambda>s. rbind (ser2 True (snd p) s) (\<lambda>(_, s). Inr s))" for s
    by (simp add: ser_pair_def rbind_assoc case_prod_unfold)
  then show "emits (\<lambda>s. rbind (ser_pair ser1 ser2 True p s) (\<lambda>(_, s). Inr s)) (wire1 (fst p) @ wire2 (snd p))"
    using emits_bind [OF first.ser_emits second.ser_emits] p by simp
  have "takes (ser_pair ser1 ser2 False old) (wire1 (fst p) @ wire2 (snd p)) (fst p, snd p)"
    using p unfolding ser_pair_def case_prod_unfold
    by (intro takes_bind [OF first.ser_takes, unfolded case_prod_unfold] takes_map [OF second.ser_takes, unfolded case_prod_unfold]) auto
  then show "takes (ser_pair ser1 ser2 False old) (wire1 (fst p) @ wire2 (snd p)) p" by simp
next
  fix p q :: "'a \<times> 'b" and s s'
  assume "ser_pair ser1 ser2 True p s = Inr (q, s')"
  then show "q = p" using first.ser_keeps second.ser_keeps by (fastforce simp: ser_pair_def rbind_eq_Inr split_beta)
qed

context two_ways begin

lemma pair_two_way:
  "two_way (ser_pair ser1 ser2) (\<lambda>p. wire1 (fst p) @ wire2 (snd p)) (\<lambda>p. valid1 (fst p) \<and> valid2 (snd p))"
  by (rule pair.two_way_axioms)

end

lemmas ser_pair_two_way = two_ways.pair_two_way [OF two_ways.intro]

section \<open>The operations keep the contract\<close>

lemma bytes_two_way: "0 < n \<Longrightarrow> n < 2 ^ 28 \<Longrightarrow> two_way (serialize_bytes n) bits_of (\<lambda>x. length x = n)"
  unfolding serialize_bytes_def Write_bytes_def Read_bytes_def
  by (rule either_way_two_way) (auto simp: BYTES_TO_BITS_small intro!: emits_WriteBits_bytes takes_ReadBits_bytes)

lemma mini_two_way:
  "byte_type (0 :: 'a::len word) \<Longrightarrow>
   two_way (serialize_mini_value False :: 'a word serializer) (mini_wire True) (\<lambda>x. unat x < 0xF0 \<or> 0x100 \<le> unat x)"
  unfolding serialize_mini_value_def
proof (rule either_way_two_way)
  fix x old :: "'a word"
  assume bt: "byte_type (0 :: 'a word)" and x: "unat x < 0xF0 \<or> 0x100 \<le> unat x"
  have bx: "byte_type x" using bt by (simp add: byte_type_def)
  show "emits (Write_mini_int False True x) (mini_wire True x)" by (rule emits_Write_mini_int [OF bx])
  have "mini_value True x = x" using mini_unsigned_lossless [OF bx] x by blast
  then show "takes (Read_mini_int False True old) (mini_wire True x) x"
    using takes_Read_mini_int [OF bx, of True old] by simp
qed

lemma ranged_two_way:
  assumes "mini < (maxi :: u32)"
  shows "two_way (serialize_ranged_integer get_leading_zeros_size32 be mini maxi allow)
    (\<lambda>x. ranged_wire (Bit_Ranged.bitlen (unat (maxi - mini))) x mini maxi allow) (\<lambda>x. mini \<le> x \<and> x \<le> maxi)"
  unfolding serialize_ranged_integer_def
proof (rule either_way_two_way)
  fix x old :: u32 assume x: "mini \<le> x \<and> x \<le> maxi"
  note inside = ranged_inside [OF assms conjunct1 [OF x] conjunct2 [OF x] _ refl]
  show "emits (write_ranged_integer get_leading_zeros_size32 be x mini maxi allow)
      (ranged_wire (Bit_Ranged.bitlen (unat (maxi - mini))) x mini maxi allow)"
    using inside(1) by (simp add: write_ranged_integer_def required_bits_u32 [simplified] Let_def)
  show "takes (ReadIntegerRange get_leading_zeros_size32 be old mini maxi allow)
      (ranged_wire (Bit_Ranged.bitlen (unat (maxi - mini))) x mini maxi allow) x"
    using inside(2) by (simp add: ReadIntegerRange_def required_bits_u32 [simplified] Let_def)
qed

text \<open>A value that may have changed, in both forms; the variable of the reader must hold the last value.\<close>

lemma length_changed: "length (if b then [False] else True # bs) \<le> 1 + length bs"
  by simp

interpretation int32: two_way "serialize_int be :: u32 serializer" net_bits "\<lambda>_. True" for be
  unfolding serialize_int_def by (rule either_way_two_way) (simp_all add: codec_rules)

interpretation mini16: two_way "serialize_mini_value False :: u16 serializer" "mini_wire True"
  "\<lambda>x. unat x < 0xF0 \<or> 0x100 \<le> unat x"
  by (rule mini_two_way) simp

interpretation mini32: two_way "serialize_mini_value False :: u32 serializer" "mini_wire True"
  "\<lambda>x. unat x < 0xF0 \<or> 0x100 \<le> unat x"
  by (rule mini_two_way) simp

text \<open>The value of a changed number reaches every variable; a single bit is enough if the reader has it already.\<close>

lemma changed_unknown_two_way: "two_way (serialize_changed_value_unknown be :: u32 serializer) (\<lambda>x. True # net_bits x) (\<lambda>_. True)"
  unfolding serialize_changed_value_unknown_def
proof (rule either_way_two_way)
  fix x old :: u32
  have "emits (\<lambda>s. rbind (Write_bool True s) (Write_int be x)) ([True] @ net_bits x)"
    by (intro emits_bind emits_Write_bool) (simp add: codec_rules)
  then show "emits (write_changed_unknown (Write_int be) x) (True # net_bits x)"
    by (simp add: write_changed_unknown_def [abs_def])
  have "takes (read_changed (Read_int be) old) ([True] @ net_bits x) x"
    unfolding read_changed_def by (rule takes_bind [OF takes_Read_bool]) (simp add: codec_rules)
  then show "takes (read_changed (Read_int be) old) (True # net_bits x) x" by simp
qed

interpretation changed32: two_way "serialize_changed_value_unknown be :: u32 serializer" "\<lambda>x. True # net_bits x" "\<lambda>_. True" for be
  by (rule changed_unknown_two_way)

section \<open>A message of several parts\<close>

text \<open>A routine a user would write once for both sides: a number, a changed and a compressed one, one of a range, bytes.\<close>

definition exchange :: "u32 \<Rightarrow> u32 \<Rightarrow> nat \<Rightarrow> (u32 \<times> u32 \<times> u16 \<times> u32 \<times> u8 list) serializer" where
  "exchange minimum maximum n =
     ser_pair (serialize_int False) (ser_pair (serialize_changed_value_unknown False) (ser_pair (serialize_mini_value False)
       (ser_pair (serialize_ranged_integer get_leading_zeros_size32 False minimum maximum False) (serialize_bytes n))))"

definition exchange_wire :: "u32 \<Rightarrow> u32 \<Rightarrow> u32 \<times> u32 \<times> u16 \<times> u32 \<times> u8 list \<Rightarrow> bool list" where
  "exchange_wire minimum maximum = (\<lambda>(a, b, c, d, bs). net_bits a @ (True # net_bits b) @ mini_wire True c @
     ranged_wire (Bit_Ranged.bitlen (unat (maximum - minimum))) d minimum maximum False @ bits_of bs)"

lemma exchange_two_way:
  assumes "minimum < maximum" and "0 < n" and "n < 2 ^ 28"
  shows "two_way (exchange minimum maximum n) (exchange_wire minimum maximum)
    (\<lambda>(a, b, c, d, bs). (unat c < 0xF0 \<or> 0x100 \<le> unat c) \<and> minimum \<le> d \<and> d \<le> maximum \<and> length bs = n)"
proof -
  have "two_way (exchange minimum maximum n)
    (\<lambda>p. net_bits (fst p) @ (True # net_bits (fst (snd p))) @ mini_wire True (fst (snd (snd p))) @
      ranged_wire (Bit_Ranged.bitlen (unat (maximum - minimum))) (fst (snd (snd (snd p)))) minimum maximum False @
      bits_of (snd (snd (snd (snd p)))))
    (\<lambda>p. True \<and> True \<and> (unat (fst (snd (snd p))) < 0xF0 \<or> 0x100 \<le> unat (fst (snd (snd p)))) \<and>
      (minimum \<le> fst (snd (snd (snd p))) \<and> fst (snd (snd (snd p))) \<le> maximum) \<and> length (snd (snd (snd (snd p)))) = n)"
    unfolding exchange_def
    by (intro ser_pair_two_way int32.two_way_axioms changed32.two_way_axioms mini16.two_way_axioms ranged_two_way
        bytes_two_way assms)
  then show ?thesis by (simp add: exchange_wire_def case_prod_unfold)
qed

end
