(* ===== verification/Float_Properties.thy ===== *)
theory Float_Properties
  imports Bit_Serialize Stream_Properties
begin

text \<open>Properties of the numbers with a fraction on the bit stream, and of the operations for both ways.\<close>

section \<open>From a writer to a reader\<close>

lemma written_is_read:
  assumes "emits f bs" and "takes d bs y" and "writable s n" and "length bs \<le> n"
    and "readable_bit_pos s = writable_bit_pos s"
  shows "\<exists>s' s''. f s = Inr s' \<and> d s' = Inr (y, s'') \<and> get_payloads s'' = 0"
proof -
  have s: "writable s (length bs)" by (rule writable_mono [OF assms(3,4)])
  obtain s' where w: "f s = Inr s'" and a: "appends s s' bs" using emitsE [OF assms(1) s] .
  have bo: "buffer_ok s" using s by (simp add: writable_def stream_ok_def)
  have p: "payload s' = bs" using payload_appends [OF a bo] assms(5) bo by (simp add: payload_def)
  have rd: "readable s' (length bs)"
    using a s assms(5) by (simp add: readable_def appends_def writable_def stream_ok_def)
  have "get_payloads (skip_read (length bs) s') = 0"
    using rd a assms(5) by (simp add: get_payloads_def appends_def readable_def max_bits_def)
  then show ?thesis using w takesD [OF assms(2) rd, of "[]"] p by auto
qed

section \<open>Compressed numbers\<close>

text \<open>
  C36: A float from -1 to 1, compressed into an empty stream, is read back from it with an error of at most 1 / 32000,
  unless it lies where the compressed integer is one of 0xF0 to 0xFF: there it comes back too small by at least 1 / 140.
\<close>

theorem mini_float_close:
  assumes "-1 \<le> x" and "x \<le> 1" and "writable s 18" and "readable_bit_pos s = writable_bit_pos s"
  shows "\<exists>s' s'' y. WriteMini_float False x s = Inr s' \<and> ReadMini_float False junk s' = Inr (y, s'') \<and>
    get_payloads s'' = 0 \<and> (off_gap x \<longrightarrow> \<bar>y - x\<bar> \<le> 1 / 32000) \<and>
    (\<bar>(x + 1) * (65535 / 2) - 248\<bar> \<le> 6 \<longrightarrow> y < x - 1 / 140)"
proof -
  obtain bs y where bs: "emits (WriteMini_float False x) bs" "takes (ReadMini_float False junk) bs y" "length bs \<le> 18"
    and y: "off_gap x \<Longrightarrow> \<bar>y - x\<bar> \<le> 1 / 32000" "\<bar>(x + 1) * (65535 / 2) - 248\<bar> \<le> 6 \<Longrightarrow> y < x - 1 / 140"
    using mini_float_values [OF assms(1,2)] by metis
  show ?thesis using written_is_read [OF bs(1,2) assms(3) bs(3) assms(4)] y by blast
qed

theorem mini_float_close_witness:
  "(\<exists>s' s'' y. WriteMini_float False (1 / 3) fresh_stream = Inr s' \<and> ReadMini_float False 0 s' = Inr (y, s'') \<and>
      \<bar>y - 1 / 3\<bar> \<le> 1 / 32000) \<and>
   (\<exists>s' s'' y. WriteMini_float False (-1 + 496 / 65535) fresh_stream = Inr s' \<and> ReadMini_float False 0 s' = Inr (y, s'') \<and>
      y < -1 + 1 / 2000)"
proof
  show "\<exists>s' s'' y. WriteMini_float False (1 / 3) fresh_stream = Inr s' \<and> ReadMini_float False 0 s' = Inr (y, s'') \<and>
      \<bar>y - 1 / 3\<bar> \<le> 1 / 32000"
    using mini_float_close [of "1 / 3" fresh_stream 0] by (auto simp: fresh_writable off_gap_def)
  obtain s' s'' y where "WriteMini_float False (-1 + 496 / 65535) fresh_stream = Inr s'"
    "ReadMini_float False 0 s' = Inr (y, s'')" "y < -1 + 496 / 65535 - 1 / 140"
    using mini_float_close [of "-1 + 496 / 65535" fresh_stream 0] by (auto simp: fresh_writable)
  moreover from this(3) have "y < -1 + 1 / 2000" by simp
  ultimately show "\<exists>s' s'' y. WriteMini_float False (-1 + 496 / 65535) fresh_stream = Inr s' \<and>
      ReadMini_float False 0 s' = Inr (y, s'') \<and> y < -1 + 1 / 2000" by blast
qed

lemma mini_value_lossy_32:
  assumes "240 \<le> unat x" and "unat x < 256"
  shows "unat (mini_value True (x :: u32)) = unat x - 240"
proof -
  have all: "\<forall>i \<in> set [240..<256]. unat (mini_value True (of_nat i :: u32)) = i - 240" by code_simp
  have "unat x \<in> set [240..<256]" unfolding set_upt using assms by simp
  from bspec [OF all this] show ?thesis by simp
qed

text \<open>
  C37: A double from -1 up to 1 - 1 / 10 ^ 14 is read back with an error of at most one in eight million, and of at
  most one in a thousand million unless it lies where the compressed integer is one of 0xF0 to 0xFF: there it comes back
  too small by at least one in nine million. Of the double 1 and of those above it that the assertion lets through, the
  integer is 2 ^ 32 or more, which its type does not have.
\<close>

theorem mini_double_range:
  assumes "-1 \<le> x" and "x < fl32 (101 / 100)" and "writable s 36" and "readable_bit_pos s = writable_bit_pos s"
    and "x \<le> 1 - 1 / 10 ^ 14 \<or> 1 \<le> x"
  shows "if 1 \<le> x then WriteMini_double False x s = Inl OutOfBounds
    else \<exists>s' s'' y. WriteMini_double False x s = Inr s' \<and> ReadMini_double False junk s' = Inr (y, s'') \<and>
      get_payloads s'' = 0 \<and> \<bar>y - x\<bar> \<le> 1 / 8000000 \<and>
      ((x + 1) * 2147483648 < 239 \<or> 258 < (x + 1) * 2147483648 \<longrightarrow> \<bar>y - x\<bar> \<le> 1 / 1000000000) \<and>
      (\<bar>(x + 1) * 2147483648 - 248\<bar> \<le> 6 \<longrightarrow> y < x - 1 / 9000000)"
proof (cases "1 \<le> x")
  case True
  then show ?thesis using WriteMini_double_one assms(2) by simp
next
  case False
  then have le: "x \<le> 1 - 1 / 10 ^ 14" using assms(5) by simp
  obtain c :: u32 where c: "\<And>be s. WriteMini_double be x s = Write_mini_int be True c s"
    "of_nat (unat c) \<le> (x + 1) * 2147483648 + 1 / 100000" "(x + 1) * 2147483648 - 100001 / 100000 < of_nat (unat c)"
    using WriteMini_double_int [OF assms(1) le] by blast
  define n where "n = unat c"
  have n: "n < 4294967296" using unsigned_less [of c] by (simp add: n_def)
  note near = c(2,3) [folded n_def]
  define m where "m = unat (mini_value True c)"
  have m: "m = n \<or> 240 \<le> n \<and> n < 256 \<and> m + 240 = n"
  proof (cases "240 \<le> n \<and> n < 256")
    case True
    then show ?thesis using mini_value_lossy_32 [of c] by (simp add: m_def n_def)
  next
    case False
    then have "unat c < 240 \<or> 256 \<le> unat c" unfolding n_def by linarith
    then show ?thesis using mini_value_32 [of c] by (simp add: m_def n_def)
  qed
  have apart: "of_nat m = (of_nat n :: rat) \<or> of_nat m + 240 = (of_nat n :: rat) \<and> (240 :: rat) \<le> of_nat n \<and> of_nat n < (256 :: rat)"
    using m by (metis of_nat_add of_nat_le_iff of_nat_less_iff of_nat_numeral)
  let ?y = "fl64 (fl64 (of_nat m / 2147483648) - 1)"
  have read: "\<bar>?y - (of_nat m / 2147483648 - 1)\<bar> \<le> 1 / 1000000000000000" using double_back [of m] m n by auto
  have whole: "m \<noteq> n" if "\<bar>(x + 1) * 2147483648 - 248\<bar> \<le> 6"
  proof -
    have "(240 :: rat) \<le> of_nat n \<and> of_nat n < (256 :: rat)" using that near by linarith
    then have "240 \<le> n \<and> n < 256" by simp
    then show ?thesis using mini_value_lossy_32 [of c] unfolding m_def n_def by linarith
  qed
  have "WriteMini_double False x = Write_mini_int False True c" using c(1) by (simp add: fun_eq_iff)
  then have e: "emits (WriteMini_double False x) (mini_wire True c)" by (simp add: codec_rules)
  have t: "takes (ReadMini_double False junk) (mini_wire True c) ?y"
    using ReadMini_double_takes [of junk c] unfolding m_def .
  have "\<bar>?y - x\<bar> \<le> 1 / 8000000" using read apart near unfolding distrib_right by linarith
  moreover have "\<bar>?y - x\<bar> \<le> 1 / 1000000000" if "(x + 1) * 2147483648 < 239 \<or> 258 < (x + 1) * 2147483648"
    using that read apart near unfolding distrib_right by linarith
  moreover have "?y < x - 1 / 9000000" if "\<bar>(x + 1) * 2147483648 - 248\<bar> \<le> 6"
    using whole [OF that] that read apart near unfolding distrib_right of_nat_eq_iff by linarith
  moreover have "length (mini_wire True c) \<le> 36" using length_mini_wire [of c True] by simp
  ultimately show ?thesis using written_is_read [OF e t assms(3) _ assms(4)] False by auto
qed

theorem mini_double_range_witness:
  "WriteMini_double False 1 fresh_stream = Inl OutOfBounds \<and>
   (\<exists>s' s'' y. WriteMini_double False (1 / 3) fresh_stream = Inr s' \<and> ReadMini_double False 0 s' = Inr (y, s'') \<and>
      \<bar>y - 1 / 3\<bar> \<le> 1 / 1000000000) \<and>
   (\<exists>s' s'' y. WriteMini_double False (-1 + 248 / 2147483648) fresh_stream = Inr s' \<and>
      ReadMini_double False 0 s' = Inr (y, s'') \<and> y < -1 + 10 / 2147483648)"
proof (intro conjI)
  show "WriteMini_double False 1 fresh_stream = Inl OutOfBounds"
    using mini_double_range [of 1 fresh_stream 0] float_bounds(1) by (simp add: fresh_writable)
  show "\<exists>s' s'' y. WriteMini_double False (1 / 3) fresh_stream = Inr s' \<and> ReadMini_double False 0 s' = Inr (y, s'') \<and>
      \<bar>y - 1 / 3\<bar> \<le> 1 / 1000000000"
    using mini_double_range [of "1 / 3" fresh_stream 0] float_bounds(1) by (auto simp: fresh_writable)
  have "\<exists>s' s'' y. WriteMini_double False (-1 + 248 / 2147483648) fresh_stream = Inr s' \<and>
      ReadMini_double False 0 s' = Inr (y, s'') \<and> y < -1 + 248 / 2147483648 - 1 / 9000000"
    using mini_double_range [of "-1 + 248 / 2147483648" fresh_stream 0] float_bounds(1) by (auto simp: fresh_writable)
  moreover have "y < -1 + 10 / 2147483648" if "y < -1 + 248 / 2147483648 - 1 / 9000000" for y :: rat
    using that by simp
  ultimately show "\<exists>s' s'' y. WriteMini_double False (-1 + 248 / 2147483648) fresh_stream = Inr s' \<and>
      ReadMini_double False 0 s' = Inr (y, s'') \<and> y < -1 + 10 / 2147483648" by blast
qed

section \<open>Vectors\<close>

text \<open>
  A normal vector of floats is read back with an error of at most 1 / 31500 in each of its parts, if none of them
  lies in the gap of the compressed integers.
\<close>

lemma normal_vector_close:
  assumes "\<forall>v \<in> {x, y, z}. -1 \<le> v \<and> v \<le> 1 \<and> fl32 v = v \<and> off_gap v"
    and "writable s 54" and "readable_bit_pos s = writable_bit_pos s"
  shows "\<exists>s' s'' x' y' z'. write_normal_vector False (x, y, z) s = Inr s' \<and>
    ReadNormVector False junk s' = Inr ((x', y', z'), s'') \<and> get_payloads s'' = 0 \<and>
    \<bar>x' - x\<bar> \<le> 1 / 31500 \<and> \<bar>y' - y\<bar> \<le> 1 / 31500 \<and> \<bar>z' - z\<bar> \<le> 1 / 31500"
proof -
  obtain b1 x' where x: "emits (write_ranged_float False (-1) 1 x) b1" "takes (read_ranged_float False junk (-1) 1) b1 x'"
    "length b1 \<le> 18" "\<bar>x' - x\<bar> \<le> 1 / 31500" using ranged_float_values [of x junk] assms(1) by auto
  obtain b2 y' where y: "emits (write_ranged_float False (-1) 1 y) b2" "takes (read_ranged_float False junk (-1) 1) b2 y'"
    "length b2 \<le> 18" "\<bar>y' - y\<bar> \<le> 1 / 31500" using ranged_float_values [of y junk] assms(1) by auto
  obtain b3 z' where z: "emits (write_ranged_float False (-1) 1 z) b3" "takes (read_ranged_float False junk (-1) 1) b3 z'"
    "length b3 \<le> 18" "\<bar>z' - z\<bar> \<le> 1 / 31500" using ranged_float_values [of z junk] assms(1) by auto
  have "write_normal_vector False (x, y, z) = (\<lambda>s. rbind (write_ranged_float False (-1) 1 x s) (\<lambda>s.
      rbind (write_ranged_float False (-1) 1 y s) (write_ranged_float False (-1) 1 z)))"
    using assms(1) float_bounds(2) by (simp add: write_normal_vector_def fun_eq_iff Let_def)
  then have e: "emits (write_normal_vector False (x, y, z)) (b1 @ b2 @ b3)"
    using x(1) y(1) z(1) by (simp add: emits_bind)
  have t: "takes (ReadNormVector False junk) (b1 @ b2 @ b3) (x', y', z')"
    unfolding ReadNormVector_def [abs_def] by (intro takes_bind [OF x(2)] takes_bind [OF y(2)] takes_map [OF z(2)])
  show ?thesis using written_is_read [OF e t assms(2) _ assms(3)] x(3,4) y(3,4) z(3,4) by auto
qed

section \<open>Both ways\<close>

lemma length_exchange_wire:
  assumes "minimum < maximum" and "minimum \<le> d" and "d \<le> maximum"
  shows "length (exchange_wire minimum maximum (a, b, c, d, bs)) \<le> 115 + 8 * length bs"
proof -
  have bt: "byte_type d" "byte_type a" "byte_type b" "byte_type c" by simp_all
  define rb where "rb = Bit_Ranged.bitlen (unat (maximum - minimum))"
  have rb: "rb \<le> 8 * bytes_of_type (d - minimum)" using range_bits(2) [OF assms bt(1) rb_def] .
  then have "length (ranged_wire rb d minimum maximum False) \<le> 32"
    using length_src_bits [of rb "le_bytes 4 (d - minimum)" True] by (simp add: ranged_wire_def range_wire_def)
  moreover have "length (mini_wire True c) \<le> 18" using length_mini_wire [OF bt(4), of True] by simp
  ultimately show ?thesis
    using length_net_bits [OF bt(2)] length_net_bits [OF bt(3)] unfolding exchange_wire_def prod.case rb_def [symmetric]
    by (simp add: length_bits_of)
qed

text \<open>
  The operations for both ways put together, in a routine of the kind they are made for, which handles the variables of
  a message one after the other: run for reading on what it wrote it sets all variables to the values they had there, whatever they held
  before, and leaves nothing in the stream. The compressed number must not be one of 0xF0 to 0xFF.
\<close>

lemma both_sides_agree:
  assumes "minimum < maximum" and "0 < length bs" "length bs < 1000" and "unat c < 0xF0 \<or> 0x100 \<le> unat c"
    and "minimum \<le> d" "d \<le> maximum" and "writable s (115 + 8 * length bs)" and "readable_bit_pos s = writable_bit_pos s"
  shows "\<exists>s' s''. exchange minimum maximum (length bs) True (a, b, c, d, bs) s = Inr ((a, b, c, d, bs), s') \<and>
    exchange minimum maximum (length bs) False old s' = Inr ((a, b, c, d, bs), s'') \<and> get_payloads s'' = 0"
  by (rule two_way.both_ways [OF exchange_two_way _ assms(7) length_exchange_wire assms(8)]) (use assms in simp_all)

end
