(* ===== verification/Fifo.thy ===== *)
theory Fifo
  imports Geco_Prelude
begin

text \<open>
  The contract that the users of the engine's queues rely on, and what follows from it for the
  ways the engine uses them: pushing a list of elements and popping it again, and the loop
  \<^verbatim>\<open>for (i = 0; i < q.Size(); i++) { q.PopHead(x); ... }\<close> that \<^verbatim>\<open>geco_application.cpp\<close> uses to
  empty its queues.
\<close>

text \<open>Positions in a ring of \<open>n\<close> places.\<close>

lemma wrap_mod: "h < n \<Longrightarrow> i \<le> n \<Longrightarrow> (h + i) mod n = (if h + i < n then h + i else h + i - (n::nat))"
  by (simp add: mod_if)

lemma wrap_inj:
  "h < n \<Longrightarrow> i < n \<Longrightarrow> j < n \<Longrightarrow> (h + i) mod n = (h + j) mod n \<longleftrightarrow> i = (j::nat)"
  by (auto simp: wrap_mod split: if_splits)

lemma mod_inj: "i < n \<Longrightarrow> j < n \<Longrightarrow> (h + i) mod n = (h + j) mod n \<longleftrightarrow> i = (j :: nat)"
  using wrap_inj [of "h mod n" n i j] by (simp add: mod_simps)

fun push_list :: "('a \<Rightarrow> 'q \<Rightarrow> 'q res) \<Rightarrow> 'a list \<Rightarrow> 'q \<Rightarrow> 'q res" where
  "push_list push [] q = Inr q"
| "push_list push (x # xs) q = rbind (push x q) (push_list push xs)"

fun pop_list :: "('q \<Rightarrow> ('a option \<times> 'q) res) \<Rightarrow> nat \<Rightarrow> 'q \<Rightarrow> ('a list \<times> 'q) res" where
  "pop_list pop 0 q = Inr ([], q)"
| "pop_list pop (Suc n) q =
     rbind (pop q) (\<lambda>(x, q1).
       case x of None \<Rightarrow> Inr ([], q1)
       | Some y \<Rightarrow> rbind (pop_list pop n q1) (\<lambda>(ys, q2). Inr (y # ys, q2)))"

text \<open>
  The emptying loop as it is written: \<open>Size\<close> is evaluated again in each round. \<open>fuel\<close> bounds the
  rounds; \<open>i + fuel\<close> beyond the size is enough.
\<close>

fun drain_loop :: "('q \<Rightarrow> ('a option \<times> 'q) res) \<Rightarrow> ('q \<Rightarrow> nat) \<Rightarrow> nat \<Rightarrow> nat \<Rightarrow> 'q \<Rightarrow> ('a list \<times> 'q) res" where
  "drain_loop pop qsize 0 i q = Inr ([], q)"
| "drain_loop pop qsize (Suc fuel) i q =
     (if i < qsize q then
        rbind (pop q) (\<lambda>(x, q1).
          rbind (drain_loop pop qsize fuel (Suc i) q1) (\<lambda>(ys, q2).
            Inr (case x of None \<Rightarrow> ys | Some y \<Rightarrow> y # ys, q2)))
      else Inr ([], q))"

text \<open>The loop started at \<open>i = 0\<close>.\<close>

definition drain_queue :: "('q \<Rightarrow> ('a option \<times> 'q) res) \<Rightarrow> ('q \<Rightarrow> nat) \<Rightarrow> 'q \<Rightarrow> ('a list \<times> 'q) res" where
  "drain_queue pop qsize q = drain_loop pop qsize (Suc (qsize q)) 0 q"

locale fifo_core =
  fixes push :: "'a \<Rightarrow> 'q \<Rightarrow> 'q res" and pop :: "'q \<Rightarrow> ('a option \<times> 'q) res"
    and qsize :: "'q \<Rightarrow> nat" and elems :: "'q \<Rightarrow> 'a list" and room :: "'q \<Rightarrow> nat \<Rightarrow> bool"
  assumes push_ok: "room q (Suc n) \<Longrightarrow> \<exists>q'. push x q = Inr q' \<and> room q' n \<and> elems q' = elems q @ [x]"
    and pop_Cons: "room q n \<Longrightarrow> elems q = x # xs \<Longrightarrow>
                     \<exists>q'. pop q = Inr (Some x, q') \<and> room q' n \<and> elems q' = xs"
    and size_elems: "room q n \<Longrightarrow> qsize q = length (elems q)"
begin

lemma push_list_ok:
  "room q (length xs) \<Longrightarrow> \<exists>q'. push_list push xs q = Inr q' \<and> room q' 0 \<and> elems q' = elems q @ xs"
proof (induction xs arbitrary: q)
  case (Cons x xs)
  obtain q1 where "push x q = Inr q1" "room q1 (length xs)" "elems q1 = elems q @ [x]"
    using push_ok [of q "length xs" x] Cons.prems by auto
  then show ?case using Cons.IH [of q1] by auto
qed simp

lemma pop_list_ok:
  "room q m \<Longrightarrow> n \<le> length (elems q) \<Longrightarrow>
     \<exists>q'. pop_list pop n q = Inr (take n (elems q), q') \<and> room q' m \<and> elems q' = drop n (elems q)"
proof (induction n arbitrary: q)
  case (Suc n)
  obtain x xs where e: "elems q = x # xs" using Suc.prems by (cases "elems q") auto
  obtain q1 where "pop q = Inr (Some x, q1)" "room q1 m" "elems q1 = xs"
    using pop_Cons [OF Suc.prems(1) e] by blast
  then show ?case using Suc.IH [of q1] Suc.prems e by auto
qed simp

lemma push_pop_list:
  assumes "room q (length xs)" "elems q = []"
  shows "\<exists>q1 q2. push_list push xs q = Inr q1 \<and> pop_list pop (length xs) q1 = Inr (xs, q2) \<and> elems q2 = []"
proof -
  obtain q1 where "push_list push xs q = Inr q1" "room q1 0" "elems q1 = xs"
    using push_list_ok [OF assms(1)] assms(2) by auto
  then show ?thesis using pop_list_ok [of q1 0 "length xs"] by auto
qed

lemma drain_loop_half:
  "room q m \<Longrightarrow> i \<le> k \<Longrightarrow> length (elems q) + i = 2 * k \<or> length (elems q) + i + 1 = 2 * k \<Longrightarrow>
   k - i < fuel \<Longrightarrow>
   \<exists>q'. drain_loop pop qsize fuel i q = Inr (take (k - i) (elems q), q') \<and> room q' m
      \<and> elems q' = drop (k - i) (elems q)"
proof (induction fuel arbitrary: i q)
  case (Suc fuel)
  show ?case
  proof (cases "i < length (elems q)")
    case True
    then obtain x xs where e: "elems q = x # xs" by (cases "elems q") auto
    obtain q1 where q1: "pop q = Inr (Some x, q1)" "room q1 m" "elems q1 = xs"
      using pop_Cons [OF Suc.prems(1) e] by blast
    have ik: "i < k" using Suc.prems(3) True by linarith
    then have d: "k - i = Suc (k - Suc i)" by simp
    have "\<exists>q'. drain_loop pop qsize fuel (Suc i) q1 = Inr (take (k - Suc i) (elems q1), q') \<and> room q' m
      \<and> elems q' = drop (k - Suc i) (elems q1)"
      by (rule Suc.IH) (use q1 Suc.prems ik e in auto)
    then show ?thesis using True q1 e d size_elems [OF Suc.prems(1)] by auto
  next
    case False
    then have "k - i = 0" using Suc.prems(2,3) by linarith
    then show ?thesis using False size_elems [OF Suc.prems(1)] Suc.prems(1) by auto
  qed
qed simp

text \<open>The loop that is meant to empty a queue of \<open>n\<close> elements takes out the first half of them.\<close>

lemma drain_takes_half:
  assumes "room q m"
  shows "\<exists>q'. drain_queue pop qsize q = Inr (take ((length (elems q) + 1) div 2) (elems q), q')
     \<and> room q' m \<and> elems q' = drop ((length (elems q) + 1) div 2) (elems q)"
proof -
  define n where "n = length (elems q)"
  have n: "n = 2 * ((n + 1) div 2) \<or> n + 1 = 2 * ((n + 1) div 2)" by arith
  show ?thesis
    unfolding drain_queue_def size_elems [OF assms]
    using drain_loop_half [OF assms, of 0 "(n + 1) div 2" "Suc n"] n by (simp add: n_def)
qed

end

text \<open>A queue whose pop reports that there is nothing to take, as against one whose pop waits.\<close>

locale fifo = fifo_core +
  assumes pop_Nil: "room q n \<Longrightarrow> elems q = [] \<Longrightarrow> pop q = Inr (None, q)"
begin

lemma pop_list_all:
  "room q m \<Longrightarrow> length (elems q) \<le> n \<Longrightarrow>
     \<exists>q'. pop_list pop n q = Inr (elems q, q') \<and> room q' m \<and> elems q' = []"
proof (induction n arbitrary: q)
  case (Suc n)
  show ?case
  proof (cases "elems q")
    case Nil
    then show ?thesis using pop_Nil [OF Suc.prems(1)] Suc.prems(1) by simp
  next
    case (Cons x xs)
    obtain q1 where "pop q = Inr (Some x, q1)" "room q1 m" "elems q1 = xs"
      using pop_Cons [OF Suc.prems(1) Cons] by blast
    then show ?thesis using Suc.IH [of q1] Suc.prems Cons by auto
  qed
qed simp

end

end
