(* ===== verification/Array_Queue.thy ===== *)
theory Array_Queue
  imports Fifo
begin

text \<open>
  \<^verbatim>\<open>JackieArraryQueue\<close> of \<^verbatim>\<open>include/JackieArraryQueue.h\<close>: a ring buffer that doubles when it is
  full. \<open>junk\<close> gives the elements of a freshly allocated array, which the code leaves to the
  default constructor of the element type. The asserts inside \<^verbatim>\<open>#ifdef _DEBUG\<close> are those of a debug
  build and are not part of the model. Allocation is taken to succeed.
\<close>

section \<open>State\<close>

record 'a array_queue =
  queueArrary :: "'a list"
  head :: nat
  tail :: nat
  allocation_size :: nat
  junk :: "nat \<Rightarrow> 'a"

definition queue_new :: "(nat \<Rightarrow> 'a) \<Rightarrow> 'a array_queue" where
  "queue_new j = \<lparr>queueArrary = [], head = 0, tail = 0, allocation_size = 0, junk = j\<rparr>"

definition Queue_Size :: "'a array_queue \<Rightarrow> nat" where
  "Queue_Size q = (if head q \<le> tail q then tail q - head q else allocation_size q - head q + tail q)"

definition Queue_IsEmpty :: "'a array_queue \<Rightarrow> bool" where
  "Queue_IsEmpty q \<longleftrightarrow> head q = tail q"

definition ring_copy :: "'a array_queue \<Rightarrow> nat \<Rightarrow> nat \<Rightarrow> 'a list" where
  "ring_copy q n new_size =
     map (\<lambda>i. if i < n then queueArrary q ! ((head q + i) mod allocation_size q) else junk q i) [0..<new_size]"

section \<open>Operations\<close>

definition PushTail :: "nat \<Rightarrow> 'a \<Rightarrow> 'a array_queue \<Rightarrow> 'a array_queue res" where
  "PushTail QUEUE_INIT_SIZE input q =
     (if allocation_size q = 0 then
        rbind (put_at (map (junk q) [0..<QUEUE_INIT_SIZE]) 0 input) (\<lambda>a.
          Inr (q\<lparr>queueArrary := a, head := 0, tail := 1, allocation_size := QUEUE_INIT_SIZE\<rparr>))
      else
        rbind (put_at (queueArrary q) (tail q) input) (\<lambda>a.
          let t = add32 (tail q) 1; t = (if t = allocation_size q then 0 else t);
              q1 = q\<lparr>queueArrary := a, tail := t\<rparr>
          in if t = head q1 then
               let new_size = shl32 (allocation_size q) 1
               in if allocation_size q \<le> new_size then
                    Inr (q1\<lparr>queueArrary := ring_copy q1 (allocation_size q) new_size, head := 0,
                            tail := allocation_size q, allocation_size := new_size\<rparr>)
                  else Inl OutOfBounds
             else Inr q1))"

definition PopHead :: "'a array_queue \<Rightarrow> ('a option \<times> 'a array_queue) res" where
  "PopHead q =
     (if head q = tail q then Inr (None, q)
      else
        let h = head q + 1; h = (if h = allocation_size q then 0 else h)
        in rbind (get_at (queueArrary q) (if h = 0 then allocation_size q - 1 else h - 1)) (\<lambda>ele.
             Inr (Some ele, q\<lparr>head := h\<rparr>)))"

definition PopTail :: "'a array_queue \<Rightarrow> ('a option \<times> 'a array_queue) res" where
  "PopTail q =
     (if head q = tail q then Inr (None, q)
      else
        let t = (if tail q \<noteq> 0 then tail q - 1 else allocation_size q - 1)
        in rbind (get_at (queueArrary q) t) (\<lambda>ele. Inr (Some ele, q\<lparr>tail := t\<rparr>)))"

definition PopDeref :: "'a \<Rightarrow> 'a array_queue \<Rightarrow> ('a \<times> 'a array_queue) res" where
  "PopDeref null q =
     (let h = head q + 1; h = (if h = allocation_size q then 0 else h);
          i = (if h = 0 then allocation_size q - 1 else h - 1)
      in rbind (get_at (queueArrary q) i) (\<lambda>ele.
         rbind (put_at (queueArrary q) i null) (\<lambda>a.
           Inr (ele, q\<lparr>queueArrary := a, head := h\<rparr>))))"

definition ring_index :: "'a array_queue \<Rightarrow> nat \<Rightarrow> nat" where
  "ring_index q i = (if add32 (head q) i \<ge> allocation_size q then add32 (head q) i - allocation_size q else add32 (head q) i)"

definition Queue_at :: "'a array_queue \<Rightarrow> nat \<Rightarrow> 'a res" where
  "Queue_at q position = get_at (queueArrary q) (ring_index q position)"

definition Queue_Head :: "'a array_queue \<Rightarrow> 'a res" where
  "Queue_Head q = get_at (queueArrary q) (head q)"

definition Queue_Tail :: "'a array_queue \<Rightarrow> 'a res" where
  "Queue_Tail q = get_at (queueArrary q) (if tail q \<noteq> 0 then tail q - 1 else allocation_size q - 1)"

text \<open>The loop of \<^verbatim>\<open>InsertAtIndex\<close>; \<^verbatim>\<open>writeIndex\<close> is always \<open>readIndex + 1\<close>.\<close>

fun insert_loop :: "nat \<Rightarrow> nat \<Rightarrow> 'a array_queue \<Rightarrow> 'a array_queue res" where
  "insert_loop index 0 q =
     (if 0 \<ge> index then
        rbind (get_at (queueArrary q) (ring_index q 0)) (\<lambda>x.
        rbind (put_at (queueArrary q) (ring_index q 1) x) (\<lambda>a. Inr (q\<lparr>queueArrary := a\<rparr>)))
      else Inr q)"
| "insert_loop index (Suc r) q =
     (if Suc r \<ge> index then
        rbind (get_at (queueArrary q) (ring_index q (Suc r))) (\<lambda>x.
        rbind (put_at (queueArrary q) (ring_index q (Suc r + 1)) x) (\<lambda>a.
          insert_loop index r (q\<lparr>queueArrary := a\<rparr>)))
      else Inr q)"

definition Queue_InsertAtIndex :: "nat \<Rightarrow> 'a \<Rightarrow> nat \<Rightarrow> 'a array_queue \<Rightarrow> (bool \<times> 'a array_queue) res" where
  "Queue_InsertAtIndex QUEUE_INIT_SIZE input index q =
     rbind (rassert (index \<le> Queue_Size q)) (\<lambda>_.
     rbind (PushTail QUEUE_INIT_SIZE input q) (\<lambda>q1.
       if Queue_Size q1 = 1 then Inr (False, q1)
       else
         rbind (insert_loop index (Queue_Size q1 - 2) q1) (\<lambda>q2.
         rbind (put_at (queueArrary q2) (ring_index q2 index) input) (\<lambda>a.
           Inr (True, q2\<lparr>queueArrary := a\<rparr>)))))"

text \<open>The loop of \<^verbatim>\<open>RemoveAtIndex\<close>; it makes less than \<^verbatim>\<open>allocation_size\<close> rounds, the fuel.\<close>

fun remove_loop :: "nat \<Rightarrow> nat \<Rightarrow> nat \<Rightarrow> 'a array_queue \<Rightarrow> 'a array_queue res option" where
  "remove_loop 0 index nxt q = None"
| "remove_loop (Suc fuel) index nxt q =
     (if nxt \<noteq> tail q then
        (case get_at (queueArrary q) nxt of
           Inl e \<Rightarrow> Some (Inl e)
         | Inr x \<Rightarrow>
             (case put_at (queueArrary q) index x of
                Inl e \<Rightarrow> Some (Inl e)
              | Inr a \<Rightarrow>
                  remove_loop fuel nxt (if nxt + 1 = allocation_size q then 0 else nxt + 1)
                    (q\<lparr>queueArrary := a\<rparr>)))
      else Some (Inr q))"

definition Queue_RemoveAtIndex :: "nat \<Rightarrow> 'a array_queue \<Rightarrow> 'a array_queue res option" where
  "Queue_RemoveAtIndex position q =
     (if \<not> position < Queue_Size q \<or> head q = tail q then Some (Inl AssertFailed)
      else
        let index = ring_index q position;
            nxt = (if index + 1 = allocation_size q then 0 else index + 1)
        in map_option (\<lambda>r. rbind r (\<lambda>q1.
             Inr (q1\<lparr>tail := (if tail q1 = 0 then allocation_size q1 - 1 else tail q1 - 1)\<rparr>)))
             (remove_loop (allocation_size q) index nxt q))"

definition Queue_Clear :: "nat \<Rightarrow> 'a array_queue \<Rightarrow> 'a array_queue" where
  "Queue_Clear QUEUE_INIT_SIZE q =
     (if allocation_size q = 0 then q
      else (if allocation_size q > QUEUE_INIT_SIZE
            then q\<lparr>queueArrary := [], allocation_size := 0\<rparr> else q)\<lparr>head := 0, tail := 0\<rparr>)"

fun double_above :: "nat \<Rightarrow> nat \<Rightarrow> nat \<Rightarrow> nat option" where
  "double_above 0 n m = None"
| "double_above (Suc fuel) n m = (if m \<le> n then double_above fuel n (shl32 m 1) else Some m)"

definition Queue_Shrink2MiniSzie :: "'a array_queue \<Rightarrow> 'a array_queue option" where
  "Queue_Shrink2MiniSzie q =
     (if allocation_size q = 0 then Some q
      else map_option (\<lambda>new_size.
             q\<lparr>queueArrary := ring_copy q (Queue_Size q) new_size, tail := Queue_Size q,
               allocation_size := new_size, head := 0\<rparr>) (double_above 33 (Queue_Size q) 1))"

fun contains_loop :: "nat \<Rightarrow> 'a \<Rightarrow> nat \<Rightarrow> 'a array_queue \<Rightarrow> bool res option" where
  "contains_loop 0 x counter q = None"
| "contains_loop (Suc fuel) x counter q =
     (if counter \<noteq> tail q then
        (case get_at (queueArrary q) counter of
           Inl e \<Rightarrow> Some (Inl e)
         | Inr y \<Rightarrow> if y = x then Some (Inr True)
                    else contains_loop fuel x ((counter + 1) mod allocation_size q) q)
      else Some (Inr False))"

definition Queue_Contains :: "'a \<Rightarrow> 'a array_queue \<Rightarrow> bool res option" where
  "Queue_Contains x q =
     (if allocation_size q = 0 then Some (Inr False)
      else contains_loop (Suc (allocation_size q)) x (head q) q)"

definition Queue_Resize :: "nat \<Rightarrow> 'a array_queue \<Rightarrow> 'a array_queue" where
  "Queue_Resize sz q = q\<lparr>queueArrary := map (junk q) [0..<sz], allocation_size := sz, head := 0, tail := 0\<rparr>"

text \<open>
  The copy constructor and the assignment operator. \<open>raw\<close> is the uninitialised object the copy
  constructor runs on: for an empty original it sets \<^verbatim>\<open>allocation_size\<close> only.
\<close>

definition queue_copy :: "'a array_queue \<Rightarrow> 'a array_queue \<Rightarrow> 'a array_queue" where
  "queue_copy raw original =
     (if Queue_Size original = 0 then raw\<lparr>allocation_size := 0\<rparr>
      else raw\<lparr>queueArrary := ring_copy original (Queue_Size original) (Queue_Size original + 1),
              head := 0, tail := Queue_Size original, allocation_size := Queue_Size original + 1\<rparr>)"

definition queue_assign :: "nat \<Rightarrow> 'a array_queue \<Rightarrow> 'a array_queue \<Rightarrow> bool \<times> 'a array_queue" where
  "queue_assign QUEUE_INIT_SIZE original q =
     (let q1 = Queue_Clear QUEUE_INIT_SIZE q
      in if Queue_Size original = 0 then (False, q1\<lparr>allocation_size := 0\<rparr>)
         else (True, q1\<lparr>queueArrary := ring_copy original (Queue_Size original) (Queue_Size original + 1),
              head := 0, tail := Queue_Size original, allocation_size := Queue_Size original + 1\<rparr>))"

section \<open>The contents of a queue and its invariant\<close>

definition q_ok :: "'a array_queue \<Rightarrow> bool" where
  "q_ok q \<longleftrightarrow> length (queueArrary q) = allocation_size q \<and> allocation_size q < 2 ^ 31 \<and>
     (if allocation_size q = 0 then head q = 0 \<and> tail q = 0
      else head q < allocation_size q \<and> tail q < allocation_size q)"

definition queue_elems :: "'a array_queue \<Rightarrow> 'a list" where
  "queue_elems q = map (\<lambda>i. queueArrary q ! ((head q + i) mod allocation_size q)) [0..<Queue_Size q]"

lemma queue_new_ok [simp]: "q_ok (queue_new j)" "queue_elems (queue_new j) = []"
  by (simp_all add: queue_new_def q_ok_def queue_elems_def Queue_Size_def)

lemma length_queue_elems [simp]: "length (queue_elems q) = Queue_Size q"
  by (simp add: queue_elems_def)

lemma queue_nth:
  "i < Queue_Size q \<Longrightarrow> queue_elems q ! i = queueArrary q ! ((head q + i) mod allocation_size q)"
  by (simp add: queue_elems_def)

lemma Size_less: "q_ok q \<Longrightarrow> allocation_size q \<noteq> 0 \<Longrightarrow> Queue_Size q < allocation_size q"
  by (auto simp: q_ok_def Queue_Size_def)

lemma Size_0_iff: "q_ok q \<Longrightarrow> Queue_Size q = 0 \<longleftrightarrow> head q = tail q"
  by (auto simp: q_ok_def Queue_Size_def split: if_splits)

lemma tail_is: "q_ok q \<Longrightarrow> allocation_size q \<noteq> 0 \<Longrightarrow> tail q = (head q + Queue_Size q) mod allocation_size q"
  by (auto simp: q_ok_def Queue_Size_def mod_if)

lemma Size_eqI:
  assumes "head q < n" "tail q < n" "s < n" "tail q = (head q + s) mod n" "allocation_size q = n"
  shows "Queue_Size q = s"
  using assms by (auto simp: wrap_mod Queue_Size_def split: if_splits)

lemma Queue_Size_array [simp]: "Queue_Size (q\<lparr>queueArrary := a\<rparr>) = Queue_Size q"
  by (simp add: Queue_Size_def)

lemma queue_elems_Nil_iff: "queue_elems q = [] \<longleftrightarrow> Queue_Size q = 0"
  by (simp add: queue_elems_def)

lemma ring_index_mod:
  "q_ok q \<Longrightarrow> i < allocation_size q \<Longrightarrow> ring_index q i = (head q + i) mod allocation_size q"
  by (auto simp: ring_index_def q_ok_def wrap_mod u32_arith split: if_splits)

lemma ring_index_less: "q_ok q \<Longrightarrow> i < allocation_size q \<Longrightarrow> ring_index q i < length (queueArrary q)"
  by (simp add: ring_index_mod q_ok_def)

section \<open>What the operations do to the contents\<close>

lemma Queue_at_elems:
  assumes "q_ok q" "i < Queue_Size q"
  shows "Queue_at q i = Inr (queue_elems q ! i)"
proof -
  have "allocation_size q \<noteq> 0" using assms by (auto simp: q_ok_def Queue_Size_def split: if_splits)
  then have "i < allocation_size q" using Size_less [OF assms(1)] assms(2) by simp
  then show ?thesis
    using assms ring_index_less [OF assms(1), of i]
    by (simp add: Queue_at_def queue_nth ring_index_mod)
qed

lemma ring_copy_elems:
  assumes "q_ok q" "n = Queue_Size q" "n < m" "m < 2 ^ 31"
  shows "q_ok (q'\<lparr>queueArrary := ring_copy q n m, head := 0, tail := n, allocation_size := m\<rparr>)"
    and "queue_elems (q'\<lparr>queueArrary := ring_copy q n m, head := 0, tail := n, allocation_size := m\<rparr>)
           = queue_elems q"
  using assms by (auto simp: q_ok_def queue_elems_def Queue_Size_def ring_copy_def)

lemma PushTail_ok:
  assumes ok: "q_ok q" and init: "2 \<le> init" "init < 2 ^ 31" and room: "Queue_Size q + 1 < 2 ^ 30"
  shows "\<exists>q'. PushTail init x q = Inr q' \<and> q_ok q' \<and> queue_elems q' = queue_elems q @ [x]"
proof (cases "allocation_size q = 0")
  case True
  then have "queue_elems q = []" using ok by (simp add: queue_elems_def q_ok_def Queue_Size_def)
  then show ?thesis using True init ok
    by (simp add: PushTail_def q_ok_def queue_elems_def Queue_Size_def)
next
  case False
  define n where "n = allocation_size q"
  define s where "s = Queue_Size q"
  have n: "0 < n" "n < 2 ^ 31" and h: "head q < n" and t: "tail q < n" and len: "length (queueArrary q) = n"
    using ok False by (auto simp: q_ok_def n_def)
  have s: "s < n" using Size_less [OF ok False] by (simp add: s_def n_def)
  have tl: "tail q = (head q + s) mod n" using tail_is [OF ok False] by (simp add: s_def n_def)
  define a where "a = (queueArrary q)[tail q := x]"
  define t1 where "t1 = (if tail q + 1 = n then 0 else tail q + 1)"
  have t1: "t1 = (head q + Suc s) mod n" using tl t by (simp add: t1_def mod_Suc)
  have a_nth: "a ! ((head q + i) mod n) = (queue_elems q @ [x]) ! i" if "i < Suc s" for i
  proof (cases "i = s")
    case True then show ?thesis using len t tl by (simp add: a_def nth_append s_def)
  next
    case False
    then have "i < s" using that by simp
    then have "(head q + i) mod n \<noteq> tail q" using tl wrap_inj [OF h, of i s] s by auto
    then show ?thesis using \<open>i < s\<close> by (simp add: a_def nth_append s_def queue_nth n_def)
  qed
  have eq: "PushTail init x q =
     (if t1 = head q then
        (let new_size = shl32 n 1
         in if n \<le> new_size then
              Inr (q\<lparr>queueArrary := ring_copy (q\<lparr>queueArrary := a, tail := t1\<rparr>) n new_size, head := 0,
                     tail := n, allocation_size := new_size\<rparr>)
            else Inl OutOfBounds)
      else Inr (q\<lparr>queueArrary := a, tail := t1\<rparr>))"
    using False len t n by (simp add: PushTail_def a_def t1_def Let_def u32_arith flip: n_def)
  show ?thesis
  proof (cases "t1 = head q")
    case full: True
    then have sn: "Suc s = n" using t1 wrap_inj [OF h, of "Suc s" 0] s h n by (cases "Suc s = n") auto
    then have sh: "shl32 n 1 = 2 * n" "2 * n < 2 ^ 31" using room n by (simp_all add: shl32_def s_def)
    let ?q = "q\<lparr>queueArrary := ring_copy (q\<lparr>queueArrary := a, tail := t1\<rparr>) n (2 * n), head := 0,
                tail := n, allocation_size := 2 * n\<rparr>"
    have "PushTail init x q = Inr ?q" using eq full sh by (simp add: Let_def)
    moreover have "q_ok ?q" using sh n by (simp add: q_ok_def ring_copy_def)
    moreover have size: "Queue_Size ?q = n" by (simp add: Queue_Size_def)
    moreover have "queue_elems ?q = queue_elems q @ [x]"
    proof (rule nth_equalityI)
      show "length (queue_elems ?q) = length (queue_elems q @ [x])" using sn by (simp add: size s_def)
    next
      fix i assume "i < length (queue_elems ?q)"
      then have "i < n" by (simp add: size)
      then show "queue_elems ?q ! i = (queue_elems q @ [x]) ! i"
        using a_nth [of i] sn \<open>i < n\<close>
        by (subst queue_nth) (simp add: size, simp add: ring_copy_def flip: n_def)
    qed
    ultimately show ?thesis by blast
  next
    case False
    let ?q = "q\<lparr>queueArrary := a, tail := t1\<rparr>"
    have "(head q + n) mod n = head q" using h by simp
    then have "Suc s \<noteq> n" using False t1 by metis
    then have s1: "Suc s < n" using s by simp
    have t1n: "t1 < n" using t1 n by simp
    have size: "Queue_Size ?q = Suc s"
      by (rule Size_eqI [where n = n]) (use h t1n s1 t1 in \<open>auto simp: n_def\<close>)
    have "q_ok ?q" using ok len t1n h n by (simp add: q_ok_def a_def flip: n_def)
    moreover have "queue_elems ?q = queue_elems q @ [x]"
    proof (rule nth_equalityI)
      show "length (queue_elems ?q) = length (queue_elems q @ [x])" by (simp add: size s_def)
    next
      fix i assume "i < length (queue_elems ?q)"
      then have "i < Suc s" by (simp add: size)
      then show "queue_elems ?q ! i = (queue_elems q @ [x]) ! i"
        using a_nth [of i] by (simp add: queue_nth size n_def)
    qed
    ultimately show ?thesis using eq False by auto
  qed
qed

lemma PopHead_Cons:
  assumes ok: "q_ok q" and e: "queue_elems q = x # xs"
  shows "\<exists>q'. PopHead q = Inr (Some x, q') \<and> q_ok q' \<and> queue_elems q' = xs"
proof -
  have size: "Queue_Size q = Suc (length xs)" using e by (metis length_Cons length_queue_elems)
  then have ne: "head q \<noteq> tail q" using Size_0_iff [OF ok] by auto
  then have a0: "allocation_size q \<noteq> 0" using ok by (auto simp: q_ok_def split: if_splits)
  define n where "n = allocation_size q"
  define h where "h = (if head q + 1 = n then 0 else head q + 1)"
  let ?q = "q\<lparr>head := h\<rparr>"
  have hn: "head q < n" "h < n" "tail q < n" "0 < n" and len: "length (queueArrary q) = n"
    using ok a0 by (auto simp: q_ok_def n_def h_def split: if_splits)
  have h: "h = (head q + 1) mod n" using hn by (auto simp: h_def)
  have shift: "(h + i) mod n = (head q + Suc i) mod n" for i
    by (simp add: h mod_simps)
  have s: "length xs < n" using Size_less [OF ok a0] size by (simp add: n_def)
  have "tail q = (h + length xs) mod n"
    using tail_is [OF ok a0] size shift by (simp add: n_def)
  then have size': "Queue_Size ?q = length xs"
    by (intro Size_eqI [where n = n]) (use hn s in \<open>auto simp: n_def\<close>)
  have x: "x = queueArrary q ! head q"
    using queue_nth [of 0 q] e size hn by (simp add: n_def)
  have idx: "(if h = 0 then n - 1 else h - 1) = head q" using hn by (auto simp: h_def)
  have "PopHead q = Inr (Some x, ?q)"
    unfolding PopHead_def using ne hn len x idx
    by (auto simp: Let_def h_def n_def)
  moreover have "q_ok ?q" using ok a0 hn by (simp add: q_ok_def n_def)
  moreover have "queue_elems ?q = xs"
  proof (rule nth_equalityI)
    show "length (queue_elems ?q) = length xs" by (simp add: size')
  next
    fix i assume "i < length (queue_elems ?q)"
    then have i: "i < length xs" by (simp add: size')
    have "xs ! i = queue_elems q ! Suc i" using e by simp
    then show "queue_elems ?q ! i = xs ! i"
      using i size shift [of i] by (simp add: queue_nth size' n_def)
  qed
  ultimately show ?thesis by blast
qed

lemma PopHead_Nil: "q_ok q \<Longrightarrow> queue_elems q = [] \<Longrightarrow> PopHead q = Inr (None, q)"
  using Size_0_iff [of q] length_queue_elems [of q] by (simp add: PopHead_def)

lemma PopTail_snoc:
  assumes ok: "q_ok q" and e: "queue_elems q = xs @ [x]"
  shows "\<exists>q'. PopTail q = Inr (Some x, q') \<and> q_ok q' \<and> queue_elems q' = xs"
proof -
  have size: "Queue_Size q = Suc (length xs)" using e by (metis length_append_singleton length_queue_elems)
  then have ne: "head q \<noteq> tail q" using Size_0_iff [OF ok] by auto
  then have a0: "allocation_size q \<noteq> 0" using ok by (auto simp: q_ok_def split: if_splits)
  define n where "n = allocation_size q"
  define t where "t = (if tail q \<noteq> 0 then tail q - 1 else n - 1)"
  let ?q = "q\<lparr>tail := t\<rparr>"
  have hn: "head q < n" "t < n" "tail q < n" "0 < n" and len: "length (queueArrary q) = n"
    using ok a0 by (auto simp: q_ok_def n_def t_def split: if_splits)
  have s: "length xs < n" "Suc (length xs) < n" using Size_less [OF ok a0] size by (simp_all add: n_def)
  have "tail q = (head q + Suc (length xs)) mod n"
    using tail_is [OF ok a0] size by (simp add: n_def)
  then have t: "t = (head q + length xs) mod n"
    using hn s by (auto simp: t_def wrap_mod mod_if split: if_splits)
  have size': "Queue_Size ?q = length xs"
    by (intro Size_eqI [where n = n]) (use hn s t in \<open>auto simp: n_def\<close>)
  have "x = queueArrary q ! t"
    using queue_nth [of "length xs" q] e size t by (simp add: n_def)
  then have "PopTail q = Inr (Some x, ?q)"
    unfolding PopTail_def using ne hn len by (auto simp: Let_def t_def n_def)
  moreover have "q_ok ?q" using ok a0 hn by (simp add: q_ok_def n_def)
  moreover have "queue_elems ?q = xs"
  proof (rule nth_equalityI)
    show "length (queue_elems ?q) = length xs" by (simp add: size')
  next
    fix i assume "i < length (queue_elems ?q)"
    then have i: "i < length xs" by (simp add: size')
    then have "xs ! i = queue_elems q ! i" using e by (simp add: nth_append)
    then show "queue_elems ?q ! i = xs ! i" using i size by (simp add: queue_nth size')
  qed
  ultimately show ?thesis by blast
qed

lemma queue_put:
  fixes x :: 'a
  assumes ok: "q_ok q" and i: "i < Queue_Size q"
  defines "q' \<equiv> q\<lparr>queueArrary := (queueArrary q)[ring_index q i := x]\<rparr>"
  shows "ring_index q i < length (queueArrary q)" "q_ok q'"
    "queue_elems q' = (queue_elems q)[i := x]" "Queue_Size q' = Queue_Size q"
    "ring_index q' = ring_index q"
proof -
  have a0: "allocation_size q \<noteq> 0" using ok i by (auto simp: q_ok_def Queue_Size_def split: if_splits)
  have s: "Queue_Size q < allocation_size q" by (rule Size_less [OF ok a0])
  then have i': "i < allocation_size q" using i by simp
  show "ring_index q i < length (queueArrary q)" by (rule ring_index_less [OF ok i'])
  show "q_ok q'" using ok by (simp add: q_ok_def q'_def)
  show size: "Queue_Size q' = Queue_Size q" by (simp add: Queue_Size_def q'_def)
  show "ring_index q' = ring_index q" by (simp add: ring_index_def q'_def fun_eq_iff)
  have h: "head q < allocation_size q" "length (queueArrary q) = allocation_size q"
    using ok a0 by (simp_all add: q_ok_def)
  show "queue_elems q' = (queue_elems q)[i := x]"
  proof (rule nth_equalityI)
    fix j assume "j < length (queue_elems q')"
    then have j: "j < Queue_Size q" by (simp add: size)
    then show "queue_elems q' ! j = (queue_elems q)[i := x] ! j"
      using wrap_inj [OF h(1) i', of j] s h i
      by (auto simp: queue_nth size nth_list_update ring_index_mod [OF ok i'] q'_def)
  qed (simp add: size)
qed

lemma queue_get:
  "q_ok q \<Longrightarrow> i < Queue_Size q \<Longrightarrow> get_at (queueArrary q) (ring_index q i) = Inr (queue_elems q ! i)"
  using Queue_at_elems [of q i] by (simp add: Queue_at_def)

lemma insert_loop_ok:
  "q_ok q \<Longrightarrow> Suc r < Queue_Size q \<Longrightarrow> index \<le> Suc r \<Longrightarrow>
   \<exists>q'. insert_loop index r q = Inr q' \<and> q_ok q' \<and> Queue_Size q' = Queue_Size q \<and>
     queue_elems q' = map (\<lambda>i. queue_elems q ! (if index < i \<and> i \<le> Suc r then i - 1 else i)) [0..<Queue_Size q]"
proof (induction r arbitrary: q)
  case 0
  show ?case
  proof (cases "index = 0")
    case True
    let ?x = "queue_elems q ! 0"
    note p = queue_put [OF 0(1,2)]
    show ?thesis using True 0 p
      by (simp add: queue_get) (rule nth_equalityI; simp add: nth_list_update)
  next
    case False
    then show ?thesis using 0 by (auto intro!: nth_equalityI)
  qed
next
  case (Suc r)
  show ?case
  proof (cases "index \<le> Suc r")
    case True
    let ?x = "queue_elems q ! Suc r"
    note p = queue_put [OF Suc.prems(1,2)]
    let ?q = "q\<lparr>queueArrary := (queueArrary q)[ring_index q (Suc (Suc r)) := ?x]\<rparr>"
    have "\<exists>q'. insert_loop index r ?q = Inr q' \<and> q_ok q' \<and> Queue_Size q' = Queue_Size ?q \<and>
     queue_elems q' = map (\<lambda>i. queue_elems ?q ! (if index < i \<and> i \<le> Suc r then i - 1 else i)) [0..<Queue_Size ?q]"
      by (rule Suc.IH) (use p Suc.prems True in auto)
    then obtain q' where q': "insert_loop index r ?q = Inr q'" "q_ok q'" "Queue_Size q' = Queue_Size q"
      "queue_elems q' = map (\<lambda>i. (queue_elems q)[Suc (Suc r) := ?x] ! (if index < i \<and> i \<le> Suc r then i - 1 else i)) [0..<Queue_Size q]"
      using p by auto
    moreover have "queue_elems q' = map (\<lambda>i. queue_elems q ! (if index < i \<and> i \<le> Suc (Suc r) then i - 1 else i)) [0..<Queue_Size q]"
    proof -
      have "(queue_elems q)[Suc (Suc r) := ?x] ! (if index < i \<and> i \<le> Suc r then i - 1 else i)
          = queue_elems q ! (if index < i \<and> i \<le> Suc (Suc r) then i - 1 else i)"
        if "i < Queue_Size q" for i
        using that True by (cases "i = Suc (Suc r)") (auto simp: nth_list_update le_Suc_eq)
      then show ?thesis by (simp add: q'(4))
    qed
    moreover have "insert_loop index (Suc r) q = Inr q'"
      using True Suc.prems p q'(1) by (simp add: queue_get)
    ultimately show ?thesis by blast
  next
    case False
    then show ?thesis using Suc.prems by (auto intro!: nth_equalityI)
  qed
qed

lemma InsertAtIndex_ok:
  assumes ok: "q_ok q" and init: "2 \<le> init" "init < 2 ^ 31" and room: "Queue_Size q + 1 < 2 ^ 30"
    and index: "index \<le> Queue_Size q"
  shows "\<exists>q'. Queue_InsertAtIndex init x index q = Inr (queue_elems q \<noteq> [], q') \<and> q_ok q'
     \<and> queue_elems q' = take index (queue_elems q) @ x # drop index (queue_elems q)"
proof -
  obtain q1 where q1: "PushTail init x q = Inr q1" "q_ok q1" "queue_elems q1 = queue_elems q @ [x]"
    using PushTail_ok [OF ok init room] by blast
  have s1: "Queue_Size q1 = Suc (Queue_Size q)"
    using q1(3) length_queue_elems [of q1] length_queue_elems [of q] by simp
  show ?thesis
  proof (cases "Queue_Size q = 0")
    case True
    then have "queue_elems q = []" by (simp add: queue_elems_Nil_iff)
    then show ?thesis using True index q1 s1 by (simp add: Queue_InsertAtIndex_def rassert_def)
  next
    case False
    then obtain r where r: "Queue_Size q = Suc r" by (cases "Queue_Size q") auto
    obtain q2 where q2: "insert_loop index r q1 = Inr q2" "q_ok q2" "Queue_Size q2 = Queue_Size q1"
      "queue_elems q2 = map (\<lambda>i. queue_elems q1 ! (if index < i \<and> i \<le> Suc r then i - 1 else i)) [0..<Queue_Size q1]"
      using insert_loop_ok [OF q1(2), of r index] s1 index r by auto
    have i2: "index < Queue_Size q2" using q2(3) s1 index by simp
    note p = queue_put [OF q2(2) i2]
    have "(queue_elems q2)[index := x] = take index (queue_elems q) @ x # drop index (queue_elems q)"
    proof (rule nth_equalityI)
      show "length ((queue_elems q2)[index := x]) = length (take index (queue_elems q) @ x # drop index (queue_elems q))"
        using q2(3) s1 index by simp
    next
      fix i assume "i < length ((queue_elems q2)[index := x])"
      then have i: "i < Suc (Suc r)" using q2(3) s1 r by simp
      have "queue_elems q2 ! i = (queue_elems q @ [x]) ! (if index < i \<and> i \<le> Suc r then i - 1 else i)"
        using i q2(4) s1 r q1(3) by (simp del: upt_Suc)
      then show "(queue_elems q2)[index := x] ! i = (take index (queue_elems q) @ x # drop index (queue_elems q)) ! i"
        using i r index q2(3) s1 by (auto simp: nth_list_update nth_append nth_Cons' min_def)
    qed
    moreover have "queue_elems q \<noteq> []" using False by (simp add: queue_elems_Nil_iff)
    ultimately show ?thesis using False q1(1) s1 q2(1) r p index
      by (simp add: Queue_InsertAtIndex_def rassert_def)
  qed
qed

lemma remove_loop_ok:
  "q_ok q \<Longrightarrow> p < Queue_Size q \<Longrightarrow> Queue_Size q - p \<le> fuel \<Longrightarrow>
   \<exists>q'. remove_loop fuel (ring_index q p) ((head q + Suc p) mod allocation_size q) q = Some (Inr q') \<and> q_ok q'
     \<and> Queue_Size q' = Queue_Size q \<and> head q' = head q \<and> tail q' = tail q
     \<and> allocation_size q' = allocation_size q
     \<and> queue_elems q' = map (\<lambda>i. queue_elems q ! (if p \<le> i \<and> Suc i < Queue_Size q then Suc i else i)) [0..<Queue_Size q]"
proof (induction fuel arbitrary: p q)
  case (Suc fuel)
  let ?n = "allocation_size q"
  have a0: "?n \<noteq> 0" using Suc.prems(1,2) by (auto simp: q_ok_def Queue_Size_def split: if_splits)
  have s: "Queue_Size q < ?n" by (rule Size_less [OF Suc.prems(1) a0])
  have h: "head q < ?n" using Suc.prems(1) a0 by (simp add: q_ok_def)
  have tl: "tail q = (head q + Queue_Size q) mod ?n" by (rule tail_is [OF Suc.prems(1) a0])
  have stop: "(head q + Suc p) mod ?n = tail q \<longleftrightarrow> Suc p = Queue_Size q"
    using wrap_inj [OF h, of "Suc p" "Queue_Size q"] Suc.prems(2) s tl by auto
  show ?case
  proof (cases "Suc p = Queue_Size q")
    case True
    then show ?thesis using stop Suc.prems(1) by (auto intro!: nth_equalityI)
  next
    case False
    then have p1: "Suc p < Queue_Size q" using Suc.prems(2) by simp
    have r1: "(head q + Suc p) mod ?n = ring_index q (Suc p)"
      using ring_index_mod [OF Suc.prems(1), of "Suc p"] p1 s by simp
    let ?x = "queue_elems q ! Suc p"
    let ?q = "q\<lparr>queueArrary := (queueArrary q)[ring_index q p := ?x]\<rparr>"
    note put = queue_put [OF Suc.prems(1,2)]
    have nxt: "(if ring_index q (Suc p) + 1 = ?n then 0 else ring_index q (Suc p) + 1) = (head q + Suc (Suc p)) mod ?n"
      using r1 a0 by (simp add: mod_Suc)
    have "\<exists>q'. remove_loop fuel (ring_index ?q (Suc p)) ((head ?q + Suc (Suc p)) mod allocation_size ?q) ?q = Some (Inr q') \<and> q_ok q'
     \<and> Queue_Size q' = Queue_Size ?q \<and> head q' = head ?q \<and> tail q' = tail ?q
     \<and> allocation_size q' = allocation_size ?q
     \<and> queue_elems q' = map (\<lambda>i. queue_elems ?q ! (if Suc p \<le> i \<and> Suc i < Queue_Size ?q then Suc i else i)) [0..<Queue_Size ?q]"
      by (rule Suc.IH) (use put Suc.prems p1 in auto)
    then obtain q' where q': "remove_loop fuel (ring_index q (Suc p)) ((head q + Suc (Suc p)) mod ?n) ?q = Some (Inr q')"
      "q_ok q'" "Queue_Size q' = Queue_Size q" "head q' = head q" "tail q' = tail q" "allocation_size q' = ?n"
      "queue_elems q' = map (\<lambda>i. (queue_elems q)[p := ?x] ! (if Suc p \<le> i \<and> Suc i < Queue_Size q then Suc i else i)) [0..<Queue_Size q]"
      using put by auto
    have "remove_loop (Suc fuel) (ring_index q p) ((head q + Suc p) mod ?n) q = Some (Inr q')"
      unfolding r1 using stop [unfolded r1] False q'(1) put(1) queue_get [OF Suc.prems(1) p1] nxt
      by simp
    moreover have "(queue_elems q)[p := ?x] ! (if Suc p \<le> i \<and> Suc i < Queue_Size q then Suc i else i)
        = queue_elems q ! (if p \<le> i \<and> Suc i < Queue_Size q then Suc i else i)" if "i < Queue_Size q" for i
      using that p1 by (cases "i = p") (auto simp: nth_list_update)
    ultimately show ?thesis using q' by auto
  qed
qed simp

lemma RemoveAtIndex_ok:
  assumes ok: "q_ok q" and p: "position < Queue_Size q"
  shows "\<exists>q'. Queue_RemoveAtIndex position q = Some (Inr q') \<and> q_ok q'
     \<and> queue_elems q' = take position (queue_elems q) @ drop (Suc position) (queue_elems q)"
proof -
  let ?n = "allocation_size q"
  let ?s = "Queue_Size q"
  have a0: "?n \<noteq> 0" using ok p by (auto simp: q_ok_def Queue_Size_def split: if_splits)
  have s: "?s < ?n" by (rule Size_less [OF ok a0])
  have r: "ring_index q position = (head q + position) mod ?n"
    using ring_index_mod [OF ok] p s by simp
  have nxt: "(if ring_index q position + 1 = ?n then 0 else ring_index q position + 1) = (head q + Suc position) mod ?n"
    using a0 by (simp add: r mod_Suc)
  obtain q1 where q1: "remove_loop ?n (ring_index q position) ((head q + Suc position) mod ?n) q = Some (Inr q1)"
    "q_ok q1" "Queue_Size q1 = ?s" "head q1 = head q" "tail q1 = tail q" "allocation_size q1 = ?n"
    "queue_elems q1 = map (\<lambda>i. queue_elems q ! (if position \<le> i \<and> Suc i < ?s then Suc i else i)) [0..<?s]"
    using remove_loop_ok [OF ok p, of ?n] less_imp_le [OF s]
    by (meson diff_le_self le_trans)
  obtain xs x where xs: "queue_elems q1 = xs @ [x]"
    using q1(3) p by (metis length_queue_elems list.size(3) not_less_zero rev_exhaust)
  obtain q2 where q2: "PopTail q1 = Inr (Some x, q2)" "q_ok q2" "queue_elems q2 = xs"
    using PopTail_snoc [OF q1(2) xs] by blast
  have ne: "head q \<noteq> tail q" using p Size_0_iff [OF ok] by auto
  have q2_is: "q2 = q1\<lparr>tail := (if tail q1 = 0 then allocation_size q1 - 1 else tail q1 - 1)\<rparr>"
    using q2(1) ne q1(4,5) by (auto simp: PopTail_def Let_def get_at_def split: if_splits)
  have "Queue_RemoveAtIndex position q = Some (Inr q2)"
    unfolding Queue_RemoveAtIndex_def Let_def nxt using p ne q1(1) by (simp add: q2_is)
  moreover have "xs = take position (queue_elems q) @ drop (Suc position) (queue_elems q)"
  proof (rule nth_equalityI)
    have l: "Suc (length xs) = ?s" using xs q1(3) by (metis length_append_singleton length_queue_elems)
    then show "length xs = length (take position (queue_elems q) @ drop (Suc position) (queue_elems q))"
      using p by simp
    fix i assume i: "i < length xs"
    then have "xs ! i = queue_elems q1 ! i" by (simp add: xs nth_append)
    then show "xs ! i = (take position (queue_elems q) @ drop (Suc position) (queue_elems q)) ! i"
      using i l p by (auto simp: q1(7) nth_append min_def)
  qed
  ultimately show ?thesis using q2 by blast
qed

lemma contains_loop_ok:
  "q_ok q \<Longrightarrow> p \<le> Queue_Size q \<Longrightarrow> allocation_size q \<noteq> 0 \<Longrightarrow> Queue_Size q - p < fuel \<Longrightarrow>
   contains_loop fuel x ((head q + p) mod allocation_size q) q = Some (Inr (x \<in> set (drop p (queue_elems q))))"
proof (induction fuel arbitrary: p)
  case (Suc fuel)
  let ?n = "allocation_size q"
  have s: "Queue_Size q < ?n" by (rule Size_less [OF Suc.prems(1,3)])
  have h: "head q < ?n" using Suc.prems(1,3) by (simp add: q_ok_def)
  have stop: "(head q + p) mod ?n = tail q \<longleftrightarrow> p = Queue_Size q"
    using wrap_inj [OF h, of p "Queue_Size q"] Suc.prems(2) s tail_is [OF Suc.prems(1,3)] by auto
  show ?case
  proof (cases "p = Queue_Size q")
    case True then show ?thesis using stop by simp
  next
    case False
    then have p: "p < Queue_Size q" using Suc.prems(2) by simp
    have "get_at (queueArrary q) ((head q + p) mod ?n) = Inr (queue_elems q ! p)"
      using queue_get [OF Suc.prems(1) p] ring_index_mod [OF Suc.prems(1), of p] p s by simp
    moreover have "drop p (queue_elems q) = queue_elems q ! p # drop (Suc p) (queue_elems q)"
      using p by (simp add: Cons_nth_drop_Suc)
    moreover have "((head q + p) mod ?n + 1) mod ?n = (head q + Suc p) mod ?n"
      by (simp add: mod_simps)
    ultimately show ?thesis using stop False Suc.IH [of "Suc p"] Suc.prems p by auto
  qed
qed simp

lemma Contains_ok:
  assumes ok: "q_ok q"
  shows "Queue_Contains x q = Some (Inr (x \<in> set (queue_elems q)))"
proof (cases "allocation_size q = 0")
  case True
  then have "queue_elems q = []" using ok by (simp add: queue_elems_Nil_iff Queue_Size_def q_ok_def)
  then show ?thesis using True by (simp add: Queue_Contains_def)
next
  case False
  then have "head q mod allocation_size q = head q" using ok by (simp add: q_ok_def)
  then show ?thesis
    using contains_loop_ok [OF ok, of 0 "Suc (allocation_size q)" x] False Size_less [OF ok False]
    by (simp add: Queue_Contains_def del: contains_loop.simps)
qed

lemma double_above_ok:
  "m = 2 ^ k \<Longrightarrow> n < 2 ^ 30 \<Longrightarrow> k \<le> 30 \<Longrightarrow> 30 - k < fuel \<Longrightarrow> m \<le> 2 * n \<or> k = 0 \<Longrightarrow>
   \<exists>m'. double_above fuel n m = Some m' \<and> n < m' \<and> m' < 2 ^ 31 \<and> (m' \<le> 2 * n \<or> n = 0)"
proof (induction fuel arbitrary: m k)
  case (Suc fuel)
  show ?case
  proof (cases "m \<le> n")
    case True
    then have "(2::nat) ^ k < 2 ^ 30" using Suc.prems(1,2) by simp
    then have k: "k < 30" using power_less_imp_less_exp [of 2 k 30] by simp
    have sh: "shl32 m 1 = 2 ^ Suc k" using True Suc.prems(1,2) by (simp add: shl32_def)
    have "\<exists>m'. double_above fuel n (shl32 m 1) = Some m' \<and> n < m' \<and> m' < 2 ^ 31 \<and> (m' \<le> 2 * n \<or> n = 0)"
      by (rule Suc.IH [OF sh]) (use Suc.prems k True sh in auto)
    then show ?thesis using True by simp
  next
    case False
    have "(2::nat) ^ k \<le> 2 ^ 30" using Suc.prems(3) by (intro power_increasing) auto
    then show ?thesis using False Suc.prems(1,5) by auto
  qed
qed simp

lemma Shrink_ok:
  assumes ok: "q_ok q" and room: "Queue_Size q < 2 ^ 30"
  shows "\<exists>q'. Queue_Shrink2MiniSzie q = Some q' \<and> q_ok q' \<and> queue_elems q' = queue_elems q
     \<and> allocation_size q' \<le> 2 * Queue_Size q + 1"
proof (cases "allocation_size q = 0")
  case True
  then show ?thesis using ok by (simp add: Queue_Shrink2MiniSzie_def)
next
  case False
  obtain m where m: "double_above 33 (Queue_Size q) 1 = Some m" "Queue_Size q < m" "m < 2 ^ 31"
    "m \<le> 2 * Queue_Size q \<or> Queue_Size q = 0"
    using double_above_ok [of 1 0 "Queue_Size q" 33] room by auto
  have m1: "m \<le> 2 * Queue_Size q + 1"
  proof (cases "Queue_Size q = 0")
    case True
    then show ?thesis using m(1) by (simp add: numeral_eq_Suc)
  qed (use m(4) in simp)
  let ?q = "q\<lparr>queueArrary := ring_copy q (Queue_Size q) m, head := 0, tail := Queue_Size q, allocation_size := m\<rparr>"
  have "Queue_Shrink2MiniSzie q = Some ?q" using False m(1) by (simp add: Queue_Shrink2MiniSzie_def)
  then show ?thesis using ring_copy_elems [OF ok refl m(2,3), of q] m1 by simp
qed

lemma Clear_ok: "q_ok q \<Longrightarrow> q_ok (Queue_Clear init q) \<and> queue_elems (Queue_Clear init q) = []"
  by (auto simp: Queue_Clear_def q_ok_def queue_elems_Nil_iff Queue_Size_def)

lemma Resize_ok: "sz < 2 ^ 31 \<Longrightarrow> q_ok (Queue_Resize sz q) \<and> queue_elems (Queue_Resize sz q) = []"
  by (auto simp: Queue_Resize_def q_ok_def queue_elems_Nil_iff Queue_Size_def)

lemma queue_assign_ok:
  assumes ok: "q_ok original" and room: "Queue_Size original < 2 ^ 30" and q: "q_ok q"
  shows "queue_elems (snd (queue_assign init original q)) = queue_elems original"
proof (cases "Queue_Size original = 0")
  case True
  then have "queue_elems original = []" by (simp add: queue_elems_Nil_iff)
  moreover have "queue_elems (snd (queue_assign init original q)) = []"
    using True q by (auto simp: queue_assign_def Let_def queue_elems_Nil_iff Queue_Size_def Queue_Clear_def q_ok_def)
  ultimately show ?thesis by simp
next
  case False
  then show ?thesis
    using ring_copy_elems(2) [OF ok refl, of "Queue_Size original + 1" "Queue_Clear init q"] room
    by (simp add: queue_assign_def Let_def)
qed

section \<open>The queue as a fifo\<close>

definition queue_room :: "'a array_queue \<Rightarrow> nat \<Rightarrow> bool" where
  "queue_room q n \<longleftrightarrow> q_ok q \<and> Queue_Size q + n < 2 ^ 30"

lemma queue_new_room [simp]: "queue_room (queue_new j) n \<longleftrightarrow> n < 2 ^ 30"
  by (auto simp: queue_room_def queue_new_def q_ok_def Queue_Size_def)

lemma fifo_laws:
  assumes "2 \<le> init" "init < 2 ^ 31"
  shows "fifo (PushTail init) PopHead Queue_Size queue_elems queue_room"
proof unfold_locales
  fix q :: "'a array_queue" and n x
  assume room: "queue_room q (Suc n)"
  then obtain q' where q': "PushTail init x q = Inr q'" "q_ok q'" "queue_elems q' = queue_elems q @ [x]"
    using PushTail_ok [of q init x] assms by (auto simp: queue_room_def)
  moreover have "Queue_Size q' = Suc (Queue_Size q)"
    using arg_cong [OF q'(3), of length] by simp
  ultimately show "\<exists>q'. PushTail init x q = Inr q' \<and> queue_room q' n \<and> queue_elems q' = queue_elems q @ [x]"
    using room by (auto simp: queue_room_def)
next
  fix q :: "'a array_queue" and n x xs
  assume room: "queue_room q n" and e: "queue_elems q = x # xs"
  then obtain q' where q': "PopHead q = Inr (Some x, q')" "q_ok q'" "queue_elems q' = xs"
    using PopHead_Cons [of q x xs] by (auto simp: queue_room_def)
  moreover have "Queue_Size q' \<le> Queue_Size q"
    using arg_cong [OF q'(3), of length] arg_cong [OF e, of length] by simp
  ultimately show "\<exists>q'. PopHead q = Inr (Some x, q') \<and> queue_room q' n \<and> queue_elems q' = xs"
    using room by (auto simp: queue_room_def)
qed (auto simp: queue_room_def PopHead_Nil)

text \<open>The two initial sizes in use: the default of the template, and 8 for the connection requests.\<close>

interpretation array_fifo: fifo "PushTail 32" PopHead Queue_Size queue_elems queue_room
  by (rule fifo_laws) simp_all

interpretation array_fifo8: fifo "PushTail 8" PopHead Queue_Size queue_elems queue_room
  by (rule fifo_laws) simp_all

end
