(* ===== verification/Array_List.thy ===== *)
theory Array_List
  imports Geco_Prelude
begin

text \<open>
  \<^verbatim>\<open>JackieArrayList\<close> of \<^verbatim>\<open>include/JackieArrayList.h\<close>: a growing array. \<open>junk_at\<close> gives the elements
  of a freshly allocated array; allocation is taken to succeed. A read or a write outside the
  array is the fault \<open>OutOfBounds\<close>, a false \<^verbatim>\<open>assert\<close> outside \<^verbatim>\<open>#ifdef _DEBUG\<close> is \<open>AssertFailed\<close>.
\<close>

section \<open>State\<close>

record 'a array_list =
  listArray :: "'a list"
  list_size :: nat
  list_alloc :: nat
  junk_at :: "nat \<Rightarrow> 'a"

definition MAX_UNSIGNED_LONG :: nat where
  "MAX_UNSIGNED_LONG = 4294967295"

definition MAX_COUNT_ELEMENTS_CLEAR :: nat where
  "MAX_COUNT_ELEMENTS_CLEAR = 521"

definition list_new :: "(nat \<Rightarrow> 'a) \<Rightarrow> 'a array_list" where
  "list_new j = \<lparr>listArray = [], list_size = 0, list_alloc = 0, junk_at = j\<rparr>"

text \<open>A new array of \<open>n\<close> elements whose first \<open>k\<close> are those of \<open>xs\<close>: the copying loops.\<close>

definition copied :: "(nat \<Rightarrow> 'a) \<Rightarrow> 'a list \<Rightarrow> nat \<Rightarrow> nat \<Rightarrow> 'a list res" where
  "copied j xs k n =
     (if k \<le> length xs \<and> k \<le> n then Inr (take k xs @ map j [k..<n]) else Inl OutOfBounds)"

section \<open>Operations\<close>

definition List_at :: "'a array_list \<Rightarrow> nat \<Rightarrow> 'a res" where
  "List_at l position =
     rbind (rassert (position < list_size l)) (\<lambda>_. get_at (listArray l) position)"

definition List_Clear :: "bool \<Rightarrow> 'a array_list \<Rightarrow> 'a array_list" where
  "List_Clear doNotDeallocateSmallBlocks l =
     (if list_alloc l = 0 then l
      else (if list_alloc l > MAX_COUNT_ELEMENTS_CLEAR \<or> \<not> doNotDeallocateSmallBlocks
            then l\<lparr>list_alloc := 0, listArray := []\<rparr> else l)\<lparr>list_size := 0\<rparr>)"

text \<open>The copy constructor on the uninitialised object \<open>raw\<close>, and the assignment.\<close>

definition list_copy :: "'a array_list \<Rightarrow> 'a array_list \<Rightarrow> 'a array_list res" where
  "list_copy raw original =
     (if list_size original = 0 then Inr (raw\<lparr>list_size := 0, list_alloc := 0\<rparr>)
      else rbind (copied (junk_at raw) (listArray original) (list_size original) (list_size original)) (\<lambda>a.
             Inr (raw\<lparr>listArray := a, list_size := list_size original, list_alloc := list_size original\<rparr>)))"

definition list_assign :: "'a array_list \<Rightarrow> 'a array_list \<Rightarrow> 'a array_list res" where
  "list_assign original l =
     (let n = list_size original
      in if n = 0 then Inr (List_Clear False l)
         else
           let l1 = (if n > list_alloc l
                     then (List_Clear False l)\<lparr>listArray := map (junk_at l) [0..<n], list_alloc := n\<rparr> else l)
           in if n \<le> length (listArray original) \<and> n \<le> length (listArray l1)
              then Inr (l1\<lparr>listArray := take n (listArray original) @ drop n (listArray l1), list_size := n\<rparr>)
              else Inl OutOfBounds)"

text \<open>The doubling loop of \<^verbatim>\<open>Preallocate\<close> (\<open>s < n\<close>) and of \<^verbatim>\<open>Shrink2MiniSzie\<close>; 33 rounds are
  enough whenever it ends.\<close>

fun double_until :: "nat \<Rightarrow> nat \<Rightarrow> nat \<Rightarrow> nat res" where
  "double_until 0 n s = Inl OutOfFuel"
| "double_until (Suc fuel) n s = (if s < n then double_until fuel n (shl32 s 1) else Inr s)"

definition Preallocate :: "nat \<Rightarrow> 'a array_list \<Rightarrow> 'a array_list res" where
  "Preallocate countNeeded l =
     rbind (double_until 33 countNeeded (if list_alloc l = 0 then 16 else list_alloc l)) (\<lambda>amount2Alloc.
       if list_alloc l < amount2Alloc then
         rbind (if listArray l \<noteq> [] then copied (junk_at l) (listArray l) (list_size l) amount2Alloc
                else Inr (map (junk_at l) [0..<amount2Alloc])) (\<lambda>a.
           Inr (l\<lparr>listArray := a, list_alloc := amount2Alloc\<rparr>))
       else Inr l)"

definition List_Shrink2MiniSzie :: "'a array_list \<Rightarrow> 'a array_list res" where
  "List_Shrink2MiniSzie l =
     (if list_alloc l = 0 then Inr l
      else rbind (double_until 33 (list_size l) 1) (\<lambda>mini_size.
           rbind (copied (junk_at l) (listArray l) (list_size l) mini_size) (\<lambda>a.
             Inr (l\<lparr>listArray := a, list_alloc := mini_size\<rparr>))))"

definition PopAtLast :: "'a array_list \<Rightarrow> ('a \<times> 'a array_list) res" where
  "PopAtLast l =
     (let n = sub32 (list_size l) 1
      in rbind (get_at (listArray l) n) (\<lambda>x. Inr (x, l\<lparr>list_size := n\<rparr>)))"

text \<open>The reallocation shared by the two insertions.\<close>

definition grow :: "nat \<Rightarrow> 'a array_list \<Rightarrow> 'a array_list res" where
  "grow QUEUE_INIT_SIZE l =
     (if list_size l = list_alloc l then
        let n = (if list_alloc l = 0 then QUEUE_INIT_SIZE else shl32 (list_alloc l) 1)
        in rbind (if listArray l \<noteq> [] then copied (junk_at l) (listArray l) (list_size l) n
                  else Inr (map (junk_at l) [0..<n])) (\<lambda>a.
             Inr (l\<lparr>listArray := a, list_alloc := n\<rparr>))
      else Inr l)"

definition InsertAtLast :: "nat \<Rightarrow> 'a \<Rightarrow> 'a array_list \<Rightarrow> 'a array_list res" where
  "InsertAtLast QUEUE_INIT_SIZE input l =
     rbind (grow QUEUE_INIT_SIZE l) (\<lambda>l1.
     rbind (put_at (listArray l1) (list_size l1) input) (\<lambda>a.
       Inr (l1\<lparr>listArray := a, list_size := list_size l1 + 1\<rparr>)))"

definition PushAtLast :: "nat \<Rightarrow> 'a \<Rightarrow> 'a array_list \<Rightarrow> 'a array_list res" where
  "PushAtLast QUEUE_INIT_SIZE input l = InsertAtLast QUEUE_INIT_SIZE input l"

text \<open>
  The loop \<^verbatim>\<open>for (counter = list_size; counter != position; counter--)\<close>. It ends at 0 only if
  \<^verbatim>\<open>position\<close> is 0; below that it would read before the array.
\<close>

fun shift_up :: "nat \<Rightarrow> nat \<Rightarrow> 'a list \<Rightarrow> 'a list res" where
  "shift_up position 0 xs = (if position = 0 then Inr xs else Inl OutOfBounds)"
| "shift_up position (Suc counter) xs =
     (if Suc counter \<noteq> position then
        rbind (get_at xs counter) (\<lambda>x. rbind (put_at xs (Suc counter) x) (shift_up position counter))
      else Inr xs)"

definition List_InsertAtIndex :: "nat \<Rightarrow> 'a \<Rightarrow> nat \<Rightarrow> 'a array_list \<Rightarrow> 'a array_list res" where
  "List_InsertAtIndex QUEUE_INIT_SIZE input position l =
     rbind (grow QUEUE_INIT_SIZE l) (\<lambda>l1.
     rbind (shift_up position (list_size l1) (listArray l1)) (\<lambda>a.
     rbind (put_at a position input) (\<lambda>b.
       Inr (l1\<lparr>listArray := b, list_size := list_size l1 + 1\<rparr>))))"

text \<open>The loop that fills the holes, \<open>n\<close> rounds from \<open>i\<close> on.\<close>

fun fill_up :: "'a \<Rightarrow> nat \<Rightarrow> nat \<Rightarrow> 'a list \<Rightarrow> 'a list res" where
  "fill_up filler 0 i xs = Inr xs"
| "fill_up filler (Suc n) i xs = rbind (put_at xs i filler) (fill_up filler n (Suc i))"

definition ReplaceAtIndex :: "'a \<Rightarrow> 'a \<Rightarrow> nat \<Rightarrow> 'a array_list \<Rightarrow> 'a array_list res" where
  "ReplaceAtIndex input filler position l =
     (if list_size l > 0 \<and> position < list_size l then
        rbind (put_at (listArray l) position input) (\<lambda>a. Inr (l\<lparr>listArray := a\<rparr>))
      else
        rbind (if position \<ge> list_alloc l then
                 rbind (copied (junk_at l) (listArray l) (list_size l) (add32 position 1)) (\<lambda>a.
                   Inr (l\<lparr>listArray := a, list_alloc := add32 position 1\<rparr>))
               else Inr l) (\<lambda>l1.
        rbind (fill_up filler (position - list_size l1) (list_size l1) (listArray l1)) (\<lambda>a.
        rbind (put_at a (list_size l1 + (position - list_size l1)) input) (\<lambda>b.
          Inr (l1\<lparr>listArray := b, list_size := list_size l1 + (position - list_size l1) + 1\<rparr>)))))"

definition ReplaceAtLast :: "'a \<Rightarrow> 'a array_list \<Rightarrow> 'a array_list res" where
  "ReplaceAtLast input l =
     (if list_size l > 0 then
        rbind (put_at (listArray l) (list_size l - 1) input) (\<lambda>a. Inr (l\<lparr>listArray := a\<rparr>))
      else Inr l)"

text \<open>The loop of \<^verbatim>\<open>RemoveAtIndex\<close>; \<open>n\<close> is the number of rounds left, \<^verbatim>\<open>list_size - 1 - counter\<close>.\<close>

fun shift_down :: "nat \<Rightarrow> nat \<Rightarrow> 'a list \<Rightarrow> 'a list res" where
  "shift_down 0 counter xs = Inr xs"
| "shift_down (Suc n) counter xs =
     rbind (get_at xs (counter + 1)) (\<lambda>x. rbind (put_at xs counter x) (shift_down n (counter + 1)))"

definition List_RemoveAtIndex :: "nat \<Rightarrow> 'a array_list \<Rightarrow> 'a array_list res" where
  "List_RemoveAtIndex position l =
     (if position < list_size l then
        rbind (shift_down (list_size l - 1 - position) position (listArray l)) (\<lambda>a.
          Inr (l\<lparr>listArray := a, list_size := list_size l - 1\<rparr>))
      else Inr l)"

definition RemoveAtIndexFast :: "nat \<Rightarrow> 'a array_list \<Rightarrow> 'a array_list res" where
  "RemoveAtIndexFast position l =
     (let n = sub32 (list_size l) 1
      in if n > position then
           rbind (get_at (listArray l) n) (\<lambda>x.
           rbind (put_at (listArray l) position x) (\<lambda>a.
             Inr (l\<lparr>listArray := a, list_size := n\<rparr>)))
         else Inr (l\<lparr>list_size := n\<rparr>))"

definition RemoveFromLast :: "nat \<Rightarrow> 'a array_list \<Rightarrow> 'a array_list" where
  "RemoveFromLast num l = l\<lparr>list_size := sub32 (list_size l) num\<rparr>"

fun index_loop :: "'a \<Rightarrow> nat \<Rightarrow> nat \<Rightarrow> 'a list \<Rightarrow> nat res" where
  "index_loop input i 0 xs = Inr MAX_UNSIGNED_LONG"
| "index_loop input i (Suc n) xs =
     rbind (get_at xs i) (\<lambda>x. if x = input then Inr i else index_loop input (Suc i) n xs)"

definition GetIndexOf :: "'a \<Rightarrow> 'a array_list \<Rightarrow> nat res" where
  "GetIndexOf input l = index_loop input 0 (list_size l) (listArray l)"

section \<open>The contents of a list and its invariant\<close>

definition l_ok :: "'a array_list \<Rightarrow> bool" where
  "l_ok l \<longleftrightarrow> length (listArray l) = list_alloc l \<and> list_size l \<le> list_alloc l \<and> list_alloc l < 2 ^ 31"

definition list_elems :: "'a array_list \<Rightarrow> 'a list" where
  "list_elems l = take (list_size l) (listArray l)"

lemma list_new_ok [simp]: "l_ok (list_new j)" "list_elems (list_new j) = []"
  by (simp_all add: list_new_def l_ok_def list_elems_def)

lemma length_list_elems [simp]: "l_ok l \<Longrightarrow> length (list_elems l) = list_size l"
  by (simp add: list_elems_def l_ok_def)

lemma List_at_ok: "l_ok l \<Longrightarrow> i < list_size l \<Longrightarrow> List_at l i = Inr (list_elems l ! i)"
  by (simp add: List_at_def list_elems_def l_ok_def)

lemma grow_ok:
  assumes "l_ok l" "0 < init" "init < 2 ^ 31" "list_size l < 2 ^ 30"
  shows "\<exists>l'. grow init l = Inr l' \<and> l_ok l' \<and> list_size l' = list_size l \<and> list_size l' < list_alloc l'
     \<and> list_elems l' = list_elems l"
proof (cases "list_size l = list_alloc l")
  case True
  have sh: "shl32 (list_alloc l) 1 = 2 * list_alloc l" using assms True by (simp add: shl32_def)
  show ?thesis using assms True sh
    by (cases "listArray l = []") (auto simp: grow_def Let_def l_ok_def list_elems_def copied_def)
next
  case False
  then show ?thesis using assms by (auto simp: grow_def l_ok_def)
qed

lemma InsertAtLast_ok:
  assumes "l_ok l" "0 < init" "init < 2 ^ 31" "list_size l < 2 ^ 30"
  shows "\<exists>l'. InsertAtLast init x l = Inr l' \<and> l_ok l' \<and> list_elems l' = list_elems l @ [x]"
proof -
  obtain l1 where l1: "grow init l = Inr l1" "l_ok l1" "list_size l1 = list_size l"
    "list_size l1 < list_alloc l1" "list_elems l1 = list_elems l"
    using grow_ok [OF assms] by blast
  have "take (Suc (list_size l1)) ((listArray l1)[list_size l1 := x]) = list_elems l1 @ [x]"
    using l1(2,4) by (simp add: take_Suc_conv_app_nth l_ok_def list_elems_def)
  then show ?thesis using l1
    by (simp add: InsertAtLast_def l_ok_def) (simp add: list_elems_def)
qed

lemma shift_up_ok:
  "position \<le> n \<Longrightarrow> n < length xs \<Longrightarrow>
   \<exists>ys. shift_up position n xs = Inr ys \<and> length ys = length xs \<and>
     (\<forall>i < length xs. ys ! i = xs ! (if position < i \<and> i \<le> n then i - 1 else i))"
proof (induction n arbitrary: xs)
  case (Suc n)
  show ?case
  proof (cases "Suc n = position")
    case False
    let ?xs = "xs[Suc n := xs ! n]"
    obtain ys where ys: "shift_up position n ?xs = Inr ys" "length ys = length xs"
      "\<forall>i < length xs. ys ! i = ?xs ! (if position < i \<and> i \<le> n then i - 1 else i)"
      using Suc.IH [of ?xs] Suc.prems False by auto
    have "ys ! i = xs ! (if position < i \<and> i \<le> Suc n then i - 1 else i)" if "i < length xs" for i
      using ys(3) that Suc.prems False
      by (cases "i = Suc n") (auto simp: nth_list_update le_Suc_eq)
    then show ?thesis using ys Suc.prems False by simp
  next
    case True
    have "shift_up position (Suc n) xs = Inr xs" by (simp add: True [symmetric])
    then show ?thesis using True by auto
  qed
qed auto

lemma List_InsertAtIndex_ok:
  assumes "l_ok l" "0 < init" "init < 2 ^ 31" "list_size l < 2 ^ 30" "position \<le> list_size l"
  shows "\<exists>l'. List_InsertAtIndex init x position l = Inr l' \<and> l_ok l'
     \<and> list_elems l' = take position (list_elems l) @ x # drop position (list_elems l)"
proof -
  obtain l1 where l1: "grow init l = Inr l1" "l_ok l1" "list_size l1 = list_size l"
    "list_size l1 < list_alloc l1" "list_elems l1 = list_elems l"
    using grow_ok [OF assms(1-4)] by blast
  have len: "length (listArray l1) = list_alloc l1" using l1(2) by (simp add: l_ok_def)
  obtain ys where ys: "shift_up position (list_size l1) (listArray l1) = Inr ys" "length ys = list_alloc l1"
    "\<forall>i < list_alloc l1. ys ! i = listArray l1 ! (if position < i \<and> i \<le> list_size l1 then i - 1 else i)"
    using shift_up_ok [of position "list_size l1" "listArray l1"] l1(3,4) len assms(5) by auto
  let ?l = "l1\<lparr>listArray := ys[position := x], list_size := list_size l1 + 1\<rparr>"
  have "List_InsertAtIndex init x position l = Inr ?l"
    using l1 ys assms(5) by (simp add: List_InsertAtIndex_def)
  moreover have "l_ok ?l" using l1(2,4) ys(2) by (simp add: l_ok_def)
  moreover have "list_elems ?l = take position (list_elems l) @ x # drop position (list_elems l)"
  proof (rule nth_equalityI)
    show len': "length (list_elems ?l) = length (take position (list_elems l) @ x # drop position (list_elems l))"
      using l1(3,4) ys(2) assms(1,5) by (simp add: list_elems_def l_ok_def)
    fix i assume "i < length (list_elems ?l)"
    then have i: "i < Suc (list_size l)" using l1(3,4) ys(2) by (simp add: list_elems_def)
    have e: "listArray l1 ! j = list_elems l ! j" if "j < list_size l" for j
      using that l1(3,5) by (metis list_elems_def nth_take)
    have "list_elems ?l ! i = ys[position := x] ! i" using i l1(3) by (simp add: list_elems_def)
    then show "list_elems ?l ! i = (take position (list_elems l) @ x # drop position (list_elems l)) ! i"
      using i ys(2,3) l1(3,4) assms(1,5) e by (auto simp: nth_list_update nth_append nth_Cons' min_def)
  qed
  ultimately show ?thesis by blast
qed

lemma shift_down_ok:
  "c + n < length xs \<Longrightarrow>
   \<exists>ys. shift_down n c xs = Inr ys \<and> length ys = length xs \<and>
     (\<forall>i < length xs. ys ! i = xs ! (if c \<le> i \<and> i < c + n then Suc i else i))"
proof (induction n arbitrary: c xs)
  case (Suc n)
  let ?xs = "xs[c := xs ! Suc c]"
  obtain ys where ys: "shift_down n (Suc c) ?xs = Inr ys" "length ys = length xs"
    "\<forall>i < length xs. ys ! i = ?xs ! (if Suc c \<le> i \<and> i < Suc c + n then Suc i else i)"
    using Suc.IH [of "Suc c" ?xs] Suc.prems by auto
  have "ys ! i = xs ! (if c \<le> i \<and> i < c + Suc n then Suc i else i)" if "i < length xs" for i
    using ys(3) that Suc.prems by (cases "i = c") (auto simp: nth_list_update)
  then show ?case using ys Suc.prems by simp
qed auto

lemma List_RemoveAtIndex_ok:
  assumes ok: "l_ok l" and p: "position < list_size l"
  shows "\<exists>l'. List_RemoveAtIndex position l = Inr l' \<and> l_ok l'
     \<and> list_elems l' = take position (list_elems l) @ drop (Suc position) (list_elems l)"
proof -
  let ?n = "list_size l"
  have len: "length (listArray l) = list_alloc l" "?n \<le> list_alloc l" using ok by (auto simp: l_ok_def)
  have lt: "?n - 1 < list_alloc l" using len(2) p by arith
  obtain ys where ys: "shift_down (?n - 1 - position) position (listArray l) = Inr ys" "length ys = list_alloc l"
    "\<forall>i < list_alloc l. ys ! i = listArray l ! (if position \<le> i \<and> i < position + (?n - 1 - position) then Suc i else i)"
    using shift_down_ok [of position "?n - 1 - position" "listArray l"] len p lt by auto
  let ?l = "l\<lparr>listArray := ys, list_size := ?n - 1\<rparr>"
  have "list_elems ?l = take position (list_elems l) @ drop (Suc position) (list_elems l)"
  proof (rule nth_equalityI)
    show "length (list_elems ?l) = length (take position (list_elems l) @ drop (Suc position) (list_elems l))"
      using ys(2) p len by (simp add: list_elems_def)
    fix i assume "i < length (list_elems ?l)"
    then have i: "i < ?n - 1" using ys(2) len by (simp add: list_elems_def)
    show "list_elems ?l ! i = (take position (list_elems l) @ drop (Suc position) (list_elems l)) ! i"
      using i ys(2,3) len p by (auto simp: list_elems_def nth_append min_def)
  qed
  moreover have "l_ok ?l" using ok ys(2) less_imp_le [OF lt] by (simp add: l_ok_def)
  ultimately show ?thesis using p ys(1) by (simp add: List_RemoveAtIndex_def)
qed

lemma RemoveAtIndexFast_ok:
  assumes ok: "l_ok l" and p: "position < list_size l"
  shows "\<exists>l'. RemoveAtIndexFast position l = Inr l' \<and> l_ok l'
     \<and> list_elems l' = butlast ((list_elems l)[position := last (list_elems l)])"
proof -
  have len: "length (listArray l) = list_alloc l" "list_size l \<le> list_alloc l" "list_alloc l < 2 ^ 31"
    using ok by (auto simp: l_ok_def)
  obtain n where n: "list_size l = Suc n" using p by (cases "list_size l") auto
  have sub: "sub32 (list_size l) 1 = n" using len n by (simp add: u32_arith)
  have last: "last (list_elems l) = listArray l ! n"
    using n len by (simp add: list_elems_def take_Suc_conv_app_nth)
  show ?thesis
  proof (cases "position = n")
    case True
    then have "butlast ((list_elems l)[position := last (list_elems l)]) = take n (listArray l)"
      using n len by (simp add: list_elems_def butlast_take list_update_beyond butlast_list_update take_Suc_conv_app_nth list_update_append)
    then show ?thesis using True sub ok n by (simp add: RemoveAtIndexFast_def l_ok_def list_elems_def)
  next
    case False
    then have "butlast ((list_elems l)[position := last (list_elems l)]) = take n ((listArray l)[position := listArray l ! n])"
      using n len p last by (simp add: list_elems_def take_update_swap [symmetric] butlast_take flip: take_update_swap)
    then show ?thesis using False sub ok n len p by (simp add: RemoveAtIndexFast_def l_ok_def list_elems_def)
  qed
qed

lemma index_loop_ok:
  "i + n \<le> length xs \<Longrightarrow> index_loop x i n xs =
     Inr (case find (\<lambda>j. xs ! j = x) [i..<i + n] of None \<Rightarrow> MAX_UNSIGNED_LONG | Some j \<Rightarrow> j)"
proof (induction n arbitrary: i)
  case (Suc n)
  have "[i..<i + Suc n] = i # [Suc i..<Suc i + n]" by (simp add: upt_rec)
  then show ?case using Suc.prems Suc.IH [of "Suc i"] by (simp del: upt_Suc)
qed simp

lemma fill_up_ok:
  "i + n \<le> length xs \<Longrightarrow> fill_up f n i xs = Inr (take i xs @ replicate n f @ drop (i + n) xs)"
proof (induction n arbitrary: i xs)
  case (Suc n)
  have "take (Suc i) (xs[i := f]) = take i xs @ [f]"
    using Suc.prems by (simp add: take_Suc_conv_app_nth)
  then show ?case using Suc.prems Suc.IH [of "Suc i" "xs[i := f]"] by simp
qed simp

lemma ReplaceAtIndex_grows:
  assumes ok: "l_ok l" and p: "list_size l \<le> position" "position < 2 ^ 31 - 1"
  shows "\<exists>l'. ReplaceAtIndex x filler position l = Inr l' \<and> l_ok l'
     \<and> list_elems l' = list_elems l @ replicate (position - list_size l) filler @ [x]"
proof -
  have fill: "fill_up filler (position - list_size l) (list_size l) xs =
      Inr (take (list_size l) xs @ replicate (position - list_size l) filler @ drop position xs)"
    if "position \<le> length xs" for xs
    using fill_up_ok [of "list_size l" "position - list_size l" xs filler] that p by simp
  define a where "a = (if position \<ge> list_alloc l
      then list_elems l @ map (junk_at l) [list_size l..<position + 1] else listArray l)"
  have len: "length (listArray l) = list_alloc l" "list_size l \<le> list_alloc l" "list_alloc l < 2 ^ 31"
    using ok by (auto simp: l_ok_def)
  have a: "position < length a" "take (list_size l) a = list_elems l" "length a < 2 ^ 31"
    using len p by (auto simp: a_def list_elems_def)
  let ?b = "list_elems l @ replicate (position - list_size l) filler @ [x] @ drop (Suc position) a"
  have b: "put_at (take (list_size l) a @ replicate (position - list_size l) filler @ drop position a) position x = Inr ?b"
    using a p len ok by (simp add: put_at_def list_update_append Cons_nth_drop_Suc [symmetric])
  have "ReplaceAtIndex x filler position l =
      Inr (l\<lparr>listArray := ?b, list_size := position + 1, list_alloc := length a\<rparr>)"
  proof (cases "position \<ge> list_alloc l")
    case True
    then have "copied (junk_at l) (listArray l) (list_size l) (add32 position 1) = Inr a"
      using len p by (simp add: copied_def a_def list_elems_def u32_arith)
    moreover have "length a = add32 position 1" using True len p ok by (simp add: a_def u32_arith)
    ultimately show ?thesis using True p a b fill [of a] by (simp add: ReplaceAtIndex_def)
  next
    case False
    then have "a = listArray l" by (simp add: a_def)
    then show ?thesis using False p a b fill [of a] len by (simp add: ReplaceAtIndex_def)
  qed
  then show ?thesis using a p len ok by (simp add: l_ok_def) (simp add: list_elems_def)
qed

lemma double_until_ok:
  "n \<le> s * 2 ^ fuel \<Longrightarrow> 0 < s \<Longrightarrow> s < 2 ^ 31 \<Longrightarrow> n \<le> 2 ^ 30 \<Longrightarrow>
   \<exists>m. double_until (Suc fuel) n s = Inr m \<and> n \<le> m \<and> s \<le> m \<and> (m = s \<or> m < 2 * n)"
proof (induction fuel arbitrary: s)
  case (Suc fuel)
  show ?case
  proof (cases "s < n")
    case True
    then have sh: "shl32 s 1 = 2 * s" using Suc.prems by (simp add: shl32_def)
    have "\<exists>m. double_until (Suc fuel) n (2 * s) = Inr m \<and> n \<le> m \<and> 2 * s \<le> m \<and> (m = 2 * s \<or> m < 2 * n)"
      by (rule Suc.IH) (use Suc.prems True in \<open>simp_all add: ac_simps\<close>)
    then obtain m where "double_until (Suc fuel) n (2 * s) = Inr m" "n \<le> m" "2 * s \<le> m" "m = 2 * s \<or> m < 2 * n"
      by blast
    then show ?thesis using True sh by (auto simp del: double_until.simps simp: double_until.simps(2) [of "Suc fuel"])
  qed simp
qed simp

lemma copied_ok:
  assumes "l_ok l" "list_size l \<le> m" "m < 2 ^ 31"
  shows "\<exists>a. copied (junk_at l) (listArray l) (list_size l) m = Inr a
    \<and> l_ok (l\<lparr>listArray := a, list_alloc := m\<rparr>) \<and> list_elems (l\<lparr>listArray := a, list_alloc := m\<rparr>) = list_elems l"
  using assms by (auto simp: copied_def l_ok_def list_elems_def)

lemma Preallocate_ok:
  assumes ok: "l_ok l" and n: "countNeeded \<le> 2 ^ 30"
  shows "\<exists>l'. Preallocate countNeeded l = Inr l' \<and> l_ok l' \<and> list_elems l' = list_elems l
     \<and> countNeeded \<le> list_alloc l'"
proof -
  define s where "s = (if list_alloc l = 0 then 16 else list_alloc l)"
  have s: "0 < s" "s < 2 ^ 31" "list_alloc l \<le> s" "list_size l \<le> list_alloc l" using ok by (auto simp: s_def l_ok_def)
  have "countNeeded \<le> s * 2 ^ 32" using n s(1) by (cases s) auto
  then obtain m where m: "double_until 33 countNeeded s = Inr m" "countNeeded \<le> m" "s \<le> m" "m = s \<or> m < 2 * countNeeded"
    using double_until_ok [of countNeeded s 32] s n by auto
  then have m31: "m < 2 ^ 31" using s(2) n by auto
  show ?thesis
  proof (cases "list_alloc l < m")
    case True
    have ls: "list_size l \<le> m" using s m(3) by linarith
    obtain a where a: "copied (junk_at l) (listArray l) (list_size l) m = Inr a"
      "l_ok (l\<lparr>listArray := a, list_alloc := m\<rparr>)" "list_elems (l\<lparr>listArray := a, list_alloc := m\<rparr>) = list_elems l"
      using copied_ok [OF ok ls m31] by blast
    have "listArray l = [] \<Longrightarrow> list_size l = 0" using ok by (simp add: l_ok_def)
    then have "listArray l = [] \<Longrightarrow> a = map (junk_at l) [0..<m]" using a(1) by (simp add: copied_def)
    then have "Preallocate countNeeded l = Inr (l\<lparr>listArray := a, list_alloc := m\<rparr>)"
      using m(1) True a(1) by (simp add: Preallocate_def s_def)
    then show ?thesis using a m(2) by simp
  next
    case False
    then show ?thesis using m ok s by (simp add: Preallocate_def s_def)
  qed
qed

lemma List_Shrink_ok:
  assumes ok: "l_ok l" and n: "list_size l \<le> 2 ^ 30"
  shows "\<exists>l'. List_Shrink2MiniSzie l = Inr l' \<and> l_ok l' \<and> list_elems l' = list_elems l"
proof (cases "list_alloc l = 0")
  case False
  obtain m where m: "double_until 33 (list_size l) 1 = Inr m" "list_size l \<le> m" "m = 1 \<or> m < 2 * list_size l"
    using double_until_ok [of "list_size l" 1 32] n by auto
  then have "m < 2 ^ 31" using n by auto
  then show ?thesis
    using copied_ok [OF ok m(2)] m(1) False by (auto simp: List_Shrink2MiniSzie_def)
qed (use ok in \<open>simp add: List_Shrink2MiniSzie_def\<close>)

lemma GetIndexOf_ok:
  assumes ok: "l_ok l"
  shows "GetIndexOf x l =
    Inr (case find (\<lambda>j. list_elems l ! j = x) [0..<list_size l] of None \<Rightarrow> MAX_UNSIGNED_LONG | Some j \<Rightarrow> j)"
proof -
  have "find (\<lambda>j. listArray l ! j = x) [0..<list_size l] = find (\<lambda>j. list_elems l ! j = x) [0..<list_size l]"
    by (rule find_cong) (simp_all add: list_elems_def)
  then show ?thesis
    using index_loop_ok [of 0 "list_size l" "listArray l" x] ok by (simp add: GetIndexOf_def l_ok_def)
qed

end
