(* ===== verification/Spsc_Queue.thy ===== *)
theory Spsc_Queue
  imports Fifo Bit_Types
begin

unbundle bit_operations_syntax

text \<open>
  \<^verbatim>\<open>JackieSPSCQueue\<close> of \<^verbatim>\<open>include/JackieSPSCQueue.h\<close>: the queue between one producer thread and one
  consumer thread. An element is the list of its \<^verbatim>\<open>m_ElementSize\<close> bytes. The bodies of the two
  loops are cut at the memory barriers into three steps each (sample the other side's index, copy
  the bytes, publish the own index); \<open>PushTail\<close> and \<open>PopHead\<close> compose them as the code does, and the
  step relation below interleaves them.
\<close>

section \<open>State\<close>

record spsc =
  m_nIn :: nat
  m_nOut :: nat
  m_pBuffer :: "8 word list"
  m_nSize :: nat
  m_ElementSize :: nat

definition IsPower2 :: "64 word \<Rightarrow> bool" where
  "IsPower2 n \<longleftrightarrow> n \<noteq> 0 \<and> n AND (n - 1) = 0"

text \<open>The loop that looks for the highest bit; 64 rounds reach the lowest one.\<close>

fun high_bit_loop :: "nat \<Rightarrow> 64 word \<Rightarrow> 64 word \<Rightarrow> 64 word res" where
  "high_bit_loop 0 val andv = Inl OutOfFuel"
| "high_bit_loop (Suc fuel) val andv =
     (if andv AND val = 0 then high_bit_loop fuel val (drop_bit 1 andv) else Inr andv)"

definition RoundUpPower2 :: "64 word \<Rightarrow> 64 word res" where
  "RoundUpPower2 val =
     (if val AND (val - 1) = 0 then Inr val
      else
        let maxulong = NOT 0; andv = NOT (maxulong AND drop_bit 1 maxulong)
        in rbind (high_bit_loop 64 val andv) (\<lambda>andv. Inr (push_bit 1 andv)))"

text \<open>
  The constructor. The product of the two sizes is computed in \<^verbatim>\<open>unsigned int\<close>; a size that is a
  power of two already is left as the number of elements. \<open>raw\<close> gives the bytes of the new buffer.
\<close>

definition spsc_new :: "(nat \<Rightarrow> 8 word) \<Rightarrow> nat \<Rightarrow> nat \<Rightarrow> spsc res" where
  "spsc_new raw nSize es =
     (let bytes = (nSize * es) mod 2 ^ 32
      in rbind (if \<not> IsPower2 (of_nat bytes) then RoundUpPower2 (of_nat bytes) else Inr (of_nat nSize)) (\<lambda>w.
           let n = unat w mod 2 ^ 32
           in Inr \<lparr>m_nIn = 0, m_nOut = 0, m_pBuffer = map raw [0..<n], m_nSize = n, m_ElementSize = es\<rparr>))"

section \<open>Operations\<close>

definition spsc_Clear :: "spsc \<Rightarrow> spsc" where
  "spsc_Clear q = q\<lparr>m_nIn := 0, m_nOut := 0\<rparr>"

definition spsc_Size :: "spsc \<Rightarrow> nat" where
  "spsc_Size q = sub32 (m_nIn q) (m_nOut q) div m_ElementSize q"

text \<open>\<^verbatim>\<open>memcpy\<close> of no byte does nothing, wherever its pointers point.\<close>

definition memcpy_at :: "8 word list \<Rightarrow> nat \<Rightarrow> 8 word list \<Rightarrow> nat \<Rightarrow> nat \<Rightarrow> 8 word list res" where
  "memcpy_at dst i src j n = (if n = 0 then Inr dst else copy_into dst i (drop j src) n)"

definition push_sample :: "nat \<Rightarrow> spsc \<Rightarrow> nat" where
  "push_sample m_len q =
     (let m_len = sub32 (m_ElementSize q) m_len;
          l = add32 (sub32 (m_nSize q) (m_nIn q)) (m_nOut q)
      in min m_len l)"

text \<open>\<^verbatim>\<open>&buffer + l\<close> is arithmetic on \<^verbatim>\<open>elementType *\<close>: it is \<^verbatim>\<open>l\<close> whole elements after the element.\<close>

definition push_copy :: "8 word list \<Rightarrow> nat \<Rightarrow> spsc \<Rightarrow> spsc res" where
  "push_copy buffer m_len q =
     (let pos = m_nIn q AND (m_nSize q - 1);
          l = min m_len (m_nSize q - pos)
      in rbind (memcpy_at (m_pBuffer q) pos buffer 0 l) (\<lambda>b1.
         rbind (memcpy_at b1 0 buffer (l * m_ElementSize q) (m_len - l)) (\<lambda>b2.
           Inr (q\<lparr>m_pBuffer := b2\<rparr>))))"

definition push_publish :: "nat \<Rightarrow> spsc \<Rightarrow> spsc" where
  "push_publish m_len q = q\<lparr>m_nIn := add32 (m_nIn q) m_len\<rparr>"

fun push_loop :: "nat \<Rightarrow> 8 word list \<Rightarrow> nat \<Rightarrow> spsc \<Rightarrow> spsc res" where
  "push_loop 0 buffer m_len q = Inl OutOfFuel"
| "push_loop (Suc fuel) buffer m_len q =
     (if m_len < m_ElementSize q then
        let m_len = push_sample m_len q
        in rbind (push_copy buffer m_len q) (\<lambda>q1.
             push_loop fuel buffer m_len (push_publish m_len q1))
      else Inr q)"

definition spsc_PushTail :: "nat \<Rightarrow> 8 word list \<Rightarrow> spsc \<Rightarrow> spsc res" where
  "spsc_PushTail fuel buffer q = push_loop fuel buffer 0 q"

definition pop_sample :: "nat \<Rightarrow> spsc \<Rightarrow> nat" where
  "pop_sample m_len q =
     (let m_len = sub32 (m_ElementSize q) m_len; l = sub32 (m_nIn q) (m_nOut q) in min m_len l)"

definition pop_copy :: "8 word list \<Rightarrow> nat \<Rightarrow> spsc \<Rightarrow> 8 word list res" where
  "pop_copy buffer m_len q =
     (let pos = m_nOut q AND (m_nSize q - 1);
          l = min m_len (m_nSize q - pos)
      in rbind (memcpy_at buffer 0 (m_pBuffer q) pos l) (\<lambda>b1.
           memcpy_at b1 (l * m_ElementSize q) (m_pBuffer q) 0 (m_len - l)))"

definition pop_publish :: "nat \<Rightarrow> spsc \<Rightarrow> spsc" where
  "pop_publish m_len q = q\<lparr>m_nOut := add32 (m_nOut q) m_len\<rparr>"

fun pop_loop :: "nat \<Rightarrow> 8 word list \<Rightarrow> nat \<Rightarrow> spsc \<Rightarrow> (8 word list \<times> spsc) res" where
  "pop_loop 0 buffer m_len q = Inl OutOfFuel"
| "pop_loop (Suc fuel) buffer m_len q =
     (if m_len < m_ElementSize q then
        let m_len = pop_sample m_len q
        in rbind (pop_copy buffer m_len q) (\<lambda>b.
             pop_loop fuel b m_len (pop_publish m_len q))
      else Inr (buffer, q))"

definition spsc_PopHead :: "nat \<Rightarrow> 8 word list \<Rightarrow> spsc \<Rightarrow> (8 word list \<times> spsc) res" where
  "spsc_PopHead fuel buffer q = pop_loop fuel buffer 0 q"

definition spsc_at :: "spsc \<Rightarrow> nat \<Rightarrow> 8 word list res" where
  "spsc_at q position =
     (let i = (m_nOut q AND (m_nSize q - 1)) + position * m_ElementSize q
      in if i + m_ElementSize q \<le> length (m_pBuffer q)
         then Inr (take (m_ElementSize q) (drop i (m_pBuffer q))) else Inl OutOfBounds)"

section \<open>Invariant and contents\<close>

text \<open>The elements fill the buffer exactly: with another size, an element would wrap around.\<close>

definition spsc_ok :: "spsc \<Rightarrow> bool" where
  "spsc_ok q \<longleftrightarrow> (\<exists>k < 32. m_nSize q = 2 ^ k) \<and> length (m_pBuffer q) = m_nSize q \<and> 0 < m_ElementSize q
     \<and> m_ElementSize q dvd m_nSize q \<and> m_ElementSize q dvd m_nIn q \<and> m_ElementSize q dvd m_nOut q
     \<and> m_nIn q < 2 ^ 32 \<and> m_nOut q < 2 ^ 32 \<and> sub32 (m_nIn q) (m_nOut q) \<le> m_nSize q"

definition slot :: "spsc \<Rightarrow> nat \<Rightarrow> 8 word list" where
  "slot q i = take (m_ElementSize q) (drop (i mod m_nSize q) (m_pBuffer q))"

definition spsc_elems :: "spsc \<Rightarrow> 8 word list list" where
  "spsc_elems q = map (\<lambda>j. slot q (m_nOut q + j * m_ElementSize q)) [0..<spsc_Size q]"

lemma length_spsc_elems [simp]: "length (spsc_elems q) = spsc_Size q"
  by (simp add: spsc_elems_def)

lemma and_size_minus: "\<exists>k < 32. n = 2 ^ k \<Longrightarrow> i AND (n - 1) = i mod (n :: nat)"
proof -
  assume "\<exists>k < 32. n = 2 ^ k"
  then obtain k where n: "n = 2 ^ k" by blast
  have "n - 1 = mask k" by (simp add: n mask_eq_exp_minus_1)
  then show ?thesis by (simp add: n take_bit_eq_mod flip: take_bit_eq_mask)
qed

lemma sub32_add32: "b < 2 ^ 32 \<Longrightarrow> sub32 (add32 a n) b = (sub32 a b + n) mod 2 ^ 32"
proof -
  assume b: "b < 2 ^ 32"
  have "sub32 (add32 a n) b = ((a + n) mod 2 ^ 32 + (2 ^ 32 - b)) mod 2 ^ 32"
    using b by (simp add: sub32_def add32_def)
  also have "\<dots> = (a + (2 ^ 32 - b) + n) mod 2 ^ 32" by (simp add: mod_simps ac_simps)
  also have "\<dots> = (sub32 a b + n) mod 2 ^ 32" using b by (simp add: sub32_def mod_simps)
  finally show ?thesis .
qed

lemma sub32_if: "a < 2 ^ 32 \<Longrightarrow> b < 2 ^ 32 \<Longrightarrow> sub32 a b = (if b \<le> a then a - b else a + 2 ^ 32 - b)"
  by (simp add: sub32_def mod_if)

lemma spsc_free:
  assumes "spsc_ok q"
  shows "add32 (sub32 (m_nSize q) (m_nIn q)) (m_nOut q) = m_nSize q - sub32 (m_nIn q) (m_nOut q)"
proof -
  define n i k where "n = m_nSize q" and "i = m_nIn q" and "k = m_nOut q"
  have "\<exists>e < 32. n = 2 ^ e" using assms by (simp add: spsc_ok_def n_def)
  then have "n < 2 ^ 32" using power_strict_increasing [of _ 32 "2 :: nat"] by auto
  moreover have "i < 2 ^ 32" "k < 2 ^ 32" "sub32 i k \<le> n" using assms by (simp_all add: spsc_ok_def n_def i_def k_def)
  ultimately have "add32 (sub32 n i) k = n - sub32 i k"
    by (auto simp: sub32_if add32_def mod_if split: if_splits)
  then show ?thesis by (simp add: n_def i_def k_def)
qed

text \<open>The index arithmetic, read off the invariant: \<open>D\<close> bytes are in the buffer.\<close>

lemma spsc_D:
  assumes ok: "spsc_ok q"
  defines "n \<equiv> m_nSize q" and "es \<equiv> m_ElementSize q" and "D \<equiv> sub32 (m_nIn q) (m_nOut q)"
  shows "0 < n" "n < 2 ^ 32" "n dvd 2 ^ 32" "0 < es" "es dvd n" "D \<le> n" "es dvd D" "D = spsc_Size q * es"
    "m_nIn q mod n = (m_nOut q + D) mod n" "es \<le> n"
proof -
  obtain k where k: "k < 32" "n = 2 ^ k" using ok by (auto simp: spsc_ok_def n_def)
  show n0: "0 < n" using k by simp
  show "n < 2 ^ 32" using k power_strict_increasing [of k 32 "2 :: nat"] by simp
  show nd: "n dvd 2 ^ 32" using k le_imp_power_dvd [of k 32 "2 :: nat"] by simp
  show es: "0 < es" "es dvd n" "D \<le> n" using ok by (simp_all add: spsc_ok_def n_def es_def D_def)
  then show "es \<le> n" using n0 dvd_imp_le by blast
  have io: "es dvd m_nIn q" "es dvd m_nOut q" "m_nIn q < 2 ^ 32" "m_nOut q < 2 ^ 32"
    using ok by (simp_all add: spsc_ok_def es_def)
  have e32: "es dvd 2 ^ 32" using es(2) nd dvd_trans by blast
  show d: "es dvd D"
  proof (cases "m_nOut q \<le> m_nIn q")
    case True
    then show ?thesis using io by (simp add: D_def sub32_if dvd_diff_nat)
  next
    case False
    then have "D = m_nIn q + 2 ^ 32 - m_nOut q" using io by (simp add: D_def sub32_if)
    then show ?thesis using io e32 by (metis dvd_add dvd_diff_nat)
  qed
  then show "D = spsc_Size q * es" by (simp add: spsc_Size_def D_def es_def)
  have "m_nOut q + D = m_nIn q \<or> m_nOut q + D = m_nIn q + 2 ^ 32"
    using io by (auto simp: D_def sub32_if)
  moreover obtain c where "(2 :: nat) ^ 32 = n * c" using nd by (rule dvdE)
  ultimately show "m_nIn q mod n = (m_nOut q + D) mod n" by (metis mod_mult_self2)
qed

lemma room_for_one:
  assumes "spsc_ok q" "sub32 (m_nIn q) (m_nOut q) < m_nSize q"
  shows "sub32 (m_nIn q) (m_nOut q) + m_ElementSize q \<le> m_nSize q"
proof -
  note d = spsc_D [OF assms(1)]
  have "m_ElementSize q dvd m_nSize q - sub32 (m_nIn q) (m_nOut q)" using d(5,7) by (simp add: dvd_diff_nat)
  then show ?thesis using assms(2) by (auto dest: dvd_imp_le)
qed

lemma push_sample_ok:
  assumes "spsc_ok q" "m = 0"
  shows "push_sample m q = (if sub32 (m_nIn q) (m_nOut q) < m_nSize q then m_ElementSize q else 0)"
proof -
  note d = spsc_D [OF assms(1)]
  have "sub32 (m_ElementSize q) 0 = m_ElementSize q" using d(2,10) by (simp add: sub32_def)
  then show ?thesis
    using room_for_one [OF assms(1)] d(6) assms(2) by (auto simp: push_sample_def Let_def spsc_free [OF assms(1)])
qed

lemma pop_sample_ok:
  assumes "spsc_ok q" "m = 0"
  shows "pop_sample m q = (if spsc_Size q = 0 then 0 else m_ElementSize q)"
proof -
  note d = spsc_D [OF assms(1)]
  have "sub32 (m_ElementSize q) 0 = m_ElementSize q" using d(2,10) by (simp add: sub32_def)
  then show ?thesis using d(8) assms(2) by (simp add: pop_sample_def Let_def)
qed

lemma slot_position:
  assumes ok: "spsc_ok q" and i: "m_ElementSize q dvd i"
  shows "i mod m_nSize q + m_ElementSize q \<le> m_nSize q"
proof -
  note d = spsc_D [OF ok]
  have "m_ElementSize q dvd i mod m_nSize q" using i d(5) by (simp add: dvd_mod)
  then have "m_ElementSize q dvd m_nSize q - i mod m_nSize q" using d(5) by (simp add: dvd_diff_nat)
  moreover have "0 < m_nSize q - i mod m_nSize q" using d(1) by simp
  ultimately have "m_ElementSize q \<le> m_nSize q - i mod m_nSize q" using dvd_imp_le by blast
  then show ?thesis using d(10) mod_less_divisor [OF d(1), of i] by arith
qed

lemma length_slot [simp]: "spsc_ok q \<Longrightarrow> m_ElementSize q dvd i \<Longrightarrow> length (slot q i) = m_ElementSize q"
  using slot_position [of q i] by (simp add: slot_def spsc_ok_def)

text \<open>The copying steps, in the two cases the sample leaves: a whole element, or nothing.\<close>

lemma push_copy_0: "push_copy buffer 0 q = Inr q"
  by (simp add: push_copy_def memcpy_at_def Let_def)

lemma pop_copy_0: "pop_copy buffer 0 q = Inr buffer"
  by (simp add: pop_copy_def memcpy_at_def Let_def)

lemma push_copy_ok:
  assumes ok: "spsc_ok q" and len: "length b = m_ElementSize q"
  obtains q' where "push_copy b (m_ElementSize q) q = Inr q'" "spsc_ok q'"
    "q' = q\<lparr>m_pBuffer := m_pBuffer q'\<rparr>" "slot q' (m_nIn q) = b"
    "\<And>i. m_ElementSize q dvd i \<Longrightarrow> i mod m_nSize q \<noteq> m_nIn q mod m_nSize q \<Longrightarrow> slot q' i = slot q i"
proof -
  let ?es = "m_ElementSize q" and ?n = "m_nSize q" and ?p = "m_nIn q mod m_nSize q"
  note d = spsc_D [OF ok]
  have ind: "?es dvd m_nIn q" and lb: "length (m_pBuffer q) = ?n" using ok by (auto simp: spsc_ok_def)
  have p: "?p + ?es \<le> ?n" by (rule slot_position [OF ok ind])
  define a where "a = take ?p (m_pBuffer q) @ b @ drop (?p + ?es) (m_pBuffer q)"
  let ?q = "q\<lparr>m_pBuffer := a\<rparr>"
  have "\<exists>k < 32. ?n = 2 ^ k" using ok by (simp add: spsc_ok_def)
  note pos = and_size_minus [OF this]
  have min: "min ?es (?n - ?p) = ?es" using p by simp
  have "push_copy b ?es q = Inr ?q"
    unfolding push_copy_def Let_def pos min
    using p lb len d(4) by (simp add: memcpy_at_def copy_into_def a_def)
  moreover have la: "length a = ?n" using p lb len by (simp add: a_def)
  then have "spsc_ok ?q" using ok by (simp add: spsc_ok_def)
  moreover have "slot ?q (m_nIn q) = b"
    using p lb len by (simp add: slot_def a_def)
  moreover have "slot ?q i = slot q i" if i: "?es dvd i" "i mod ?n \<noteq> ?p" for i
  proof -
    have s: "i mod ?n + ?es \<le> ?n" by (rule slot_position [OF ok i(1)])
    have "?es dvd i mod ?n" "?es dvd ?p" using i(1) ind d(5) by (simp_all add: dvd_mod)
    then obtain u v where uv: "i mod ?n = ?es * u" "?p = ?es * v" by (auto elim!: dvdE)
    then have "u \<noteq> v" using i(2) by auto
    then have apart: "i mod ?n + ?es \<le> ?p \<or> ?p + ?es \<le> i mod ?n"
      using d(4) uv by (metis Suc_leI linorder_neqE_nat mult_Suc_right mult_le_mono2 add.commute)
    show ?thesis
    proof (rule nth_equalityI)
      show "length (slot ?q i) = length (slot q i)" using s lb la by (simp add: slot_def)
      fix j assume "j < length (slot ?q i)"
      then have j: "j < ?es" using s la by (simp add: slot_def)
      have "a ! (i mod ?n + j) = m_pBuffer q ! (i mod ?n + j)"
        using apart
      proof
        assume "i mod ?n + ?es \<le> ?p"
        then show ?thesis using j lb p by (simp add: a_def nth_append)
      next
        assume "?p + ?es \<le> i mod ?n"
        then have "\<not> i mod ?n + j < ?p" "\<not> i mod ?n + j - ?p < ?es" by arith+
        then show ?thesis using j lb p len s by (simp add: a_def nth_append)
      qed
      then show "slot ?q i ! j = slot q i ! j" using j s la lb by (simp add: slot_def)
    qed
  qed
  ultimately show ?thesis using that [of ?q] by simp
qed

lemma pop_copy_ok:
  assumes ok: "spsc_ok q" and len: "length dst = m_ElementSize q"
  shows "pop_copy dst (m_ElementSize q) q = Inr (slot q (m_nOut q))"
proof -
  let ?es = "m_ElementSize q" and ?n = "m_nSize q" and ?p = "m_nOut q mod m_nSize q"
  note d = spsc_D [OF ok]
  have out: "?es dvd m_nOut q" and lb: "length (m_pBuffer q) = ?n" using ok by (auto simp: spsc_ok_def)
  have p: "?p + ?es \<le> ?n" by (rule slot_position [OF ok out])
  have "\<exists>k < 32. ?n = 2 ^ k" using ok by (simp add: spsc_ok_def)
  note pos = and_size_minus [OF this]
  have min: "min ?es (?n - ?p) = ?es" using p by simp
  show ?thesis
    unfolding pop_copy_def Let_def pos min
    using p lb len d(4) by (simp add: memcpy_at_def copy_into_def slot_def)
qed

text \<open>Publishing.\<close>

lemma publish_0: "spsc_ok q \<Longrightarrow> push_publish 0 q = q" "spsc_ok q \<Longrightarrow> pop_publish 0 q = q"
  by (simp_all add: push_publish_def pop_publish_def add32_def spsc_ok_def)

lemma push_publish_ok:
  assumes ok: "spsc_ok q" and room: "sub32 (m_nIn q) (m_nOut q) < m_nSize q"
  defines "q' \<equiv> push_publish (m_ElementSize q) q"
  shows "spsc_ok q'" "spsc_Size q' = Suc (spsc_Size q)" "spsc_elems q' = spsc_elems q @ [slot q (m_nIn q)]"
proof -
  let ?D = "sub32 (m_nIn q) (m_nOut q)" and ?es = "m_ElementSize q"
  note d = spsc_D [OF ok]
  have lt: "m_nIn q < 2 ^ 32" "m_nOut q < 2 ^ 32" "?es dvd m_nIn q" using ok by (simp_all add: spsc_ok_def)
  have room': "?D + ?es \<le> m_nSize q" by (rule room_for_one [OF ok room])
  have D': "sub32 (m_nIn q') (m_nOut q') = ?D + ?es"
    using sub32_add32 [OF lt(2), of "m_nIn q" ?es] room' d(2) by (simp add: q'_def push_publish_def)
  have e32: "?es dvd 2 ^ 32" using d(3,5) dvd_trans by blast
  have "?es dvd add32 (m_nIn q) ?es" using lt(3) e32 by (simp add: add32_def dvd_mod)
  then show "spsc_ok q'"
    using ok D' room' by (simp add: spsc_ok_def q'_def push_publish_def add32_def)
  have "(?D + ?es) div ?es = Suc (?D div ?es)"
    using div_add_self2 [of ?es ?D] d(4) by simp
  then show size: "spsc_Size q' = Suc (spsc_Size q)"
    using D' by (simp add: spsc_Size_def) (simp add: q'_def push_publish_def)
  have slot: "slot q' i = slot q i" for i by (simp add: slot_def q'_def push_publish_def)
  have last: "slot q (m_nOut q + spsc_Size q * ?es) = slot q (m_nIn q)"
    using d(8,9) by (simp add: slot_def)
  show "spsc_elems q' = spsc_elems q @ [slot q (m_nIn q)]"
    unfolding spsc_elems_def size slot using last by (simp add: q'_def push_publish_def)
qed

lemma pop_publish_ok:
  assumes ok: "spsc_ok q" and e: "spsc_Size q = Suc s"
  defines "q' \<equiv> pop_publish (m_ElementSize q) q"
  shows "spsc_ok q'" "spsc_Size q' = s" "spsc_elems q = slot q (m_nOut q) # spsc_elems q'"
proof -
  let ?D = "sub32 (m_nIn q) (m_nOut q)" and ?es = "m_ElementSize q"
  note d = spsc_D [OF ok]
  have lt: "m_nIn q < 2 ^ 32" "m_nOut q < 2 ^ 32" "?es dvd m_nOut q" using ok by (simp_all add: spsc_ok_def)
  have D: "?D = ?es + s * ?es" using d(8) e by simp
  then have D': "sub32 (m_nIn q') (m_nOut q') = s * ?es"
    using lt d(2,6) by (auto simp: q'_def pop_publish_def sub32_if add32_def mod_if split: if_splits)
  have e32: "?es dvd 2 ^ 32" using d(3,5) dvd_trans by blast
  have "?es dvd add32 (m_nOut q) ?es" using lt(3) e32 by (simp add: add32_def dvd_mod)
  moreover have "s * ?es \<le> m_nSize q" using D d(6) by linarith
  ultimately show "spsc_ok q'"
    using ok D' by (simp add: spsc_ok_def q'_def pop_publish_def add32_def)
  show size: "spsc_Size q' = s"
    using D' d(4) by (simp add: spsc_Size_def) (simp add: q'_def pop_publish_def)
  have slot: "slot q' (m_nOut q' + j * ?es) = slot q (m_nOut q + Suc j * ?es)" for j
  proof -
    have "((m_nOut q + ?es) mod 2 ^ 32 + j * ?es) mod m_nSize q = (m_nOut q + ?es + j * ?es) mod m_nSize q"
      using mod_mod_cancel [OF d(3), of "m_nOut q + ?es"] by (metis mod_add_left_eq)
    then have "(add32 (m_nOut q) ?es + j * ?es) mod m_nSize q = (m_nOut q + Suc j * ?es) mod m_nSize q"
      by (simp add: add32_def ac_simps)
    then show ?thesis by (simp add: slot_def q'_def pop_publish_def)
  qed
  have "[0..<Suc s] = 0 # map Suc [0..<s]" by (simp add: map_Suc_upt upt_conv_Cons del: upt_Suc)
  then have "spsc_elems q = slot q (m_nOut q) # map (\<lambda>j. slot q (m_nOut q + Suc j * ?es)) [0..<s]"
    by (simp only: spsc_elems_def e) (simp add: comp_def)
  moreover have "spsc_elems q' = map (\<lambda>j. slot q (m_nOut q + Suc j * ?es)) [0..<s]"
    unfolding spsc_elems_def size slot [symmetric] by (simp add: q'_def pop_publish_def)
  ultimately show "spsc_elems q = slot q (m_nOut q) # spsc_elems q'" by simp
qed

lemma push_copy_elems:
  assumes ok: "spsc_ok q" and room: "sub32 (m_nIn q) (m_nOut q) < m_nSize q" and len: "length b = m_ElementSize q"
  obtains a where "push_copy b (m_ElementSize q) q = Inr (q\<lparr>m_pBuffer := a\<rparr>)" "spsc_ok (q\<lparr>m_pBuffer := a\<rparr>)"
    "spsc_elems (q\<lparr>m_pBuffer := a\<rparr>) = spsc_elems q" "slot (q\<lparr>m_pBuffer := a\<rparr>) (m_nIn q) = b"
proof -
  let ?es = "m_ElementSize q"
  note d = spsc_D [OF ok]
  obtain q' where q': "push_copy b ?es q = Inr q'" "spsc_ok q'" "q' = q\<lparr>m_pBuffer := m_pBuffer q'\<rparr>"
    "slot q' (m_nIn q) = b"
    "\<And>i. ?es dvd i \<Longrightarrow> i mod m_nSize q \<noteq> m_nIn q mod m_nSize q \<Longrightarrow> slot q' i = slot q i"
    by (rule push_copy_ok [OF ok len]) blast
  have out: "?es dvd m_nOut q" using ok by (simp add: spsc_ok_def)
  have "slot q' (m_nOut q + j * ?es) = slot q (m_nOut q + j * ?es)" if "j < spsc_Size q" for j
  proof (rule q'(5))
    have lt: "j * ?es < sub32 (m_nIn q) (m_nOut q)" using that d(4,8) by simp
    show "(m_nOut q + j * ?es) mod m_nSize q \<noteq> m_nIn q mod m_nSize q"
      unfolding d(9) using mod_inj [of "j * ?es" "m_nSize q" "sub32 (m_nIn q) (m_nOut q)" "m_nOut q"] lt room by simp
  qed (use out in simp)
  moreover have "m_nOut q' = m_nOut q" "m_ElementSize q' = ?es" "spsc_Size q' = spsc_Size q"
    using arg_cong [OF q'(3), of m_nOut] arg_cong [OF q'(3), of m_ElementSize] arg_cong [OF q'(3), of spsc_Size]
    by (simp_all add: spsc_Size_def)
  ultimately have "spsc_elems q' = spsc_elems q" by (simp add: spsc_elems_def)
  then show thesis using that [of "m_pBuffer q'"] q'(1,2,4) q'(3) by simp
qed

section \<open>The loops\<close>

lemma PushTail_room:
  assumes ok: "spsc_ok q" and room: "sub32 (m_nIn q) (m_nOut q) < m_nSize q" and len: "length b = m_ElementSize q"
  shows "\<exists>q'. spsc_PushTail (Suc (Suc fuel)) b q = Inr q' \<and> spsc_ok q' \<and> spsc_elems q' = spsc_elems q @ [b]
     \<and> m_nSize q' = m_nSize q \<and> m_ElementSize q' = m_ElementSize q"
proof -
  obtain a where a: "push_copy b (m_ElementSize q) q = Inr (q\<lparr>m_pBuffer := a\<rparr>)" "spsc_ok (q\<lparr>m_pBuffer := a\<rparr>)"
    "spsc_elems (q\<lparr>m_pBuffer := a\<rparr>) = spsc_elems q" "slot (q\<lparr>m_pBuffer := a\<rparr>) (m_nIn q) = b"
    by (rule push_copy_elems [OF ok room len]) blast
  let ?q = "push_publish (m_ElementSize q) (q\<lparr>m_pBuffer := a\<rparr>)"
  have p: "spsc_ok ?q" "spsc_elems ?q = spsc_elems q @ [b]"
    using push_publish_ok [OF a(2)] room a(3,4) by simp_all
  have "spsc_PushTail (Suc (Suc fuel)) b q = Inr ?q"
    using push_sample_ok [OF ok refl] room spsc_D(4) [OF ok] a(1)
    by (simp add: spsc_PushTail_def Let_def) (simp add: push_publish_def)
  then show ?thesis using p by (simp add: push_publish_def)
qed

lemma PopHead_some:
  assumes ok: "spsc_ok q" and e: "spsc_elems q = x # xs" and len: "length dst = m_ElementSize q"
  shows "\<exists>q'. spsc_PopHead (Suc (Suc fuel)) dst q = Inr (x, q') \<and> spsc_ok q' \<and> spsc_elems q' = xs
     \<and> m_nSize q' = m_nSize q \<and> m_ElementSize q' = m_ElementSize q"
proof -
  have s: "spsc_Size q = Suc (length xs)" using arg_cong [OF e, of length] by simp
  let ?q = "pop_publish (m_ElementSize q) q"
  note p = pop_publish_ok [OF ok s]
  have x: "slot q (m_nOut q) = x" "spsc_elems ?q = xs" using p(3) e by simp_all
  have "spsc_PopHead (Suc (Suc fuel)) dst q = Inr (x, ?q)"
    using pop_sample_ok [OF ok refl] s spsc_D(4) [OF ok] pop_copy_ok [OF ok len] x
    by (simp add: spsc_PopHead_def Let_def) (simp add: pop_publish_def)
  then show ?thesis using p x by (simp add: pop_publish_def)
qed

text \<open>A push on a full queue and a pop on an empty one wait for the other thread.\<close>

lemma PushTail_full_waits:
  assumes ok: "spsc_ok q" and full: "sub32 (m_nIn q) (m_nOut q) = m_nSize q"
  shows "spsc_PushTail fuel b q = Inl OutOfFuel"
proof -
  have "push_loop fuel b 0 q = Inl OutOfFuel"
  proof (induction fuel)
    case (Suc fuel)
    then show ?case using push_sample_ok [OF ok refl] full spsc_D(4) [OF ok] push_copy_0 publish_0 [OF ok]
      by (simp add: Let_def)
  qed simp
  then show ?thesis by (simp add: spsc_PushTail_def)
qed

lemma PopHead_empty_waits:
  assumes ok: "spsc_ok q" and empty: "spsc_elems q = []"
  shows "spsc_PopHead fuel dst q = Inl OutOfFuel"
proof -
  have s: "spsc_Size q = 0" using arg_cong [OF empty, of length] by simp
  have "pop_loop fuel dst 0 q = Inl OutOfFuel"
  proof (induction fuel)
    case (Suc fuel)
    then show ?case using pop_sample_ok [OF ok refl] s spsc_D(4) [OF ok] pop_copy_0 publish_0 [OF ok]
      by (simp add: Let_def)
  qed simp
  then show ?thesis by (simp add: spsc_PopHead_def)
qed

section \<open>The queue of pointers\<close>

text \<open>The engine's queues hold pointers, eight bytes each; two rounds end both loops.\<close>

definition push_pointer :: "u64 \<Rightarrow> spsc \<Rightarrow> spsc res" where
  "push_pointer p q = spsc_PushTail 2 (mem_bytes False p) q"

definition pop_pointer :: "spsc \<Rightarrow> (u64 option \<times> spsc) res" where
  "pop_pointer q = rbind (spsc_PopHead 2 (replicate 8 0) q) (\<lambda>(b, q'). Inr (Some (mem_word False b), q'))"

definition pointer_elems :: "spsc \<Rightarrow> u64 list" where
  "pointer_elems q = map (mem_word False) (spsc_elems q)"

definition pointer_room :: "spsc \<Rightarrow> nat \<Rightarrow> bool" where
  "pointer_room q n \<longleftrightarrow> spsc_ok q \<and> m_ElementSize q = 8 \<and> (spsc_Size q + n) * 8 \<le> m_nSize q"

lemma pointer_bytes [simp]: "mem_word False (mem_bytes False p) = (p :: u64)"
  by (simp add: mem_word_def mem_bytes_def le_word_le_bytes bytes_of_type_def)

interpretation pointer_fifo: fifo_core push_pointer pop_pointer spsc_Size pointer_elems pointer_room
proof unfold_locales
  fix q n and x :: u64
  assume room: "pointer_room q (Suc n)"
  then have ok: "spsc_ok q" "m_ElementSize q = 8" by (simp_all add: pointer_room_def)
  have b: "length (mem_bytes False x :: u8 list) = m_ElementSize q" using ok(2) by (simp add: bytes_of_type_def)
  have "sub32 (m_nIn q) (m_nOut q) < m_nSize q"
    using room spsc_D(8) [OF ok(1)] ok(2) by (simp add: pointer_room_def)
  from PushTail_room [OF ok(1) this b, of 0]
  obtain q' where q': "spsc_PushTail 2 (mem_bytes False x) q = Inr q'" "spsc_ok q'"
    "spsc_elems q' = spsc_elems q @ [mem_bytes False x]" "m_nSize q' = m_nSize q" "m_ElementSize q' = 8"
    using ok(2) by (auto simp: numeral_2_eq_2)
  have "spsc_Size q' = Suc (spsc_Size q)" using arg_cong [OF q'(3), of length] by simp
  then show "\<exists>q'. push_pointer x q = Inr q' \<and> pointer_room q' n \<and> pointer_elems q' = pointer_elems q @ [x]"
    using q' room by (auto simp: push_pointer_def pointer_room_def pointer_elems_def pointer_bytes)
next
  fix q n x xs
  assume room: "pointer_room q n" and e: "pointer_elems q = x # xs"
  then have ok: "spsc_ok q" "m_ElementSize q = 8" by (simp_all add: pointer_room_def)
  obtain y ys where y: "spsc_elems q = y # ys" "x = mem_word False y" "xs = map (mem_word False) ys"
    using e by (auto simp: pointer_elems_def)
  from PopHead_some [OF ok(1) y(1), of "replicate 8 0" 0]
  obtain q' where q': "spsc_PopHead 2 (replicate 8 0) q = Inr (y, q')" "spsc_ok q'" "spsc_elems q' = ys"
    "m_nSize q' = m_nSize q" "m_ElementSize q' = 8"
    using ok(2) by (auto simp: numeral_2_eq_2)
  moreover have "spsc_Size q = Suc (spsc_Size q')"
    using arg_cong [OF q'(3), of length] arg_cong [OF y(1), of length] by simp
  ultimately show "\<exists>q'. pop_pointer q = Inr (Some x, q') \<and> pointer_room q' n \<and> pointer_elems q' = xs"
    using room y by (auto simp: pop_pointer_def pointer_room_def pointer_elems_def)
qed (simp add: pointer_elems_def)

text \<open>The size of the buffer never changes.\<close>

lemma push_loop_size: "push_loop fuel b m q = Inr q' \<Longrightarrow> m_nSize q' = m_nSize q"
proof (induction fuel arbitrary: m q)
  case (Suc fuel)
  show ?case
  proof (cases "m < m_ElementSize q")
    case True
    then obtain q1 where q1: "push_copy b (push_sample m q) q = Inr q1"
      "push_loop fuel b (push_sample m q) (push_publish (push_sample m q) q1) = Inr q'"
      using Suc.prems by (auto simp: Let_def rbind_eq_Inr)
    have "m_nSize q1 = m_nSize q" using q1(1) by (auto simp: push_copy_def Let_def rbind_eq_Inr)
    then show ?thesis using Suc.IH [OF q1(2)] by (simp add: push_publish_def)
  qed (use Suc.prems in simp)
qed simp

lemma push_list_size: "push_list push_pointer ps q = Inr q' \<Longrightarrow> m_nSize q' = m_nSize q"
proof (induction ps arbitrary: q)
  case (Cons p ps)
  then obtain q1 where q1: "push_pointer p q = Inr q1" "push_list push_pointer ps q1 = Inr q'"
    by (auto simp: rbind_eq_Inr)
  then have "m_nSize q1 = m_nSize q"
    using push_loop_size unfolding push_pointer_def spsc_PushTail_def by blast
  then show ?case using Cons.IH [OF q1(2)] by simp
qed simp

section \<open>Two threads\<close>

text \<open>
  Where the producer and the consumer are in their loops: outside, at the head, after the sample,
  after the copy. \<open>pushed\<close> lists the elements \<open>PushTail\<close> has been called with, \<open>popped\<close> those \<open>PopHead\<close>
  has returned.
\<close>

datatype side = Idle | At_Head "8 word list" nat | Sampled "8 word list" nat | Copied "8 word list" nat

record threads =
  shared :: spsc
  producer :: side
  consumer :: side
  pushed :: "8 word list list"
  popped :: "8 word list list"

inductive thread_step :: "threads \<Rightarrow> threads \<Rightarrow> bool" where
  push_call: "producer t = Idle \<Longrightarrow> length b = m_ElementSize (shared t) \<Longrightarrow>
     thread_step t (t\<lparr>producer := At_Head b 0, pushed := pushed t @ [b]\<rparr>)"
| push_return: "producer t = At_Head b m \<Longrightarrow> \<not> m < m_ElementSize (shared t) \<Longrightarrow>
     thread_step t (t\<lparr>producer := Idle\<rparr>)"
| push_sample_step: "producer t = At_Head b m \<Longrightarrow> m < m_ElementSize (shared t) \<Longrightarrow>
     thread_step t (t\<lparr>producer := Sampled b (push_sample m (shared t))\<rparr>)"
| push_copy_step: "producer t = Sampled b m \<Longrightarrow> push_copy b m (shared t) = Inr q \<Longrightarrow>
     thread_step t (t\<lparr>shared := q, producer := Copied b m\<rparr>)"
| push_publish_step: "producer t = Copied b m \<Longrightarrow>
     thread_step t (t\<lparr>shared := push_publish m (shared t), producer := At_Head b m\<rparr>)"
| pop_call: "consumer t = Idle \<Longrightarrow> length b = m_ElementSize (shared t) \<Longrightarrow>
     thread_step t (t\<lparr>consumer := At_Head b 0\<rparr>)"
| pop_return: "consumer t = At_Head b m \<Longrightarrow> \<not> m < m_ElementSize (shared t) \<Longrightarrow>
     thread_step t (t\<lparr>consumer := Idle, popped := popped t @ [b]\<rparr>)"
| pop_sample_step: "consumer t = At_Head b m \<Longrightarrow> m < m_ElementSize (shared t) \<Longrightarrow>
     thread_step t (t\<lparr>consumer := Sampled b (pop_sample m (shared t))\<rparr>)"
| pop_copy_step: "consumer t = Sampled b m \<Longrightarrow> pop_copy b m (shared t) = Inr b' \<Longrightarrow>
     thread_step t (t\<lparr>consumer := Copied b' m\<rparr>)"
| pop_publish_step: "consumer t = Copied b m \<Longrightarrow>
     thread_step t (t\<lparr>shared := pop_publish m (shared t), consumer := At_Head b m\<rparr>)"

text \<open>What a thread holds: the element not yet published, the element not yet returned.\<close>

fun in_producer :: "nat \<Rightarrow> side \<Rightarrow> 8 word list list" where
  "in_producer es Idle = []"
| "in_producer es (At_Head b m) = (if m < es then [b] else [])"
| "in_producer es (Sampled b m) = [b]"
| "in_producer es (Copied b m) = [b]"

fun in_consumer :: "nat \<Rightarrow> side \<Rightarrow> 8 word list list" where
  "in_consumer es (At_Head b m) = (if m < es then [] else [b])"
| "in_consumer es _ = []"

text \<open>What a thread may rely on at each of its points, whatever the other thread does.\<close>

fun producer_ok :: "spsc \<Rightarrow> side \<Rightarrow> bool" where
  "producer_ok q Idle = True"
| "producer_ok q (At_Head b m) = (length b = m_ElementSize q \<and> (m = 0 \<or> m = m_ElementSize q))"
| "producer_ok q (Sampled b m) = (length b = m_ElementSize q \<and>
     (m = 0 \<or> m = m_ElementSize q \<and> sub32 (m_nIn q) (m_nOut q) < m_nSize q))"
| "producer_ok q (Copied b m) = (length b = m_ElementSize q \<and>
     (m = 0 \<or> m = m_ElementSize q \<and> sub32 (m_nIn q) (m_nOut q) < m_nSize q \<and> slot q (m_nIn q) = b))"

fun consumer_ok :: "spsc \<Rightarrow> side \<Rightarrow> bool" where
  "consumer_ok q Idle = True"
| "consumer_ok q (At_Head b m) = (length b = m_ElementSize q \<and> (m = 0 \<or> m = m_ElementSize q))"
| "consumer_ok q (Sampled b m) = (length b = m_ElementSize q \<and> (m = 0 \<or> m = m_ElementSize q \<and> spsc_Size q \<noteq> 0))"
| "consumer_ok q (Copied b m) = (length b = m_ElementSize q \<and>
     (m = 0 \<or> m = m_ElementSize q \<and> spsc_elems q \<noteq> [] \<and> b = hd (spsc_elems q)))"

definition threads_ok :: "threads \<Rightarrow> bool" where
  "threads_ok t \<longleftrightarrow> spsc_ok (shared t) \<and> producer_ok (shared t) (producer t) \<and> consumer_ok (shared t) (consumer t)
     \<and> pushed t = popped t @ in_consumer (m_ElementSize (shared t)) (consumer t) @ spsc_elems (shared t)
                  @ in_producer (m_ElementSize (shared t)) (producer t)"

definition threads_init :: "spsc \<Rightarrow> threads" where
  "threads_init q = \<lparr>shared = spsc_Clear q, producer = Idle, consumer = Idle, pushed = [], popped = []\<rparr>"

lemma threads_init_ok: "spsc_ok q \<Longrightarrow> threads_ok (threads_init q)"
  by (auto simp: threads_ok_def threads_init_def spsc_Clear_def spsc_ok_def spsc_elems_def spsc_Size_def sub32_def)

lemma consumer_ok_stays:
  assumes "consumer_ok q c" "m_ElementSize q' = m_ElementSize q" "\<exists>ys. spsc_elems q' = spsc_elems q @ ys"
  shows "consumer_ok q' c"
proof -
  obtain ys where ys: "spsc_elems q' = spsc_elems q @ ys" using assms(3) by blast
  have "spsc_Size q \<noteq> 0 \<Longrightarrow> spsc_Size q' \<noteq> 0" using arg_cong [OF ys, of length] by simp
  then show ?thesis using assms(1,2) ys by (cases c) auto
qed

lemma producer_ok_stays:
  assumes "producer_ok q p" "m_ElementSize q' = m_ElementSize q" "m_nSize q' = m_nSize q"
    "sub32 (m_nIn q') (m_nOut q') \<le> sub32 (m_nIn q) (m_nOut q)" "m_nIn q' = m_nIn q" "m_pBuffer q' = m_pBuffer q"
  shows "producer_ok q' p"
  using assms by (cases p) (auto simp: slot_def)

lemma threads_okD:
  assumes "threads_ok t"
  shows "spsc_ok (shared t)" "producer_ok (shared t) (producer t)" "consumer_ok (shared t) (consumer t)"
    "pushed t = popped t @ in_consumer (m_ElementSize (shared t)) (consumer t) @ spsc_elems (shared t)
                  @ in_producer (m_ElementSize (shared t)) (producer t)"
    "0 < m_ElementSize (shared t)"
  using assms by (simp_all add: threads_ok_def spsc_ok_def)

text \<open>The producer's steps.\<close>

lemma push_copy_step_ok:
  assumes ok: "threads_ok t" and p: "producer t = Sampled b m" and c: "push_copy b m (shared t) = Inr q"
  shows "threads_ok (t\<lparr>shared := q, producer := Copied b m\<rparr>)"
proof (cases "m = 0")
  case True
  then show ?thesis using ok p c push_copy_0 by (auto simp: threads_ok_def)
next
  case False
  let ?q = "shared t"
  have q: "spsc_ok ?q" "length b = m_ElementSize ?q" "m = m_ElementSize ?q" "sub32 (m_nIn ?q) (m_nOut ?q) < m_nSize ?q"
    using ok p False by (simp_all add: threads_ok_def)
  obtain a where a: "push_copy b m ?q = Inr (?q\<lparr>m_pBuffer := a\<rparr>)" "spsc_ok (?q\<lparr>m_pBuffer := a\<rparr>)"
    "spsc_elems (?q\<lparr>m_pBuffer := a\<rparr>) = spsc_elems ?q" "slot (?q\<lparr>m_pBuffer := a\<rparr>) (m_nIn ?q) = b"
    unfolding q(3) by (rule push_copy_elems [OF q(1,4,2)]) blast
  have qa: "q = ?q\<lparr>m_pBuffer := a\<rparr>" using a(1) c by simp
  have "consumer_ok q (consumer t)"
    by (rule consumer_ok_stays [OF threads_okD(3) [OF ok]]) (use a(3) in \<open>simp_all add: qa\<close>)
  moreover have "producer_ok q (Copied b m)" using q(2,4) a(4) q(3) by (simp add: qa)
  moreover have "pushed t = popped t @ in_consumer (m_ElementSize q) (consumer t) @ spsc_elems q @ [b]"
    using threads_okD(4) [OF ok] p a(3) by (simp add: qa)
  moreover have "spsc_ok q" using a(2) by (simp add: qa)
  ultimately show ?thesis by (simp add: threads_ok_def)
qed

lemma push_publish_step_ok:
  assumes ok: "threads_ok t" and p: "producer t = Copied b m"
  shows "threads_ok (t\<lparr>shared := push_publish m (shared t), producer := At_Head b m\<rparr>)"
proof (cases "m = 0")
  case True
  then have "push_publish m (shared t) = shared t" using publish_0(1) threads_okD(1) [OF ok] by simp
  moreover have "length b = m_ElementSize (shared t)" using threads_okD(2) [OF ok] p by simp
  ultimately show ?thesis using threads_okD [OF ok] p True by (simp add: threads_ok_def)
next
  case False
  let ?q = "shared t"
  have q: "spsc_ok ?q" "length b = m_ElementSize ?q" "m = m_ElementSize ?q"
    "sub32 (m_nIn ?q) (m_nOut ?q) < m_nSize ?q" "slot ?q (m_nIn ?q) = b"
    using ok p False by (simp_all add: threads_ok_def)
  note pub = push_publish_ok [OF q(1,4)]
  have es: "m_ElementSize (push_publish m ?q) = m_ElementSize ?q" by (simp add: push_publish_def)
  have elems: "spsc_elems (push_publish m ?q) = spsc_elems ?q @ [b]" using pub(3) q(5) by (simp add: q(3))
  have "consumer_ok (push_publish m ?q) (consumer t)"
    by (rule consumer_ok_stays [OF threads_okD(3) [OF ok] es]) (simp add: elems)
  moreover have "producer_ok (push_publish m ?q) (At_Head b m)" using q(2) es by (simp add: q(3))
  moreover have "pushed t = popped t @ in_consumer (m_ElementSize ?q) (consumer t) @ spsc_elems (push_publish m ?q)"
    using threads_okD(4) [OF ok] p elems by simp
  moreover have "spsc_ok (push_publish m ?q)" using pub(1) by (simp add: q(3))
  ultimately show ?thesis using es by (simp add: threads_ok_def q(3))
qed

text \<open>The consumer's steps.\<close>

lemma pop_copy_step_ok:
  assumes ok: "threads_ok t" and c: "consumer t = Sampled b m" "pop_copy b m (shared t) = Inr b'"
  shows "threads_ok (t\<lparr>consumer := Copied b' m\<rparr>)"
proof (cases "m = 0")
  case True
  then show ?thesis using ok c pop_copy_0 by (auto simp: threads_ok_def)
next
  case False
  let ?q = "shared t"
  have q: "spsc_ok ?q" "length b = m_ElementSize ?q" "m = m_ElementSize ?q" "spsc_Size ?q \<noteq> 0"
    using ok c False by (simp_all add: threads_ok_def)
  obtain s where s: "spsc_Size ?q = Suc s" using q(4) by (cases "spsc_Size ?q") auto
  have "b' = slot ?q (m_nOut ?q)" using pop_copy_ok [OF q(1,2)] c(2) q(3) by simp
  moreover have "m_ElementSize ?q dvd m_nOut ?q" using q(1) by (simp add: spsc_ok_def)
  ultimately have "b' = hd (spsc_elems ?q)" "spsc_elems ?q \<noteq> []" "length b' = m_ElementSize ?q"
    using pop_publish_ok(3) [OF q(1) s] q(1) by simp_all
  then show ?thesis using ok c q by (simp add: threads_ok_def)
qed

lemma pop_publish_step_ok:
  assumes ok: "threads_ok t" and c: "consumer t = Copied b m"
  shows "threads_ok (t\<lparr>shared := pop_publish m (shared t), consumer := At_Head b m\<rparr>)"
proof (cases "m = 0")
  case True
  then have "pop_publish m (shared t) = shared t" using publish_0(2) threads_okD(1) [OF ok] by simp
  moreover have "length b = m_ElementSize (shared t)" using threads_okD(3) [OF ok] c by simp
  ultimately show ?thesis using threads_okD(1,2,4,5) [OF ok] c True by (simp add: threads_ok_def)
next
  case False
  let ?q = "shared t" let ?p = "pop_publish m (shared t)"
  have q: "spsc_ok ?q" "length b = m_ElementSize ?q" "m = m_ElementSize ?q" "spsc_elems ?q \<noteq> []" "b = hd (spsc_elems ?q)"
    using threads_okD(1,3) [OF ok] False unfolding c consumer_ok.simps by blast+
  obtain s where s: "spsc_Size ?q = Suc s" using q(4) by (cases "spsc_Size ?q") (auto simp: spsc_elems_def)
  note pub = pop_publish_ok [OF q(1) s]
  have e: "spsc_elems ?q = b # spsc_elems ?p" using pub(3) arg_cong [OF pub(3), of hd] q(5) by (simp add: q(3))
  have same: "m_ElementSize ?p = m_ElementSize ?q" "m_nSize ?p = m_nSize ?q" "m_nIn ?p = m_nIn ?q" "m_pBuffer ?p = m_pBuffer ?q"
    by (simp_all add: pop_publish_def)
  have okp: "spsc_ok ?p" "spsc_Size ?p = s" using pub(1,2) by (simp_all add: q(3))
  have "sub32 (m_nIn ?p) (m_nOut ?p) \<le> sub32 (m_nIn ?q) (m_nOut ?q)"
    unfolding spsc_D(8) [OF q(1)] spsc_D(8) [OF okp(1)] okp(2) s same(1) by simp
  then have "producer_ok ?p (producer t)"
    by (intro producer_ok_stays [OF threads_okD(2) [OF ok]]) (rule same | assumption)+
  moreover have "consumer_ok ?p (At_Head b m)" using q(2) same(1) by (simp add: q(3))
  moreover have "pushed t = popped t @ b # spsc_elems ?p @ in_producer (m_ElementSize ?q) (producer t)"
    using threads_okD(4) [OF ok] c e by simp
  ultimately show ?thesis using okp(1) same(1) by (simp add: threads_ok_def q(3))
qed

lemma thread_step_ok: "thread_step t t' \<Longrightarrow> threads_ok t \<Longrightarrow> threads_ok t'"
proof (induction rule: thread_step.induct)
  case (push_call t b)
  then show ?case by (auto simp: threads_ok_def spsc_ok_def)
next
  case (push_return t b m)
  then show ?case by (auto simp: threads_ok_def)
next
  case (push_sample_step t b m)
  then show ?case using push_sample_ok [of "shared t" m] by (auto simp: threads_ok_def)
next
  case (pop_call t b)
  then show ?case by (auto simp: threads_ok_def spsc_ok_def)
next
  case (pop_return t b m)
  then show ?case by (auto simp: threads_ok_def)
next
  case (pop_sample_step t b m)
  then show ?case using pop_sample_ok [of "shared t" m] by (auto simp: threads_ok_def)
qed (simp_all add: push_copy_step_ok push_publish_step_ok pop_copy_step_ok pop_publish_step_ok)

lemma threads_reachable_ok:
  assumes "spsc_ok q" "thread_step\<^sup>*\<^sup>* (threads_init q) t"
  shows "threads_ok t"
  using assms(2) by (induction rule: rtranclp_induct) (auto simp: threads_init_ok [OF assms(1)] thread_step_ok)

text \<open>No copy of a reachable state leaves its array, so every thread can always go on.\<close>

lemma copies_stay_inside:
  assumes ok: "threads_ok t"
  shows "producer t = Sampled b m \<Longrightarrow> \<exists>q. push_copy b m (shared t) = Inr q"
    and "consumer t = Sampled b m \<Longrightarrow> \<exists>b'. pop_copy b m (shared t) = Inr b'"
proof -
  have q: "spsc_ok (shared t)" using ok by (simp add: threads_ok_def)
  show "\<exists>q. push_copy b m (shared t) = Inr q" if "producer t = Sampled b m"
  proof (cases "m = 0")
    case False
    then have "length b = m_ElementSize (shared t)" "m = m_ElementSize (shared t)"
      using ok that by (simp_all add: threads_ok_def)
    then show ?thesis using push_copy_ok [OF q, of b] by metis
  qed (simp add: push_copy_0)
  show "\<exists>b'. pop_copy b m (shared t) = Inr b'" if "consumer t = Sampled b m"
  proof (cases "m = 0")
    case False
    then have "length b = m_ElementSize (shared t)" "m = m_ElementSize (shared t)"
      using ok that by (simp_all add: threads_ok_def)
    then show ?thesis using pop_copy_ok [OF q, of b] by simp
  qed (simp add: pop_copy_0)
qed

end
