(* ===== verification/Memory_Pool.thy ===== *)
theory Memory_Pool
  imports Geco_Prelude
begin

text \<open>
  \<^verbatim>\<open>JackieMemoryPool\<close> of \<^verbatim>\<open>include/JackieMemoryPool.h\<close>. The pages are objects of an explicit store:
  a pointer to a page is its number, a pointer to a cell is the page (the \<^verbatim>\<open>parentPage\<close> the code
  keeps in the cell) and the place in it. The two lists of pages are circular and doubly linked
  through \<^verbatim>\<open>next\<close> and \<^verbatim>\<open>prev\<close>, as in the code. \<open>dereference\<close> of a page that has been freed is a fault.
  Allocation of pages is taken to succeed.
\<close>

section \<open>State\<close>

type_synonym cell = "nat \<times> nat"

record page =
  freeCells :: "cell list"
  freeCellsSize :: nat
  page_next :: nat
  page_prev :: nat

record pool =
  pages :: "nat \<rightharpoonup> page"
  fresh_page :: nat
  usablePage :: nat
  unUsablePage :: nat
  mUsablePagesSize :: nat
  mUnUsablePagesSize :: nat
  mCellSizePerPage :: nat

definition pool_new :: "nat \<Rightarrow> pool" where
  "pool_new CELLS_SIZE_PER_PAGE =
     \<lparr>pages = Map.empty, fresh_page = 1, usablePage = 0, unUsablePage = 0, mUsablePagesSize = 0,
      mUnUsablePagesSize = 0, mCellSizePerPage = CELLS_SIZE_PER_PAGE\<rparr>"

definition dereference :: "nat \<Rightarrow> pool \<Rightarrow> page res" where
  "dereference p s = (case pages s p of None \<Rightarrow> Inl OutOfBounds | Some pg \<Rightarrow> Inr pg)"

definition assign :: "nat \<Rightarrow> (page \<Rightarrow> page) \<Rightarrow> pool \<Rightarrow> pool res" where
  "assign p f s = rbind (dereference p s) (\<lambda>pg. Inr (s\<lparr>pages := (pages s)(p \<mapsto> f pg)\<rparr>))"

section \<open>Operations\<close>

definition InitPage :: "nat \<Rightarrow> nat \<Rightarrow> pool \<Rightarrow> pool" where
  "InitPage page prev s =
     s\<lparr>pages := (pages s)(page \<mapsto>
         \<lparr>freeCells = map (\<lambda>i. (page, i)) [0..<mCellSizePerPage s], freeCellsSize = mCellSizePerPage s,
          page_next = usablePage s, page_prev = prev\<rparr>)\<rparr>"

text \<open>\<^verbatim>\<open>p->next->prev = p->prev; p->prev->next = p->next;\<close> in the order of \<open>Allocate\<close>.\<close>

definition unlink :: "nat \<Rightarrow> pool \<Rightarrow> pool res" where
  "unlink p s =
     rbind (dereference p s) (\<lambda>pg.
     rbind (assign (page_next pg) (\<lambda>n. n\<lparr>page_prev := page_prev pg\<rparr>) s) (\<lambda>s1.
     rbind (dereference p s1) (\<lambda>pg1.
       assign (page_prev pg1) (\<lambda>n. n\<lparr>page_next := page_next pg1\<rparr>) s1)))"

text \<open>\<^verbatim>\<open>p->next = p; p->prev = p;\<close>, the list of one page.\<close>

definition link_alone :: "nat \<Rightarrow> pool \<Rightarrow> pool res" where
  "link_alone p s =
     rbind (assign p (\<lambda>n. n\<lparr>page_next := p\<rparr>) s) (assign p (\<lambda>n. n\<lparr>page_prev := p\<rparr>))"

text \<open>
  \<^verbatim>\<open>p->next = h; p->prev = h->prev; h->prev->next = p; h->prev = p;\<close>
\<close>

definition link_before :: "nat \<Rightarrow> nat \<Rightarrow> pool \<Rightarrow> pool res" where
  "link_before p h s =
     rbind (assign p (\<lambda>n. n\<lparr>page_next := h\<rparr>) s) (\<lambda>s1.
     rbind (dereference h s1) (\<lambda>pg1.
     rbind (assign p (\<lambda>n. n\<lparr>page_prev := page_prev pg1\<rparr>) s1) (\<lambda>s2.
     rbind (dereference h s2) (\<lambda>pg2.
     rbind (assign (page_prev pg2) (\<lambda>n. n\<lparr>page_next := p\<rparr>) s2)
       (assign h (\<lambda>n. n\<lparr>page_prev := p\<rparr>))))))"

definition usable_has_cells :: "pool \<Rightarrow> unit res" where
  "usable_has_cells s =
     (if mUsablePagesSize s = 0 then Inr ()
      else rbind (dereference (usablePage s) s) (\<lambda>pg. rassert (freeCellsSize pg > 0)))"

text \<open>\<^verbatim>\<open>freeCells[--freeCellsSize]\<close> of page \<open>p\<close>.\<close>

definition take_cell :: "nat \<Rightarrow> pool \<Rightarrow> (cell \<times> pool) res" where
  "take_cell p s =
     rbind (dereference p s) (\<lambda>pg.
       if freeCellsSize pg = 0 then Inl OutOfBounds
       else
         rbind (get_at (freeCells pg) (freeCellsSize pg - 1)) (\<lambda>c.
         rbind (assign p (\<lambda>n. n\<lparr>freeCellsSize := freeCellsSize pg - 1\<rparr>) s) (\<lambda>s1. Inr (c, s1))))"

text \<open>The page becomes unusable: from the first list to the end of the second.\<close>

definition retire_page :: "nat \<Rightarrow> pool \<Rightarrow> pool res" where
  "retire_page currentPage s =
     rbind (dereference currentPage s) (\<lambda>pg.
     let s1 = s\<lparr>mUsablePagesSize := mUsablePagesSize s - 1, usablePage := page_next pg\<rparr>
     in rbind (usable_has_cells s1) (\<lambda>_.
        rbind (unlink currentPage s1) (\<lambda>s2.
        let s3 = s2\<lparr>mUnUsablePagesSize := mUnUsablePagesSize s2 + 1\<rparr>
        in if mUnUsablePagesSize s2 = 0 then link_alone currentPage (s3\<lparr>unUsablePage := currentPage\<rparr>)
           else link_before currentPage (unUsablePage s3) s3)))"

definition Allocate :: "pool \<Rightarrow> (cell \<times> pool) res" where
  "Allocate s =
     (if mUsablePagesSize s > 0 then
        let currentPage = usablePage s
        in rbind (take_cell currentPage s) (\<lambda>(retValue, s1).
           rbind (dereference currentPage s1) (\<lambda>pg.
           rbind (if freeCellsSize pg = 0 then retire_page currentPage s1 else Inr s1) (\<lambda>s2.
           rbind (usable_has_cells s2) (\<lambda>_. Inr (retValue, s2)))))
      else
        let p = fresh_page s;
            s1 = InitPage p p (s\<lparr>fresh_page := p + 1, usablePage := p, mUsablePagesSize := 1\<rparr>)
        in rbind (dereference p s1) (\<lambda>pg.
           rbind (rassert (freeCellsSize pg > 1)) (\<lambda>_. take_cell p s1)))"

text \<open>\<^verbatim>\<open>freeCells[freeCellsSize++] = currCell\<close> of page \<open>p\<close>.\<close>

definition give_cell :: "nat \<Rightarrow> cell \<Rightarrow> pool \<Rightarrow> pool res" where
  "give_cell p c s =
     rbind (dereference p s) (\<lambda>pg.
     rbind (put_at (freeCells pg) (freeCellsSize pg) c) (\<lambda>a.
       assign p (\<lambda>n. n\<lparr>freeCells := a, freeCellsSize := freeCellsSize pg + 1\<rparr>) s))"

text \<open>The page becomes usable again: from the second list to the end of the first.\<close>

definition revive_page :: "nat \<Rightarrow> pool \<Rightarrow> pool res" where
  "revive_page currPage s =
     rbind (unlink currPage s) (\<lambda>s1.
     let s2 = s1\<lparr>mUnUsablePagesSize := mUnUsablePagesSize s1 - 1\<rparr>
     in rbind (if mUnUsablePagesSize s2 > 0 \<and> currPage = unUsablePage s2
               then rbind (dereference (unUsablePage s2) s2) (\<lambda>pg. Inr (s2\<lparr>unUsablePage := page_next pg\<rparr>))
               else Inr s2) (\<lambda>s3.
        let s4 = s3\<lparr>mUsablePagesSize := mUsablePagesSize s3 + 1\<rparr>
        in if mUsablePagesSize s3 = 0 then link_alone currPage (s4\<lparr>usablePage := currPage\<rparr>)
           else link_before currPage (usablePage s4) s4))"

text \<open>A page that is empty again while there are more than \<^verbatim>\<open>MAX_FREE_PAGES\<close> of them is freed.\<close>

definition free_page :: "nat \<Rightarrow> pool \<Rightarrow> pool res" where
  "free_page currPage s =
     rbind (dereference currPage s) (\<lambda>pg.
     rbind (if currPage = usablePage s
            then rbind (dereference (page_next pg) s) (\<lambda>nx.
                 rbind (rassert (freeCellsSize nx > 0)) (\<lambda>_. Inr (s\<lparr>usablePage := page_next pg\<rparr>)))
            else Inr s) (\<lambda>s1.
     rbind (assign (page_prev pg) (\<lambda>n. n\<lparr>page_next := page_next pg\<rparr>) s1) (\<lambda>s2.
     rbind (dereference currPage s2) (\<lambda>pg2.
     rbind (assign (page_next pg2) (\<lambda>n. n\<lparr>page_prev := page_prev pg2\<rparr>) s2) (\<lambda>s3.
       Inr (s3\<lparr>mUsablePagesSize := mUsablePagesSize s3 - 1, pages := (pages s3)(currPage := None)\<rparr>))))))"

definition Reclaim :: "nat \<Rightarrow> cell \<Rightarrow> pool \<Rightarrow> pool res" where
  "Reclaim MAX_FREE_PAGES m s =
     (let currPage = fst m
      in rbind (dereference currPage s) (\<lambda>pg.
         rbind (give_cell currPage m s) (\<lambda>s1.
           if freeCellsSize pg = 0 then revive_page currPage s1
           else
             rbind (dereference currPage s1) (\<lambda>pg1.
               if freeCellsSize pg1 = mCellSizePerPage s1 \<and> mUsablePagesSize s1 > MAX_FREE_PAGES
               then free_page currPage s1 else Inr s1))))"

text \<open>
  The loop of \<^verbatim>\<open>Clear\<close> over one list from page \<open>p\<close> on until it is back at \<open>h\<close>; each page is read
  before it is freed. The number of pages is fuel enough.
\<close>

fun free_loop :: "nat \<Rightarrow> nat \<Rightarrow> nat \<Rightarrow> pool \<Rightarrow> pool res" where
  "free_loop 0 h p s = Inl OutOfFuel"
| "free_loop (Suc fuel) h p s =
     rbind (dereference p s) (\<lambda>pg.
       let s1 = s\<lparr>pages := (pages s)(p := None)\<rparr>
       in if page_next pg = h then Inr s1 else free_loop fuel h (page_next pg) s1)"

definition Pool_Clear :: "pool \<Rightarrow> pool res" where
  "Pool_Clear s =
     rbind (if mUsablePagesSize s > 0
            then rbind (free_loop (mUsablePagesSize s) (usablePage s) (usablePage s) s) (\<lambda>s1.
                   Inr (s1\<lparr>mUsablePagesSize := 0\<rparr>))
            else Inr s) (\<lambda>s1.
       if mUnUsablePagesSize s1 > 0
       then rbind (free_loop (mUnUsablePagesSize s1) (unUsablePage s1) (unUsablePage s1) s1) (\<lambda>s2.
              Inr (s2\<lparr>mUnUsablePagesSize := 0\<rparr>))
       else Inr s1)"

section \<open>Circular lists\<close>

fun links :: "(nat \<Rightarrow> nat) \<Rightarrow> (nat \<Rightarrow> nat) \<Rightarrow> nat list \<Rightarrow> bool" where
  "links N P (a # b # r) = (N a = b \<and> P b = a \<and> links N P (b # r))"
| "links N P _ = True"

definition ring :: "(nat \<Rightarrow> nat) \<Rightarrow> (nat \<Rightarrow> nat) \<Rightarrow> nat list \<Rightarrow> bool" where
  "ring N P xs = (case xs of [] \<Rightarrow> True | x # ys \<Rightarrow> links N P (x # ys @ [x]))"

lemma ring_Nil [simp]: "ring N P []"
  by (simp add: ring_def)

lemma links_append: "links N P (as @ m # bs) \<longleftrightarrow> links N P (as @ [m]) \<and> links N P (m # bs)"
proof (induction as)
  case (Cons a as)
  then show ?case by (cases as) auto
qed simp

lemma links_cong:
  "(\<And>x. x \<in> set (butlast xs) \<Longrightarrow> N x = N' x) \<Longrightarrow> (\<And>x. x \<in> set (tl xs) \<Longrightarrow> P x = P' x) \<Longrightarrow>
   links N P xs \<longleftrightarrow> links N' P' xs"
proof (induction N P xs rule: links.induct)
  case (1 N P a b r)
  have "links N P (b # r) \<longleftrightarrow> links N' P' (b # r)"
    by (rule 1(1)) (use 1(2,3) in \<open>cases r; auto\<close>)+
  then show ?case using 1(2) [of a] 1(3) [of b] by simp
qed simp_all

lemma ring_cong:
  assumes "\<And>x. x \<in> set xs \<Longrightarrow> N x = N' x" "\<And>x. x \<in> set xs \<Longrightarrow> P x = P' x"
  shows "ring N P xs \<longleftrightarrow> ring N' P' xs"
proof (cases xs)
  case (Cons x ys)
  have "links N P (x # ys @ [x]) \<longleftrightarrow> links N' P' (x # ys @ [x])"
    by (rule links_cong) (use assms Cons in \<open>auto simp: butlast_append\<close>)
  then show ?thesis by (simp add: ring_def Cons)
qed simp

lemma ring_rotate: "ring N P (xs @ ys) \<longleftrightarrow> ring N P (ys @ xs)"
proof (cases xs; cases ys)
  fix x xs' y ys' assume xy: "xs = x # xs'" "ys = y # ys'"
  have "links N P ((x # xs') @ y # ys' @ [x]) \<longleftrightarrow> links N P ((x # xs') @ [y]) \<and> links N P (y # ys' @ [x])"
    by (rule links_append)
  moreover have "links N P ((y # ys') @ x # xs' @ [y]) \<longleftrightarrow> links N P ((y # ys') @ [x]) \<and> links N P (x # xs' @ [y])"
    by (rule links_append)
  ultimately show ?thesis by (auto simp: ring_def xy)
qed auto

lemma ring_next: "ring N P (p # ys) \<Longrightarrow> N p = hd (ys @ [p])"
  by (cases ys) (auto simp: ring_def)

lemma ring_prev: "ring N P (p # ys) \<Longrightarrow> P p = last (p # ys)"
proof (cases ys rule: rev_cases)
  case (snoc zs z)
  assume "ring N P (p # ys)"
  then have "links N P ((p # zs) @ z # [p])" by (simp add: ring_def snoc)
  then show ?thesis using links_append [of N P "p # zs" z "[p]"] by (simp add: snoc)
qed (simp add: ring_def)

lemma ring_closed:
  assumes "ring N P xs" "p \<in> set xs"
  shows "N p \<in> set xs" "P p \<in> set xs"
proof -
  obtain as bs where xs: "xs = as @ p # bs" using assms(2) by (auto dest: split_list)
  have r: "ring N P (p # (bs @ as))" using assms(1) ring_rotate [of N P as "p # bs"] by (simp add: xs)
  have "hd ((bs @ as) @ [p]) \<in> set ((bs @ as) @ [p])" by (rule hd_in_set) simp
  then show "N p \<in> set xs" using ring_next [OF r] by (auto simp: xs)
  have "last (p # bs @ as) \<in> set (p # bs @ as)" by (rule last_in_set) simp
  then show "P p \<in> set xs" using ring_prev [OF r] by (auto simp: xs)
qed

lemma ring_remove:
  assumes "ring N P (as @ p # bs)" "distinct (as @ p # bs)"
  shows "ring (N(P p := N p)) (P(N p := P p)) (as @ bs)"
proof (cases "bs @ as")
  case (Cons y zs)
  have r: "ring N P (p # y # zs)" using assms(1) ring_rotate [of N P as "p # bs"] Cons by simp
  have d: "p \<notin> set (y # zs)" "distinct (y # zs)" using assms(2) Cons by (auto simp flip: Cons)
  obtain ws z where wz: "y # zs = ws @ [z]" by (metis append_butlast_last_id list.distinct(1))
  have Np: "N p = y" using ring_next [OF r] by simp
  have Pp: "P p = z" using ring_prev [OF r] wz by (metis last.simps last_snoc list.distinct(1))
  let ?N = "N(z := y)" and ?P = "P(y := z)"
  have "links N P (y # zs @ [p])" using r by (simp add: ring_def)
  then have "links N P (ws @ z # [p])" using wz by (metis append_Cons append.assoc append_Nil)
  then have l: "links N P (ws @ [z])" using links_append [of N P ws z] by blast
  have tl: "set (tl (ws @ [z])) = set zs" using arg_cong [OF wz, of tl] by simp
  have "links ?N ?P (ws @ [z]) \<longleftrightarrow> links N P (ws @ [z])"
  proof (rule links_cong)
    fix x assume "x \<in> set (butlast (ws @ [z]))"
    then show "?N x = N x" using d(2) by (auto simp: wz)
  next
    fix x assume "x \<in> set (tl (ws @ [z]))"
    then show "?P x = P x" using d(2) tl by auto
  qed
  then have "links ?N ?P (ws @ z # [y])" using l links_append [of ?N ?P ws z "[y]"] by simp
  then have "links ?N ?P (y # zs @ [y])" using wz by (metis append_Cons append.assoc append_Nil)
  then have "ring ?N ?P (bs @ as)" by (simp add: ring_def Cons)
  then show ?thesis using ring_rotate by (simp add: Np Pp)
next
  case Nil
  then show ?thesis by simp
qed

lemma ring_snoc:
  assumes "ring N P (h # ys)" "distinct (h # ys @ [p])"
  shows "ring (N(p := h, P h := p)) (P(p := P h, h := p)) (h # ys @ [p])"
proof -
  obtain ws z where wz: "h # ys = ws @ [z]" by (metis append_butlast_last_id list.distinct(1))
  have Ph: "P h = z" using ring_prev [OF assms(1)] wz by (metis last_snoc)
  let ?N = "N(p := h, z := p)" and ?P = "P(p := z, h := p)"
  have "links N P (h # ys @ [h])" using assms(1) by (simp add: ring_def)
  then have "links N P (ws @ z # [h])" using wz by (metis append_Cons append.assoc append_Nil)
  then have l: "links N P (ws @ [z])" using links_append [of N P ws z] by blast
  have tl: "tl (ws @ [z]) = ys" using arg_cong [OF wz, of tl] by simp
  have p: "p \<noteq> z" "p \<notin> set ws" "p \<noteq> h" "h \<notin> set ys" "p \<notin> set ys" "z \<notin> set ws"
    using assms(2) arg_cong [OF wz, of set] arg_cong [OF wz, of distinct] by auto
  have "links ?N ?P (ws @ [z]) \<longleftrightarrow> links N P (ws @ [z])"
    by (rule links_cong) (use p tl in auto)
  moreover have "?N z = p" "?P p = z" "?N p = h" "?P h = p" using p by auto
  ultimately have "links ?N ?P (ws @ z # [p, h])" using l links_append [of ?N ?P ws z "[p, h]"] by simp
  then have "links ?N ?P (h # ys @ [p, h])" using wz by (metis append_Cons append.assoc append_Nil)
  then show ?thesis by (simp add: ring_def Ph)
qed

lemma ring_alone: "ring (N(p := p)) (P(p := p)) [p]"
  by (simp add: ring_def)

section \<open>The pointer steps on the store\<close>

definition N_of :: "pool \<Rightarrow> nat \<Rightarrow> nat" where
  "N_of s p = page_next (the (pages s p))"

definition P_of :: "pool \<Rightarrow> nat \<Rightarrow> nat" where
  "P_of s p = page_prev (the (pages s p))"

definition cells_of :: "pool \<Rightarrow> nat \<Rightarrow> (cell list \<times> nat) option" where
  "cells_of s p = map_option (\<lambda>pg. (freeCells pg, freeCellsSize pg)) (pages s p)"

text \<open>\<open>s'\<close> differs from \<open>s\<close> in the two links only.\<close>

definition relinked :: "pool \<Rightarrow> pool \<Rightarrow> (nat \<Rightarrow> nat) \<Rightarrow> (nat \<Rightarrow> nat) \<Rightarrow> bool" where
  "relinked s s' N P \<longleftrightarrow> s' = s\<lparr>pages := pages s'\<rparr> \<and> cells_of s' = cells_of s \<and> N_of s' = N \<and> P_of s' = P"

lemma dereference_ok: "p \<in> dom (pages s) \<Longrightarrow> dereference p s = Inr (the (pages s p))"
  by (auto simp: dereference_def)

lemma dom_cells_of: "dom (cells_of s) = dom (pages s)"
  by (auto simp: cells_of_def dom_def)

lemma relinked_dom: "relinked s s' N P \<Longrightarrow> dom (pages s') = dom (pages s)"
  unfolding relinked_def by (metis dom_cells_of)

lemma relinked_trans:
  "relinked s s1 N P \<Longrightarrow> relinked s1 s2 N' P' \<Longrightarrow> relinked s s2 N' P'"
  unfolding relinked_def by (metis pool.surjective pool.update_convs(1))

lemma assign_next:
  "p \<in> dom (pages s) \<Longrightarrow>
   \<exists>s'. assign p (\<lambda>n. n\<lparr>page_next := v\<rparr>) s = Inr s' \<and> relinked s s' ((N_of s)(p := v)) (P_of s)"
  by (auto simp: assign_def dereference_def relinked_def cells_of_def N_of_def P_of_def fun_eq_iff)

lemma assign_prev:
  "p \<in> dom (pages s) \<Longrightarrow>
   \<exists>s'. assign p (\<lambda>n. n\<lparr>page_prev := v\<rparr>) s = Inr s' \<and> relinked s s' (N_of s) ((P_of s)(p := v))"
  by (auto simp: assign_def dereference_def relinked_def cells_of_def N_of_def P_of_def fun_eq_iff)

lemma unlink_ok:
  assumes "p \<in> dom (pages s)" "N_of s p \<in> dom (pages s)" "P_of s p \<in> dom (pages s)"
  shows "\<exists>s'. unlink p s = Inr s' \<and>
    relinked s s' ((N_of s)(P_of s p := N_of s p)) ((P_of s)(N_of s p := P_of s p))"
proof -
  obtain s1 where s1: "assign (N_of s p) (\<lambda>n. n\<lparr>page_prev := P_of s p\<rparr>) s = Inr s1"
    "relinked s s1 (N_of s) ((P_of s)(N_of s p := P_of s p))"
    using assign_prev [OF assms(2)] by blast
  have d1: "dom (pages s1) = dom (pages s)" using relinked_dom [OF s1(2)] .
  have np: "N_of s1 p = N_of s p" "P_of s1 p = P_of s p" using s1(2) by (auto simp: relinked_def)
  obtain s2 where s2: "assign (P_of s p) (\<lambda>n. n\<lparr>page_next := N_of s p\<rparr>) s1 = Inr s2"
    "relinked s1 s2 ((N_of s1)(P_of s p := N_of s p)) (P_of s1)"
    using assign_next [of "P_of s p" s1] assms(3) d1 by blast
  have "unlink p s = Inr s2"
    using assms(1) d1 s1(1) s2(1) np by (simp add: unlink_def dereference_ok N_of_def P_of_def)
  moreover have "relinked s s2 ((N_of s)(P_of s p := N_of s p)) ((P_of s)(N_of s p := P_of s p))"
    using relinked_trans [OF s1(2) s2(2)] s1(2) by (simp add: relinked_def)
  ultimately show ?thesis by blast
qed

lemma link_alone_ok:
  assumes "p \<in> dom (pages s)"
  shows "\<exists>s'. link_alone p s = Inr s' \<and> relinked s s' ((N_of s)(p := p)) ((P_of s)(p := p))"
proof -
  obtain s1 where s1: "assign p (\<lambda>n. n\<lparr>page_next := p\<rparr>) s = Inr s1" "relinked s s1 ((N_of s)(p := p)) (P_of s)"
    using assign_next [OF assms] by blast
  obtain s2 where s2: "assign p (\<lambda>n. n\<lparr>page_prev := p\<rparr>) s1 = Inr s2" "relinked s1 s2 (N_of s1) ((P_of s1)(p := p))"
    using assign_prev [of p s1] assms relinked_dom [OF s1(2)] by blast
  then show ?thesis using s1 relinked_trans [OF s1(2) s2(2)] by (simp add: link_alone_def relinked_def)
qed

lemma link_before_ok:
  assumes "p \<in> dom (pages s)" "h \<in> dom (pages s)" "P_of s h \<in> dom (pages s)" "p \<noteq> h"
  shows "\<exists>s'. link_before p h s = Inr s' \<and>
    relinked s s' ((N_of s)(p := h, P_of s h := p)) ((P_of s)(p := P_of s h, h := p))"
proof -
  obtain s1 where s1: "assign p (\<lambda>n. n\<lparr>page_next := h\<rparr>) s = Inr s1" "relinked s s1 ((N_of s)(p := h)) (P_of s)"
    using assign_next [OF assms(1)] by blast
  note d1 = relinked_dom [OF s1(2)]
  have h1: "page_prev (the (pages s1 h)) = P_of s h" using s1(2) by (metis P_of_def relinked_def)
  obtain s2 where s2: "assign p (\<lambda>n. n\<lparr>page_prev := P_of s h\<rparr>) s1 = Inr s2"
    "relinked s1 s2 (N_of s1) ((P_of s1)(p := P_of s h))"
    using assign_prev [of p s1] assms(1) d1 by blast
  note d2 = relinked_dom [OF s2(2)]
  have h2: "page_prev (the (pages s2 h)) = P_of s h"
    using s1(2) s2(2) assms(4) by (metis P_of_def relinked_def fun_upd_other)
  obtain s3 where s3: "assign (P_of s h) (\<lambda>n. n\<lparr>page_next := p\<rparr>) s2 = Inr s3"
    "relinked s2 s3 ((N_of s2)(P_of s h := p)) (P_of s2)"
    using assign_next [of "P_of s h" s2] assms(3) d1 d2 by blast
  note d3 = relinked_dom [OF s3(2)]
  obtain s4 where s4: "assign h (\<lambda>n. n\<lparr>page_prev := p\<rparr>) s3 = Inr s4" "relinked s3 s4 (N_of s3) ((P_of s3)(h := p))"
    using assign_prev [of h s3] assms(2) d1 d2 d3 by blast
  have "link_before p h s = Inr s4"
    using assms(2) d1 d2 s1(1) s2(1) s3(1) s4(1) h1 h2 by (simp add: link_before_def dereference_ok)
  moreover have "relinked s s4 (N_of s3) ((P_of s3)(h := p))"
    using s1(2) s2(2) s3(2) s4(2) by (blast intro: relinked_trans)
  moreover have "N_of s3 = (N_of s)(p := h, P_of s h := p)" "P_of s3 = (P_of s)(p := P_of s h)"
    using s1(2) s2(2) s3(2) by (simp_all add: relinked_def)
  ultimately show ?thesis by auto
qed

section \<open>The invariant\<close>

definition lists_ok :: "pool \<Rightarrow> nat list \<Rightarrow> nat list \<Rightarrow> bool" where
  "lists_ok s us ns \<longleftrightarrow> ring (N_of s) (P_of s) us \<and> ring (N_of s) (P_of s) ns \<and> distinct (us @ ns)
     \<and> dom (pages s) = set (us @ ns) \<and> (us \<noteq> [] \<longrightarrow> usablePage s = hd us) \<and> (ns \<noteq> [] \<longrightarrow> unUsablePage s = hd ns)
     \<and> mUsablePagesSize s = length us \<and> mUnUsablePagesSize s = length ns \<and> (\<forall>p \<in> dom (pages s). p < fresh_page s)"

definition cells_ok :: "pool \<Rightarrow> bool" where
  "cells_ok s \<longleftrightarrow> (\<forall>p l k. cells_of s p = Some (l, k) \<longrightarrow> length l = mCellSizePerPage s \<and> k \<le> mCellSizePerPage s
     \<and> distinct (take k l) \<and> set (take k l) \<subseteq> {p} \<times> {0..<mCellSizePerPage s})"

definition free_count :: "pool \<Rightarrow> nat \<Rightarrow> nat" where
  "free_count s p = (case cells_of s p of None \<Rightarrow> 0 | Some (l, k) \<Rightarrow> k)"

definition pool_ok :: "pool \<Rightarrow> nat list \<Rightarrow> nat list \<Rightarrow> bool" where
  "pool_ok s us ns \<longleftrightarrow> lists_ok s us ns \<and> cells_ok s \<and> (\<forall>p \<in> set us. 0 < free_count s p)
     \<and> (\<forall>p \<in> set ns. free_count s p = 0) \<and> 1 < mCellSizePerPage s"

text \<open>The cells that are in use: those of the pages that are not on the stack of free cells.\<close>

definition in_use :: "pool \<Rightarrow> cell set" where
  "in_use s = {(p, i). i < mCellSizePerPage s \<and>
     (case cells_of s p of None \<Rightarrow> False | Some (l, k) \<Rightarrow> (p, i) \<notin> set (take k l))}"

lemma pool_fields [simp]:
  "N_of (s\<lparr>usablePage := a\<rparr>) = N_of s" "N_of (s\<lparr>unUsablePage := a\<rparr>) = N_of s"
  "N_of (s\<lparr>mUsablePagesSize := a\<rparr>) = N_of s" "N_of (s\<lparr>mUnUsablePagesSize := a\<rparr>) = N_of s"
  "P_of (s\<lparr>usablePage := a\<rparr>) = P_of s" "P_of (s\<lparr>unUsablePage := a\<rparr>) = P_of s"
  "P_of (s\<lparr>mUsablePagesSize := a\<rparr>) = P_of s" "P_of (s\<lparr>mUnUsablePagesSize := a\<rparr>) = P_of s"
  "cells_of (s\<lparr>usablePage := a\<rparr>) = cells_of s" "cells_of (s\<lparr>unUsablePage := a\<rparr>) = cells_of s"
  "cells_of (s\<lparr>mUsablePagesSize := a\<rparr>) = cells_of s" "cells_of (s\<lparr>mUnUsablePagesSize := a\<rparr>) = cells_of s"
  by (simp_all add: N_of_def P_of_def cells_of_def fun_eq_iff)

lemma relinkedD:
  assumes "relinked s s' N P"
  shows "dom (pages s') = dom (pages s)" "N_of s' = N" "P_of s' = P" "cells_of s' = cells_of s"
    "usablePage s' = usablePage s" "unUsablePage s' = unUsablePage s" "mUsablePagesSize s' = mUsablePagesSize s"
    "mUnUsablePagesSize s' = mUnUsablePagesSize s" "mCellSizePerPage s' = mCellSizePerPage s"
    "fresh_page s' = fresh_page s"
proof -
  have "s' = s\<lparr>pages := pages s'\<rparr>" using assms unfolding relinked_def by blast
  note f = this
  show "usablePage s' = usablePage s" "unUsablePage s' = unUsablePage s" "mUsablePagesSize s' = mUsablePagesSize s"
    "mUnUsablePagesSize s' = mUnUsablePagesSize s" "mCellSizePerPage s' = mCellSizePerPage s" "fresh_page s' = fresh_page s"
    by (subst f, simp)+
  show "dom (pages s') = dom (pages s)" by (rule relinked_dom [OF assms])
  show "N_of s' = N" "P_of s' = P" "cells_of s' = cells_of s" using assms unfolding relinked_def by blast+
qed

lemma free_count_page: "p \<in> dom (pages s) \<Longrightarrow> freeCellsSize (the (pages s p)) = free_count s p"
  by (auto simp: free_count_def cells_of_def)

lemma usable_has_cells_ok:
  assumes "mUsablePagesSize s = 0 \<or> usablePage s \<in> dom (pages s) \<and> 0 < free_count s (usablePage s)"
  shows "usable_has_cells s = Inr ()"
  using assms
  by (cases "mUsablePagesSize s = 0") (simp_all add: usable_has_cells_def dereference_ok free_count_page)

text \<open>Taking a page out of one list and appending it to the other.\<close>

lemma move_page:
  assumes r: "ring (N_of s) (P_of s) (as @ p # bs)" "ring (N_of s) (P_of s) ns"
    and d: "distinct (as @ p # bs @ ns)" and dom: "dom (pages s) = set (as @ p # bs @ ns)"
  obtains s' where "unlink p s = Inr s'" "ring (N_of s') (P_of s') (as @ bs)" "ring (N_of s') (P_of s') ns"
    "relinked s s' (N_of s') (P_of s')"
proof -
  let ?N = "N_of s" and ?P = "P_of s"
  have c: "?N p \<in> set (as @ p # bs)" "?P p \<in> set (as @ p # bs)" using ring_closed [OF r(1), of p] by auto
  have in_dom: "p \<in> dom (pages s)" "?N p \<in> dom (pages s)" "?P p \<in> dom (pages s)" using c unfolding dom by auto
  obtain s' where s': "unlink p s = Inr s'" "relinked s s' (?N(?P p := ?N p)) (?P(?N p := ?P p))"
    using unlink_ok [OF in_dom] by blast
  note f = relinkedD [OF s'(2)]
  have "ring (N_of s') (P_of s') (as @ bs)" unfolding f(2,3) using ring_remove [OF r(1)] d by auto
  moreover have "ring (N_of s') (P_of s') ns \<longleftrightarrow> ring ?N ?P ns"
    unfolding f(2,3) by (rule ring_cong) (use c d in auto)
  ultimately show thesis using that [OF s'(1)] s'(2) r(2) unfolding f(2,3) by blast
qed

lemma append_page:
  assumes r: "ring (N_of s) (P_of s) xs" "ring (N_of s) (P_of s) ys" and d: "distinct (xs @ ys @ [p])"
    and dom: "dom (pages s) = set (xs @ ys @ [p])"
  obtains s' where "(if ys = [] then link_alone p s else link_before p (hd ys) s) = Inr s'"
    "ring (N_of s') (P_of s') xs" "ring (N_of s') (P_of s') (ys @ [p])" "relinked s s' (N_of s') (P_of s')"
proof (cases ys)
  case Nil
  have "p \<in> dom (pages s)" unfolding dom by simp
  then obtain s' where s': "link_alone p s = Inr s'" "relinked s s' ((N_of s)(p := p)) ((P_of s)(p := p))"
    using link_alone_ok [of p s] by blast
  note f = relinkedD [OF s'(2)]
  have "ring (N_of s') (P_of s') xs \<longleftrightarrow> ring (N_of s) (P_of s) xs"
    unfolding f(2,3) by (rule ring_cong) (use d in auto)
  moreover have "ring (N_of s') (P_of s') [p]" unfolding f(2,3) by (rule ring_alone)
  ultimately show thesis using that [of s'] Nil s' r(1) unfolding f(2,3) by simp
next
  case (Cons h zs)
  let ?N = "N_of s" and ?P = "P_of s"
  have c: "?P h \<in> set ys" using ring_closed [OF r(2), of h] Cons by simp
  have in_dom: "p \<in> dom (pages s)" "h \<in> dom (pages s)" "?P h \<in> dom (pages s)" "p \<noteq> h"
    using c d Cons unfolding dom by auto
  obtain s' where s': "link_before p h s = Inr s'" "relinked s s' (?N(p := h, ?P h := p)) (?P(p := ?P h, h := p))"
    using link_before_ok [OF in_dom] by blast
  note f = relinkedD [OF s'(2)]
  have "ring (N_of s') (P_of s') xs \<longleftrightarrow> ring ?N ?P xs"
    unfolding f(2,3) by (rule ring_cong) (use d c Cons in auto)
  moreover have "ring (N_of s') (P_of s') (h # zs @ [p])"
    unfolding f(2,3) by (rule ring_snoc) (use r(2) d Cons in auto)
  ultimately show thesis using that [of s'] Cons s' r(1) unfolding f(2,3) by simp
qed

lemma retire_ok:
  assumes ok: "lists_ok s (p # us) ns" and free: "\<forall>q \<in> set us. 0 < free_count s q"
  obtains s' where "retire_page p s = Inr s'" "lists_ok s' us (ns @ [p])" "cells_of s' = cells_of s"
    "mCellSizePerPage s' = mCellSizePerPage s"
proof -
  have r: "ring (N_of s) (P_of s) (p # us)" "ring (N_of s) (P_of s) ns" and dom: "dom (pages s) = set (p # us @ ns)"
    and d: "distinct (p # us @ ns)" and fresh: "\<forall>q \<in> dom (pages s). q < fresh_page s"
    and n: "mUsablePagesSize s = Suc (length us)" "mUnUsablePagesSize s = length ns" "ns \<noteq> [] \<longrightarrow> unUsablePage s = hd ns"
    using ok by (auto simp: lists_ok_def)
  define s1 where "s1 = s\<lparr>mUsablePagesSize := length us, usablePage := N_of s p\<rparr>"
  have s1: "pages s1 = pages s" "N_of s1 = N_of s" "P_of s1 = P_of s" "cells_of s1 = cells_of s" by (simp_all add: s1_def)
  have np: "us \<noteq> [] \<longrightarrow> N_of s p = hd us" using ring_next [OF r(1)] by simp
  have "usable_has_cells s1 = Inr ()"
  proof (rule usable_has_cells_ok, cases us)
    case (Cons u vs)
    have "free_count s1 u = free_count s u" by (simp add: free_count_def s1)
    then show "mUsablePagesSize s1 = 0 \<or> usablePage s1 \<in> dom (pages s1) \<and> 0 < free_count s1 (usablePage s1)"
      using np free dom Cons by (simp add: s1_def)
  qed (simp add: s1_def)
  note hc = this
  obtain s2 where s2: "unlink p s1 = Inr s2" "ring (N_of s2) (P_of s2) ([] @ us)" "ring (N_of s2) (P_of s2) ns"
    "relinked s1 s2 (N_of s2) (P_of s2)"
    by (rule move_page [of s1 "[]" p us ns]) (use r d dom s1 in auto)
  note f2 = relinkedD [OF s2(4)]
  define s3 where "s3 = s2\<lparr>mUnUsablePagesSize := mUnUsablePagesSize s2 + 1\<rparr>"
  define s3' where "s3' = (if ns = [] then s3\<lparr>unUsablePage := p\<rparr> else s3)"
  have s3': "pages s3' = pages s2" "N_of s3' = N_of s2" "P_of s3' = P_of s2" by (simp_all add: s3'_def s3_def)
  obtain s4 where s4: "(if ns = [] then link_alone p s3' else link_before p (hd ns) s3') = Inr s4"
    "ring (N_of s4) (P_of s4) us" "ring (N_of s4) (P_of s4) (ns @ [p])" "relinked s3' s4 (N_of s4) (P_of s4)"
    by (rule append_page [of s3' us ns p]) (use s2(2,3) d dom f2(1) s1 s3' in auto)
  note f4 = relinkedD [OF s4(4)]
  have "unUsablePage s3 = unUsablePage s" "mUnUsablePagesSize s2 = length ns"
    using f2(6,8) n(2) by (simp_all add: s3_def s1_def)
  then have s4': "(if mUnUsablePagesSize s2 = 0 then link_alone p (s3\<lparr>unUsablePage := p\<rparr>)
      else link_before p (unUsablePage s3) s3) = Inr s4"
    using s4(1) n by (auto simp: s3'_def split: if_splits)
  have p: "p \<in> dom (pages s)" unfolding dom by simp
  have e: "s\<lparr>mUsablePagesSize := mUsablePagesSize s - 1, usablePage := page_next (the (pages s p))\<rparr> = s1"
    by (simp add: s1_def n N_of_def)
  have "retire_page p s = Inr s4"
    unfolding retire_page_def dereference_ok [OF p] rbind_Inr Let_def e hc s2(1) s3_def [symmetric] by (rule s4')
  moreover have "lists_ok s4 us (ns @ [p])"
    unfolding lists_ok_def
    using s4(2,3) d dom f4 f2 s1 n np fresh by (auto simp: s3'_def s3_def s1_def)
  moreover have "cells_of s4 = cells_of s" using f4 f2 s1 by (simp add: s3'_def s3_def)
  moreover have "mCellSizePerPage s4 = mCellSizePerPage s" using f4 f2 by (simp add: s3'_def s3_def s1_def)
  ultimately show thesis using that by blast
qed

lemma revive_ok:
  assumes ok: "lists_ok s us (as @ p # bs)"
  obtains s' where "revive_page p s = Inr s'" "lists_ok s' (us @ [p]) (as @ bs)" "cells_of s' = cells_of s"
    "mCellSizePerPage s' = mCellSizePerPage s"
proof -
  have r: "ring (N_of s) (P_of s) us" "ring (N_of s) (P_of s) (as @ p # bs)" and dom: "dom (pages s) = set (us @ as @ p # bs)"
    and d: "distinct (us @ as @ p # bs)" and fresh: "\<forall>q \<in> dom (pages s). q < fresh_page s"
    and n: "mUsablePagesSize s = length us" "mUnUsablePagesSize s = Suc (length (as @ bs))" "unUsablePage s = hd (as @ p # bs)"
      "us \<noteq> [] \<longrightarrow> usablePage s = hd us"
    using ok by (auto simp: lists_ok_def)
  obtain s1 where s1: "unlink p s = Inr s1" "ring (N_of s1) (P_of s1) (as @ bs)" "ring (N_of s1) (P_of s1) us"
    "relinked s s1 (N_of s1) (P_of s1)"
    by (rule move_page [of s as p bs us]) (use r d dom in auto)
  note f1 = relinkedD [OF s1(4)]
  have p1: "p \<in> dom (pages s1)" using dom f1(1) by simp
  define h where "h = (if as @ bs \<noteq> [] \<and> as = [] then N_of s1 p else unUsablePage s1)"
  have h: "as @ bs \<noteq> [] \<longrightarrow> h = hd (as @ bs)"
  proof (cases as)
    case Nil
    have "N_of s p = hd (bs @ [p])" using r(2) ring_next Nil by simp
    moreover have "N_of s1 p = N_of s p"
    proof -
      have c: "N_of s p \<in> set (as @ p # bs)" "P_of s p \<in> set (as @ p # bs)" using ring_closed [OF r(2), of p] by auto
      then have in_dom: "p \<in> dom (pages s)" "N_of s p \<in> dom (pages s)" "P_of s p \<in> dom (pages s)" unfolding dom by auto
      obtain s' where "unlink p s = Inr s'" "relinked s s' ((N_of s)(P_of s p := N_of s p)) ((P_of s)(N_of s p := P_of s p))"
        using unlink_ok [OF in_dom] by blast
      then show ?thesis using s1(1) relinkedD(2) by fastforce
    qed
    ultimately show ?thesis by (auto simp: h_def Nil)
  qed (use n f1(6) in \<open>simp add: h_def\<close>)
  define s3 where "s3 = s1\<lparr>mUnUsablePagesSize := length (as @ bs), unUsablePage := h\<rparr>"
  define s4 where "s4 = s3\<lparr>mUsablePagesSize := mUsablePagesSize s3 + 1\<rparr>"
  define s4' where "s4' = (if us = [] then s4\<lparr>usablePage := p\<rparr> else s4)"
  have s4': "pages s4' = pages s1" "N_of s4' = N_of s1" "P_of s4' = P_of s1" "cells_of s4' = cells_of s1"
    by (simp_all add: s4'_def s4_def s3_def)
  obtain s5 where s5: "(if us = [] then link_alone p s4' else link_before p (hd us) s4') = Inr s5"
    "ring (N_of s5) (P_of s5) (as @ bs)" "ring (N_of s5) (P_of s5) (us @ [p])" "relinked s4' s5 (N_of s5) (P_of s5)"
    by (rule append_page [of s4' "as @ bs" us p]) (use s1(2,3) d dom f1(1) s4' in auto)
  note f5 = relinkedD [OF s5(4)]
  have e3: "(if mUnUsablePagesSize s2 > 0 \<and> p = unUsablePage s2
             then rbind (dereference (unUsablePage s2) s2) (\<lambda>pg. Inr (s2\<lparr>unUsablePage := page_next pg\<rparr>))
             else Inr s2) = Inr s3" if s2: "s2 = s1\<lparr>mUnUsablePagesSize := mUnUsablePagesSize s1 - 1\<rparr>" for s2
  proof -
    have un: "unUsablePage s1 = hd (as @ p # bs)" "mUnUsablePagesSize s1 - 1 = length (as @ bs)"
      using f1(6,8) n by simp_all
    have "p = hd (as @ p # bs) \<longleftrightarrow> as = []" using d by (cases as) auto
    moreover have "pages s2 = pages s1" using s2 by simp
    then have "dereference p s2 = Inr (the (pages s1 p))" using dereference_ok [of p s2] p1 by simp
    ultimately show ?thesis using un s2 by (cases "as = []") (auto simp: s3_def h_def N_of_def)
  qed
  have us: "mUsablePagesSize s3 = length us" "us \<noteq> [] \<longrightarrow> usablePage s4 = hd us"
    using f1 n by (simp_all add: s3_def s4_def)
  then have e5: "(if mUsablePagesSize s3 = 0 then link_alone p (s4\<lparr>usablePage := p\<rparr>)
      else link_before p (usablePage s4) s4) = Inr s5"
    using s5(1) by (auto simp: s4'_def split: if_splits)
  have "revive_page p s = Inr s5"
    unfolding revive_page_def s1(1) rbind_Inr Let_def e3 [OF refl] s4_def [symmetric] by (rule e5)
  moreover have "lists_ok s5 (us @ [p]) (as @ bs)"
    unfolding lists_ok_def
    using s5(2,3) d dom f5 f1 s4' n us h fresh by (auto simp: s4'_def s4_def s3_def)
  moreover have "cells_of s5 = cells_of s" using f5 f1 s4' by simp
  moreover have "mCellSizePerPage s5 = mCellSizePerPage s" using f5 f1 by (simp add: s4'_def s4_def s3_def)
  ultimately show thesis using that by blast
qed

lemma free_page_ok:
  assumes ok: "lists_ok s (as @ p # bs) ns" and more: "as @ bs \<noteq> []"
    and free: "\<forall>q \<in> set (as @ p # bs). 0 < free_count s q"
  obtains s' where "free_page p s = Inr s'" "lists_ok s' (as @ bs) ns" "cells_of s' = (cells_of s)(p := None)"
    "mCellSizePerPage s' = mCellSizePerPage s"
proof -
  let ?N = "N_of s" and ?P = "P_of s"
  have r: "ring ?N ?P (as @ p # bs)" "ring ?N ?P ns" and dom: "dom (pages s) = set (as @ p # bs @ ns)"
    and d: "distinct (as @ p # bs @ ns)" and fresh: "\<forall>q \<in> dom (pages s). q < fresh_page s"
    and n: "mUsablePagesSize s = Suc (length (as @ bs))" "mUnUsablePagesSize s = length ns" "usablePage s = hd (as @ p # bs)"
      "ns \<noteq> [] \<longrightarrow> unUsablePage s = hd ns"
    using ok by (auto simp: lists_ok_def)
  have c: "?N p \<in> set (as @ p # bs)" "?P p \<in> set (as @ p # bs)" using ring_closed [OF r(1), of p] by auto
  then have in_dom: "p \<in> dom (pages s)" "?N p \<in> dom (pages s)" "?P p \<in> dom (pages s)" unfolding dom by auto
  define s1 where "s1 = s\<lparr>usablePage := (if as = [] then ?N p else usablePage s)\<rparr>"
  have s1: "pages s1 = pages s" "N_of s1 = ?N" "P_of s1 = ?P" "cells_of s1 = cells_of s" by (simp_all add: s1_def)
  have hp: "p = hd (as @ p # bs) \<longleftrightarrow> as = []" using d by (cases as) auto
  have e1: "(if p = usablePage s
            then rbind (dereference (page_next (the (pages s p))) s) (\<lambda>nx.
                 rbind (rassert (freeCellsSize nx > 0)) (\<lambda>_. Inr (s\<lparr>usablePage := page_next (the (pages s p))\<rparr>)))
            else Inr s) = Inr s1"
    using n(3) hp in_dom(2) free c(1) free_count_page [OF in_dom(2)]
    by (auto simp: s1_def dereference_ok N_of_def)
  have d1: "?N p \<in> dom (pages s1)" "?P p \<in> dom (pages s1)" using in_dom s1 by auto
  obtain s2 where s2: "assign (?P p) (\<lambda>n. n\<lparr>page_next := ?N p\<rparr>) s1 = Inr s2" "relinked s1 s2 (?N(?P p := ?N p)) ?P"
    using assign_next [OF d1(2)] s1 by auto
  note f2 = relinkedD [OF s2(2)]
  have np: "?N p \<noteq> p"
  proof -
    have "ring ?N ?P (p # (bs @ as))" using r(1) ring_rotate [of ?N ?P as "p # bs"] by simp
    then have "?N p = hd ((bs @ as) @ [p])" using ring_next [of ?N ?P p "bs @ as"] by simp
    then have "?N p = hd (bs @ as)" using more by (metis hd_append2 append_is_Nil_conv)
    moreover have "hd (bs @ as) \<in> set (bs @ as)" using more by (intro hd_in_set) auto
    ultimately show ?thesis using d by auto
  qed
  have pp: "?P p \<noteq> p"
  proof -
    have "ring ?N ?P (p # (bs @ as))" using r(1) ring_rotate [of ?N ?P as "p # bs"] by simp
    then have "?P p = last (p # bs @ as)" using ring_prev [of ?N ?P p "bs @ as"] by simp
    then have "?P p = last (bs @ as)" using more by (metis last_ConsR append_is_Nil_conv)
    moreover have "last (bs @ as) \<in> set (bs @ as)" using more by (intro last_in_set) auto
    ultimately show ?thesis using d by auto
  qed
  have n2: "page_next (the (pages s2 p)) = ?N p" "page_prev (the (pages s2 p)) = ?P p"
    using f2(2,3) pp by (metis N_of_def fun_upd_other, metis P_of_def)
  obtain s3 where s3: "assign (?N p) (\<lambda>n. n\<lparr>page_prev := ?P p\<rparr>) s2 = Inr s3"
    "relinked s2 s3 (N_of s2) ((P_of s2)(?N p := ?P p))"
    using assign_prev [of "?N p" s2 "?P p"] d1(1) f2(1) by auto
  note f3 = relinkedD [OF s3(2)]
  let ?s4 = "s3\<lparr>mUsablePagesSize := mUsablePagesSize s3 - 1, pages := (pages s3)(p := None)\<rparr>"
  have p2: "p \<in> dom (pages s2)" using in_dom f2(1) s1 by simp
  have "free_page p s = Inr ?s4"
    unfolding free_page_def dereference_ok [OF in_dom(1)] rbind_Inr e1
    using s2(1) s3(1) n2 dereference_ok [OF p2] by (simp add: N_of_def P_of_def)
  moreover have "lists_ok ?s4 (as @ bs) ns"
  proof -
    have NP: "N_of s3 = ?N(?P p := ?N p)" "P_of s3 = ?P(?N p := ?P p)" using f2 f3 by simp_all
    have r4: "ring (N_of ?s4) (P_of ?s4) xs \<longleftrightarrow> ring (N_of s3) (P_of s3) xs" if "p \<notin> set xs" for xs
      by (rule ring_cong) (use that in \<open>auto simp: N_of_def P_of_def\<close>)
    have "ring (N_of s3) (P_of s3) (as @ bs)" unfolding NP using ring_remove [OF r(1)] d by auto
    then have R1: "ring (N_of ?s4) (P_of ?s4) (as @ bs)" using r4 [of "as @ bs"] d by simp
    have "ring (N_of s3) (P_of s3) ns \<longleftrightarrow> ring ?N ?P ns"
      unfolding NP by (rule ring_cong) (use c d in auto)
    then have R2: "ring (N_of ?s4) (P_of ?s4) ns" using r4 [of ns] r(2) d by simp
    have D: "dom (pages ?s4) = set ((as @ bs) @ ns)" using dom d f3(1) f2(1) s1(1) by auto
    have U: "usablePage ?s4 = hd (as @ bs)"
    proof (cases as)
      case Nil
      then have "?N p = hd (bs @ [p])" using ring_next [of ?N ?P p bs] r(1) by simp
      then show ?thesis using more f3(5) f2(5) Nil by (simp add: s1_def)
    qed (use n(3) f3(5) f2(5) in \<open>simp add: s1_def\<close>)
    have F: "unUsablePage ?s4 = unUsablePage s" "mUsablePagesSize ?s4 = length (as @ bs)"
      "mUnUsablePagesSize ?s4 = length ns" "fresh_page ?s4 = fresh_page s"
      using f3 f2 n by (simp_all add: s1_def)
    have "distinct ((as @ bs) @ ns)" "\<forall>q \<in> set ((as @ bs) @ ns). q < fresh_page s" using d fresh unfolding dom by auto
    then show ?thesis unfolding lists_ok_def D F U using R1 R2 n(4) by blast
  qed
  moreover have "cells_of ?s4 = (cells_of s)(p := None)"
    using f3(4) f2(4) s1(4) by (auto simp: cells_of_def fun_eq_iff)
  moreover have "mCellSizePerPage ?s4 = mCellSizePerPage s" using f3 f2 by (simp add: s1_def)
  ultimately show thesis using that by blast
qed

section \<open>The stacks of free cells\<close>

text \<open>\<open>s'\<close> differs from \<open>s\<close> in the stack of one page only.\<close>

definition restacked :: "pool \<Rightarrow> pool \<Rightarrow> (nat \<rightharpoonup> cell list \<times> nat) \<Rightarrow> bool" where
  "restacked s s' c \<longleftrightarrow> s' = s\<lparr>pages := pages s'\<rparr> \<and> cells_of s' = c \<and> N_of s' = N_of s \<and> P_of s' = P_of s"

lemma restacked_lists:
  assumes "restacked s s' c" "dom c = dom (cells_of s)"
  shows "lists_ok s' us ns \<longleftrightarrow> lists_ok s us ns" "mCellSizePerPage s' = mCellSizePerPage s" "cells_of s' = c"
    "mUsablePagesSize s' = mUsablePagesSize s" "usablePage s' = usablePage s" "dom (pages s') = dom (pages s)"
proof -
  have f: "s' = s\<lparr>pages := pages s'\<rparr>" and c: "cells_of s' = c" and np: "N_of s' = N_of s" "P_of s' = P_of s"
    using assms(1) unfolding restacked_def by blast+
  have e: "usablePage s' = usablePage s" "unUsablePage s' = unUsablePage s" "mUsablePagesSize s' = mUsablePagesSize s"
    "mUnUsablePagesSize s' = mUnUsablePagesSize s" "mCellSizePerPage s' = mCellSizePerPage s" "fresh_page s' = fresh_page s"
    by (subst f, simp)+
  have d: "dom (pages s') = dom (pages s)" using assms(2) c dom_cells_of by metis
  show "mCellSizePerPage s' = mCellSizePerPage s" "cells_of s' = c" "mUsablePagesSize s' = mUsablePagesSize s"
    "usablePage s' = usablePage s" "dom (pages s') = dom (pages s)" by (fact e c d)+
  show "lists_ok s' us ns \<longleftrightarrow> lists_ok s us ns" by (simp add: lists_ok_def np d e)
qed

lemma take_cell_ok:
  assumes "cells_of s p = Some (l, Suc k)" "k < length l"
  shows "\<exists>s'. take_cell p s = Inr (l ! k, s') \<and> restacked s s' ((cells_of s)(p \<mapsto> (l, k)))"
  using assms
  by (auto simp: take_cell_def dereference_def cells_of_def assign_def restacked_def N_of_def P_of_def fun_eq_iff)

lemma give_cell_ok:
  assumes "cells_of s p = Some (l, k)" "k < length l"
  shows "\<exists>s'. give_cell p c s = Inr s' \<and> restacked s s' ((cells_of s)(p \<mapsto> (l[k := c], Suc k)))"
  using assms
  by (auto simp: give_cell_def dereference_def cells_of_def assign_def restacked_def N_of_def P_of_def fun_eq_iff)

lemma cells_okD:
  assumes "cells_ok s" "cells_of s p = Some (l, k)"
  shows "length l = mCellSizePerPage s" "k \<le> mCellSizePerPage s" "distinct (take k l)"
    "set (take k l) \<subseteq> {p} \<times> {0..<mCellSizePerPage s}"
  using assms unfolding cells_ok_def by blast+

lemma in_use_pop:
  assumes ok: "cells_ok s" and c: "cells_of s p = Some (l, Suc k)"
    and s': "cells_of s' = (cells_of s)(p \<mapsto> (l, k))" "mCellSizePerPage s' = mCellSizePerPage s"
  shows "cells_ok s'" "in_use s' = insert (l ! k) (in_use s)" "l ! k \<notin> in_use s" "fst (l ! k) = p"
    "snd (l ! k) < mCellSizePerPage s"
proof -
  note d = cells_okD [OF ok c]
  have kl: "k < length l" using d(1,2) by simp
  have t: "take (Suc k) l = take k l @ [l ! k]" using kl by (rule take_Suc_conv_app_nth)
  show "cells_ok s'" using ok d t unfolding cells_ok_def s' by auto
  have mem: "l ! k \<in> {p} \<times> {0..<mCellSizePerPage s}" using d(4) t by auto
  then show "fst (l ! k) = p" "snd (l ! k) < mCellSizePerPage s" by auto
  show "l ! k \<notin> in_use s" using mem t c by (auto simp: in_use_def)
  show "in_use s' = insert (l ! k) (in_use s)"
    using mem t c s' d(3) by (auto simp: in_use_def split: if_splits option.splits)
qed

lemma in_use_push:
  assumes ok: "cells_ok s" and c: "cells_of s p = Some (l, k)" and m: "(p, i) \<in> in_use s"
    and s': "cells_of s' = (cells_of s)(p \<mapsto> (l[k := (p, i)], Suc k))" "mCellSizePerPage s' = mCellSizePerPage s"
  shows "k < mCellSizePerPage s \<Longrightarrow> cells_ok s'" "k < mCellSizePerPage s \<Longrightarrow> in_use s' = in_use s - {(p, i)}"
proof -
  note d = cells_okD [OF ok c]
  have i: "i < mCellSizePerPage s" "(p, i) \<notin> set (take k l)" using m c by (auto simp: in_use_def)
  assume k: "k < mCellSizePerPage s"
  then have t: "take (Suc k) (l[k := (p, i)]) = take k l @ [(p, i)]"
    using d(1) by (simp add: take_Suc_conv_app_nth)
  show "cells_ok s'" using ok d t i k unfolding cells_ok_def s' by auto
  show "in_use s' = in_use s - {(p, i)}"
    using t c s' i by (auto simp: in_use_def split: if_splits option.splits)
qed

text \<open>The stack of a page with a cell in use is not full.\<close>

lemma in_use_room:
  assumes ok: "cells_ok s" and c: "cells_of s p = Some (l, k)" and m: "(p, i) \<in> in_use s"
  shows "k < mCellSizePerPage s"
proof (rule ccontr)
  note d = cells_okD [OF ok c]
  assume "\<not> k < mCellSizePerPage s"
  then have k: "k = mCellSizePerPage s" using d(2) by simp
  have "card (set (take k l)) = k" using d(1-3) k by (simp add: distinct_card)
  moreover have "card ({p} \<times> {0..<mCellSizePerPage s}) = k" by (simp add: k card_cartesian_product)
  ultimately have "set (take k l) = {p} \<times> {0..<mCellSizePerPage s}"
    using d(4) by (intro card_subset_eq) auto
  then show False using m c by (auto simp: in_use_def)
qed

section \<open>Allocate and Reclaim\<close>

lemma free_count_cells: "cells_of s' p = cells_of s p \<Longrightarrow> free_count s' p = free_count s p"
  by (simp add: free_count_def)

lemma usable_ok:
  assumes "lists_ok s us ns" "\<forall>p \<in> set us. 0 < free_count s p"
  shows "usable_has_cells s = Inr ()"
  using assms by (intro usable_has_cells_ok) (cases us; auto simp: lists_ok_def)

lemma Allocate_usable:
  assumes ok: "pool_ok s (p # us) ns"
  shows "\<exists>c s' us' ns'. Allocate s = Inr (c, s') \<and> pool_ok s' us' ns' \<and> c \<notin> in_use s
     \<and> in_use s' = insert c (in_use s) \<and> mCellSizePerPage s' = mCellSizePerPage s"
proof -
  have l: "lists_ok s (p # us) ns" and cells: "cells_ok s" and C: "1 < mCellSizePerPage s"
    and free: "\<forall>q \<in> set (p # us). 0 < free_count s q" and full: "\<forall>q \<in> set ns. free_count s q = 0"
    using ok unfolding pool_ok_def by blast+
  have d: "distinct (p # us @ ns)" "0 < mUsablePagesSize s" "usablePage s = p"
    using l by (simp_all add: lists_ok_def)
  obtain fc k where c: "cells_of s p = Some (fc, Suc k)"
    using free by (auto simp: free_count_def split: option.splits dest: gr0_implies_Suc)
  have kl: "k < length fc" using cells_okD(1,2) [OF cells c] by simp
  obtain s1 where s1: "take_cell p s = Inr (fc ! k, s1)" "restacked s s1 ((cells_of s)(p \<mapsto> (fc, k)))"
    using take_cell_ok [OF c kl] by blast
  have dc: "dom ((cells_of s)(p \<mapsto> (fc, k))) = dom (cells_of s)" using c by auto
  note f = restacked_lists [OF s1(2) dc]
  note u = in_use_pop [OF cells c f(3,2)]
  have fr: "free_count s1 q = (if q = p then k else free_count s q)" for q by (simp add: free_count_def f(3))
  have l1: "lists_ok s1 (p # us) ns" using l f(1) by simp
  then have p1: "p \<in> dom (pages s1)" by (simp add: lists_ok_def)
  have k: "freeCellsSize (the (pages s1 p)) = k" using free_count_page [OF p1] fr by simp
  obtain s2 us' ns' where s2: "(if k = 0 then retire_page p s1 else Inr s1) = Inr s2" "lists_ok s2 us' ns'"
    "cells_of s2 = cells_of s1" "mCellSizePerPage s2 = mCellSizePerPage s1"
    "\<forall>q \<in> set us'. 0 < free_count s2 q" "\<forall>q \<in> set ns'. free_count s2 q = 0"
  proof (cases "k = 0")
    case True
    have fus: "\<forall>q \<in> set us. 0 < free_count s1 q" using free d(1) fr by auto
    obtain s2 where s2: "retire_page p s1 = Inr s2" "lists_ok s2 us (ns @ [p])" "cells_of s2 = cells_of s1"
      "mCellSizePerPage s2 = mCellSizePerPage s1"
      by (rule retire_ok [OF l1 fus])
    have "free_count s2 q = free_count s1 q" for q using s2(3) by (simp add: free_count_def)
    then have "\<forall>q \<in> set us. 0 < free_count s2 q" "\<forall>q \<in> set (ns @ [p]). free_count s2 q = 0"
      using fus fr full True by auto
    then show thesis using that [of s2 us "ns @ [p]"] s2 True by simp
  next
    case False
    have "\<forall>q \<in> set (p # us). 0 < free_count s1 q" "\<forall>q \<in> set ns. free_count s1 q = 0"
      using free full fr d(1) False by auto
    then show thesis using that [of s1 "p # us" ns] l1 False by simp
  qed
  have "Allocate s = Inr (fc ! k, s2)"
    using d(2,3) s1(1) dereference_ok [OF p1] k s2(1) usable_ok [OF s2(2,5)] by (simp add: Allocate_def Let_def)
  moreover have "cells_ok s2" using u(1) s2(3,4) by (simp add: cells_ok_def)
  then have "pool_ok s2 us' ns'" using s2 C f(2) by (simp add: pool_ok_def)
  moreover have "in_use s2 = in_use s1" using s2(3,4) by (simp add: in_use_def)
  ultimately show ?thesis using u(2,3) s2(4) f(2) by auto
qed

lemma Allocate_new_page:
  assumes ok: "pool_ok s [] ns"
  shows "\<exists>c s' us' ns'. Allocate s = Inr (c, s') \<and> pool_ok s' us' ns' \<and> c \<notin> in_use s
     \<and> in_use s' = insert c (in_use s) \<and> mCellSizePerPage s' = mCellSizePerPage s"
proof -
  let ?C = "mCellSizePerPage s" and ?p = "fresh_page s"
  have l: "lists_ok s [] ns" and cells: "cells_ok s" and C: "1 < ?C"
    and full: "\<forall>q \<in> set ns. free_count s q = 0"
    using ok unfolding pool_ok_def by blast+
  have dom: "dom (pages s) = set ns" and d: "distinct ns" and fresh: "\<forall>q \<in> set ns. q < ?p"
    and r: "ring (N_of s) (P_of s) ns" and n: "mUsablePagesSize s = 0"
    using l by (auto simp: lists_ok_def)
  have pn: "?p \<notin> set ns" using fresh by auto
  define s1 where "s1 = InitPage ?p ?p (s\<lparr>fresh_page := ?p + 1, usablePage := ?p, mUsablePagesSize := 1\<rparr>)"
  define fc where "fc = map (\<lambda>i. (?p, i)) [0..<?C]"
  obtain k where k: "?C = Suc k" using C by (cases ?C) auto
  have c1: "cells_of s1 = (cells_of s)(?p \<mapsto> (fc, ?C))"
    by (auto simp: s1_def InitPage_def cells_of_def fc_def fun_eq_iff)
  have NP: "N_of s1 = (N_of s)(?p := ?p)" "P_of s1 = (P_of s)(?p := ?p)"
    by (auto simp: s1_def InitPage_def N_of_def P_of_def fun_eq_iff)
  have fld: "dom (pages s1) = insert ?p (set ns)" "usablePage s1 = ?p" "unUsablePage s1 = unUsablePage s"
    "mUsablePagesSize s1 = 1" "mUnUsablePagesSize s1 = mUnUsablePagesSize s" "mCellSizePerPage s1 = ?C" "fresh_page s1 = Suc ?p"
    using dom by (auto simp: s1_def InitPage_def)
  have "ring (N_of s1) (P_of s1) ns \<longleftrightarrow> ring (N_of s) (P_of s) ns" unfolding NP by (rule ring_cong) (use pn in auto)
  then have l1: "lists_ok s1 [?p] ns"
    using l d pn fresh ring_alone unfolding lists_ok_def fld NP(1,2)
    by (auto simp: fld intro: less_SucI)
  have cells1: "cells_ok s1"
    using cells unfolding cells_ok_def c1 fld by (auto simp: fc_def distinct_map inj_on_def)
  have none: "cells_of s ?p = None" using dom pn dom_cells_of [of s] by (metis domIff)
  then have in1: "in_use s1 = in_use s"
    by (auto simp: in_use_def c1 fld fc_def split: if_splits option.splits)
  have c: "cells_of s1 ?p = Some (fc, Suc k)" using c1 k by simp
  have kl: "k < length fc" using k by (simp add: fc_def)
  obtain s2 where s2: "take_cell ?p s1 = Inr (fc ! k, s2)" "restacked s1 s2 ((cells_of s1)(?p \<mapsto> (fc, k)))"
    using take_cell_ok [OF c kl] by blast
  have dc: "dom ((cells_of s1)(?p \<mapsto> (fc, k))) = dom (cells_of s1)" using c by auto
  note f = restacked_lists [OF s2(2) dc]
  note u = in_use_pop [OF cells1 c f(3,2)]
  have fr: "free_count s2 q = (if q = ?p then k else free_count s q)" for q
    using f(3) c1 by (simp add: free_count_def)
  have "pool_ok s2 [?p] ns"
    unfolding pool_ok_def using l1 f(1,2) u(1) fr full pn C k fld(6) by auto
  moreover have "freeCellsSize (the (pages s1 ?p)) = ?C" by (simp add: s1_def InitPage_def)
  then have "Allocate s = Inr (fc ! k, s2)"
    using n C s2(1) dereference_ok [of ?p s1] fld(1)
    by (simp add: Allocate_def Let_def s1_def [symmetric, unfolded One_nat_def add_Suc_right add_0_right])
  ultimately show ?thesis using u(2,3) in1 f(2) fld(6) by auto
qed

lemma Allocate_ok:
  assumes "pool_ok s us ns"
  shows "\<exists>c s' us' ns'. Allocate s = Inr (c, s') \<and> pool_ok s' us' ns' \<and> c \<notin> in_use s
     \<and> in_use s' = insert c (in_use s) \<and> mCellSizePerPage s' = mCellSizePerPage s"
proof (cases us)
  case Nil
  then show ?thesis using Allocate_new_page assms by simp
next
  case (Cons p us')
  then show ?thesis using Allocate_usable assms by simp
qed

lemma in_use_drop:
  assumes ok: "cells_ok s" and c: "cells_of s p = Some (l, mCellSizePerPage s)"
    and s': "cells_of s' = (cells_of s)(p := None)" "mCellSizePerPage s' = mCellSizePerPage s"
  shows "cells_ok s'" "in_use s' = in_use s"
proof -
  have "(p, i) \<notin> in_use s" for i using in_use_room [OF ok c, of i] by auto
  then show "in_use s' = in_use s" by (auto simp: in_use_def s' split: if_splits)
  show "cells_ok s'" using ok by (auto simp: cells_ok_def s')
qed

lemma Reclaim_ok:
  assumes ok: "pool_ok s us ns" and m: "m \<in> in_use s" and mx: "1 \<le> mx"
  shows "\<exists>s' us' ns'. Reclaim mx m s = Inr s' \<and> pool_ok s' us' ns' \<and> in_use s' = in_use s - {m}
     \<and> mCellSizePerPage s' = mCellSizePerPage s"
proof -
  have l: "lists_ok s us ns" and cells: "cells_ok s" and C: "1 < mCellSizePerPage s"
    and free: "\<forall>q \<in> set us. 0 < free_count s q" and full: "\<forall>q \<in> set ns. free_count s q = 0"
    using ok unfolding pool_ok_def by blast+
  obtain p i where mp: "m = (p, i)" by (cases m)
  obtain fc k where c: "cells_of s p = Some (fc, k)"
    using m mp by (auto simp: in_use_def split: option.splits)
  have k: "k < mCellSizePerPage s" using in_use_room [OF cells c] m mp by simp
  then have kl: "k < length fc" using cells_okD(1) [OF cells c] by simp
  have fk: "free_count s p = k" by (simp add: free_count_def c)
  have p: "p \<in> dom (pages s)" using c dom_cells_of [of s] by blast
  then have p_in: "p \<in> set us \<or> p \<in> set ns" using l by (auto simp: lists_ok_def)
  obtain s1 where s1: "give_cell p m s = Inr s1" "restacked s s1 ((cells_of s)(p \<mapsto> (fc[k := m], Suc k)))"
    using give_cell_ok [OF c kl] by blast
  have dc: "dom ((cells_of s)(p \<mapsto> (fc[k := m], Suc k))) = dom (cells_of s)" using c by auto
  note f = restacked_lists [OF s1(2) dc]
  note u = in_use_push [OF cells c m [unfolded mp] f(3) [unfolded mp] f(2) k]
  have fr: "free_count s1 q = (if q = p then Suc k else free_count s q)" for q by (simp add: free_count_def f(3))
  have sz: "freeCellsSize (the (pages s p)) = k" "freeCellsSize (the (pages s1 p)) = Suc k"
    using free_count_page [OF p] free_count_page [of p s1] p f(6) fk fr by simp_all
  have p1: "p \<in> dom (pages s1)" using p f(6) by simp
  have l1: "lists_ok s1 us ns" using l f(1) by simp
  have steps: "Reclaim mx m s = (if k = 0 then revive_page p s1
      else if Suc k = mCellSizePerPage s \<and> mUsablePagesSize s > mx then free_page p s1 else Inr s1)"
    using dereference_ok [OF p] dereference_ok [OF p1] s1(1) sz f(2,4) by (simp add: Reclaim_def mp)
  show ?thesis
  proof (cases "k = 0")
    case True
    then have "p \<in> set ns" using p_in free fk by auto
    then obtain as bs where ns: "ns = as @ p # bs" by (auto dest: split_list)
    obtain s2 where s2: "revive_page p s1 = Inr s2" "lists_ok s2 (us @ [p]) (as @ bs)" "cells_of s2 = cells_of s1"
      "mCellSizePerPage s2 = mCellSizePerPage s1"
      by (rule revive_ok [OF l1 [unfolded ns]])
    have "free_count s2 q = free_count s1 q" for q using s2(3) by (simp add: free_count_def)
    moreover have "distinct (us @ as @ p # bs)" using l by (simp add: lists_ok_def ns)
    ultimately have "pool_ok s2 (us @ [p]) (as @ bs)"
      using s2 u(1) C f(2) fr free full unfolding pool_ok_def by (auto simp: cells_ok_def ns)
    moreover have "in_use s2 = in_use s1" using s2(3,4) by (simp add: in_use_def)
    ultimately show ?thesis using steps True s2 u(2) f(2) mp by auto
  next
    case False
    then have pu: "p \<in> set us" using p_in full fk by auto
    have free1: "\<forall>q \<in> set us. 0 < free_count s1 q" using free fr by auto
    have full1: "\<forall>q \<in> set ns. free_count s1 q = 0"
      using full fr pu l by (auto simp: lists_ok_def)
    show ?thesis
    proof (cases "Suc k = mCellSizePerPage s \<and> mUsablePagesSize s > mx")
      case True
      obtain as bs where us: "us = as @ p # bs" using pu by (auto dest: split_list)
      have "1 < length us" using True mx l by (simp add: lists_ok_def)
      then have "as @ bs \<noteq> []" by (auto simp: us)
      then obtain s2 where s2: "free_page p s1 = Inr s2" "lists_ok s2 (as @ bs) ns"
        "cells_of s2 = (cells_of s1)(p := None)" "mCellSizePerPage s2 = mCellSizePerPage s1"
        using free_page_ok [OF l1 [unfolded us]] free1 us by metis
      have c1: "cells_of s1 p = Some (fc[k := m], mCellSizePerPage s1)" using f(3,2) True by simp
      note d = in_use_drop [OF u(1) c1 s2(3,4)]
      have d2: "distinct (as @ p # bs @ ns)" using l by (simp add: lists_ok_def us)
      have same: "free_count s2 q = free_count s1 q" if "q \<in> set (as @ bs @ ns)" for q
      proof -
        have "q \<noteq> p" using that d2 by auto
        then show ?thesis using s2(3) by (simp add: free_count_def)
      qed
      have "\<forall>q \<in> set (as @ bs). 0 < free_count s2 q"
      proof
        fix q assume "q \<in> set (as @ bs)"
        then show "0 < free_count s2 q" using free1 same [of q] by (auto simp: us)
      qed
      moreover have "\<forall>q \<in> set ns. free_count s2 q = 0" using full1 same by simp
      ultimately have "pool_ok s2 (as @ bs) ns" using s2(2,4) d(1) C f(2) by (simp add: pool_ok_def)
      then show ?thesis using steps False True s2(1,4) d(2) u(2) f(2) mp by auto
    next
      case no: False
      then have "Reclaim mx m s = Inr s1" unfolding steps using no False by auto
      moreover have "pool_ok s1 us ns" using l1 u(1) free1 full1 C f(2) by (simp add: pool_ok_def)
      ultimately show ?thesis using u(2) f(2) mp by auto
    qed
  qed
qed

lemma pool_new_ok: "1 < c \<Longrightarrow> pool_ok (pool_new c) [] [] \<and> in_use (pool_new c) = {}"
  by (auto simp: pool_ok_def lists_ok_def pool_new_def cells_ok_def cells_of_def in_use_def)

section \<open>Clear\<close>

lemma free_loop_ok:
  "links (N_of s) P (p # ps @ [h]) \<Longrightarrow> distinct (p # ps) \<Longrightarrow> h \<notin> set ps \<Longrightarrow> set (p # ps) \<subseteq> dom (pages s) \<Longrightarrow>
   free_loop (Suc (length ps)) h p s = Inr (s\<lparr>pages := (pages s) |` (- set (p # ps))\<rparr>)"
proof (induction ps arbitrary: p s)
  case Nil
  then have "dereference p s = Inr (the (pages s p))" "page_next (the (pages s p)) = h"
    using dereference_ok [of p s] by (simp_all add: N_of_def)
  moreover have "(pages s)(p := None) = pages s |` (- {p})" by (auto simp: restrict_map_def fun_eq_iff)
  ultimately show ?case by simp
next
  case (Cons q qs)
  let ?s = "s\<lparr>pages := (pages s)(p := None)\<rparr>"
  have d: "dereference p s = Inr (the (pages s p))" "page_next (the (pages s p)) = q"
    using Cons.prems dereference_ok [of p s] by (simp_all add: N_of_def)
  have "links (N_of ?s) P (q # qs @ [h]) \<longleftrightarrow> links (N_of s) P (q # qs @ [h])"
  proof (rule links_cong)
    fix x assume "x \<in> set (butlast (q # qs @ [h]))"
    then have "x \<in> set (q # qs)" by (simp add: butlast_append)
    then have "x \<noteq> p" using Cons.prems(2) by auto
    then show "N_of ?s x = N_of s x" by (simp add: N_of_def)
  qed simp
  then have "links (N_of ?s) P (q # qs @ [h])" using Cons.prems(1) by simp
  then have "free_loop (Suc (length qs)) h q ?s = Inr (?s\<lparr>pages := (pages ?s) |` (- set (q # qs))\<rparr>)"
    by (rule Cons.IH) (use Cons.prems in auto)
  moreover have "(pages ?s) |` (- set (q # qs)) = pages s |` (- set (p # q # qs))"
    by (auto simp: restrict_map_def fun_eq_iff)
  ultimately show ?case
    using d Cons.prems(3) by (simp add: free_loop.simps(2) [of "Suc (length qs)"] Let_def del: free_loop.simps)
qed

text \<open>\<open>Clear\<close> frees every page, and nothing else; the pool can be used again.\<close>

lemma Pool_Clear_ok:
  assumes ok: "pool_ok s us ns"
  shows "\<exists>s'. Pool_Clear s = Inr s' \<and> pages s' = Map.empty \<and> pool_ok s' [] []"
proof -
  have l: "lists_ok s us ns" and C: "1 < mCellSizePerPage s" using ok unfolding pool_ok_def by blast+
  have r: "ring (N_of s) (P_of s) us" "ring (N_of s) (P_of s) ns" and dom: "dom (pages s) = set (us @ ns)"
    and d: "distinct (us @ ns)"
    and n: "mUsablePagesSize s = length us" "mUnUsablePagesSize s = length ns"
      "us \<noteq> [] \<longrightarrow> usablePage s = hd us" "ns \<noteq> [] \<longrightarrow> unUsablePage s = hd ns"
    using l by (auto simp: lists_ok_def)
  define s1 where "s1 = s\<lparr>pages := (pages s) |` (- set us), mUsablePagesSize := 0\<rparr>"
  have e1: "(if mUsablePagesSize s > 0
            then rbind (free_loop (mUsablePagesSize s) (usablePage s) (usablePage s) s) (\<lambda>s1.
                   Inr (s1\<lparr>mUsablePagesSize := 0\<rparr>))
            else Inr s) = Inr s1"
  proof (cases us)
    case Nil
    moreover have "pages s |` UNIV = pages s" by (auto simp: restrict_map_def fun_eq_iff)
    moreover have "s = s\<lparr>pages := pages s, mUsablePagesSize := mUsablePagesSize s\<rparr>" by simp
    ultimately show ?thesis using n by (simp add: s1_def)
  next
    case (Cons u vs)
    have "free_loop (Suc (length vs)) u u s = Inr (s\<lparr>pages := (pages s) |` (- set (u # vs))\<rparr>)"
      by (rule free_loop_ok [where P = "P_of s"]) (use r(1) d dom Cons in \<open>auto simp: ring_def\<close>)
    then show ?thesis using n Cons by (simp add: s1_def del: free_loop.simps)
  qed
  have N1: "ring (N_of s1) (P_of s1) ns \<longleftrightarrow> ring (N_of s) (P_of s) ns"
    by (rule ring_cong) (use d in \<open>auto simp: N_of_def P_of_def s1_def restrict_map_def\<close>)
  have dom1: "dom (pages s1) = set ns" using dom d by (auto simp: s1_def)
  define s2 where "s2 = s1\<lparr>pages := (pages s1) |` (- set ns), mUnUsablePagesSize := 0\<rparr>"
  have "Pool_Clear s = Inr s2"
  proof (cases ns)
    case Nil
    then have "s2 = s1" using n by (simp add: s2_def s1_def)
    then show ?thesis unfolding Pool_Clear_def e1 using n Nil by (simp add: s1_def)
  next
    case (Cons u vs)
    have "free_loop (Suc (length vs)) u u s1 = Inr (s1\<lparr>pages := (pages s1) |` (- set (u # vs))\<rparr>)"
      by (rule free_loop_ok [where P = "P_of s1"]) (use r(2) N1 d dom1 Cons in \<open>auto simp: ring_def\<close>)
    moreover have "unUsablePage s1 = u" "mUnUsablePagesSize s1 = Suc (length vs)" using n Cons by (simp_all add: s1_def)
    ultimately show ?thesis unfolding Pool_Clear_def e1 using Cons by (simp add: s2_def del: free_loop.simps)
  qed
  moreover have "pages s2 = Map.empty" using dom1 by (auto simp: s2_def restrict_map_def fun_eq_iff)
  moreover have "pool_ok s2 [] []"
    using \<open>pages s2 = Map.empty\<close> C by (simp add: pool_ok_def lists_ok_def cells_ok_def cells_of_def) (simp add: s2_def s1_def)
  ultimately show ?thesis by blast
qed

section \<open>Runs of the pool\<close>

text \<open>
  A user that allocates, and gives back cells it holds; \<open>held\<close> is the set of those. The engine's
  pools free pages beyond the default of four.
\<close>

inductive pool_run :: "nat \<Rightarrow> pool \<Rightarrow> cell set \<Rightarrow> bool" for c where
  pool_start: "pool_run c (pool_new c) {}"
| pool_alloc: "pool_run c s held \<Longrightarrow> Allocate s = Inr (m, s') \<Longrightarrow> pool_run c s' (insert m held)"
| pool_give: "pool_run c s held \<Longrightarrow> m \<in> held \<Longrightarrow> Reclaim 4 m s = Inr s' \<Longrightarrow> pool_run c s' (held - {m})"

lemma pool_run_ok: "pool_run c s held \<Longrightarrow> 1 < c \<Longrightarrow> \<exists>us ns. pool_ok s us ns \<and> in_use s = held"
proof (induction rule: pool_run.induct)
  case pool_start
  then show ?case using pool_new_ok by blast
next
  case (pool_alloc s held m s')
  then obtain us ns where s: "pool_ok s us ns" "in_use s = held" by blast
  then show ?case using Allocate_ok [OF s(1)] pool_alloc.hyps(2) by auto
next
  case (pool_give s held m s')
  then obtain us ns where s: "pool_ok s us ns" "in_use s = held" by blast
  then show ?case using Reclaim_ok [OF s(1), of m 4] pool_give.hyps(2,3) by auto
qed

end
