(* ===== verification/Container_Properties.thy ===== *)
theory Container_Properties
  imports Array_Queue Array_List Spsc_Queue Memory_Pool
begin

text \<open>
  The properties of the containers (\<^verbatim>\<open>JackieArraryQueue\<close>, \<^verbatim>\<open>JackieArrayList\<close>, \<^verbatim>\<open>JackieSPSCQueue\<close>,
  \<^verbatim>\<open>JackieMemoryPool\<close>), each followed by its witness.
\<close>

section \<open>The array queue\<close>

text \<open>C6: a new queue gives back what is pushed into it, in order, however often it grows.\<close>

theorem queue_round_trip:
  assumes "length xs < 2 ^ 30"
  shows "\<exists>q1 q2. push_list (PushTail 32) xs (queue_new j) = Inr q1 \<and> pop_list PopHead (length xs) q1 = Inr (xs, q2)
    \<and> Queue_IsEmpty q2"
proof -
  obtain q1 where q1: "push_list (PushTail 32) xs (queue_new j) = Inr q1" "queue_room q1 0" "queue_elems q1 = xs"
    using array_fifo.push_list_ok [of "queue_new j" xs] assms by auto
  obtain q2 where q2: "pop_list PopHead (length xs) q1 = Inr (xs, q2)" "queue_room q2 0" "queue_elems q2 = []"
    using array_fifo.pop_list_all [OF q1(2), of "length xs"] q1(3) by auto
  then have "Queue_IsEmpty q2"
    using Size_0_iff [of q2] by (simp add: Queue_IsEmpty_def queue_room_def queue_elems_Nil_iff)
  then show ?thesis using q1(1) q2(1) by blast
qed

theorem queue_round_trip_witness:
  "\<exists>q1 q2. push_list (PushTail 32) [1 :: nat, 2, 3] (queue_new (\<lambda>_. 0)) = Inr q1
    \<and> pop_list PopHead 3 q1 = Inr ([1, 2, 3], q2) \<and> Queue_IsEmpty q2"
proof -
  have l: "length [1 :: nat, 2, 3] = 3" by simp
  show ?thesis
    using queue_round_trip [of "[1 :: nat, 2, 3]" "\<lambda>_. 0"] unfolding l
    by (simp del: push_list.simps pop_list.simps)
qed

text \<open>
  \<^verbatim>\<open>InsertAtIndex\<close> puts the element at the place and moves the later ones up; it returns false
  exactly when the queue was empty, although it has inserted the element then too.
\<close>

lemma queue_insert_at:
  assumes "q_ok q" and "Queue_Size q + 1 < 2 ^ 30" and "index \<le> Queue_Size q"
  shows "\<exists>q'. Queue_InsertAtIndex 32 x index q = Inr (queue_elems q \<noteq> [], q') \<and> q_ok q'
    \<and> queue_elems q' = take index (queue_elems q) @ x # drop index (queue_elems q)"
  by (rule InsertAtIndex_ok) (use assms in simp_all)

text \<open>\<^verbatim>\<open>RemoveAtIndex\<close> takes out the one element and keeps the others in order.\<close>

lemma queue_remove_at:
  assumes "q_ok q" and "position < Queue_Size q"
  shows "\<exists>q'. Queue_RemoveAtIndex position q = Some (Inr q') \<and> q_ok q'
    \<and> queue_elems q' = take position (queue_elems q) @ drop (Suc position) (queue_elems q)"
  by (rule RemoveAtIndex_ok) (use assms in simp_all)

definition wrapped_queue :: "nat array_queue" where
  "wrapped_queue = \<lparr>queueArrary = [30, 40, 10, 20 :: nat], head = 2, tail = 1, allocation_size = 4, junk = \<lambda>_. 0\<rparr>"

text \<open>
  the loop \<^verbatim>\<open>for (i = 0; i < q.Size(); i++) q.PopHead(x)\<close>, with which the engine empties its
  queues, takes out only the first half of the elements.
\<close>

lemma drain_leaves_half:
  assumes "queue_room q n"
  shows "\<exists>q'. drain_queue PopHead Queue_Size q = Inr (take ((Queue_Size q + 1) div 2) (queue_elems q), q')
    \<and> queue_elems q' = drop ((Queue_Size q + 1) div 2) (queue_elems q)"
  using array_fifo.drain_takes_half [OF assms] by auto

section \<open>The array list\<close>

text \<open>
  \<^verbatim>\<open>RemoveAtIndexFast\<close> removes the element at the place and puts the last one there; no other
  element moves.
\<close>

lemma list_remove_fast:
  assumes "l_ok l" and "position < list_size l"
  shows "\<exists>l'. RemoveAtIndexFast position l = Inr l' \<and> l_ok l'
    \<and> list_elems l' = butlast ((list_elems l)[position := last (list_elems l)])"
  by (rule RemoveAtIndexFast_ok) (use assms in simp_all)

definition small_list :: "nat array_list" where
  "small_list = \<lparr>listArray = [1, 2, 3, 5, 0 :: nat], list_size = 4, list_alloc = 5, junk_at = \<lambda>_. 0\<rparr>"

section \<open>The queue between two threads\<close>

text \<open>A run given as a list of calls and of steps of the two threads.\<close>

datatype move = Call_Push "8 word list" | Call_Pop "8 word list" | Producer | Consumer

fun producer_moves :: "side \<Rightarrow> threads \<Rightarrow> threads option" where
  "producer_moves Idle t = None"
| "producer_moves (At_Head b m) t = Some (if m < m_ElementSize (shared t)
     then t\<lparr>producer := Sampled b (push_sample m (shared t))\<rparr> else t\<lparr>producer := Idle\<rparr>)"
| "producer_moves (Sampled b m) t = (case push_copy b m (shared t) of Inl f \<Rightarrow> None
     | Inr q \<Rightarrow> Some (t\<lparr>shared := q, producer := Copied b m\<rparr>))"
| "producer_moves (Copied b m) t = Some (t\<lparr>shared := push_publish m (shared t), producer := At_Head b m\<rparr>)"

fun consumer_moves :: "side \<Rightarrow> threads \<Rightarrow> threads option" where
  "consumer_moves Idle t = None"
| "consumer_moves (At_Head b m) t = Some (if m < m_ElementSize (shared t)
     then t\<lparr>consumer := Sampled b (pop_sample m (shared t))\<rparr> else t\<lparr>consumer := Idle, popped := popped t @ [b]\<rparr>)"
| "consumer_moves (Sampled b m) t = (case pop_copy b m (shared t) of Inl f \<Rightarrow> None
     | Inr b \<Rightarrow> Some (t\<lparr>consumer := Copied b m\<rparr>))"
| "consumer_moves (Copied b m) t = Some (t\<lparr>shared := pop_publish m (shared t), consumer := At_Head b m\<rparr>)"

fun moves :: "move list \<Rightarrow> threads \<Rightarrow> threads option" where
  "moves [] t = Some t"
| "moves (Call_Push b # ms) t = (if producer t = Idle \<and> length b = m_ElementSize (shared t)
     then moves ms (t\<lparr>producer := At_Head b 0, pushed := pushed t @ [b]\<rparr>) else None)"
| "moves (Call_Pop b # ms) t = (if consumer t = Idle \<and> length b = m_ElementSize (shared t)
     then moves ms (t\<lparr>consumer := At_Head b 0\<rparr>) else None)"
| "moves (Producer # ms) t = (case producer_moves (producer t) t of None \<Rightarrow> None | Some t' \<Rightarrow> moves ms t')"
| "moves (Consumer # ms) t = (case consumer_moves (consumer t) t of None \<Rightarrow> None | Some t' \<Rightarrow> moves ms t')"

lemma producer_moves_step: "producer_moves (producer t) t = Some t' \<Longrightarrow> thread_step t t'"
  by (cases "producer t") (auto intro: thread_step.intros split: sum.splits if_splits)

lemma consumer_moves_step: "consumer_moves (consumer t) t = Some t' \<Longrightarrow> thread_step t t'"
  by (cases "consumer t") (auto intro: thread_step.intros split: sum.splits if_splits)

lemma moves_steps: "moves ms t = Some t' \<Longrightarrow> thread_step\<^sup>*\<^sup>* t t'"
  by (induction ms t rule: moves.induct)
    (auto split: if_splits option.splits
      intro: converse_rtranclp_into_rtranclp thread_step.intros producer_moves_step consumer_moves_step)

text \<open>
  A ring of two elements of two bytes: the second element is pushed while the first is popped, and the second pop has
  not been called yet.
\<close>

definition small_ring :: spsc where
  "small_ring = \<lparr>m_nIn = 0, m_nOut = 0, m_pBuffer = [0, 0, 0, 0], m_nSize = 4, m_ElementSize = 2\<rparr>"

definition two_elements :: "move list" where
  "two_elements =
     [Call_Pop [0, 0], Call_Push [1, 2], Producer, Producer, Producer, Consumer, Producer, Call_Push [3, 4], Consumer,
      Producer, Producer, Consumer, Producer, Consumer, Producer]"

definition two_elements_end :: threads where
  "two_elements_end = \<lparr>shared = small_ring\<lparr>m_nIn := 4, m_nOut := 2, m_pBuffer := [1, 2, 3, 4]\<rparr>,
     producer = Idle, consumer = Idle, pushed = [[1, 2], [3, 4]], popped = [[1, 2]]\<rparr>"

lemma small_ring_ok: "spsc_ok small_ring"
  by (auto simp: spsc_ok_def small_ring_def sub32_def intro: exI [of _ 2])

lemma two_elements_run: "moves two_elements (threads_init small_ring) = Some two_elements_end"
  by (simp add: two_elements_def two_elements_end_def threads_init_def spsc_Clear_def small_ring_def push_sample_def
      pop_sample_def push_copy_def pop_copy_def push_publish_def pop_publish_def memcpy_at_def copy_into_def add32_def
      sub32_def Let_def flip: numeral_2_eq_2)

text \<open>
  C14: under every interleaving of the steps of one producer and one consumer, the elements
  \<^verbatim>\<open>PopHead\<close> has returned are the first of those \<^verbatim>\<open>PushTail\<close> was called with, in order: none is
  lost, doubled or overtaken.
\<close>

theorem spsc_two_threads:
  assumes "spsc_ok q" and "thread_step\<^sup>*\<^sup>* (threads_init q) t"
  shows "\<exists>rest. pushed t = popped t @ rest"
  using threads_okD(4) [OF threads_reachable_ok [OF assms]] by blast

theorem spsc_two_threads_witness:
  "pushed two_elements_end = [[1, 2], [3, 4]] \<and> popped two_elements_end = [[1, 2]]
   \<and> (\<exists>rest. pushed two_elements_end = popped two_elements_end @ rest)"
  using spsc_two_threads [OF small_ring_ok moves_steps [OF two_elements_run]] by (simp add: two_elements_end_def)

text \<open>
  the constructor allocates room for as many bytes as there should be elements when the product
  of the two sizes is a power of two: the queue of 128 pointers holds 16, and the push of the
  seventeenth waits for ever if nobody pops.
\<close>

lemma spsc_capacity:
  assumes "length ps = 17"
  shows "\<exists>q q16. spsc_new raw 128 8 = Inr q \<and> push_list push_pointer (take 16 ps) q = Inr q16
    \<and> (\<forall>fuel b. spsc_PushTail fuel b q16 = Inl OutOfFuel)"
proof -
  define q where "q = \<lparr>m_nIn = 0, m_nOut = 0, m_pBuffer = map raw [0..<128], m_nSize = 128, m_ElementSize = 8\<rparr>"
  have "IsPower2 (1024 :: 64 word)" by (simp add: IsPower2_def)
  then have new: "spsc_new raw 128 8 = Inr q" by (simp add: spsc_new_def Let_def q_def)
  have ok: "spsc_ok q" by (auto simp: spsc_ok_def q_def sub32_def intro: exI [of _ 7])
  have s0: "spsc_Size q = 0" by (simp add: spsc_Size_def q_def sub32_def)
  have len: "length (take 16 ps) = 16" using assms by simp
  have "pointer_room q (length (take 16 ps))"
    unfolding len using ok s0 by (simp add: pointer_room_def q_def)
  then obtain q16 where q16: "push_list push_pointer (take 16 ps) q = Inr q16" "pointer_room q16 0"
    "pointer_elems q16 = pointer_elems q @ take 16 ps"
    using pointer_fifo.push_list_ok by blast
  have ok16: "spsc_ok q16" "m_ElementSize q16 = 8" using q16(2) by (simp_all add: pointer_room_def)
  have "spsc_Size q16 = 16"
    using arg_cong [OF q16(3), of length] s0 len by (simp add: pointer_elems_def)
  then have D: "sub32 (m_nIn q16) (m_nOut q16) = 128" using spsc_D(8) [OF ok16(1)] ok16(2) by simp
  have "m_nSize q16 = 128" using push_list_size [OF q16(1)] by (simp add: q_def)
  then have "\<forall>fuel b. spsc_PushTail fuel b q16 = Inl OutOfFuel" using PushTail_full_waits [OF ok16(1)] D by simp
  then show ?thesis using new q16(1) by blast
qed

text \<open>
  \<^verbatim>\<open>PopHead\<close> on an empty queue does not return while no element arrives: it never reports that
  there is none.
\<close>

lemma spsc_pop_waits:
  assumes "spsc_ok q" and "spsc_elems q = []"
  shows "spsc_PopHead fuel dst q = Inl OutOfFuel"
  by (rule PopHead_empty_waits [OF assms])

section \<open>The memory pool\<close>

text \<open>
  C5: in every run, a further \<^verbatim>\<open>Allocate\<close> succeeds and returns a cell nobody holds: the pages, their
  two circular lists and their stacks of free cells are kept consistent, also across pages that
  become full, are used again or are freed.
\<close>

theorem pool_gives_free_cells:
  assumes "pool_run c s held" and "1 < c"
  shows "\<exists>m s'. Allocate s = Inr (m, s') \<and> m \<notin> held"
  using pool_run_ok [OF assms] Allocate_ok by blast

theorem pool_gives_free_cells_witness:
  "\<exists>m s'. Allocate (pool_new 2) = Inr (m, s') \<and> m \<notin> {}"
  by (rule pool_gives_free_cells [OF pool_start]) simp

text \<open>a held cell can be given back: \<^verbatim>\<open>Reclaim\<close> of it never fails and the others stay held.\<close>

lemma pool_takes_back:
  assumes "pool_run c s held" and "1 < c" and "m \<in> held"
  shows "\<exists>s'. Reclaim 4 m s = Inr s' \<and> in_use s' = held - {m}"
proof -
  obtain us ns where "pool_ok s us ns" "in_use s = held" using pool_run_ok [OF assms(1,2)] by blast
  then show ?thesis using Reclaim_ok [of s us ns m 4] assms(3) by auto
qed

end
