(* ===== verification/Remote_Systems.thy ===== *)
theory Remote_Systems
  imports Bit_Types Net_Types
begin

text \<open>
  The remote systems of \<^verbatim>\<open>network_application_t\<close> (\<^verbatim>\<open>src/geco_application.cpp\<close>): the list of the end
  points, the hash table that leads from an address to its place in the list, and the list of the
  active ones. A pointer into \<^verbatim>\<open>remoteSystemList\<close> is the place it points to, a chain of
  \<^verbatim>\<open>JackieRemoteIndex\<close> the list of the places in it (its cells come from the memory pool of
  \<open>Memory_Pool\<close>), and the result \<^verbatim>\<open>-1\<close> of a lookup is \<open>None\<close>. \<^verbatim>\<open>transport_layer_t\<close> has no state:
  its operations print that they are not implemented.
\<close>

section \<open>State\<close>

datatype ConnectMode =
    NO_ACTION | DISCONNECT_ASAP | DISCONNECT_ASAP_SILENTLY | DISCONNECT_ON_NO_ACK
  | REQUESTED_CONNECTION | HANDLING_CONNECTION_REQUEST | UNVERIFIED_SENDER | CONNECTED

record remote_system =
  isActive :: bool
  systemAddress :: network_address
  myExternalSystemAddress :: network_address
  weInitiateConnection :: bool
  pingAndClockDifferential :: "(u16 \<times> u64) list"
  pingAndClockDifferentialWriteIndex :: u64
  lowestPing :: u16
  nextPingTime :: u64
  lastReliableSend :: u64
  connectionTime :: u64
  rs_guid :: guid
  MTUSize :: int
  socket2use :: nat
  remoteSystemIndex :: u16
  answer :: "u8 list"
  connectMode :: ConnectMode

record endpoints =
  maxConnections :: nat
  remoteSystemList :: "remote_system list"
  activeSystemList :: "nat list"
  activeSystemListSize :: nat
  remoteSystemLookup :: "nat list list"
  myGuid :: guid
  localIPAddrs :: "network_address list"
  firstExternalID :: network_address
  limitConnFrequencyOfSameClient :: bool
  defaultMTUSize :: int
  endThreads :: bool

definition RemoteEndPointLookupHashMutiple :: nat where
  "RemoteEndPointLookupHashMutiple = 8"

abbreviation is_null :: "network_address \<Rightarrow> bool" where
  "is_null a \<equiv> address_eq a JACKIE_NULL_ADDRESS"

abbreviation is_null_guid :: "guid \<Rightarrow> bool" where
  "is_null_guid a \<equiv> guid_eq a JACKIE_NULL_GUID"

text \<open>
  The part of \<^verbatim>\<open>startup\<close> that makes the lists: \<open>raw\<close> is what the constructors of the array leave in
  the fields the loop does not set.
\<close>

definition endpoint_init :: "int \<Rightarrow> (nat \<Rightarrow> remote_system) \<Rightarrow> nat \<Rightarrow> remote_system" where
  "endpoint_init mtu raw index =
     (raw index)\<lparr>isActive := False, systemAddress := JACKIE_NULL_ADDRESS, rs_guid := JACKIE_NULL_GUID,
       myExternalSystemAddress := JACKIE_NULL_ADDRESS, connectMode := NO_ACTION, MTUSize := mtu,
       remoteSystemIndex := of_nat index\<rparr>"

definition setup_connections :: "nat \<Rightarrow> (nat \<Rightarrow> remote_system) \<Rightarrow> endpoints \<Rightarrow> endpoints" where
  "setup_connections maxConn raw t =
     (if maxConnections t = 0 then
        t\<lparr>maxConnections := maxConn,
          remoteSystemList := map (endpoint_init (defaultMTUSize t) raw) [0..<maxConn],
          remoteSystemLookup := replicate (maxConn * RemoteEndPointLookupHashMutiple mod 2 ^ 32) [],
          activeSystemList := [0..<maxConn]\<rparr>
      else t)"

section \<open>The hash table\<close>

definition hash_index :: "bool \<Rightarrow> nat \<Rightarrow> network_address \<Rightarrow> nat res" where
  "hash_index be maxConn sa =
     rbind (address_ToHashCode (mem_bytes be) (mem_bytes be) sa) (\<lambda>hashindex.
       Inr (unat hashindex mod sub32 (maxConn * RemoteEndPointLookupHashMutiple mod 2 ^ 32) 1))"

fun chain_find :: "remote_system list \<Rightarrow> network_address \<Rightarrow> nat list \<Rightarrow> nat option res" where
  "chain_find rs sa [] = Inr None"
| "chain_find rs sa (cur # chain) =
     rbind (get_at rs cur) (\<lambda>r.
       if address_eq (systemAddress r) sa then Inr (Some cur) else chain_find rs sa chain)"

definition GetRemoteSystemIndex :: "bool \<Rightarrow> network_address \<Rightarrow> endpoints \<Rightarrow> nat option res" where
  "GetRemoteSystemIndex be sa t =
     rbind (hash_index be (maxConnections t) sa) (\<lambda>hashindex.
     rbind (get_at (remoteSystemLookup t) hashindex) (\<lambda>chain.
       chain_find (remoteSystemList t) sa chain))"

fun chain_unlink :: "remote_system list \<Rightarrow> network_address \<Rightarrow> nat list \<Rightarrow> nat list res" where
  "chain_unlink rs sa [] = Inr []"
| "chain_unlink rs sa (cur # chain) =
     rbind (get_at rs cur) (\<lambda>r.
       if address_eq (systemAddress r) sa then Inr chain
       else rbind (chain_unlink rs sa chain) (\<lambda>chain. Inr (cur # chain)))"

definition DeRefRemoteSystem :: "bool \<Rightarrow> network_address \<Rightarrow> endpoints \<Rightarrow> endpoints res" where
  "DeRefRemoteSystem be sa t =
     rbind (hash_index be (maxConnections t) sa) (\<lambda>hashindex.
     rbind (get_at (remoteSystemLookup t) hashindex) (\<lambda>chain.
     rbind (chain_unlink (remoteSystemList t) sa chain) (\<lambda>chain.
       Inr (t\<lparr>remoteSystemLookup := (remoteSystemLookup t)[hashindex := chain]\<rparr>))))"

definition RefRemoteEndPoint :: "bool \<Rightarrow> network_address \<Rightarrow> nat \<Rightarrow> endpoints \<Rightarrow> endpoints res" where
  "RefRemoteEndPoint be sa index t =
     rbind (get_at (remoteSystemList t) index) (\<lambda>remote.
     let old = systemAddress remote
     in rbind (if \<not> is_null old then
                 rbind (rassert (\<not> isActive remote)) (\<lambda>_.
                 rbind (GetRemoteSystemIndex be old t) (\<lambda>found.
                   if found = Some index then DeRefRemoteSystem be old t else Inr t))
               else Inr t) (\<lambda>t.
        rbind (DeRefRemoteSystem be sa t) (\<lambda>t.
        rbind (put_at (remoteSystemList t) index (remote\<lparr>systemAddress := sa\<rparr>)) (\<lambda>rs.
        rbind (hash_index be (maxConnections t) sa) (\<lambda>hashindex.
        rbind (get_at (remoteSystemLookup t) hashindex) (\<lambda>chain.
          Inr (t\<lparr>remoteSystemList := rs,
                 remoteSystemLookup := (remoteSystemLookup t)[hashindex := chain @ [index]]\<rparr>)))))))"

section \<open>Finding an end point\<close>

fun find_endpoint :: "(remote_system \<Rightarrow> bool) \<Rightarrow> nat \<Rightarrow> remote_system list \<Rightarrow> nat option" where
  "find_endpoint p i [] = None"
| "find_endpoint p i (r # rs) = (if p r then Some i else find_endpoint p (Suc i) rs)"

text \<open>Active end points take priority over inactive ones of the same address.\<close>

definition GetRemoteSystem_address ::
  "bool \<Rightarrow> network_address \<Rightarrow> bool \<Rightarrow> bool \<Rightarrow> endpoints \<Rightarrow> nat option res" where
  "GetRemoteSystem_address be sa neededBySendThread onlyWantActiveEndPoint t =
     (if is_null sa then Inr None
      else if neededBySendThread then
        rbind (GetRemoteSystemIndex be sa t) (\<lambda>found.
          case found of
            None \<Rightarrow> Inr None
          | Some index \<Rightarrow>
              rbind (get_at (remoteSystemList t) index) (\<lambda>r.
                if \<not> onlyWantActiveEndPoint \<or> isActive r
                then rbind (rassert (address_eq (systemAddress r) sa)) (\<lambda>_. Inr (Some index))
                else Inr None))
      else
        case find_endpoint (\<lambda>r. address_eq (systemAddress r) sa \<and> isActive r) 0 (remoteSystemList t) of
          Some index \<Rightarrow> Inr (Some index)
        | None \<Rightarrow>
            (if onlyWantActiveEndPoint then Inr None
             else Inr (find_endpoint (\<lambda>r. address_eq (systemAddress r) sa) 0 (remoteSystemList t))))"

definition GetRemoteSystem_guid :: "guid \<Rightarrow> bool \<Rightarrow> endpoints \<Rightarrow> nat option" where
  "GetRemoteSystem_guid senderGUID onlyWantActiveEndPoint t =
     (if is_null_guid senderGUID then None
      else find_endpoint (\<lambda>r. guid_eq (rs_guid r) senderGUID \<and> (onlyWantActiveEndPoint = False \<or> isActive r))
             0 (remoteSystemList t))"

record guid_address_wrapper =
  w_guid :: guid
  w_systemAddress :: network_address

definition GetRemoteSystem_wrapper ::
  "bool \<Rightarrow> guid_address_wrapper \<Rightarrow> bool \<Rightarrow> bool \<Rightarrow> endpoints \<Rightarrow> nat option res" where
  "GetRemoteSystem_wrapper be w neededBySendThread onlyWantActiveEndPoint t =
     (if \<not> is_null_guid (w_guid w) then Inr (GetRemoteSystem_guid (w_guid w) onlyWantActiveEndPoint t)
      else GetRemoteSystem_address be (w_systemAddress w) neededBySendThread onlyWantActiveEndPoint t)"

definition GetRemoteSystem :: "bool \<Rightarrow> network_address \<Rightarrow> endpoints \<Rightarrow> nat option res" where
  "GetRemoteSystem be sa t = GetRemoteSystemIndex be sa t"

text \<open>The guid of an address; the place is remembered in the guid for the next time.\<close>

definition GetGuidFromSystemAddress :: "network_address \<Rightarrow> endpoints \<Rightarrow> guid \<times> endpoints" where
  "GetGuidFromSystemAddress input t =
     (if is_null input then (myGuid t, t)
      else
        let i = unat (systemIndex input); rs = remoteSystemList t
        in if systemIndex input \<noteq> -1 \<and> i < maxConnections t \<and> address_eq (systemAddress (rs ! i)) input
           then (rs_guid (rs ! i), t)
           else case find_endpoint (\<lambda>r. address_eq (systemAddress r) input) 0 rs of
                  Some j \<Rightarrow>
                    (let r = (rs ! j)\<lparr>rs_guid := (rs_guid (rs ! j))\<lparr>guid_systemIndex := of_nat j\<rparr>\<rparr>
                     in (rs_guid r, t\<lparr>remoteSystemList := rs[j := r]\<rparr>))
                | None \<Rightarrow> (JACKIE_NULL_GUID, t))"

text \<open>
  The general lookup counts with a 16-bit \<^verbatim>\<open>system_index_t\<close> against a 32-bit \<^verbatim>\<open>maxConnections\<close>: with
  more than \<open>65535\<close> connections the loop of an unsuccessful search starts again from 0, for ever.
\<close>

fun find_endpoint16 :: "nat \<Rightarrow> (remote_system \<Rightarrow> bool) \<Rightarrow> u16 \<Rightarrow> endpoints \<Rightarrow> nat option res" where
  "find_endpoint16 0 p i t = Inl OutOfFuel"
| "find_endpoint16 (Suc fuel) p i t =
     (if unat i < maxConnections t then
        rbind (get_at (remoteSystemList t) (unat i)) (\<lambda>r.
          if p r then Inr (Some (unat i)) else find_endpoint16 fuel p (i + 1) t)
      else Inr None)"

definition GetRemoteSystemIndexGeneral ::
  "bool \<Rightarrow> network_address \<Rightarrow> bool \<Rightarrow> endpoints \<Rightarrow> (nat option \<times> endpoints) res" where
  "GetRemoteSystemIndexGeneral be sa calledFromNetworkThread t =
     (if is_null sa then Inr (None, t)
      else
        let i = unat (systemIndex sa); rs = remoteSystemList t;
            mark = (\<lambda>j. t\<lparr>remoteSystemList := rs[j := (rs ! j)\<lparr>systemAddress :=
                       (systemAddress (rs ! j))\<lparr>systemIndex := of_nat j\<rparr>\<rparr>]\<rparr>)
        in if systemIndex sa \<noteq> -1 \<and> i < maxConnections t \<and> address_eq (systemAddress (rs ! i)) sa
             \<and> isActive (rs ! i)
           then Inr (Some i, t)
           else if calledFromNetworkThread then
             rbind (GetRemoteSystemIndex be sa t) (\<lambda>found. Inr (found, t))
           else
             rbind (find_endpoint16 65537 (\<lambda>r. address_eq (systemAddress r) sa \<and> isActive r) 0 t) (\<lambda>found.
               case found of
                 Some j \<Rightarrow> Inr (Some j, mark j)
               | None \<Rightarrow>
                   rbind (find_endpoint16 65537 (\<lambda>r. address_eq (systemAddress r) sa) 0 t) (\<lambda>found.
                     case found of
                       Some j \<Rightarrow> Inr (Some j, mark j)
                     | None \<Rightarrow> Inl NoReturnValue)))"

definition GetRemoteSystemIndexGeneral_guid :: "guid \<Rightarrow> endpoints \<Rightarrow> (nat option \<times> endpoints) res" where
  "GetRemoteSystemIndexGeneral_guid input t =
     (if is_null_guid input then Inr (None, t)
      else if guid_eq input (myGuid t) then Inr (None, t)
      else
        let i = unat (guid_systemIndex input); rs = remoteSystemList t
        in if guid_systemIndex input \<noteq> -1 \<and> i < maxConnections t \<and> guid_eq (rs_guid (rs ! i)) input
           then Inr (Some i, t)
           else rbind (find_endpoint16 65537 (\<lambda>r. guid_eq (rs_guid r) input) 0 t) (\<lambda>found.
             case found of
               Some j \<Rightarrow> Inr (Some j, t\<lparr>remoteSystemList :=
                   rs[j := (rs ! j)\<lparr>rs_guid := (rs_guid (rs ! j))\<lparr>guid_systemIndex := of_nat j\<rparr>\<rparr>]\<rparr>)
             | None \<Rightarrow> Inr (None, t)))"

section \<open>The addresses as keys\<close>

definition addr_key :: "network_address \<Rightarrow> u16 \<times> u32" where
  "addr_key sa = (sin_port sa, s_addr sa)"

abbreviation ipv4 :: "network_address \<Rightarrow> bool" where
  "ipv4 sa \<equiv> sin_family sa = AF_INET"

lemma address_eq_key: "ipv4 a \<Longrightarrow> address_eq a b \<longleftrightarrow> addr_key a = addr_key b"
  by (auto simp: address_eq_def EqualsExcludingPort_def addr_key_def)

lemma is_null_key: "ipv4 a \<Longrightarrow> is_null a \<longleftrightarrow> addr_key a = (0, 0)"
  by (simp add: address_eq_key) (simp add: addr_key_def JACKIE_NULL_ADDRESS_def address_default_def)

lemma null_ipv4 [simp]: "ipv4 JACKIE_NULL_ADDRESS" "addr_key JACKIE_NULL_ADDRESS = (0, 0)"
  by (simp_all add: JACKIE_NULL_ADDRESS_def address_default_def addr_key_def)

lemma hash_total: "\<exists>h. SuperFastHashIncremental (Some bs) (length bs) x = Inr h"
  by (simp add: SuperFastHashIncremental_def split: prod.splits)

text \<open>The hash is a function of the port and the address, below the size of the table.\<close>

lemma hash_index_ok:
  assumes "0 < maxConn" and "8 * maxConn < 2 ^ 32"
  shows "\<exists>h < 8 * maxConn. \<forall>sb. addr_key sb = addr_key sa \<longrightarrow> hash_index be maxConn sb = Inr h"
proof -
  have m: "sub32 (maxConn * RemoteEndPointLookupHashMutiple mod 2 ^ 32) 1 = 8 * maxConn - 1"
    using assms by (simp add: RemoteEndPointLookupHashMutiple_def sub32_small mult.commute)
  obtain h where h: "address_ToHashCode (mem_bytes be) (mem_bytes be) sa = Inr h"
  proof -
    obtain h1 where h1: "SuperFastHashIncremental (Some (mem_bytes be (sin_port sa))) 2 2 = Inr h1"
      using hash_total [of "mem_bytes be (sin_port sa)" 2] by (auto simp: bytes_of_type_def)
    obtain h2 where "SuperFastHashIncremental (Some (mem_bytes be (s_addr sa))) 4 h1 = Inr h2"
      using hash_total [of "mem_bytes be (s_addr sa)" h1] by (auto simp: bytes_of_type_def)
    then show ?thesis using h1 that by (simp add: address_ToHashCode_def)
  qed
  have "hash_index be maxConn sb = Inr (unat h mod (8 * maxConn - 1))" if "addr_key sb = addr_key sa" for sb
    using h that m by (simp add: hash_index_def address_ToHashCode_def addr_key_def)
  moreover have "unat h mod (8 * maxConn - 1) < 8 * maxConn"
    using assms(1) mod_less_divisor [of "8 * maxConn - 1" "unat h"] by linarith
  ultimately show ?thesis by blast
qed

section \<open>The invariant of the table\<close>

definition key_at :: "endpoints \<Rightarrow> nat \<Rightarrow> u16 \<times> u32" where
  "key_at t i = addr_key (systemAddress (remoteSystemList t ! i))"

definition chain_of :: "bool \<Rightarrow> endpoints \<Rightarrow> u16 \<times> u32 \<Rightarrow> nat list" where
  "chain_of be t k =
     (case hash_index be (maxConnections t) (JACKIE_NULL_ADDRESS\<lparr>sin_port := fst k, s_addr := snd k\<rparr>) of
        Inl _ \<Rightarrow> [] | Inr h \<Rightarrow> remoteSystemLookup t ! h)"

text \<open>
  Every place in a chain is in the chain its own address leads to, no two places of a chain have the
  same address, and the null address is in none.
\<close>

definition table_ok :: "bool \<Rightarrow> endpoints \<Rightarrow> bool" where
  "table_ok be t \<longleftrightarrow>
     0 < maxConnections t \<and> 8 * maxConnections t < 2 ^ 32 \<and>
     length (remoteSystemList t) = maxConnections t \<and>
     length (remoteSystemLookup t) = 8 * maxConnections t \<and>
     (\<forall>r \<in> set (remoteSystemList t). ipv4 (systemAddress r)) \<and>
     (\<forall>h < 8 * maxConnections t.
        distinct (remoteSystemLookup t ! h) \<and> inj_on (key_at t) (set (remoteSystemLookup t ! h)) \<and>
        (\<forall>i \<in> set (remoteSystemLookup t ! h). i < maxConnections t \<and> key_at t i \<noteq> (0, 0) \<and>
           hash_index be (maxConnections t) (systemAddress (remoteSystemList t ! i)) = Inr h))"

text \<open>The table as a map from addresses to places.\<close>

definition routes :: "bool \<Rightarrow> endpoints \<Rightarrow> u16 \<times> u32 \<Rightarrow> nat option" where
  "routes be t k = find (\<lambda>i. key_at t i = k) (chain_of be t k)"

lemma chain_of_key:
  assumes "table_ok be t"
  shows "\<exists>h < 8 * maxConnections t. (\<forall>sb. addr_key sb = k \<longrightarrow> hash_index be (maxConnections t) sb = Inr h)
    \<and> chain_of be t k = remoteSystemLookup t ! h"
proof -
  let ?sa = "JACKIE_NULL_ADDRESS\<lparr>sin_port := fst k, s_addr := snd k\<rparr>"
  have k: "addr_key ?sa = k" by (simp add: addr_key_def)
  obtain h where "h < 8 * maxConnections t"
      "\<forall>sb. addr_key sb = addr_key ?sa \<longrightarrow> hash_index be (maxConnections t) sb = Inr h"
    using hash_index_ok [of "maxConnections t" ?sa be] assms by (auto simp: table_ok_def)
  then show ?thesis using k by (auto simp: chain_of_def intro!: exI [of _ h])
qed

lemma key_eq_at: "table_ok be t \<Longrightarrow> i < maxConnections t \<Longrightarrow>
  address_eq (systemAddress (remoteSystemList t ! i)) sa \<longleftrightarrow> key_at t i = addr_key sa"
  by (simp add: table_ok_def key_at_def address_eq_key)

lemma chain_find_ok:
  "\<forall>i \<in> set chain. i < length rs \<Longrightarrow>
   chain_find rs sa chain = Inr (find (\<lambda>i. address_eq (systemAddress (rs ! i)) sa) chain)"
  by (induction chain) auto

lemma chain_unlink_ok:
  "\<forall>i \<in> set chain. i < length rs \<Longrightarrow> distinct chain \<Longrightarrow>
   inj_on f (set chain) \<Longrightarrow> \<forall>i \<in> set chain. address_eq (systemAddress (rs ! i)) sa \<longleftrightarrow> f i = k \<Longrightarrow>
   chain_unlink rs sa chain = Inr (filter (\<lambda>i. f i \<noteq> k) chain)"
proof (induction chain)
  case (Cons i chain)
  have "f j \<noteq> f i" if "j \<in> set chain" for j
    using Cons.prems(2,3) that by (metis distinct.simps(2) inj_onD list.set_intros)
  then have "filter (\<lambda>j. f j \<noteq> f i) chain = chain" by (intro filter_True) auto
  then show ?case using Cons by (auto simp: inj_on_def)
qed simp

lemma lookup_routes:
  assumes "table_ok be t"
  shows "GetRemoteSystemIndex be sa t = Inr (routes be t (addr_key sa))"
proof -
  obtain h where h: "h < 8 * maxConnections t" "hash_index be (maxConnections t) sa = Inr h"
      "chain_of be t (addr_key sa) = remoteSystemLookup t ! h"
    using chain_of_key [OF assms, of "addr_key sa"] by blast
  have i: "\<forall>i \<in> set (remoteSystemLookup t ! h). i < maxConnections t"
      "length (remoteSystemLookup t) = 8 * maxConnections t" "length (remoteSystemList t) = maxConnections t"
    using assms h(1) by (auto simp: table_ok_def)
  have "find (\<lambda>i. address_eq (systemAddress (remoteSystemList t ! i)) sa) (remoteSystemLookup t ! h)
      = find (\<lambda>i. key_at t i = addr_key sa) (remoteSystemLookup t ! h)"
    using i(1) key_eq_at [OF assms] by (intro find_cong) auto
  then show ?thesis using h i by (simp add: GetRemoteSystemIndex_def chain_find_ok routes_def)
qed

lemma find_inj: "inj_on f (set xs) \<Longrightarrow> find (\<lambda>i. f i = k) xs = Some i \<longleftrightarrow> i \<in> set xs \<and> f i = k"
  by (induction xs) auto

lemma routes_Some:
  assumes "table_ok be t"
  shows "routes be t k = Some i \<longleftrightarrow> (\<exists>h < 8 * maxConnections t. i \<in> set (remoteSystemLookup t ! h)) \<and> key_at t i = k"
proof -
  obtain h where h: "h < 8 * maxConnections t" "\<forall>sb. addr_key sb = k \<longrightarrow> hash_index be (maxConnections t) sb = Inr h"
      "chain_of be t k = remoteSystemLookup t ! h"
    using chain_of_key [OF assms, of k] by blast
  have inj: "inj_on (key_at t) (set (remoteSystemLookup t ! h))"
    using assms h(1) by (simp add: table_ok_def)
  have "h' = h" if "h' < 8 * maxConnections t" "i \<in> set (remoteSystemLookup t ! h')" "key_at t i = k" for h'
  proof -
    have "hash_index be (maxConnections t) (systemAddress (remoteSystemList t ! i)) = Inr h'"
      using assms that(1,2) by (auto simp: table_ok_def)
    moreover have "hash_index be (maxConnections t) (systemAddress (remoteSystemList t ! i)) = Inr h"
      using h(2) that(3) by (simp add: key_at_def)
    ultimately show ?thesis by simp
  qed
  moreover have "find (\<lambda>i. key_at t i = k) (remoteSystemLookup t ! h) = Some i
      \<longleftrightarrow> i \<in> set (remoteSystemLookup t ! h) \<and> key_at t i = k"
    using inj by (rule find_inj)
  ultimately show ?thesis using h by (auto simp: routes_def)
qed

text \<open>A place is linked when it is in some chain.\<close>

definition linked :: "endpoints \<Rightarrow> nat \<Rightarrow> bool" where
  "linked t i \<longleftrightarrow> (\<exists>h < 8 * maxConnections t. i \<in> set (remoteSystemLookup t ! h))"

lemma routes_iff: "table_ok be t \<Longrightarrow> routes be t k = Some i \<longleftrightarrow> linked t i \<and> key_at t i = k"
  by (simp add: routes_Some linked_def)

lemma linked_less: "table_ok be t \<Longrightarrow> linked t i \<Longrightarrow> i < maxConnections t \<and> key_at t i \<noteq> (0, 0)"
  by (auto simp: table_ok_def linked_def)

lemma routes_eqI: "(\<And>k i. f k = Some i \<longleftrightarrow> m k = Some i) \<Longrightarrow> f = (m :: 'k \<Rightarrow> 'v option)"
  by (rule ext) (metis option.exhaust)

lemma bucket_of_key:
  assumes "table_ok be t" and "h' < 8 * maxConnections t" and "i \<in> set (remoteSystemLookup t ! h')"
    and "\<forall>sb. addr_key sb = key_at t i \<longrightarrow> hash_index be (maxConnections t) sb = Inr h"
  shows "h' = h"
proof -
  have "hash_index be (maxConnections t) (systemAddress (remoteSystemList t ! i)) = Inr h'"
    using assms(1-3) by (auto simp: table_ok_def)
  then show ?thesis using assms(4) by (simp add: key_at_def)
qed

section \<open>Unlinking\<close>

lemma DeRefRemoteSystem_ok:
  assumes ok: "table_ok be t"
  shows "\<exists>lk. DeRefRemoteSystem be sa t = Inr (t\<lparr>remoteSystemLookup := lk\<rparr>)
    \<and> table_ok be (t\<lparr>remoteSystemLookup := lk\<rparr>)
    \<and> (\<forall>i. linked (t\<lparr>remoteSystemLookup := lk\<rparr>) i \<longleftrightarrow> linked t i \<and> key_at t i \<noteq> addr_key sa)"
proof -
  let ?k = "addr_key sa"
  obtain h where h: "h < 8 * maxConnections t"
      "\<forall>sb. addr_key sb = ?k \<longrightarrow> hash_index be (maxConnections t) sb = Inr h"
    using chain_of_key [OF ok, of ?k] by blast
  let ?chain = "remoteSystemLookup t ! h"
  define lk where "lk = (remoteSystemLookup t)[h := filter (\<lambda>i. key_at t i \<noteq> ?k) ?chain]"
  have b: "distinct ?chain" "inj_on (key_at t) (set ?chain)" "\<forall>i \<in> set ?chain. i < maxConnections t"
      "length (remoteSystemList t) = maxConnections t" "length (remoteSystemLookup t) = 8 * maxConnections t"
    using ok h(1) by (auto simp: table_ok_def)
  have "chain_unlink (remoteSystemList t) sa ?chain = Inr (filter (\<lambda>i. key_at t i \<noteq> ?k) ?chain)"
    using b key_eq_at [OF ok] by (intro chain_unlink_ok) auto
  then have run: "DeRefRemoteSystem be sa t = Inr (t\<lparr>remoteSystemLookup := lk\<rparr>)"
    using h b by (simp add: DeRefRemoteSystem_def lk_def)
  have nth: "lk ! h' = (if h' = h then filter (\<lambda>i. key_at t i \<noteq> ?k) ?chain else remoteSystemLookup t ! h')"
    if "h' < 8 * maxConnections t" for h'
    using that b by (simp add: lk_def)
  have len: "length lk = 8 * maxConnections t" using b by (simp add: lk_def)
  have key: "key_at (t\<lparr>remoteSystemLookup := lk\<rparr>) = key_at t"
    by (rule ext) (simp add: key_at_def)
  have sub: "set (lk ! h') \<subseteq> set (remoteSystemLookup t ! h')" "distinct (lk ! h')"
    if h': "h' < 8 * maxConnections t" for h'
    using nth [OF h'] ok h' by (auto simp: table_ok_def)
  have tok: "table_ok be (t\<lparr>remoteSystemLookup := lk\<rparr>)"
  proof -
    have "distinct (lk ! h') \<and> inj_on (key_at t) (set (lk ! h')) \<and> (\<forall>i \<in> set (lk ! h').
        i < maxConnections t \<and> key_at t i \<noteq> (0, 0) \<and>
        hash_index be (maxConnections t) (systemAddress (remoteSystemList t ! i)) = Inr h')"
      if h': "h' < 8 * maxConnections t" for h'
      using sub [OF h'] ok h' by (auto simp: table_ok_def intro: inj_on_subset)
    then show ?thesis using ok len unfolding table_ok_def key by simp
  qed
  have "linked (t\<lparr>remoteSystemLookup := lk\<rparr>) i \<longleftrightarrow> linked t i \<and> key_at t i \<noteq> ?k" for i
  proof -
    have "h' = h" if "h' < 8 * maxConnections t" "i \<in> set (remoteSystemLookup t ! h')" "key_at t i = ?k" for h'
      using bucket_of_key [OF ok that(1,2)] h(2) that(3) by simp
    then have "i \<in> set (lk ! h') \<longleftrightarrow> i \<in> set (remoteSystemLookup t ! h') \<and> key_at t i \<noteq> ?k"
      if "h' < 8 * maxConnections t" for h'
      using nth [OF that] that by auto
    then show ?thesis by (auto simp: linked_def)
  qed
  with run tok show ?thesis by blast
qed

lemma routes_after_unlink:
  assumes "table_ok be t" and "table_ok be t'"
    and "\<forall>i. linked t' i \<longleftrightarrow> linked t i \<and> key_at t i \<noteq> k" and "key_at t' = key_at t"
  shows "routes be t' = (routes be t)(k := None)"
  by (rule routes_eqI)
    (auto simp: routes_iff [OF assms(1)] routes_iff [OF assms(2)] assms(3)[rule_format] fun_cong [OF assms(4)])

lemma DeRefRemoteSystem_routes:
  assumes ok: "table_ok be t"
  shows "\<exists>t'. DeRefRemoteSystem be sa t = Inr t' \<and> table_ok be t' \<and>
    routes be t' = (routes be t)(addr_key sa := None) \<and> (\<forall>i. linked t' i \<longrightarrow> linked t i) \<and>
    remoteSystemList t' = remoteSystemList t \<and> maxConnections t' = maxConnections t \<and>
    t' = t\<lparr>remoteSystemLookup := remoteSystemLookup t'\<rparr>"
proof -
  obtain lk where lk: "DeRefRemoteSystem be sa t = Inr (t\<lparr>remoteSystemLookup := lk\<rparr>)"
      "table_ok be (t\<lparr>remoteSystemLookup := lk\<rparr>)"
      "\<forall>i. linked (t\<lparr>remoteSystemLookup := lk\<rparr>) i \<longleftrightarrow> linked t i \<and> key_at t i \<noteq> addr_key sa"
    using DeRefRemoteSystem_ok [OF ok] by blast
  have "key_at (t\<lparr>remoteSystemLookup := lk\<rparr>) = key_at t"
    by (rule ext) (simp add: key_at_def)
  from routes_after_unlink [OF ok lk(2,3) this] lk show ?thesis by auto
qed

section \<open>Linking\<close>

lemma link_ok:
  assumes ok: "table_ok be t" and i: "i < maxConnections t" "\<not> linked t i"
    and free: "routes be t (addr_key sa) = None" and sa: "ipv4 sa" "addr_key sa \<noteq> (0, 0)"
  shows "\<exists>h. hash_index be (maxConnections t) sa = Inr h \<and> h < length (remoteSystemLookup t) \<and>
    (let t' = t\<lparr>remoteSystemList := (remoteSystemList t)[i := r\<lparr>systemAddress := sa\<rparr>],
                remoteSystemLookup := (remoteSystemLookup t)[h := remoteSystemLookup t ! h @ [i]]\<rparr>
     in table_ok be t' \<and> routes be t' = (routes be t)(addr_key sa := Some i))"
proof -
  let ?k = "addr_key sa"
  obtain h where h: "h < 8 * maxConnections t"
      "\<forall>sb. addr_key sb = ?k \<longrightarrow> hash_index be (maxConnections t) sb = Inr h"
    using chain_of_key [OF ok, of ?k] by blast
  have len: "length (remoteSystemList t) = maxConnections t" "length (remoteSystemLookup t) = 8 * maxConnections t"
    using ok by (auto simp: table_ok_def)
  let ?t = "t\<lparr>remoteSystemList := (remoteSystemList t)[i := r\<lparr>systemAddress := sa\<rparr>],
                remoteSystemLookup := (remoteSystemLookup t)[h := remoteSystemLookup t ! h @ [i]]\<rparr>"
  have key: "key_at ?t j = (if j = i then ?k else key_at t j)" for j
    using i(1) len by (simp add: key_at_def)
  have nth: "remoteSystemLookup ?t ! h' = (if h' = h then remoteSystemLookup t ! h @ [i] else remoteSystemLookup t ! h')"
    if "h' < 8 * maxConnections t" for h'
    using that len by simp
  have no: "j \<noteq> i" "key_at t j \<noteq> ?k"
    if "h' < 8 * maxConnections t" "j \<in> set (remoteSystemLookup t ! h')" for j h'
  proof -
    have "linked t j" using that by (auto simp: linked_def)
    then show "j \<noteq> i" "key_at t j \<noteq> ?k"
      using i(2) free routes_iff [OF ok, of ?k j] by auto
  qed
  have bucket: "distinct (remoteSystemLookup ?t ! h')" "inj_on (key_at ?t) (set (remoteSystemLookup ?t ! h'))"
    if h': "h' < 8 * maxConnections t" for h'
  proof -
    have b: "distinct (remoteSystemLookup t ! h')" "inj_on (key_at t) (set (remoteSystemLookup t ! h'))"
      using ok h' by (auto simp: table_ok_def)
    show "distinct (remoteSystemLookup ?t ! h')" using b(1) nth [OF h'] no [OF h'] by auto
    show "inj_on (key_at ?t) (set (remoteSystemLookup ?t ! h'))"
      using b(2) nth [OF h'] no [OF h'] no(2) [OF h', symmetric] by (auto simp: key inj_on_def)
  qed
  have entry: "j < maxConnections t \<and> key_at ?t j \<noteq> (0, 0) \<and>
      hash_index be (maxConnections t) (systemAddress (remoteSystemList ?t ! j)) = Inr h'"
    if h': "h' < 8 * maxConnections t" and j: "j \<in> set (remoteSystemLookup ?t ! h')" for j h'
  proof (cases "j = i")
    case True
    then have "h' = h" using j nth [OF h'] no(1) [OF h', of i] by (auto split: if_splits)
    then show ?thesis using True i h(2) sa len by (simp add: key)
  next
    case False
    then have "j \<in> set (remoteSystemLookup t ! h')" using j nth [OF h'] by (auto split: if_splits)
    then show ?thesis using False ok h' len by (auto simp: table_ok_def key)
  qed
  have "\<forall>r \<in> set (remoteSystemList ?t). ipv4 (systemAddress r)"
    using ok sa(1) set_update_subset_insert [of "remoteSystemList t" i "r\<lparr>systemAddress := sa\<rparr>"]
    by (auto simp: table_ok_def)
  then have tok: "table_ok be ?t"
    using ok bucket entry unfolding table_ok_def by simp
  have lk: "linked ?t j \<longleftrightarrow> linked t j \<or> j = i" for j
    using nth h(1) by (auto simp: linked_def split: if_splits)
  have "key_at t j \<noteq> ?k" if "linked t j" for j
    using that free routes_iff [OF ok, of ?k j] by auto
  then have "routes be ?t = (routes be t)(?k := Some i)"
    using i(2) by (intro routes_eqI) (auto simp: routes_iff [OF ok] routes_iff [OF tok] lk key simp del: fun_upd_apply simp: fun_upd_def)
  then show ?thesis using h tok len by (intro exI [of _ h]) (simp add: Let_def)
qed

lemma RefRemoteEndPoint_ok:
  assumes ok: "table_ok be t" and i: "i < maxConnections t" "\<not> isActive (remoteSystemList t ! i)"
    and sa: "ipv4 sa" "addr_key sa \<noteq> (0, 0)"
  shows "\<exists>lk. let t' = t\<lparr>remoteSystemList := (remoteSystemList t)[i := (remoteSystemList t ! i)\<lparr>systemAddress := sa\<rparr>],
                        remoteSystemLookup := lk\<rparr>
    in RefRemoteEndPoint be sa i t = Inr t' \<and> table_ok be t' \<and>
       routes be t' = (\<lambda>k. if k = addr_key sa then Some i
                           else if routes be t k = Some i then None else routes be t k)"
proof -
  let ?r = "remoteSystemList t ! i"
  have len: "length (remoteSystemList t) = maxConnections t" and v4: "ipv4 (systemAddress ?r)"
    using ok i(1) by (auto simp: table_ok_def)
  have key: "addr_key (systemAddress ?r) = key_at t i" by (simp add: key_at_def)
  have step1: "\<exists>lk. let t1 = t\<lparr>remoteSystemLookup := lk\<rparr>
    in (if \<not> is_null (systemAddress ?r) then
          rbind (rassert (\<not> isActive ?r)) (\<lambda>_.
          rbind (GetRemoteSystemIndex be (systemAddress ?r) t) (\<lambda>found.
            if found = Some i then DeRefRemoteSystem be (systemAddress ?r) t else Inr t))
        else Inr t) = Inr t1 \<and> table_ok be t1 \<and> \<not> linked t1 i \<and>
       routes be t1 = (\<lambda>k. if routes be t k = Some i then None else routes be t k)"
  proof (cases "linked t i")
    case True
    then have r: "routes be t (key_at t i) = Some i" "key_at t i \<noteq> (0, 0)"
      using routes_iff [OF ok] linked_less [OF ok] by auto
    obtain lk where lk: "DeRefRemoteSystem be (systemAddress ?r) t = Inr (t\<lparr>remoteSystemLookup := lk\<rparr>)"
        "table_ok be (t\<lparr>remoteSystemLookup := lk\<rparr>)"
        "\<forall>j. linked (t\<lparr>remoteSystemLookup := lk\<rparr>) j \<longleftrightarrow> linked t j \<and> key_at t j \<noteq> key_at t i"
      using DeRefRemoteSystem_ok [OF ok, of "systemAddress ?r"] by (auto simp: key)
    have "key_at (t\<lparr>remoteSystemLookup := lk\<rparr>) = key_at t" by (rule ext) (simp add: key_at_def)
    from routes_after_unlink [OF ok lk(2,3) this]
    have "routes be (t\<lparr>remoteSystemLookup := lk\<rparr>) = (\<lambda>k. if routes be t k = Some i then None else routes be t k)"
      using r(1) routes_iff [OF ok] by (auto simp: fun_eq_iff)
    then show ?thesis
      using lk r i(2) v4 by (intro exI [of _ lk]) (simp add: Let_def lookup_routes [OF ok] key is_null_key)
  next
    case False
    then have none: "routes be t k \<noteq> Some i" for k using routes_iff [OF ok] by auto
    then show ?thesis
      using False ok i(2)
      by (intro exI [of _ "remoteSystemLookup t"]) (simp add: Let_def lookup_routes [OF ok])
  qed
  define first where "first = (if \<not> is_null (systemAddress ?r) then
          rbind (rassert (\<not> isActive ?r)) (\<lambda>_.
          rbind (GetRemoteSystemIndex be (systemAddress ?r) t) (\<lambda>found.
            if found = Some i then DeRefRemoteSystem be (systemAddress ?r) t else Inr t))
        else Inr t)"
  obtain l1 where s1: "first = Inr (t\<lparr>remoteSystemLookup := l1\<rparr>)"
      "table_ok be (t\<lparr>remoteSystemLookup := l1\<rparr>)" "\<not> linked (t\<lparr>remoteSystemLookup := l1\<rparr>) i"
      "routes be (t\<lparr>remoteSystemLookup := l1\<rparr>) = (\<lambda>k. if routes be t k = Some i then None else routes be t k)"
    using step1 unfolding first_def Let_def by blast
  let ?t1 = "t\<lparr>remoteSystemLookup := l1\<rparr>"
  obtain t2 where t2: "DeRefRemoteSystem be sa ?t1 = Inr t2" "table_ok be t2"
      "routes be t2 = (routes be ?t1)(addr_key sa := None)" "\<forall>j. linked t2 j \<longrightarrow> linked ?t1 j"
      "remoteSystemList t2 = remoteSystemList ?t1" "maxConnections t2 = maxConnections ?t1"
      "t2 = ?t1\<lparr>remoteSystemLookup := remoteSystemLookup t2\<rparr>"
    using DeRefRemoteSystem_routes [OF s1(2), of sa] by auto
  obtain h where h: "hash_index be (maxConnections t2) sa = Inr h" "h < length (remoteSystemLookup t2)"
    and t3: "let t' = t2\<lparr>remoteSystemList := (remoteSystemList t2)[i := ?r\<lparr>systemAddress := sa\<rparr>],
                remoteSystemLookup := (remoteSystemLookup t2)[h := remoteSystemLookup t2 ! h @ [i]]\<rparr>
     in table_ok be t' \<and> routes be t' = (routes be t2)(addr_key sa := Some i)"
    using link_ok [OF t2(2) _ _ _ sa, of i ?r] t2 i s1(3) by auto
  have t2': "t2\<lparr>remoteSystemList := rs, remoteSystemLookup := l\<rparr> = t\<lparr>remoteSystemList := rs, remoteSystemLookup := l\<rparr>"
    for rs l by (subst t2(7)) simp
  have "RefRemoteEndPoint be sa i t = rbind first (\<lambda>t.
        rbind (DeRefRemoteSystem be sa t) (\<lambda>t.
        rbind (put_at (remoteSystemList t) i (?r\<lparr>systemAddress := sa\<rparr>)) (\<lambda>rs.
        rbind (hash_index be (maxConnections t) sa) (\<lambda>hashindex.
        rbind (get_at (remoteSystemLookup t) hashindex) (\<lambda>chain.
          Inr (t\<lparr>remoteSystemList := rs,
                 remoteSystemLookup := (remoteSystemLookup t)[hashindex := chain @ [i]]\<rparr>))))))"
    using i(1) len by (simp add: RefRemoteEndPoint_def Let_def first_def)
  also have "\<dots> = Inr (t\<lparr>remoteSystemList := (remoteSystemList t)[i := ?r\<lparr>systemAddress := sa\<rparr>],
                remoteSystemLookup := (remoteSystemLookup t2)[h := remoteSystemLookup t2 ! h @ [i]]\<rparr>)"
    using s1(1) t2(1,5) h i(1) len by (simp add: t2')
  finally show ?thesis
    using t3 t2(3,5) s1(4)
    by (intro exI [of _ "(remoteSystemLookup t2)[h := remoteSystemLookup t2 ! h @ [i]]"])
      (simp add: Let_def t2' fun_eq_iff)
qed

section \<open>The table as its clients see it\<close>

text \<open>The links made one after the other.\<close>

fun ref_all :: "('a \<Rightarrow> nat \<Rightarrow> 't \<Rightarrow> 't res) \<Rightarrow> ('a \<times> nat) list \<Rightarrow> 't \<Rightarrow> 't res" where
  "ref_all ref [] t = Inr t"
| "ref_all ref ((a, i) # xs) t = rbind (ref a i t) (ref_all ref xs)"

locale address_table =
  fixes inv :: "'t \<Rightarrow> bool" and route :: "'t \<Rightarrow> 'k \<Rightarrow> nat option" and key :: "'a \<Rightarrow> 'k"
    and lookup :: "'a \<Rightarrow> 't \<Rightarrow> nat option res" and unref :: "'a \<Rightarrow> 't \<Rightarrow> 't res"
    and ref :: "'a \<Rightarrow> nat \<Rightarrow> 't \<Rightarrow> 't res"
    and usable :: "'t \<Rightarrow> nat \<Rightarrow> bool" and valid :: "'a \<Rightarrow> bool"
  assumes lookup_route: "inv t \<Longrightarrow> lookup a t = Inr (route t (key a))"
    and unref_route: "inv t \<Longrightarrow> \<exists>t'. unref a t = Inr t' \<and> inv t' \<and> usable t' = usable t \<and>
                        route t' = (route t)(key a := None)"
    and ref_route: "inv t \<Longrightarrow> usable t i \<Longrightarrow> valid a \<Longrightarrow>
                      \<exists>t'. ref a i t = Inr t' \<and> inv t' \<and> usable t' = usable t \<and>
                        route t' = (\<lambda>k. if k = key a then Some i
                                        else if route t k = Some i then None else route t k)"
begin

lemma unref_lookup:
  assumes "inv t"
  shows "\<exists>t'. unref a t = Inr t' \<and> inv t' \<and> lookup a t' = Inr None
    \<and> (\<forall>b. key b \<noteq> key a \<longrightarrow> lookup b t' = lookup b t)"
proof -
  obtain t' where "unref a t = Inr t'" "inv t'" "route t' = (route t)(key a := None)"
    using unref_route [OF assms] by blast
  then show ?thesis using assms by (intro exI [of _ t']) (simp add: lookup_route)
qed

lemma ref_all_route:
  "inv t \<Longrightarrow> \<forall>(a, i) \<in> set xs. usable t i \<and> valid a \<Longrightarrow> distinct (map (\<lambda>(a, i). key a) xs) \<Longrightarrow>
   distinct (map snd xs) \<Longrightarrow>
   \<exists>t'. ref_all ref xs t = Inr t' \<and> inv t' \<and> (\<forall>(a, i) \<in> set xs. route t' (key a) = Some i) \<and>
     (\<forall>k i. route t k = Some i \<longrightarrow> k \<notin> set (map (\<lambda>(a, i). key a) xs) \<longrightarrow> i \<notin> set (map snd xs) \<longrightarrow>
        route t' k = Some i)"
proof (induction xs arbitrary: t)
  case (Cons x xs)
  obtain a i where x: "x = (a, i)" by (cases x)
  obtain t1 where t1: "ref a i t = Inr t1" "inv t1" "usable t1 = usable t"
      "route t1 = (\<lambda>k. if k = key a then Some i else if route t k = Some i then None else route t k)"
    using ref_route [of t i a] Cons.prems(1,2) x by auto
  obtain t' where t': "ref_all ref xs t1 = Inr t'" "inv t'" "\<forall>(a, i) \<in> set xs. route t' (key a) = Some i"
      "\<forall>k i. route t1 k = Some i \<longrightarrow> k \<notin> set (map (\<lambda>(a, i). key a) xs) \<longrightarrow> i \<notin> set (map snd xs) \<longrightarrow>
        route t' k = Some i"
    using Cons.IH [OF t1(2)] Cons.prems(2-4) t1(3) x by auto
  have "route t' (key a) = Some i"
    using t'(4) t1(4) Cons.prems(3,4) x by auto
  moreover have "route t' k = Some j" if "route t k = Some j" "k \<notin> set (map (\<lambda>(a, i). key a) (x # xs))"
      "j \<notin> set (map snd (x # xs))" for k j
    using t'(4) t1(4) that x by auto
  ultimately show ?case using t1(1) t'(1-3) x by (intro exI [of _ t']) auto
qed simp

lemma ref_all_lookup:
  assumes "inv t" and "\<forall>(a, i) \<in> set xs. usable t i \<and> valid a"
    and "distinct (map (\<lambda>(a, i). key a) xs)" and "distinct (map snd xs)"
  shows "\<exists>t'. ref_all ref xs t = Inr t' \<and> inv t' \<and> (\<forall>(a, i) \<in> set xs. lookup a t' = Inr (Some i))"
  using ref_all_route [OF assms] lookup_route by fastforce

end

definition usable_slot :: "endpoints \<Rightarrow> nat \<Rightarrow> bool" where
  "usable_slot t i \<longleftrightarrow> i < maxConnections t \<and> \<not> isActive (remoteSystemList t ! i)"

definition valid_address :: "network_address \<Rightarrow> bool" where
  "valid_address a \<longleftrightarrow> ipv4 a \<and> addr_key a \<noteq> (0, 0)"

lemma usable_slot_readdress:
  "length (remoteSystemList t) = maxConnections t \<Longrightarrow>
   usable_slot (t\<lparr>remoteSystemList := (remoteSystemList t)[i := (remoteSystemList t ! i)\<lparr>systemAddress := a\<rparr>],
                 remoteSystemLookup := lk\<rparr>) = usable_slot t"
  unfolding usable_slot_def
proof (rule ext)
  fix j assume "length (remoteSystemList t) = maxConnections t"
  then show "(j < maxConnections (t\<lparr>remoteSystemList := (remoteSystemList t)[i := (remoteSystemList t ! i)\<lparr>systemAddress := a\<rparr>],
        remoteSystemLookup := lk\<rparr>) \<and> \<not> isActive (remoteSystemList (t\<lparr>remoteSystemList :=
        (remoteSystemList t)[i := (remoteSystemList t ! i)\<lparr>systemAddress := a\<rparr>], remoteSystemLookup := lk\<rparr>) ! j))
     = (j < maxConnections t \<and> \<not> isActive (remoteSystemList t ! j))"
    by (cases "j = i") (auto cong: conj_cong)
qed

interpretation remote_table:
  address_table "table_ok be" "routes be" addr_key "GetRemoteSystemIndex be" "DeRefRemoteSystem be"
    "RefRemoteEndPoint be" usable_slot valid_address for be
proof unfold_locales
  fix t a i
  show "table_ok be t \<Longrightarrow> GetRemoteSystemIndex be a t = Inr (routes be t (addr_key a))"
    by (rule lookup_routes)
  show "\<exists>t'. DeRefRemoteSystem be a t = Inr t' \<and> table_ok be t' \<and> usable_slot t' = usable_slot t \<and>
      routes be t' = (routes be t)(addr_key a := None)" if ok: "table_ok be t"
  proof -
    obtain t' where t': "DeRefRemoteSystem be a t = Inr t'" "table_ok be t'"
        "routes be t' = (routes be t)(addr_key a := None)" "remoteSystemList t' = remoteSystemList t"
        "maxConnections t' = maxConnections t"
      using DeRefRemoteSystem_routes [OF ok, of a] by blast
    then have "usable_slot t' = usable_slot t" by (simp add: usable_slot_def fun_eq_iff)
    then show ?thesis using t' by blast
  qed
  show "\<exists>t'. RefRemoteEndPoint be a i t = Inr t' \<and> table_ok be t' \<and> usable_slot t' = usable_slot t \<and>
      routes be t' = (\<lambda>k. if k = addr_key a then Some i
                          else if routes be t k = Some i then None else routes be t k)"
    if ok: "table_ok be t" and us: "usable_slot t i" "valid_address a"
  proof -
    have i: "i < maxConnections t" "\<not> isActive (remoteSystemList t ! i)" "ipv4 a" "addr_key a \<noteq> (0, 0)"
      using us by (auto simp: usable_slot_def valid_address_def)
    have "length (remoteSystemList t) = maxConnections t" using ok by (simp add: table_ok_def)
    then show ?thesis
      using RefRemoteEndPoint_ok [OF ok i] usable_slot_readdress by (metis (no_types, lifting))
  qed
qed

section \<open>A new table\<close>

lemma setup_connections_ok:
  assumes "maxConnections t = 0" and "0 < n" and "8 * n < 2 ^ 32"
  shows "table_ok be (setup_connections n raw t)" "routes be (setup_connections n raw t) = Map.empty"
    "\<forall>i < n. usable_slot (setup_connections n raw t) i"
proof -
  have lk: "remoteSystemLookup (setup_connections n raw t) = replicate (8 * n) []"
    using assms by (simp add: setup_connections_def RemoteEndPointLookupHashMutiple_def mult.commute)
  show ok: "table_ok be (setup_connections n raw t)"
    using assms by (auto simp: table_ok_def lk) (auto simp: setup_connections_def endpoint_init_def)
  show "routes be (setup_connections n raw t) = Map.empty"
  proof (rule routes_eqI)
    have "maxConnections (setup_connections n raw t) = n" using assms by (simp add: setup_connections_def)
    then show "routes be (setup_connections n raw t) k = Some i \<longleftrightarrow> Map.empty k = Some i" for k i
      by (simp add: routes_iff [OF ok] linked_def lk)
  qed
  show "\<forall>i < n. usable_slot (setup_connections n raw t) i"
    using assms by (simp add: usable_slot_def setup_connections_def endpoint_init_def)
qed

end
