(* ===== verification/Connection_Slots.thy ===== *)
theory Connection_Slots
  imports Remote_Systems
begin

text \<open>
  How an end point gets its place: \<^verbatim>\<open>Add2RemoteSystemList\<close> of \<^verbatim>\<open>src/geco_application.cpp\<close> with the
  functions around it. The clock is an argument, a bound socket the place of it among
  \<^verbatim>\<open>bindedSockets\<close>, whose bound addresses are the list \<open>bound\<close>.
\<close>

section \<open>Operations\<close>

definition MAX_COUNT_LOCAL_IP_ADDR :: nat where
  "MAX_COUNT_LOCAL_IP_ADDR = 10"

definition MAXIMUM_MTU_SIZE :: nat where
  "MAXIMUM_MTU_SIZE = 1492"

definition PING_TIMES_ARRAY_SIZE :: nat where
  "PING_TIMES_ARRAY_SIZE = 5"

definition GetIncomingConnectionsCount :: "endpoints \<Rightarrow> nat res" where
  "GetIncomingConnectionsCount t =
     (if remoteSystemList t = [] \<or> endThreads t then Inr 0
      else if activeSystemListSize t \<le> length (activeSystemList t)
           then Inr (length (filter (\<lambda>i. let r = remoteSystemList t ! i
                       in isActive r \<and> connectMode r = CONNECTED \<and> weInitiateConnection r = False)
                     (take (activeSystemListSize t) (activeSystemList t))))
           else Inl OutOfBounds)"

definition CanAcceptIncomingConnection :: "endpoints \<Rightarrow> bool res" where
  "CanAcceptIncomingConnection t =
     rbind (GetIncomingConnectionsCount t) (\<lambda>n. Inr (n < maxConnections t))"

definition AddToActiveSystemList :: "nat \<Rightarrow> endpoints \<Rightarrow> endpoints res" where
  "AddToActiveSystemList index2use t =
     rbind (put_at (activeSystemList t) (activeSystemListSize t) index2use) (\<lambda>l.
       Inr (t\<lparr>activeSystemList := l, activeSystemListSize := activeSystemListSize t + 1\<rparr>))"

text \<open>The local addresses up to the first null address.\<close>

definition local_addrs :: "endpoints \<Rightarrow> network_address list" where
  "local_addrs t = takeWhile (\<lambda>a. \<not> is_null a) (take MAX_COUNT_LOCAL_IP_ADDR (localIPAddrs t))"

definition IsLoopbackAddress :: "guid_address_wrapper \<Rightarrow> bool \<Rightarrow> endpoints \<Rightarrow> bool" where
  "IsLoopbackAddress systemIdentifier matchPort t =
     (if \<not> is_null_guid (w_guid systemIdentifier) then guid_eq (w_guid systemIdentifier) (myGuid t)
      else
        (\<exists>a \<in> set (local_addrs t).
           if matchPort then address_eq a (w_systemAddress systemIdentifier)
           else EqualsExcludingPort a (w_systemAddress systemIdentifier))
        \<or> (matchPort \<and> address_eq (w_systemAddress systemIdentifier) (firstExternalID t))
        \<or> (\<not> matchPort \<and> EqualsExcludingPort (w_systemAddress systemIdentifier) (firstExternalID t)))"

definition wrapper_of :: "network_address \<Rightarrow> guid_address_wrapper" where
  "wrapper_of a = \<lparr>w_guid = JACKIE_NULL_GUID, w_systemAddress = a\<rparr>"

text \<open>
  The test for a client that has connected less than 100 milliseconds ago. The time is cut to 32 bits and compared in 64.
\<close>

definition floods :: "u32 \<Rightarrow> network_address \<Rightarrow> endpoints \<Rightarrow> bool" where
  "floods time sender t \<longleftrightarrow>
     limitConnFrequencyOfSameClient t \<and> \<not> IsLoopbackAddress (wrapper_of sender) False t \<and>
     (\<exists>r \<in> set (remoteSystemList t).
        isActive r = True \<and> EqualsExcludingPort (systemAddress r) sender \<and>
        ucast time \<ge> connectionTime r \<and> ucast time - connectionTime r < 100)"

text \<open>The choice of the socket to answer with; without a match the field stays as it is.\<close>

definition choose_socket :: "network_address list \<Rightarrow> nat \<Rightarrow> network_address \<Rightarrow> endpoints \<Rightarrow> nat \<Rightarrow> nat" where
  "choose_socket bound local recvivedBoundAddrFromClient t old =
     (if address_eq (bound ! local) recvivedBoundAddrFromClient then local
      else if \<exists>a \<in> set (local_addrs t). EqualsExcludingPort recvivedBoundAddrFromClient a
           then case find (\<lambda>j. address_eq (bound ! j) recvivedBoundAddrFromClient) [0..<length bound] of
                  Some j \<Rightarrow> j | None \<Rightarrow> old
           else local)"

text \<open>What the loop of \<^verbatim>\<open>Add2RemoteSystemList\<close> does with the first inactive slot.\<close>

definition activate_slot ::
  "bool \<Rightarrow> u32 \<Rightarrow> network_address list \<Rightarrow> nat \<Rightarrow> nat \<Rightarrow> network_address \<Rightarrow> guid \<Rightarrow> network_address \<Rightarrow>
     nat \<Rightarrow> endpoints \<Rightarrow> endpoints res" where
  "activate_slot be time bound local mtu recvivedBoundAddrFromClient gd sender index2use t =
     rbind (RefRemoteEndPoint be sender index2use t) (\<lambda>t.
     rbind (get_at (remoteSystemList t) index2use) (\<lambda>r.
     rbind (if int mtu > defaultMTUSize t
            then rbind (rassert (mtu \<le> MAXIMUM_MTU_SIZE)) (\<lambda>_. Inr (int mtu))
            else Inr (defaultMTUSize t)) (\<lambda>mtusize.
     rbind (AddToActiveSystemList index2use t) (\<lambda>t.
       Inr (t\<lparr>remoteSystemList := (remoteSystemList t)[index2use :=
         r\<lparr>rs_guid := gd, MTUSize := mtusize, isActive := True,
           socket2use := choose_socket bound local recvivedBoundAddrFromClient t (socket2use r),
           pingAndClockDifferential := replicate PING_TIMES_ARRAY_SIZE (65535, 0),
           connectMode := UNVERIFIED_SENDER, pingAndClockDifferentialWriteIndex := 0, lowestPing := 65535,
           nextPingTime := 0, weInitiateConnection := False, connectionTime := ucast time,
           myExternalSystemAddress := JACKIE_NULL_ADDRESS, lastReliableSend := ucast time\<rparr>]\<rparr>)))))"

text \<open>
  The result: the state, the pointer \<^verbatim>\<open>free_rs\<close> (\<open>Some None\<close> is the null pointer, \<open>None\<close> the value
  it had before), whether the client floods, and the bound address with its port replaced.
\<close>

definition Add2RemoteSystemList ::
  "bool \<Rightarrow> u32 \<Rightarrow> network_address list \<Rightarrow> nat \<Rightarrow> nat \<Rightarrow> network_address \<Rightarrow> guid \<Rightarrow> network_address \<Rightarrow>
     endpoints \<Rightarrow> (endpoints \<times> nat option option \<times> bool \<times> network_address) res" where
  "Add2RemoteSystemList be time bound local mtu recvivedBoundAddrFromClient gd sender t =
     (let thisIPFloodsConnRequest = floods time sender t;
          free_rs = (if thisIPFloodsConnRequest then Some None else None)
      in rbind (get_at bound local) (\<lambda>b.
         let recvd = SetPortNetworkOrder be (GetPortNetworkOrder b) recvivedBoundAddrFromClient
         in case find_endpoint (\<lambda>r. isActive r = False) 0 (remoteSystemList t) of
              None \<Rightarrow> Inr (t, free_rs, thisIPFloodsConnRequest, recvd)
            | Some index2use \<Rightarrow>
                rbind (activate_slot be time bound local mtu recvd gd sender index2use t) (\<lambda>t.
                  Inr (t, Some (Some index2use), thisIPFloodsConnRequest, recvd))))"

text \<open>
  The command \<^verbatim>\<open>BCS_CHANGE_SYSTEM_ADDRESS\<close> of the network thread. The place of the end point is looked up
  again by its address; \<^verbatim>\<open>-1\<close> then becomes an index outside the list.
\<close>

definition change_system_address :: "bool \<Rightarrow> guid_address_wrapper \<Rightarrow> endpoints \<Rightarrow> endpoints res" where
  "change_system_address be systemIdentifier t =
     rbind (GetRemoteSystem_wrapper be systemIdentifier True True t) (\<lambda>remoteEndPoint.
       case remoteEndPoint of
         None \<Rightarrow> Inr t
       | Some i \<Rightarrow>
           rbind (get_at (remoteSystemList t) i) (\<lambda>r.
           rbind (GetRemoteSystemIndex be (systemAddress r) t) (\<lambda>existingSystemIndex.
             RefRemoteEndPoint be (w_systemAddress systemIdentifier)
               (case existingSystemIndex of Some j \<Rightarrow> j | None \<Rightarrow> 2 ^ 32 - 1) t)))"

section \<open>The invariant of the end points\<close>

text \<open>
  Every active end point is linked, and the first \<^verbatim>\<open>activeSystemListSize\<close> pointers of
  \<^verbatim>\<open>activeSystemList\<close> are the active end points, each once.
\<close>

definition endpoints_ok :: "bool \<Rightarrow> endpoints \<Rightarrow> bool" where
  "endpoints_ok be t \<longleftrightarrow>
     table_ok be t \<and> length (activeSystemList t) = maxConnections t \<and>
     activeSystemListSize t \<le> maxConnections t \<and>
     distinct (take (activeSystemListSize t) (activeSystemList t)) \<and>
     set (take (activeSystemListSize t) (activeSystemList t))
       = {i. i < maxConnections t \<and> isActive (remoteSystemList t ! i)} \<and>
     (\<forall>i < maxConnections t. isActive (remoteSystemList t ! i) \<longrightarrow> routes be t (key_at t i) = Some i)"

lemma find_endpoint_Some:
  "find_endpoint p i rs = Some j \<Longrightarrow> i \<le> j \<and> j - i < length rs \<and> p (rs ! (j - i)) \<and>
     (\<forall>k < j - i. \<not> p (rs ! k))"
proof (induction rs arbitrary: i)
  case (Cons r rs)
  show ?case
  proof (cases "p r")
    case False
    then have "Suc i \<le> j \<and> j - Suc i < length rs \<and> p (rs ! (j - Suc i)) \<and> (\<forall>k < j - Suc i. \<not> p (rs ! k))"
      using Cons by simp
    moreover from this have "j - i = Suc (j - Suc i)" by auto
    ultimately show ?thesis using False by (auto simp: nth_Cons split: nat.splits)
  qed (use Cons.prems in auto)
qed simp

lemma find_endpoint_None: "find_endpoint p i rs = None \<longleftrightarrow> (\<forall>r \<in> set rs. \<not> p r)"
  by (induction rs arbitrary: i) auto

lemma find_endpoint_0:
  "find_endpoint p 0 rs = Some j \<Longrightarrow> j < length rs \<and> p (rs ! j)"
  using find_endpoint_Some [of p 0 rs j] by simp

text \<open>Fields the table does not look at.\<close>

lemma key_at_cong:
  "length rs = length (remoteSystemList t) \<Longrightarrow> i < length rs \<Longrightarrow>
   systemAddress (rs ! i) = systemAddress (remoteSystemList t ! i) \<Longrightarrow>
   key_at (t\<lparr>remoteSystemList := rs\<rparr>) i = key_at t i"
  by (simp add: key_at_def)

lemma table_ok_update:
  assumes ok: "table_ok be t" and i: "i < maxConnections t"
    and r: "systemAddress r = systemAddress (remoteSystemList t ! i)"
  shows "table_ok be (t\<lparr>remoteSystemList := (remoteSystemList t)[i := r]\<rparr>)"
    and "routes be (t\<lparr>remoteSystemList := (remoteSystemList t)[i := r]\<rparr>) = routes be t"
    and "key_at (t\<lparr>remoteSystemList := (remoteSystemList t)[i := r]\<rparr>) = key_at t"
proof -
  let ?t = "t\<lparr>remoteSystemList := (remoteSystemList t)[i := r]\<rparr>"
  have len: "length (remoteSystemList t) = maxConnections t" using ok by (simp add: table_ok_def)
  have addr: "systemAddress ((remoteSystemList t)[i := r] ! j) = systemAddress (remoteSystemList t ! j)" for j
    using r i len by (cases "j = i") simp_all
  show key: "key_at ?t = key_at t" by (rule ext) (simp add: key_at_def addr)
  have "ipv4 (systemAddress r)" using ok i len r by (auto simp: table_ok_def)
  then have "\<forall>r \<in> set (remoteSystemList ?t). ipv4 (systemAddress r)"
    using ok set_update_subset_insert [of "remoteSystemList t" i r] by (auto simp: table_ok_def)
  then show tok: "table_ok be ?t"
    using ok len unfolding table_ok_def key by (simp add: addr)
  show "routes be ?t = routes be t"
    by (rule routes_eqI) (simp add: routes_iff [OF ok] routes_iff [OF tok] key linked_def)
qed

section \<open>A place for a new end point\<close>

lemma active_count_less:
  assumes ok: "endpoints_ok be t" and i: "i < maxConnections t" "\<not> isActive (remoteSystemList t ! i)"
  shows "activeSystemListSize t < maxConnections t"
proof -
  let ?act = "take (activeSystemListSize t) (activeSystemList t)"
  have "card (set ?act) = length ?act"
    by (rule distinct_card) (use ok in \<open>simp add: endpoints_ok_def\<close>)
  then have "activeSystemListSize t = card (set ?act)" using ok by (simp add: endpoints_ok_def)
  also have "\<dots> \<le> card ({..<maxConnections t} - {i})"
    using ok i(2) by (intro card_mono) (auto simp: endpoints_ok_def)
  also have "\<dots> < maxConnections t" using i(1) by simp
  finally show ?thesis .
qed

lemma activate_slot_ok:
  assumes ok: "endpoints_ok be t" and i: "i < maxConnections t" "\<not> isActive (remoteSystemList t ! i)"
    and sender: "valid_address sender" and mtu: "mtu \<le> MAXIMUM_MTU_SIZE"
    and new: "\<forall>j < maxConnections t. isActive (remoteSystemList t ! j) \<longrightarrow> key_at t j \<noteq> addr_key sender"
  shows "\<exists>t'. activate_slot be time bound local mtu recvd gd sender i t = Inr t' \<and> endpoints_ok be t' \<and>
    maxConnections t' = maxConnections t \<and> activeSystemListSize t' = activeSystemListSize t + 1 \<and>
    routes be t' (addr_key sender) = Some i \<and>
    (\<forall>j < maxConnections t. j \<noteq> i \<longrightarrow> remoteSystemList t' ! j = remoteSystemList t ! j) \<and>
    isActive (remoteSystemList t' ! i) \<and> systemAddress (remoteSystemList t' ! i) = sender \<and>
    connectMode (remoteSystemList t' ! i) = UNVERIFIED_SENDER \<and> rs_guid (remoteSystemList t' ! i) = gd"
proof -
  have tok: "table_ok be t" and len: "length (remoteSystemList t) = maxConnections t"
    and act: "length (activeSystemList t) = maxConnections t"
    using ok by (auto simp: endpoints_ok_def table_ok_def)
  let ?act = "take (activeSystemListSize t) (activeSystemList t)"
  have sz: "activeSystemListSize t < maxConnections t" by (rule active_count_less [OF ok i])
  have a: "distinct ?act" "set ?act = {i. i < maxConnections t \<and> isActive (remoteSystemList t ! i)}"
    using ok by (auto simp: endpoints_ok_def)
  define r1 where "r1 = (remoteSystemList t ! i)\<lparr>systemAddress := sender\<rparr>"
  obtain lk where "let t' = t\<lparr>remoteSystemList := (remoteSystemList t)[i := r1], remoteSystemLookup := lk\<rparr>
    in RefRemoteEndPoint be sender i t = Inr t' \<and> table_ok be t' \<and>
       routes be t' = (\<lambda>k. if k = addr_key sender then Some i
                           else if routes be t k = Some i then None else routes be t k)"
    using RefRemoteEndPoint_ok [OF tok i] sender by (auto simp: valid_address_def r1_def)
  then obtain t1 where t1: "t1 = t\<lparr>remoteSystemList := (remoteSystemList t)[i := r1], remoteSystemLookup := lk\<rparr>"
    and ref: "RefRemoteEndPoint be sender i t = Inr t1" and tok1: "table_ok be t1"
    and rt1: "routes be t1 = (\<lambda>k. if k = addr_key sender then Some i
                           else if routes be t k = Some i then None else routes be t k)"
    by (auto simp: Let_def)
  define al where "al = (activeSystemList t)[activeSystemListSize t := i]"
  define t2 where "t2 = t1\<lparr>activeSystemList := al, activeSystemListSize := activeSystemListSize t + 1\<rparr>"
  define mtusize where "mtusize = (if int mtu > defaultMTUSize t then int mtu else defaultMTUSize t)"
  define r2 where "r2 = r1\<lparr>rs_guid := gd, MTUSize := mtusize, isActive := True,
           socket2use := choose_socket bound local recvd t2 (socket2use r1),
           pingAndClockDifferential := replicate PING_TIMES_ARRAY_SIZE (65535, 0),
           connectMode := UNVERIFIED_SENDER, pingAndClockDifferentialWriteIndex := 0, lowestPing := 65535,
           nextPingTime := 0, weInitiateConnection := False, connectionTime := ucast time,
           myExternalSystemAddress := JACKIE_NULL_ADDRESS, lastReliableSend := ucast time\<rparr>"
  define t3 where "t3 = t2\<lparr>remoteSystemList := (remoteSystemList t1)[i := r2]\<rparr>"
  have run: "activate_slot be time bound local mtu recvd gd sender i t = Inr t3"
    using ref mtu sz act i(1) len
    by (simp add: activate_slot_def t1 AddToActiveSystemList_def t3_def r2_def t2_def al_def mtusize_def)
  have upd: "table_ok be (t1\<lparr>remoteSystemList := (remoteSystemList t1)[i := r2]\<rparr>)"
      "routes be (t1\<lparr>remoteSystemList := (remoteSystemList t1)[i := r2]\<rparr>) = routes be t1"
      "key_at (t1\<lparr>remoteSystemList := (remoteSystemList t1)[i := r2]\<rparr>) = key_at t1"
    by (rule table_ok_update [OF tok1]; use i(1) len in \<open>simp add: t1 r2_def\<close>)+
  have t3: "remoteSystemList t3 = (remoteSystemList t)[i := r2]" "maxConnections t3 = maxConnections t"
      "activeSystemList t3 = al" "activeSystemListSize t3 = activeSystemListSize t + 1"
    by (simp_all add: t3_def t2_def t1)
  have key3: "key_at t3 j = (if j = i then addr_key sender else key_at t j)" for j
    using i(1) len by (simp add: key_at_def t3(1) r2_def r1_def)
  have same: "table_ok be t3 = table_ok be (t1\<lparr>remoteSystemList := (remoteSystemList t1)[i := r2]\<rparr>)"
      "routes be t3 = routes be (t1\<lparr>remoteSystemList := (remoteSystemList t1)[i := r2]\<rparr>)"
    by (simp_all add: table_ok_def routes_def [abs_def] chain_of_def key_at_def [abs_def] t3_def t2_def cong: sum.case_cong)
  have "take (activeSystemListSize t + 1) al = ?act @ [i]"
    using sz act by (simp add: al_def take_Suc_conv_app_nth)
  then have acts: "distinct (take (activeSystemListSize t + 1) al)"
      "set (take (activeSystemListSize t + 1) al)
        = {j. j < maxConnections t \<and> isActive (remoteSystemList t3 ! j)}"
    using a i len by (auto simp: t3(1) nth_list_update r2_def)
  have "routes be t3 (key_at t3 j) = Some j"
    if "j < maxConnections t" "isActive (remoteSystemList t3 ! j)" for j
  proof (cases "j = i")
    case False
    then have "isActive (remoteSystemList t ! j)" using that len by (simp add: t3(1))
    then show ?thesis using False ok new that(1) by (simp add: endpoints_ok_def same upd rt1 key3)
  qed (simp add: same upd rt1 key3)
  then have "endpoints_ok be t3"
    using same upd sz act acts by (simp add: endpoints_ok_def t3 al_def)
  then show ?thesis
    using run t3 i(1) len same upd rt1 by (intro exI [of _ t3]) (simp add: r2_def r1_def)
qed

lemma Add2RemoteSystemList_ok:
  assumes ok: "endpoints_ok be t" and sender: "valid_address sender" and mtu: "mtu \<le> MAXIMUM_MTU_SIZE"
    and new: "\<forall>j < maxConnections t. isActive (remoteSystemList t ! j) \<longrightarrow> key_at t j \<noteq> addr_key sender"
    and local: "local < length bound"
  shows "\<exists>t' free_rs recvd. Add2RemoteSystemList be time bound local mtu recvd0 gd sender t
      = Inr (t', free_rs, floods time sender t, recvd) \<and> endpoints_ok be t' \<and>
      maxConnections t' = maxConnections t \<and>
      (if \<forall>r \<in> set (remoteSystemList t). isActive r
       then t' = t \<and> free_rs = (if floods time sender t then Some None else None)
       else \<exists>i. free_rs = Some (Some i) \<and> i < maxConnections t \<and> \<not> isActive (remoteSystemList t ! i) \<and>
         routes be t' (addr_key sender) = Some i \<and>
         activeSystemListSize t' = activeSystemListSize t + 1 \<and>
         (\<forall>j < maxConnections t. j \<noteq> i \<longrightarrow> remoteSystemList t' ! j = remoteSystemList t ! j) \<and>
         isActive (remoteSystemList t' ! i) \<and> systemAddress (remoteSystemList t' ! i) = sender \<and>
         connectMode (remoteSystemList t' ! i) = UNVERIFIED_SENDER \<and> rs_guid (remoteSystemList t' ! i) = gd)"
proof (cases "find_endpoint (\<lambda>r. isActive r = False) 0 (remoteSystemList t)")
  case None
  then have "\<forall>r \<in> set (remoteSystemList t). isActive r" by (simp add: find_endpoint_None)
  then show ?thesis using None ok local by (simp add: Add2RemoteSystemList_def Let_def)
next
  case (Some i)
  have i: "i < maxConnections t" "\<not> isActive (remoteSystemList t ! i)"
    using find_endpoint_0 [OF Some] ok by (auto simp: endpoints_ok_def table_ok_def)
  have "\<not> (\<forall>r \<in> set (remoteSystemList t). isActive r)"
    using find_endpoint_0 [OF Some] by (meson nth_mem)
  moreover have "\<exists>t'. activate_slot be time bound local mtu
        (SetPortNetworkOrder be (GetPortNetworkOrder (bound ! local)) recvd0) gd sender i t = Inr t' \<and> endpoints_ok be t' \<and>
    maxConnections t' = maxConnections t \<and> activeSystemListSize t' = activeSystemListSize t + 1 \<and>
    routes be t' (addr_key sender) = Some i \<and>
    (\<forall>j < maxConnections t. j \<noteq> i \<longrightarrow> remoteSystemList t' ! j = remoteSystemList t ! j) \<and>
    isActive (remoteSystemList t' ! i) \<and> systemAddress (remoteSystemList t' ! i) = sender \<and>
    connectMode (remoteSystemList t' ! i) = UNVERIFIED_SENDER \<and> rs_guid (remoteSystemList t' ! i) = gd"
    by (rule activate_slot_ok [OF ok i sender mtu new])
  ultimately show ?thesis
    using Some local i by (auto simp: Add2RemoteSystemList_def Let_def)
qed

text \<open>All states the table reaches by new clients whose addresses are not those of active ones.\<close>

inductive joined :: "bool \<Rightarrow> nat \<Rightarrow> endpoints \<Rightarrow> bool" for be n where
  start: "joined be n (setup_connections n raw t)" if "maxConnections t = 0" "activeSystemListSize t = 0"
| join: "joined be n t'" if "joined be n t"
    "Add2RemoteSystemList be time bound local mtu recvd0 gd sender t = Inr (t', free_rs, fl, recvd)"
    "valid_address sender" "mtu \<le> MAXIMUM_MTU_SIZE" "local < length bound"
    "GetRemoteSystem_address be sender False True t = Inr None"

lemma setup_endpoints_ok:
  assumes "maxConnections t = 0" "activeSystemListSize t = 0" "0 < n" "8 * n < 2 ^ 32"
  shows "endpoints_ok be (setup_connections n raw t)"
  using setup_connections_ok(3) [OF assms(1,3,4), of raw] setup_connections_ok(1,2) [OF assms(1,3,4), of be raw] assms(1,2)
  by (auto simp: endpoints_ok_def usable_slot_def setup_connections_def)

lemma joined_ok: "joined be n t \<Longrightarrow> 0 < n \<Longrightarrow> 8 * n < 2 ^ 32 \<Longrightarrow> endpoints_ok be t \<and> maxConnections t = n"
proof (induction rule: joined.induct)
  case (start t raw)
  then show ?case using setup_endpoints_ok [OF start(1,2)] by (simp add: setup_connections_def)
next
  case (join t time bound local mtu recvd0 gd sender t' free_rs fl recvd)
  then have ok: "endpoints_ok be t" "maxConnections t = n" by auto
  have "\<not> is_null sender" using join.hyps(3) by (simp add: valid_address_def is_null_key)
  then have "find_endpoint (\<lambda>r. address_eq (systemAddress r) sender \<and> isActive r) 0 (remoteSystemList t) = None"
    using join.hyps(6) by (auto simp: GetRemoteSystem_address_def split: option.splits)
  then have "\<forall>j < maxConnections t. isActive (remoteSystemList t ! j) \<longrightarrow> key_at t j \<noteq> addr_key sender"
    using ok(1) key_eq_at [of be t _ sender] by (auto simp: find_endpoint_None endpoints_ok_def table_ok_def)
  from Add2RemoteSystemList_ok [OF ok(1) join.hyps(3,4) this join.hyps(5), of time recvd0 gd]
  show ?case using join.hyps(2) ok by auto
qed

section \<open>Re-routing\<close>

lemma wrapper_finds_active:
  assumes ok: "endpoints_ok be t" and "GetRemoteSystem_wrapper be w True True t = Inr (Some i)"
  shows "i < maxConnections t \<and> isActive (remoteSystemList t ! i)"
proof -
  have tok: "table_ok be t" and len: "length (remoteSystemList t) = maxConnections t"
    using ok by (auto simp: endpoints_ok_def table_ok_def)
  show ?thesis
  proof (cases "is_null_guid (w_guid w)")
    case True
    then show ?thesis using assms(2) len
      by (auto simp: GetRemoteSystem_wrapper_def GetRemoteSystem_address_def rbind_eq_Inr get_at_def
          split: if_splits option.splits)
  next
    case False
    then have "find_endpoint (\<lambda>r. guid_eq (rs_guid r) (w_guid w) \<and> isActive r) 0 (remoteSystemList t) = Some i"
      using assms(2) by (simp add: GetRemoteSystem_wrapper_def GetRemoteSystem_guid_def)
    from find_endpoint_0 [OF this] show ?thesis using len by simp
  qed
qed

lemma change_system_address_result:
  assumes ok: "endpoints_ok be t"
  shows "change_system_address be w t =
     (case GetRemoteSystem_wrapper be w True True t of
        Inl e \<Rightarrow> Inl e | Inr None \<Rightarrow> Inr t | Inr (Some i) \<Rightarrow> Inl AssertFailed)"
proof (cases "GetRemoteSystem_wrapper be w True True t")
  case (Inr found)
  show ?thesis
  proof (cases found)
    case (Some i)
    have tok: "table_ok be t" using ok by (simp add: endpoints_ok_def)
    have i: "i < length (remoteSystemList t)" "isActive (remoteSystemList t ! i)"
      using wrapper_finds_active [OF ok, of w i] Inr Some tok by (auto simp: table_ok_def)
    then have rt: "routes be t (key_at t i) = Some i"
      using ok tok by (simp add: endpoints_ok_def table_ok_def)
    then have "key_at t i \<noteq> (0, 0)" using linked_less [OF tok] routes_iff [OF tok] by auto
    then have "\<not> is_null (systemAddress (remoteSystemList t ! i))"
      using tok i(1) by (simp add: table_ok_def is_null_key key_at_def)
    then show ?thesis
      using Inr Some i rt
      by (simp add: change_system_address_def lookup_routes [OF tok] key_at_def RefRemoteEndPoint_def Let_def)
  qed (use Inr in \<open>simp add: change_system_address_def\<close>)
qed (simp add: change_system_address_def)

lemma wrapper_total:
  assumes ok: "endpoints_ok be t"
  shows "\<exists>found. GetRemoteSystem_wrapper be w True True t = Inr found"
proof -
  have tok: "table_ok be t" and len: "length (remoteSystemList t) = maxConnections t"
    using ok by (auto simp: endpoints_ok_def table_ok_def)
  have "i < maxConnections t \<and> address_eq (systemAddress (remoteSystemList t ! i)) sa"
    if "routes be t (addr_key sa) = Some i" for i sa
    using that routes_iff [OF tok] linked_less [OF tok] key_eq_at [OF tok] by auto
  then show ?thesis using len
    by (auto simp: GetRemoteSystem_wrapper_def GetRemoteSystem_address_def lookup_routes [OF tok] split: option.split)
qed

end
