(* ===== verification/Ban_List.thy ===== *)
theory Ban_List
  imports Array_List Net_Types Bit_Stream_Ops
begin

text \<open>
  The ban list of \<^verbatim>\<open>network_application_t\<close>: an array list of pointers to \<^verbatim>\<open>Banned\<close>, each to an object of
  its own, so the list holds the objects. A C string is the list of its characters without the
  final zero; \<open>clock i\<close> is what \<^verbatim>\<open>GetTimeMS\<close> returns in the round of the index \<open>i\<close>.
\<close>

section \<open>State\<close>

record banned =
  ban_IP :: string
  firstTimeBanned :: u32
  ban_timeout :: u32
  bannedTImes :: u16

type_synonym ban_list = "banned array_list"

section \<open>Operations\<close>

text \<open>The comparison of an entry with an address, character by character; \<^verbatim>\<open>*\<close> stands for the rest.\<close>

fun ip_match :: "string \<Rightarrow> string \<Rightarrow> bool" where
  "ip_match [] [] = True"
| "ip_match (p # ps) (c # cs) = (if p = c then ip_match ps cs else p = CHR ''*'')"
| "ip_match _ _ = False"

text \<open>
  The loop of \<^verbatim>\<open>IsBanned\<close>. It counts in its head and again at the end of its \<^verbatim>\<open>else\<close> branch. The index
  grows and the list does not, so as many rounds as entries, and one more, are enough.
\<close>

fun ban_loop :: "nat \<Rightarrow> nat \<Rightarrow> (nat \<Rightarrow> u64) \<Rightarrow> string \<Rightarrow> ban_list \<Rightarrow> (bool \<times> ban_list) res" where
  "ban_loop 0 index clock IP banList = Inl OutOfFuel"
| "ban_loop (Suc fuel) index clock IP banList =
     (if index < list_size banList then
        rbind (List_at banList index) (\<lambda>b.
          if ban_timeout b > 0 \<and> ucast (ban_timeout b) \<le> clock index then
            rbind (RemoveAtIndexFast index banList) (\<lambda>banList.
              ban_loop fuel (index + 1) clock IP banList)
          else if ip_match (ban_IP b) IP then Inr (True, banList)
          else ban_loop fuel (index + 1 + 1) clock IP banList)
      else Inr (False, banList))"

definition IsBanned ::
  "(u32 \<Rightarrow> string) \<Rightarrow> bool \<Rightarrow> (nat \<Rightarrow> u64) \<Rightarrow> network_address \<Rightarrow> ban_list \<Rightarrow> (bool \<times> ban_list) res" where
  "IsBanned inet_ntoa be clock senderINetAddress banList =
     (if list_size banList = 0 then Inr (False, banList)
      else
        let IP = ToString_IPV4 inet_ntoa be False (CHR ''|'') senderINetAddress
        in if IP = [] \<or> hd IP = CHR '' '' \<or> length IP > 65 then Inr (False, banList)
           else ban_loop (list_size banList + 1) 0 clock IP banList)"

text \<open>The search for an entry of the same text, over the \<open>n\<close> places from \<open>index\<close> on.\<close>

fun ban_find :: "string \<Rightarrow> nat \<Rightarrow> nat \<Rightarrow> ban_list \<Rightarrow> nat option res" where
  "ban_find IP 0 index banList = Inr None"
| "ban_find IP (Suc n) index banList =
     rbind (List_at banList index) (\<lambda>b.
       if IP = ban_IP b then Inr (Some index) else ban_find IP n (index + 1) banList)"

definition AddToBanList :: "u32 \<Rightarrow> string \<Rightarrow> u32 \<Rightarrow> ban_list \<Rightarrow> ban_list res" where
  "AddToBanList time IP milliseconds banList =
     (if IP = [] \<or> length IP > 32 then Inr banList
      else
        let timeout = (if milliseconds = 0 then 0 else time + milliseconds)
        in rbind (ban_find IP (list_size banList) 0 banList) (\<lambda>found.
             case found of
               Some i \<Rightarrow>
                 rbind (List_at banList i) (\<lambda>b.
                   Inr (banList\<lparr>listArray := (listArray banList)[i :=
                     b\<lparr>bannedTImes := bannedTImes b + 1, ban_timeout := timeout\<rparr>]\<rparr>))
             | None \<Rightarrow>
                 InsertAtLast 32 \<lparr>ban_IP = IP, firstTimeBanned = time, ban_timeout = timeout, bannedTImes = 1\<rparr> banList))"

text \<open>
  The command \<^verbatim>\<open>BCS_ADD_2_BANNED_LIST\<close>: \<^verbatim>\<open>ban_remote_system\<close> packs its arguments into \<^verbatim>\<open>arrayparams\<close>,
  whose 43 bytes hold \<open>junk\<close> before, and the network thread unpacks them.
\<close>

definition arrayparams_size :: nat where
  "arrayparams_size = 4 * 4 + 2 * 2 + 8 + 1 * 7 + 8"

definition c_chars :: "string \<Rightarrow> u8 list" where
  "c_chars cs = map (\<lambda>c. of_nat (of_char c)) cs"

definition ban_remote_system :: "bool \<Rightarrow> string \<Rightarrow> u32 \<Rightarrow> u8 list \<Rightarrow> u8 list res" where
  "ban_remote_system be IP milliseconds junk =
     rbind (copy_into junk 0 (c_chars IP @ [0]) (length IP + 1)) (\<lambda>params.
       copy_into params (length IP + 1) (mem_bytes be milliseconds) 4)"

definition c_strlen :: "u8 list \<Rightarrow> nat res" where
  "c_strlen bs = (if 0 \<in> set bs then Inr (length (takeWhile (\<lambda>b. b \<noteq> 0) bs)) else Inl OutOfBounds)"

definition unpack_ban :: "bool \<Rightarrow> u8 list \<Rightarrow> (string \<times> u32) res" where
  "unpack_ban be params =
     rbind (c_strlen params) (\<lambda>n.
       if n + 1 + 4 \<le> length params
       then Inr (map (\<lambda>b. char_of (unat b)) (take n params), mem_word be (take 4 (drop (n + 1) params)))
       else Inl OutOfBounds)"

section \<open>What is compared\<close>

text \<open>An entry matches an address equal to it, or one that goes on where the entry has its \<^verbatim>\<open>*\<close>.\<close>

lemma ip_match_iff:
  "ip_match p ip \<longleftrightarrow> p = ip \<or>
     (\<exists>pre suf c cs. p = pre @ CHR ''*'' # suf \<and> ip = pre @ c # cs \<and> c \<noteq> CHR ''*'')"
proof (induction p ip rule: ip_match.induct)
  case (2 p ps c cs)
  show ?case
  proof (cases "p = c")
    case True
    have "(\<exists>pre suf d ds. p # ps = pre @ CHR ''*'' # suf \<and> c # cs = pre @ d # ds \<and> d \<noteq> CHR ''*'')
        \<longleftrightarrow> (\<exists>pre suf d ds. ps = pre @ CHR ''*'' # suf \<and> cs = pre @ d # ds \<and> d \<noteq> CHR ''*'')"
      (is "?l \<longleftrightarrow> ?r")
    proof
      assume ?l
      then obtain pre suf d ds where "p # ps = pre @ CHR ''*'' # suf" "c # cs = pre @ d # ds" "d \<noteq> CHR ''*''"
        by blast
      then show ?r using True by (cases pre) auto
    next
      assume ?r
      then show ?l using True by (metis append_Cons)
    qed
    then show ?thesis using 2 True by simp
  next
    case False
    have "(\<exists>pre suf d ds. p # ps = pre @ CHR ''*'' # suf \<and> c # cs = pre @ d # ds \<and> d \<noteq> CHR ''*'')
        \<longleftrightarrow> p = CHR ''*''"
      (is "?l \<longleftrightarrow> ?r")
    proof
      assume ?l
      then obtain pre suf d ds where "p # ps = pre @ CHR ''*'' # suf" "c # cs = pre @ d # ds"
        by blast
      then show ?r using False by (cases pre) auto
    next
      assume ?r
      then have "p # ps = [] @ CHR ''*'' # ps \<and> c # cs = [] @ c # cs \<and> c \<noteq> CHR ''*''" using False by simp
      then show ?l by blast
    qed
    then show ?thesis using False by simp
  qed
qed auto

section \<open>Which entries are compared\<close>

lemma ban_loop_plain:
  assumes ok: "l_ok l" and live: "\<forall>b \<in> set (list_elems l). ban_timeout b = 0"
  shows "list_size l < index + fuel \<Longrightarrow> 0 < fuel \<Longrightarrow>
    ban_loop fuel index clock IP l =
      Inr (\<exists>k. index + 2 * k < list_size l \<and> ip_match (ban_IP (list_elems l ! (index + 2 * k))) IP, l)"
proof (induction fuel arbitrary: index)
  case (Suc fuel)
  show ?case
  proof (cases "index < list_size l")
    case True
    then have "list_elems l ! index \<in> set (list_elems l)" using ok by simp
    then have t: "ban_timeout (list_elems l ! index) = 0" using live by simp
    let ?m = "\<lambda>k. k < list_size l \<and> ip_match (ban_IP (list_elems l ! k)) IP"
    have split: "(\<exists>k. ?m (index + 2 * k)) \<longleftrightarrow> ?m index \<or> (\<exists>k. ?m (index + 2 + 2 * k))"
      (is "?l \<longleftrightarrow> ?r")
    proof
      assume ?l
      then obtain k where "?m (index + 2 * k)" by blast
      then show ?r by (cases k) (auto simp: add.assoc)
    next
      assume ?r
      then show ?l
      proof
        assume "?m index" then show ?l by (intro exI [of _ 0]) simp
      next
        assume "\<exists>k. ?m (index + 2 + 2 * k)"
        then obtain k where "?m (index + 2 + 2 * k)" by blast
        then show ?l by (intro exI [of _ "Suc k"]) (simp add: add.assoc)
      qed
    qed
    have IH: "ban_loop fuel (index + 2) clock IP l = Inr (\<exists>k. ?m (index + 2 + 2 * k), l)"
      by (rule Suc.IH) (use Suc.prems True in auto)
    show ?thesis
      unfolding split using True t ok IH by (auto simp: List_at_ok numeral_2_eq_2)
  qed simp
qed simp

section \<open>Adding\<close>

lemma ban_find_ok:
  assumes ok: "l_ok l"
  shows "i + n \<le> list_size l \<Longrightarrow>
    ban_find IP n i l = Inr (find (\<lambda>j. ban_IP (list_elems l ! j) = IP) [i..<i + n])"
proof (induction n arbitrary: i)
  case (Suc n)
  have "[i..<i + Suc n] = i # [Suc i..<Suc i + n]" by (simp add: upt_conv_Cons)
  then show ?case using Suc ok by (simp only:) (auto simp: List_at_ok simp del: upt_Suc)
qed simp

text \<open>After the addition an entry of the text is there, and the entries before are where they were.\<close>

lemma AddToBanList_ok:
  assumes ok: "l_ok l" and n: "list_size l < 2 ^ 30" and IP: "IP \<noteq> []" "length IP \<le> 32"
  shows "\<exists>l'. AddToBanList time IP ms l = Inr l' \<and> l_ok l' \<and>
    map ban_IP (list_elems l') = map ban_IP (list_elems l)
      @ (if IP \<in> set (map ban_IP (list_elems l)) then [] else [IP]) \<and>
    (\<exists>b \<in> set (list_elems l'). ban_IP b = IP \<and> ban_timeout b = (if ms = 0 then 0 else time + ms))"
proof (cases "find (\<lambda>j. ban_IP (list_elems l ! j) = IP) [0..<list_size l]")
  case None
  then have notin: "IP \<notin> set (map ban_IP (list_elems l))"
    using ok by (auto simp: find_None_iff in_set_conv_nth)
  show ?thesis
    using InsertAtLast_ok [OF ok, of 32] n None notin IP ban_find_ok [OF ok, of 0 "list_size l" IP]
    by (fastforce simp: AddToBanList_def Let_def)
next
  case (Some i)
  then have i: "i < list_size l" "ban_IP (list_elems l ! i) = IP" by (auto simp: find_Some_iff)
  define t where "t = (if ms = 0 then 0 else time + ms)"
  define b where "b = (list_elems l ! i)\<lparr>bannedTImes := bannedTImes (list_elems l ! i) + 1, ban_timeout := t\<rparr>"
  define l' where "l' = l\<lparr>listArray := (listArray l)[i := b]\<rparr>"
  have run: "AddToBanList time IP ms l = Inr l'"
    using Some IP ban_find_ok [OF ok, of 0 "list_size l" IP] i(1) ok
    by (simp add: AddToBanList_def Let_def List_at_ok l'_def b_def t_def)
  have ok': "l_ok l'" using ok by (simp add: l_ok_def l'_def)
  have elems: "list_elems l' = (list_elems l)[i := b]"
    by (simp add: list_elems_def l'_def take_update_swap)
  have "IP \<in> set (map ban_IP (list_elems l))" using i ok by auto
  moreover have "map ban_IP ((list_elems l)[i := b]) = map ban_IP (list_elems l)"
    by (simp add: map_update b_def i(2)) (metis i(2) list_update_id map_update)
  moreover have "b \<in> set (list_elems l')" using i(1) ok by (simp add: elems set_update_memI)
  moreover have "ban_IP b = IP" "ban_timeout b = t" using i(2) by (simp_all add: b_def)
  ultimately have "map ban_IP (list_elems l')
      = map ban_IP (list_elems l) @ (if IP \<in> set (map ban_IP (list_elems l)) then [] else [IP])"
    "\<exists>b \<in> set (list_elems l'). ban_IP b = IP \<and> ban_timeout b = t"
    using elems by auto
  then show ?thesis using run ok' unfolding t_def by blast
qed

section \<open>The command\<close>

lemma unat_char: "unat (of_nat (of_char c) :: u8) = of_char c"
  using nat_of_char_less_256 [of c] by (simp add: unat_of_nat)

lemma c_chars_simps [simp]: "length (c_chars cs) = length cs" "map (\<lambda>b. char_of (unat b)) (c_chars cs) = cs"
  by (simp_all add: c_chars_def unat_char comp_def)

lemma c_chars_nonzero: "CHR 0x00 \<notin> set cs \<Longrightarrow> 0 \<notin> set (c_chars cs)"
proof
  assume cs: "CHR 0x00 \<notin> set cs" and "0 \<in> set (c_chars cs)"
  then obtain c where c: "c \<in> set cs" "(of_nat (of_char c) :: u8) = 0" by (auto simp: c_chars_def)
  then have "(of_char c :: nat) = 0" using unat_char [of c] by simp
  then have "c = char_of (0 :: nat)" by (metis char_of_char)
  then show False using c(1) cs by (simp add: char_of_def)
qed

lemma c_strlen_text: "0 \<notin> set bs \<Longrightarrow> c_strlen (bs @ 0 # rest) = Inr (length bs)"
proof -
  assume "0 \<notin> set bs"
  then have "takeWhile (\<lambda>b. b \<noteq> 0) (bs @ 0 # rest) = bs" by (subst takeWhile_append2) auto
  then show ?thesis by (simp add: c_strlen_def)
qed

lemma ban_command_round_trip:
  assumes len: "length junk = arrayparams_size" and IP: "length IP \<le> 38" "CHR 0x00 \<notin> set IP"
  shows "rbind (ban_remote_system be IP ms junk) (unpack_ban be) = Inr (IP, ms)"
proof -
  have j: "length junk = 43" using len by (simp add: arrayparams_size_def)
  have m: "length (mem_bytes be ms) = 4" by (simp add: bytes_of_type_def)
  have "ban_remote_system be IP ms junk
      = Inr (c_chars IP @ 0 # mem_bytes be ms @ drop (5 + length IP) junk)"
    using j IP(1) m by (simp add: ban_remote_system_def copy_into_ok)
  then show ?thesis
    using j IP(1) m c_strlen_text [OF c_chars_nonzero [OF IP(2)]]
    by (simp add: unpack_ban_def byte_types)
qed

end
