(* ===== verification/Application_State.thy ===== *)
theory Application_State
  imports Connection_Slots Array_Queue Ban_List
begin

text \<open>
  The part of the state of \<^verbatim>\<open>network_application_t\<close> (\<^verbatim>\<open>include/geco_application.h\<close>) that the connection
  handshake works on. The queues are those of \<open>Array_Queue\<close>, whose elements are the request objects
  themselves, one for each pointer. A mutex is the number of \<^verbatim>\<open>Lock\<close> minus the number of \<^verbatim>\<open>Unlock\<close> calls.
  The packets for the user are the list \<open>allocPacketQ\<close>, the datagrams handed to the sockets the list
  \<open>sent\<close>, the calls of the plugins and of the reliability layers the list \<open>calls\<close>, all in order.
\<close>

section \<open>Requests, datagrams and packets\<close>

datatype connection_attempt_result =
    CONNECTION_ATTEMPT_POSTED | INVALID_PARAM | CANNOT_RESOLVE_DOMAIN_NAME | ALREADY_CONNECTED_TO_ENDPOINT
  | CONNECTION_ATTEMPT_ALREADY_IN_PROGRESS | SECURITY_INITIALIZATION_FAILED

datatype secure_connection_mode =
    INSECURE_CONNECTION | ACCEPT_ANY_PUBLIC_KEY | USE_KNOWN_PUBLIC_KEY | USE_TWO_WAY_AUTHENTICATION

datatype ActionToTake = CONNECT | PING | PING_OPEN_CONNECTIONS

text \<open>\<open>client_handshake\<close> is whether the pointer to the handshake object is set.\<close>

record connection_request =
  receiverAddr :: network_address
  nextRequestTime :: u64
  requestsMade :: u8
  pwd :: "u8 list"
  pwdLen :: u8
  socketIndex :: u32
  extraData :: u32
  connAttemptTimes :: u32
  connAttemptIntervalMS :: u32
  cr_timeout :: u32
  publicKeyMode :: secure_connection_mode
  cr_socket :: nat
  actionToTake :: ActionToTake
  client_handshake :: bool
  handshakeChallenge :: "u8 list"

text \<open>A received datagram: the array of \<^verbatim>\<open>MAXIMUM_MTU_SIZE\<close> bytes, of which the first \<open>bytesRead\<close> count.\<close>

record recv_params =
  rp_data :: "u8 list"
  bytesRead :: int
  senderINetAddress :: network_address
  timeRead :: u64
  localBoundSocket :: nat

text \<open>
  The data pointer of a packet leads to the member \<^verbatim>\<open>msgid\<close>, to a variable of a function that has
  returned, or to the first byte of a received datagram.
\<close>

datatype packet_pointer = MemberMsgid | DeadVariable | ReceivedData recv_params

record packet =
  packet_address :: network_address
  packet_guid :: guid
  packet_data :: packet_pointer

text \<open>Calls of plugins and of the reliability layer of an end point, each with its number or place.\<close>

datatype call =
    OnDirectSocketReceive nat
  | OnDirectSocketSend nat
  | ProcessOneConnectedRecvParams nat
  | ReliabilitySend nat "u8 list"

text \<open>A bound socket: its number for the user and its address.\<close>

record bound_socket =
  userConnectionSocketIndex :: u32
  boundAddress :: network_address

section \<open>The application\<close>

record app =
  eps :: endpoints
  connReqQ :: "connection_request array_queue"
  connReqQLock :: int
  connReqCancelQ :: "network_address array_queue"
  connReqCancelQLock :: int
  allocPacketQ :: "packet list"
  sent :: "(network_address \<times> u8 list) list"
  calls :: "call list"
  pluginListNTS_Size :: nat
  banList :: ban_list
  msgid :: u8
  secureIncomingConnectionEnabled :: bool
  isUnconnectedRecvPrrams :: bool

abbreviation Lock :: "int \<Rightarrow> int" where "Lock n \<equiv> n + 1"

abbreviation Unlock :: "int \<Rightarrow> int" where "Unlock n \<equiv> n - 1"

text \<open>The first byte of the data of a packet, which tells the user what has happened.\<close>

definition packet_id :: "app \<Rightarrow> packet \<Rightarrow> u8 res" where
  "packet_id a p =
     (case packet_data p of
        MemberMsgid \<Rightarrow> Inr (msgid a)
      | DeadVariable \<Rightarrow> Inl OutOfBounds
      | ReceivedData rp \<Rightarrow> get_at (rp_data rp) 0)"

end
