(* ===== verification/Offline_Messages.thy ===== *)
theory Offline_Messages
  imports Application_State Bit_Stream_Ops
begin

text \<open>
  What the handlers of the connection handshake share: the message numbers of
  \<^verbatim>\<open>include/geco-msg-ids.h\<close>, the constants of \<^verbatim>\<open>src/geco_application.cpp\<close>, the making of a datagram from a
  sequence of writing operations, the reading of a received one, and the test for the 16 bytes that mark
  a message from a system that is not connected. The machine, the sockets, the clock and the
  cryptographic library are the argument \<open>world\<close> of the handlers.
\<close>

section \<open>Message numbers and constants\<close>

abbreviation (input) ID_UNCONNECTED_PING :: u8 where "ID_UNCONNECTED_PING \<equiv> 1"
abbreviation (input) ID_UNCONNECTED_PING_OPEN_CONNECTIONS :: u8 where "ID_UNCONNECTED_PING_OPEN_CONNECTIONS \<equiv> 2"
abbreviation (input) ID_OPEN_CONNECTION_REQUEST_1 :: u8 where "ID_OPEN_CONNECTION_REQUEST_1 \<equiv> 5"
abbreviation (input) ID_OPEN_CONNECTION_REPLY_1 :: u8 where "ID_OPEN_CONNECTION_REPLY_1 \<equiv> 6"
abbreviation (input) ID_OPEN_CONNECTION_REQUEST_2 :: u8 where "ID_OPEN_CONNECTION_REQUEST_2 \<equiv> 7"
abbreviation (input) ID_OPEN_CONNECTION_REPLY_2 :: u8 where "ID_OPEN_CONNECTION_REPLY_2 \<equiv> 8"
abbreviation (input) ID_CONNECTION_REQUEST :: u8 where "ID_CONNECTION_REQUEST \<equiv> 9"
abbreviation (input) ID_WECLINOTPASS_SRVPUBKEY_WHENCONNECT :: u8 where "ID_WECLINOTPASS_SRVPUBKEY_WHENCONNECT \<equiv> 10"
abbreviation (input) ID_WECLI_SECURE_BUT_SRV_NO :: u8 where "ID_WECLI_SECURE_BUT_SRV_NO \<equiv> 11"
abbreviation (input) ID_PUBLIC_KEY_MISMATCH :: u8 where "ID_PUBLIC_KEY_MISMATCH \<equiv> 12"
abbreviation (input) ID_OUT_OF_BAND_INTERNAL :: u8 where "ID_OUT_OF_BAND_INTERNAL \<equiv> 13"
abbreviation (input) ID_CONNECTION_ATTEMPT_FAILED :: u8 where "ID_CONNECTION_ATTEMPT_FAILED \<equiv> 17"
abbreviation (input) ID_ALREADY_CONNECTED :: u8 where "ID_ALREADY_CONNECTED \<equiv> 18"
abbreviation (input) ID_CANNOT_ACCEPT_INCOMING_CONNECTIONS :: u8 where "ID_CANNOT_ACCEPT_INCOMING_CONNECTIONS \<equiv> 20"
abbreviation (input) ID_CONNECTION_BANNED :: u8 where "ID_CONNECTION_BANNED \<equiv> 23"
abbreviation (input) ID_INCOMPATIBLE_PROTOCOL_VERSION :: u8 where "ID_INCOMPATIBLE_PROTOCOL_VERSION \<equiv> 25"
abbreviation (input) ID_YOU_CONNECT_TOO_OFTEN :: u8 where "ID_YOU_CONNECT_TOO_OFTEN \<equiv> 26"
abbreviation (input) ID_UNCONNECTED_PONG :: u8 where "ID_UNCONNECTED_PONG \<equiv> 28"

definition OFFLINE_MESSAGE_DATA_ID :: "u8 list" where
  "OFFLINE_MESSAGE_DATA_ID =
     [0x00, 0xFF, 0xFF, 0x00, 0xFE, 0xFE, 0xFE, 0xFE, 0xFD, 0xFD, 0xFD, 0xFD, 0x12, 0x34, 0x56, 0x78]"

lemma length_OFFLINE [simp]: "length OFFLINE_MESSAGE_DATA_ID = 16"
  by (simp add: OFFLINE_MESSAGE_DATA_ID_def)

definition JACKIE_INET_PROTOCOL_VERSION :: u8 where "JACKIE_INET_PROTOCOL_VERSION = 6"

definition UDP_HEADER_SIZE :: nat where "UDP_HEADER_SIZE = 28"

definition mtuSizesCount :: nat where "mtuSizesCount = 3"

definition mtuSizes :: "nat list" where "mtuSizes = [MAXIMUM_MTU_SIZE, 1200, 576]"

text \<open>Sizes of the messages of the handshake with a public key (\<^verbatim>\<open>EasyHandshake\<close>).\<close>

abbreviation (input) CHALLENGE_BYTES :: nat where "CHALLENGE_BYTES \<equiv> 64"
abbreviation (input) ANSWER_BYTES :: nat where "ANSWER_BYTES \<equiv> 128"
abbreviation (input) IDENTITY_BYTES :: nat where "IDENTITY_BYTES \<equiv> 160"

section \<open>What surrounds the application\<close>

text \<open>
  The result of a \<^verbatim>\<open>Send\<close>: its return value, \<^verbatim>\<open>bytesWritten\<close>, and the clock before and after.
\<close>

record send_outcome =
  so_result :: int
  so_bytesWritten :: int
  so_start :: u64
  so_end :: u64

text \<open>
  The cryptographic library. A cookie is made for the bytes of an address, which are its family, port
  and address; a function that can fail gives \<open>None\<close>.
\<close>

record crypto =
  cookie_Generate :: "u16 \<times> u16 \<times> u32 \<Rightarrow> u32"
  cookie_Verify :: "u16 \<times> u16 \<times> u32 \<Rightarrow> u32 \<Rightarrow> bool"
  ProcessChallenge :: "u8 list \<Rightarrow> u8 list option"
  any_key_challenge :: "u8 list option"
  ProcessAnswer :: "u8 list \<Rightarrow> bool"
  ProcessAnswerWithIdentity :: "u8 list \<Rightarrow> u8 list option"
  GenerateProof :: "nat \<Rightarrow> u8 list"

text \<open>
  The world of a handler: the byte order, the functions of the socket library, the contents of fresh
  memory, the outcome of a \<^verbatim>\<open>Send\<close>, the clock, the addresses of the bound sockets, the cryptographic
  library, and what variables and packets hold before they are set.
\<close>

record world =
  big_endian :: bool
  w_inet_addr :: "string \<Rightarrow> u32"
  w_resolve :: "string \<Rightarrow> string"
  w_inet_ntoa :: "u32 \<Rightarrow> string"
  fresh_memory :: "nat \<Rightarrow> u8"
  sendto :: "network_address \<Rightarrow> u8 list \<Rightarrow> send_outcome"
  time_ms :: u64
  time_us :: u64
  boundAddrs :: "network_address list"
  crypt :: crypto
  raw_packet :: packet
  raw_address :: network_address
  raw_wrapper :: guid_address_wrapper
  raw_bytes :: "u8 list"
  raw_cookie :: u32

definition address_bytes :: "network_address \<Rightarrow> u16 \<times> u16 \<times> u32" where
  "address_bytes a = (sin_family a, sin_port a, s_addr a)"

section \<open>Guids on the wire\<close>

definition Write_guid :: "bool \<Rightarrow> guid \<Rightarrow> writer" where
  "Write_guid be src = Write_int be (g src)"

definition Read_guid :: "bool \<Rightarrow> guid \<Rightarrow> guid reader" where
  "Read_guid be dest s = rbind (Read_int be s) (\<lambda>(x, s). Inr (dest\<lparr>g := x\<rparr>, s))"

definition Write_mini_guid :: "bool \<Rightarrow> guid \<Rightarrow> writer" where
  "Write_mini_guid be src = Write_mini_int be True (g src)"

definition Read_mini_guid :: "bool \<Rightarrow> guid \<Rightarrow> guid reader" where
  "Read_mini_guid be dest s = rbind (Read_mini_int be True (g dest) s) (\<lambda>(x, s). Inr (dest\<lparr>g := x\<rparr>, s))"

section \<open>Making a datagram\<close>

fun write_all :: "writer list \<Rightarrow> writer" where
  "write_all [] s = Inr s"
| "write_all (w # ws) s = rbind (w s) (write_all ws)"

text \<open>\<^verbatim>\<open>char_data()\<close> with \<^verbatim>\<open>get_written_bytes()\<close>.\<close>

definition datagram :: "bstream \<Rightarrow> u8 list res" where
  "datagram s = get_range (uchar_data s) 0 (BITS_TO_BYTES (writable_bit_pos s))"

definition new_stream :: "world \<Rightarrow> bstream" where
  "new_stream w = stream_default (fresh_memory w)"

definition datagram_of :: "world \<Rightarrow> writer list \<Rightarrow> u8 list res" where
  "datagram_of w ws = rbind (write_all ws (new_stream w)) datagram"

text \<open>The head of a message: its number and the marker.\<close>

definition offline_head :: "world \<Rightarrow> u8 \<Rightarrow> writer list" where
  "offline_head w i = [Write_int (big_endian w) i, Write_bytes OFFLINE_MESSAGE_DATA_ID 16]"

section \<open>Sending and receiving\<close>

definition as_size :: "int \<Rightarrow> nat" where
  "as_size n = nat (n mod 2 ^ 64)"

definition Send :: "world \<Rightarrow> network_address \<Rightarrow> u8 list \<Rightarrow> app \<Rightarrow> send_outcome \<times> app" where
  "Send w addr d a = (sendto w addr d, a\<lparr>sent := sent a @ [(addr, d)]\<rparr>)"

definition plugins_receive :: "app \<Rightarrow> app" where
  "plugins_receive a = a\<lparr>calls := calls a @ map OnDirectSocketReceive [0..<pluginListNTS_Size a]\<rparr>"

definition plugins_send :: "app \<Rightarrow> app" where
  "plugins_send a = a\<lparr>calls := calls a @ map OnDirectSocketSend [0..<pluginListNTS_Size a]\<rparr>"

text \<open>The two ways a handler answers: the plugins hear of it always, or only of an answer that went out.\<close>

definition answer_with :: "world \<Rightarrow> recv_params \<Rightarrow> u8 list \<Rightarrow> app \<Rightarrow> app" where
  "answer_with w rp d a = plugins_send (snd (Send w (senderINetAddress rp) d a))"

definition answer_checked :: "world \<Rightarrow> recv_params \<Rightarrow> u8 list \<Rightarrow> app \<Rightarrow> app" where
  "answer_checked w rp d a =
     (let (r, a) = Send w (senderINetAddress rp) d a in if so_result r > 0 then plugins_send a else a)"

definition received_stream :: "world \<Rightarrow> recv_params \<Rightarrow> bstream res" where
  "received_stream w rp = stream_from (fresh_memory w) (rp_data rp) (nat (bytesRead rp mod 2 ^ 32)) False"

definition offline_at :: "nat \<Rightarrow> recv_params \<Rightarrow> bool res" where
  "offline_at off rp = rbind (get_range (rp_data rp) off 16) (\<lambda>b. Inr (b = OFFLINE_MESSAGE_DATA_ID))"

text \<open>
  The flag is set from the marker at \<open>off\<close> if the length allows it (\<open>c\<close>); otherwise it keeps the value that an
  earlier datagram left in it.
\<close>

definition test_offline :: "bool \<Rightarrow> nat \<Rightarrow> recv_params \<Rightarrow> app \<Rightarrow> app res" where
  "test_offline c off rp a =
     (if c then rbind (offline_at off rp) (\<lambda>f. Inr (a\<lparr>isUnconnectedRecvPrrams := f\<rparr>)) else Inr a)"

definition AllocPacket :: "world \<Rightarrow> packet_pointer \<Rightarrow> packet" where
  "AllocPacket w d = (raw_packet w)\<lparr>packet_data := d, packet_guid := JACKIE_NULL_GUID\<rparr>"

definition push_packet :: "packet \<Rightarrow> app \<Rightarrow> app" where
  "push_packet p a = a\<lparr>allocPacketQ := allocPacketQ a @ [p]\<rparr>"

section \<open>What the writers and readers do\<close>

lemma emits_write_all:
  "list_all2 emits ws bss \<Longrightarrow> emits (write_all ws) (concat bss)"
proof (induction rule: list_all2_induct)
  case Nil
  then show ?case by (simp add: emits_def appends_def writable_def)
next
  case (Cons w ws bs bss)
  have "write_all (w # ws) = (\<lambda>s. rbind (w s) (write_all ws))" by (rule ext) simp
  then show ?case using emits_bind [OF Cons.hyps(1) Cons.IH] by simp
qed

lemma emits_Write_bytes:
  assumes "src \<noteq> []" and "n = length src" and "length src < 2 ^ 29"
  shows "emits (Write_bytes src n) (bits_of src)"
  using emits_WriteBits_bytes [OF assms(1)] assms by (simp add: Write_bytes_def BYTES_TO_BITS_small)

lemma emits_Write_mini_guid [codec_rules]: "emits (Write_mini_guid False x) (mini_wire True (g x))"
  unfolding Write_mini_guid_def by (rule emits_Write_mini_int) simp

lemma emits_Write_guid [codec_rules]: "emits (Write_guid be x) (net_bits (g x))"
  unfolding Write_guid_def by (rule emits_Write_int) simp

lemma takes_Read_guid [codec_rules]: "takes (Read_guid be dest) (net_bits x) (dest\<lparr>g := x\<rparr>)"
  unfolding Read_guid_def using takes_map [OF takes_Read_int [of x be], of "\<lambda>x. dest\<lparr>g := x\<rparr>"] by simp

definition offline_head_bits :: "u8 \<Rightarrow> bool list" where
  "offline_head_bits i = bits_of (i # OFFLINE_MESSAGE_DATA_ID)"

lemma net_bits_u8: "net_bits (x :: u8) = byte_bits x"
  by (simp add: net_bits_def bits_of_def)

lemma write_all_append: "write_all (vs @ ws) s = rbind (write_all vs s) (write_all ws)"
  by (induction vs arbitrary: s) (auto simp: rbind_assoc intro: rbind_cong)

lemma emits_write_all_append:
  assumes "emits (write_all vs) as" and "emits (write_all ws) bs"
  shows "emits (write_all (vs @ ws)) (as @ bs)"
  using emits_bind [OF assms] by (simp add: emits_def write_all_append)

lemma emits_offline_head [codec_rules]: "emits (write_all (offline_head w i)) (offline_head_bits i)"
proof -
  have "emits (write_all (offline_head w i)) (concat [net_bits i, bits_of OFFLINE_MESSAGE_DATA_ID])"
    unfolding offline_head_def
    by (intro emits_write_all list.rel_intros emits_Write_int emits_Write_bytes)
      (simp_all add: OFFLINE_MESSAGE_DATA_ID_def)
  then show ?thesis by (simp add: offline_head_bits_def net_bits_u8 bits_of_def)
qed

lemma new_stream_writable: "n \<le> max_bits \<Longrightarrow> writable (new_stream w) n"
  using stream_default_ok [of "fresh_memory w"]
  by (simp add: writable_def new_stream_def stream_ok_def) (simp add: stream_default_def)

lemma new_stream_start: "content (new_stream w) = []" "writable_bit_pos (new_stream w) = 0"
  using stream_default_ok [of "fresh_memory w"] by (simp_all add: new_stream_def) (simp add: stream_default_def)

text \<open>A datagram holds the bits written, and zero bits up to the next byte.\<close>

lemma datagram_bits:
  assumes "writable s 8"
  shows "\<exists>d. datagram s = Inr d \<and> bits_of d = content s @ gap (writable_bit_pos s)"
proof -
  let ?p = "writable_bit_pos s"
  have al: "appends s (align_writable_bit_pos s) (gap ?p)"
    by (rule align_appends [OF assms]) (use padded_small [of ?p] in simp)
  have ok: "buffer_ok s" "?p + 8 \<le> max_bits" using assms by (simp_all add: writable_def stream_ok_def)
  then have bytes: "BITS_TO_BYTES ?p = (?p + 7) div 8"
    by (intro BITS_TO_BYTES_small) (simp add: max_bits_def)
  have fits: "(?p + 7) div 8 \<le> length (uchar_data s)"
    using padded_le [of ?p "length (uchar_data s)"] ok by (simp add: padded_def buffer_ok_def)
  have "writable_bit_pos (align_writable_bit_pos s) = padded ?p"
    using al padded_ge [of ?p] by (simp add: appends_def)
  then have "content s @ gap ?p = take (padded ?p) (bits_of (uchar_data s))"
    using al by (simp add: appends_def content_def align_writable_bit_pos_def)
  also have "\<dots> = bits_of (take ((?p + 7) div 8) (uchar_data s))" by (simp add: bits_of_take padded_def)
  finally show ?thesis using bytes fits by (simp add: datagram_def get_range_def)
qed

lemma datagram_of_bits:
  assumes e: "emits (write_all ws) bs" and small: "length bs + 8 \<le> max_bits"
  shows "\<exists>d. datagram_of w ws = Inr d \<and> bits_of d = bs @ gap (length bs)"
proof -
  have w: "writable (new_stream w) (length bs + 8)" using small by (rule new_stream_writable)
  obtain s where s: "write_all ws (new_stream w) = Inr s" "appends (new_stream w) s bs"
    using e writable_mono [OF w] by (metis emitsE le_add1)
  have "writable s 8" by (rule appends_writable [OF s(2) w])
  then show ?thesis
    using datagram_bits [of s] s by (auto simp: datagram_of_def appends_def new_stream_start)
qed

end
