(* ===== verification/Connection_Requests.thy ===== *)
theory Connection_Requests
  imports Application_State
begin

text \<open>
  The requests of the user thread to connect, and their handling by the network thread
  (\<^verbatim>\<open>src/geco_application.cpp\<close>), on the state of \<open>Application_State\<close>.
\<close>

section \<open>Queues of objects\<close>

definition remove_at :: "nat \<Rightarrow> 'a array_queue \<Rightarrow> 'a array_queue res" where
  "remove_at i q = (case Queue_RemoveAtIndex i q of None \<Rightarrow> Inl OutOfFuel | Some r \<Rightarrow> r)"

text \<open>A change of the object the pointer at a place leads to.\<close>

definition store_at :: "nat \<Rightarrow> 'a \<Rightarrow> 'a array_queue \<Rightarrow> 'a array_queue res" where
  "store_at i x q = rbind (put_at (queueArrary q) (ring_index q i) x) (\<lambda>a. Inr (q\<lparr>queueArrary := a\<rparr>))"

section \<open>Connect and cancel\<close>

record key_pair =
  key_mode :: secure_connection_mode
  localKeyPair_Valid :: bool
  remoteServerPublicKey_Valid :: bool

text \<open>
  The handshake object comes from the cryptographic library: \<open>challenge\<close> is the challenge it makes, or
  \<open>None\<close> when one of its calls fails.
\<close>

definition GenerateConnectionRequestChallenge ::
  "u8 list option \<Rightarrow> key_pair option \<Rightarrow> connection_request \<Rightarrow> bool \<times> connection_request" where
  "GenerateConnectionRequestChallenge challenge jackiePublicKey r =
     (case jackiePublicKey of
        None \<Rightarrow> (True, r)
      | Some k \<Rightarrow>
          (case key_mode k of
             INSECURE_CONNECTION \<Rightarrow> (True, r)
           | ACCEPT_ANY_PUBLIC_KEY \<Rightarrow> (True, r\<lparr>client_handshake := True, publicKeyMode := ACCEPT_ANY_PUBLIC_KEY\<rparr>)
           | USE_TWO_WAY_AUTHENTICATION \<Rightarrow>
               if \<not> (localKeyPair_Valid k \<and> remoteServerPublicKey_Valid k) then (False, r)
               else (case challenge of
                       None \<Rightarrow> (False, r\<lparr>client_handshake := False\<rparr>)
                     | Some c \<Rightarrow> (True, r\<lparr>client_handshake := True, handshakeChallenge := c,
                                          publicKeyMode := USE_TWO_WAY_AUTHENTICATION\<rparr>))
           | USE_KNOWN_PUBLIC_KEY \<Rightarrow>
               if \<not> remoteServerPublicKey_Valid k then (False, r)
               else (case challenge of
                       None \<Rightarrow> (False, r\<lparr>client_handshake := False\<rparr>)
                     | Some c \<Rightarrow> (True, r\<lparr>client_handshake := True, handshakeChallenge := c,
                                          publicKeyMode := USE_KNOWN_PUBLIC_KEY\<rparr>))))"

text \<open>The first request of an address, over the \<open>n\<close> places from \<open>i\<close> on.\<close>

fun find_request :: "(connection_request \<Rightarrow> bool) \<Rightarrow> nat \<Rightarrow> nat \<Rightarrow> connection_request array_queue \<Rightarrow> nat option res" where
  "find_request p 0 i q = Inr None"
| "find_request p (Suc n) i q =
     rbind (Queue_at q i) (\<lambda>r. if p r then Inr (Some i) else find_request p n (i + 1) q)"

text \<open>The end of \<^verbatim>\<open>Connect\<close>: a request for an address that has one already is given up with the lock held.\<close>

definition post_request :: "network_address \<Rightarrow> connection_request \<Rightarrow> app \<Rightarrow> (connection_attempt_result \<times> app) res" where
  "post_request addr r a =
     (let a = a\<lparr>connReqQLock := Lock (connReqQLock a)\<rparr>
      in rbind (find_request (\<lambda>r. address_eq (receiverAddr r) addr) (Queue_Size (connReqQ a)) 0 (connReqQ a)) (\<lambda>found.
         if found \<noteq> None then Inr (CONNECTION_ATTEMPT_ALREADY_IN_PROGRESS, a)
         else rbind (PushTail 8 r (connReqQ a)) (\<lambda>q.
           Inr (CONNECTION_ATTEMPT_POSTED, a\<lparr>connReqQ := q, connReqQLock := Unlock (connReqQLock a)\<rparr>))))"

text \<open>
  \<^verbatim>\<open>Connect\<close>. The library functions \<open>inet_addr\<close> and \<open>resolve\<close> are those of \<open>Net_Types\<close>; \<open>unset\<close> is the
  address object before it is set, \<open>raw\<close> the request object before its fields are.
\<close>

definition Connect ::
  "(string \<Rightarrow> u32) \<Rightarrow> (string \<Rightarrow> string) \<Rightarrow> bool \<Rightarrow> u8 list option \<Rightarrow> network_address \<Rightarrow> connection_request \<Rightarrow>
   u64 \<Rightarrow> bound_socket list \<Rightarrow> string option \<Rightarrow> u16 \<Rightarrow> u8 list option \<Rightarrow> u8 \<Rightarrow> key_pair option \<Rightarrow> u8 \<Rightarrow> u8 \<Rightarrow>
   u16 \<Rightarrow> u32 \<Rightarrow> u32 \<Rightarrow> app \<Rightarrow> (connection_attempt_result \<times> app) res" where
  "Connect inet_addr resolve be challenge unset raw time bindedSockets host port passwd passwdLength jackiePublicKey
     ConnectionSocketIndex attemptTimes AttemptIntervalMS timeout extra a =
     (case host of
        None \<Rightarrow> Inr (INVALID_PARAM, a)
      | Some h \<Rightarrow>
        if port = 0 then Inr (INVALID_PARAM, a)
        else if endThreads (eps a) then Inr (INVALID_PARAM, a)
        else
          let passwdLength = (if passwdLength > 8 then 8 else passwdLength);
              passwdLength = (if passwd = None then 0 else passwdLength)
          in if \<not> (\<exists>s \<in> set bindedSockets. userConnectionSocketIndex s = ucast ConnectionSocketIndex)
             then Inr (INVALID_PARAM, a)
             else
          rbind (rassert (unat ConnectionSocketIndex < length bindedSockets)) (\<lambda>_.
          rbind (FromStringPort inet_addr resolve be h port unset) (\<lambda>(ok, addr).
            if \<not> ok \<or> is_null addr then Inr (CANNOT_RESOLVE_DOMAIN_NAME, a)
            else
          rbind (GetRemoteSystem_address be addr False True (eps a)) (\<lambda>remote.
            if remote \<noteq> None then Inr (ALREADY_CONNECTED_TO_ENDPOINT, a)
            else
          rbind (case passwd of
                   Some p \<Rightarrow> if unat passwdLength \<le> length p then Inr (take (unat passwdLength) p) else Inl OutOfBounds
                 | None \<Rightarrow> Inr []) (\<lambda>pw.
            let r = raw\<lparr>receiverAddr := addr, nextRequestTime := time, requestsMade := 0, extraData := extra,
                        socketIndex := ucast ConnectionSocketIndex, cr_socket := unat ConnectionSocketIndex,
                        actionToTake := CONNECT, connAttemptTimes := ucast attemptTimes,
                        connAttemptIntervalMS := ucast AttemptIntervalMS, cr_timeout := timeout,
                        pwdLen := passwdLength, pwd := pw, client_handshake := False,
                        publicKeyMode := INSECURE_CONNECTION\<rparr>;
                (secured, r) = GenerateConnectionRequestChallenge challenge jackiePublicKey r
            in if \<not> secured then Inr (SECURITY_INITIALIZATION_FAILED, a)
               else post_request addr r a)))))"

definition CancelConnectionRequest :: "network_address \<Rightarrow> app \<Rightarrow> app res" where
  "CancelConnectionRequest target a =
     (let a = a\<lparr>connReqCancelQLock := Lock (connReqCancelQLock a)\<rparr>
      in rbind (PushTail 8 target (connReqCancelQ a)) (\<lambda>q.
           Inr (a\<lparr>connReqCancelQ := q, connReqCancelQLock := Unlock (connReqCancelQLock a)\<rparr>)))"

text \<open>
  The rounds of \<^verbatim>\<open>ProcessConnectionRequestCancelQ\<close>: one for each entry of the cancel queue, all of them with
  \<open>addr\<close>, the address object the function declares and never sets.
\<close>

fun cancel_rounds :: "nat \<Rightarrow> network_address \<Rightarrow> app \<Rightarrow> app res" where
  "cancel_rounds 0 addr a = Inr a"
| "cancel_rounds (Suc n) addr a =
     (let a = a\<lparr>connReqQLock := Lock (connReqQLock a)\<rparr>
      in rbind (find_request (\<lambda>r. address_eq (receiverAddr r) addr) (Queue_Size (connReqQ a)) 0 (connReqQ a)) (\<lambda>found.
         rbind (case found of Some i \<Rightarrow> remove_at i (connReqQ a) | None \<Rightarrow> Inr (connReqQ a)) (\<lambda>q.
           cancel_rounds n addr (a\<lparr>connReqQ := q, connReqQLock := Unlock (connReqQLock a)\<rparr>))))"

definition ProcessConnectionRequestCancelQ :: "network_address \<Rightarrow> app \<Rightarrow> app res" where
  "ProcessConnectionRequestCancelQ addr a =
     (if Queue_IsEmpty (connReqCancelQ a) then Inr a
      else
        let a = a\<lparr>connReqCancelQLock := Lock (connReqCancelQLock a)\<rparr>
        in rbind (cancel_rounds (Queue_Size (connReqCancelQ a)) addr a) (\<lambda>a.
             Inr (a\<lparr>connReqCancelQLock := Unlock (connReqCancelQLock a)\<rparr>)))"

section \<open>The command that carries a connection\<close>

text \<open>
  \<^verbatim>\<open>Connect_\<close> packs its arguments into a buffer and moves \<^verbatim>\<open>cmd->data\<close> along; the network thread unpacks
  from where it stands. A buffer is its bytes and the place the pointer points to; \<open>key\<close> holds the
  eight bytes of the pointer to the key, \<open>unset\<close> what the allocated memory contains.
\<close>

type_synonym command_data = "u8 list \<times> nat"

definition put_bytes :: "u8 list \<Rightarrow> command_data \<Rightarrow> command_data res" where
  "put_bytes bs d = rbind (copy_into (fst d) (snd d) bs (length bs)) (\<lambda>buf. Inr (buf, snd d))"

definition advance :: "nat \<Rightarrow> command_data \<Rightarrow> command_data" where
  "advance n d = (fst d, snd d + n)"

definition Connect_pack ::
  "bool \<Rightarrow> u8 list \<Rightarrow> string \<Rightarrow> u8 \<Rightarrow> u8 list \<Rightarrow> u8 \<Rightarrow> u8 \<Rightarrow> u16 \<Rightarrow> u32 \<Rightarrow> u32 \<Rightarrow> command_data res" where
  "Connect_pack be unset passwd passwdLength key localSocketIndex attemptTimes attemptIntervalMS timeout extra =
     (let n = length passwd + 1 + 1 + 8 + 1 + 1 + 2 + 4 + 4
      in rbind (put_bytes (c_chars passwd @ [0]) (take n unset, 0)) (\<lambda>d.
         rbind (put_bytes (mem_bytes be passwdLength) (advance (length passwd + 1) d)) (\<lambda>d.
         rbind (put_bytes key (advance 1 d)) (\<lambda>d.
         rbind (put_bytes (mem_bytes be localSocketIndex) (advance 8 d)) (\<lambda>d.
         rbind (put_bytes (mem_bytes be attemptTimes) (advance 1 d)) (\<lambda>d.
         rbind (put_bytes (mem_bytes be attemptIntervalMS) (advance 1 d)) (\<lambda>d.
         rbind (put_bytes (mem_bytes be timeout) (advance 2 d)) (\<lambda>d.
           put_bytes (mem_bytes be extra) (advance 4 d)))))))))"

definition get_uint :: "bool \<Rightarrow> command_data \<Rightarrow> u32 res" where
  "get_uint be d =
     (if snd d + 4 \<le> length (fst d) then Inr (mem_word be (take 4 (drop (snd d) (fst d)))) else Inl OutOfBounds)"

definition get_pointer :: "command_data \<Rightarrow> u8 list res" where
  "get_pointer d = (if snd d + 8 \<le> length (fst d) then Inr (take 8 (drop (snd d) (fst d))) else Inl OutOfBounds)"

text \<open>The branch \<^verbatim>\<open>BCS_CONEECT\<close> of \<^verbatim>\<open>ProcessAllocCommandQ\<close> up to its call of \<^verbatim>\<open>Connect_\<close>.\<close>

definition connect_unpack ::
  "bool \<Rightarrow> command_data \<Rightarrow> (string \<times> u8 \<times> u8 list \<times> u8 \<times> u8 \<times> u16 \<times> u32 \<times> u32) res" where
  "connect_unpack be d =
     rbind (c_strlen (drop (snd d) (fst d))) (\<lambda>n.
     let passwd = map (\<lambda>b. char_of (unat b)) (take n (drop (snd d) (fst d))); d = advance (n + 1) d
     in rbind (get_uint be d) (\<lambda>passwdlength. let d = advance 1 d
     in rbind (get_pointer d) (\<lambda>jackiePublicKey. let d = advance 8 d
     in rbind (get_uint be d) (\<lambda>ConnectionSocketIndex. let d = advance 1 d
     in rbind (get_uint be d) (\<lambda>attemptTimes. let d = advance 1 d
     in rbind (get_uint be d) (\<lambda>AttemptIntervalMS. let d = advance 2 d
     in rbind (get_uint be d) (\<lambda>timeout. let d = advance 4 d
     in rbind (get_uint be d) (\<lambda>extra.
          Inr (passwd, ucast passwdlength, jackiePublicKey, ucast ConnectionSocketIndex, ucast attemptTimes,
               ucast AttemptIntervalMS, timeout, extra)))))))))"

section \<open>The packed command\<close>

lemma put_bytes_ok:
  "snd d + length bs \<le> length (fst d) \<Longrightarrow>
   \<exists>buf. put_bytes bs d = Inr (buf, snd d) \<and> length buf = length (fst d)"
  by (auto simp: put_bytes_def copy_into_ok)

lemma put_bytes_then:
  assumes "snd d + length bs \<le> length (fst d)"
    and "\<And>buf. length buf = length (fst d) \<Longrightarrow> \<exists>x. f (buf, snd d) = Inr x \<and> P x"
  shows "\<exists>x. rbind (put_bytes bs d) f = Inr x \<and> P x"
  using put_bytes_ok [OF assms(1)] assms(2) by auto

lemma Connect_pack_place:
  assumes "length key = 8" and "length passwd + 22 \<le> length unset"
  shows "\<exists>d. Connect_pack be unset passwd pl key si n iv t x = Inr d \<and> length (fst d) = snd d + 4"
  using assms unfolding Connect_pack_def Let_def
  by (intro put_bytes_then)
    (auto simp: advance_def bytes_of_type_def put_bytes_def copy_into_ok)

lemma connect_unpack_outside:
  assumes "length (fst d) = snd d + 4"
  shows "connect_unpack be d = Inl OutOfBounds"
  by (simp add: connect_unpack_def c_strlen_def Let_def get_uint_def advance_def assms)

section \<open>The requests in the queue\<close>

lemma find_request_ok:
  assumes ok: "q_ok q"
  shows "i + n \<le> Queue_Size q \<Longrightarrow>
    find_request p n i q = Inr (find (\<lambda>j. p (queue_elems q ! j)) [i..<i + n])"
proof (induction n arbitrary: i)
  case (Suc n)
  have "[i..<i + Suc n] = i # [Suc i..<Suc i + n]" by (simp add: upt_conv_Cons)
  then show ?case using Suc ok by (simp only:) (auto simp: Queue_at_elems simp del: upt_Suc)
qed simp

lemma find_request_none:
  assumes ok: "q_ok q"
  shows "find_request p (Queue_Size q) 0 q = Inr None \<longleftrightarrow> (\<forall>r \<in> set (queue_elems q). \<not> p r)"
proof -
  have "(\<forall>r \<in> set (queue_elems q). \<not> p r) \<longleftrightarrow> (\<forall>j < Queue_Size q. \<not> p (queue_elems q ! j))"
    by (simp add: all_set_conv_all_nth)
  then show ?thesis
    using find_request_ok [OF ok, of 0 "Queue_Size q" p] by (auto simp: find_None_iff)
qed

text \<open>No request has the address of an earlier one.\<close>

definition requests_distinct :: "connection_request array_queue \<Rightarrow> bool" where
  "requests_distinct q \<longleftrightarrow>
     sorted_wrt (\<lambda>r s. \<not> address_eq (receiverAddr r) (receiverAddr s)) (queue_elems q)"

lemma receiverAddr_challenge [simp]:
  "receiverAddr (snd (GenerateConnectionRequestChallenge c k r)) = receiverAddr r"
  by (simp add: GenerateConnectionRequestChallenge_def split: option.split secure_connection_mode.split)

definition connect_effect :: "app \<Rightarrow> connection_attempt_result \<Rightarrow> app \<Rightarrow> bool" where
  "connect_effect a res a' \<longleftrightarrow>
     q_ok (connReqQ a') \<and>
     connReqQLock a' = connReqQLock a + (if res = CONNECTION_ATTEMPT_ALREADY_IN_PROGRESS then 1 else 0) \<and>
     a' = a\<lparr>connReqQ := connReqQ a', connReqQLock := connReqQLock a'\<rparr> \<and>
     (if res = CONNECTION_ATTEMPT_POSTED
      then \<exists>r. queue_elems (connReqQ a') = queue_elems (connReqQ a) @ [r] \<and>
             (\<forall>s \<in> set (queue_elems (connReqQ a)). \<not> address_eq (receiverAddr s) (receiverAddr r))
      else connReqQ a' = connReqQ a)"

lemma post_request_effect:
  assumes ok: "q_ok (connReqQ a)" and room: "Queue_Size (connReqQ a) + 1 < 2 ^ 30"
    and run: "post_request (receiverAddr r) r a = Inr (res, a')"
  shows "connect_effect a res a'"
proof (cases "find_request (\<lambda>s. address_eq (receiverAddr s) (receiverAddr r)) (Queue_Size (connReqQ a)) 0 (connReqQ a) = Inr None")
  case True
  obtain q where q: "PushTail 8 r (connReqQ a) = Inr q" "q_ok q" "queue_elems q = queue_elems (connReqQ a) @ [r]"
    using PushTail_ok [OF ok _ _ room, of 8 r] by auto
  have "res = CONNECTION_ATTEMPT_POSTED" "a' = a\<lparr>connReqQ := q\<rparr>"
    using run True q(1) by (auto simp: post_request_def Let_def)
  then show ?thesis
    using q True ok unfolding connect_effect_def find_request_none [OF ok] by auto
next
  case False
  have "res = CONNECTION_ATTEMPT_ALREADY_IN_PROGRESS" "a' = a\<lparr>connReqQLock := connReqQLock a + 1\<rparr>"
    using run False by (auto simp: post_request_def Let_def rbind_eq_Inr split: if_splits)
  then show ?thesis using ok by (simp add: connect_effect_def)
qed

lemma connect_effect_none:
  "q_ok (connReqQ a) \<Longrightarrow> res \<noteq> CONNECTION_ATTEMPT_POSTED \<Longrightarrow> res \<noteq> CONNECTION_ATTEMPT_ALREADY_IN_PROGRESS \<Longrightarrow>
   connect_effect a res a"
  by (simp add: connect_effect_def)

lemma Connect_effect:
  assumes ok: "q_ok (connReqQ a)" and room: "Queue_Size (connReqQ a) + 1 < 2 ^ 30"
    and run: "Connect ia rs be ch unset raw time socks host port pw pl key si n iv to x a = Inr (res, a')"
  shows "connect_effect a res a'"
proof -
  have post: "connect_effect a res a'"
    if "GenerateConnectionRequestChallenge ch key r0 = (True, r)" "receiverAddr r0 = addr"
      "post_request addr r a = Inr (res, a')" for r0 r addr
    using post_request_effect [OF ok room, of r res a'] receiverAddr_challenge [of ch key r0] that by simp
  show ?thesis
    using run ok unfolding Connect_def Let_def
    by (auto simp: rbind_eq_Inr split: option.splits if_splits prod.splits intro: connect_effect_none post)
qed

section \<open>Cancelling\<close>

lemma cancel_rounds_none:
  assumes "q_ok (connReqQ a)" and "\<forall>r \<in> set (queue_elems (connReqQ a)). \<not> address_eq (receiverAddr r) addr"
  shows "cancel_rounds n addr a = Inr a"
proof (induction n)
  case (Suc n)
  have "find_request (\<lambda>r. address_eq (receiverAddr r) addr) (Queue_Size (connReqQ a)) 0 (connReqQ a) = Inr None"
    using assms by (simp add: find_request_none)
  then show ?case using Suc by (simp add: Let_def)
qed simp

lemma cancel_then_process:
  assumes q: "q_ok (connReqQ a)" and c: "q_ok (connReqCancelQ a)" "Queue_Size (connReqCancelQ a) + 1 < 2 ^ 30"
    and none: "\<forall>r \<in> set (queue_elems (connReqQ a)). \<not> address_eq (receiverAddr r) addr"
  shows "\<exists>cq. rbind (CancelConnectionRequest target a) (ProcessConnectionRequestCancelQ addr)
      = Inr (a\<lparr>connReqCancelQ := cq\<rparr>) \<and> queue_elems cq = queue_elems (connReqCancelQ a) @ [target]"
proof -
  obtain cq where cq: "PushTail 8 target (connReqCancelQ a) = Inr cq" "q_ok cq"
      "queue_elems cq = queue_elems (connReqCancelQ a) @ [target]"
    using PushTail_ok [OF c(1) _ _ c(2), of 8 target] by auto
  have "cancel_rounds n addr (a\<lparr>connReqCancelQ := cq, connReqCancelQLock := l\<rparr>)
      = Inr (a\<lparr>connReqCancelQ := cq, connReqCancelQLock := l\<rparr>)" for n l
    by (rule cancel_rounds_none) (use q none in simp_all)
  then show ?thesis
    using cq by (intro exI [of _ cq])
      (simp add: CancelConnectionRequest_def ProcessConnectionRequestCancelQ_def Let_def)
qed

end
