(* ===== verification/Send_Immediate.thy ===== *)
theory Send_Immediate
  imports Application_State
begin

text \<open>
  \<^verbatim>\<open>SendImmediate\<close> of \<^verbatim>\<open>src/geco_application.cpp\<close>, which hands a message to the reliability layers of
  the end points it is for. The list of the receivers lies on the stack and has room for one of them.
  \<^verbatim>\<open>transport_layer_t::Send\<close> only prints, so a message handed over is a call \<open>ReliabilitySend\<close>.
\<close>

datatype packet_reliability =
    UNRELIABLE_NOT_ACK_RECEIPT_OF_PACKET | UNRELIABLE_SEQUENCED_NOT_ACK_RECEIPT_OF_PACKET
  | RELIABLE_NOT_ACK_RECEIPT_OF_PACKET | RELIABLE_ORDERED_NOT_ACK_RECEIPT_OF_PACKET
  | RELIABLE_SEQUENCED_NOT_ACK_RECEIPT_OF_PACKET | UNRELIABLE_ACK_RECEIPT_OF_PACKET
  | UNRELIABLE_SEQUENCED_WITH_ACK_RECEIPT | RELIABLE_ACK_RECEIPT_OF_PACKET | RELIABLE_ORDERED_ACK_RECEIPT_OF_PACKET
  | RELIABLE_SEQUENCED_WITH_ACK_RECEIPT | NUMBER_OF_RELIABILITIES

record reliable_send_params =
  broadcast :: bool
  useCallerDataAllocation :: bool
  send_data :: "u8 list"
  bitsSize :: nat
  packetReliability :: packet_reliability
  receiverAdress :: guid_address_wrapper
  currentTime :: u64
  send_mtu :: u16

definition find_receiver :: "bool \<Rightarrow> guid_address_wrapper \<Rightarrow> endpoints \<Rightarrow> (nat option \<times> endpoints) res" where
  "find_receiver be receiver t =
     (if \<not> is_null (w_systemAddress receiver)
      then GetRemoteSystemIndexGeneral be (w_systemAddress receiver) True t
      else if \<not> is_null_guid (w_guid receiver) then GetRemoteSystemIndexGeneral_guid (w_guid receiver) t
      else Inr (None, t))"

text \<open>The list for one receiver; \<open>None\<close> when it is not found.\<close>

definition single_receiver :: "nat option \<Rightarrow> endpoints \<Rightarrow> nat list option res" where
  "single_receiver found t =
     (case found of
        None \<Rightarrow> Inr None
      | Some i \<Rightarrow>
          rbind (get_at (remoteSystemList t) i) (\<lambda>r.
            if isActive r \<and> connectMode r \<noteq> DISCONNECT_ASAP \<and> connectMode r \<noteq> DISCONNECT_ASAP_SILENTLY
               \<and> connectMode r \<noteq> DISCONNECT_ON_NO_ACK
            then Inr (Some [i]) else Inr (Some [])))"

text \<open>The loop of a broadcast: the list has room for one receiver.\<close>

fun broadcast_list :: "nat option \<Rightarrow> nat \<Rightarrow> nat list \<Rightarrow> remote_system list \<Rightarrow> nat list res" where
  "broadcast_list skip idx sendList [] = Inr sendList"
| "broadcast_list skip idx sendList (r # rs) =
     (if skip = Some idx then broadcast_list skip (Suc idx) sendList rs
      else if isActive r \<and> \<not> is_null (systemAddress r) then
        (if length sendList < 1 then broadcast_list skip (Suc idx) (sendList @ [idx]) rs
         else Inl OutOfBounds)
      else broadcast_list skip (Suc idx) sendList rs)"

definition is_reliable :: "packet_reliability \<Rightarrow> bool" where
  "is_reliable r \<longleftrightarrow>
     r = RELIABLE_NOT_ACK_RECEIPT_OF_PACKET \<or> r = RELIABLE_ORDERED_NOT_ACK_RECEIPT_OF_PACKET \<or>
     r = RELIABLE_SEQUENCED_NOT_ACK_RECEIPT_OF_PACKET \<or> r = RELIABLE_ACK_RECEIPT_OF_PACKET \<or>
     r = RELIABLE_ORDERED_ACK_RECEIPT_OF_PACKET"

text \<open>
  Handing over: \<open>used\<close> is \<^verbatim>\<open>callerDataAllocationUsed\<close>. The parameters are changed on the way, so the next
  receiver sees \<^verbatim>\<open>useCallerDataAllocation\<close> as the last one left it.
\<close>

fun send_each :: "nat list \<Rightarrow> bool \<Rightarrow> reliable_send_params \<Rightarrow> app \<Rightarrow> (bool \<times> reliable_send_params \<times> app) res" where
  "send_each [] used p a = Inr (used, p, a)"
| "send_each (i # is) used p a =
     rbind (get_at (remoteSystemList (eps a)) i) (\<lambda>r.
       let useData = useCallerDataAllocation p \<and> \<not> used \<and> is = [];
           p = p\<lparr>useCallerDataAllocation := \<not> useData, send_mtu := word_of_int (MTUSize r)\<rparr>;
           r = (if is_reliable (packetReliability p)
                then r\<lparr>lastReliableSend := ucast (ucast (currentTime p div 1000) :: u32)\<rparr> else r);
           a = a\<lparr>calls := calls a @ [ReliabilitySend i (send_data p)],
                 eps := (eps a)\<lparr>remoteSystemList := (remoteSystemList (eps a))[i := r]\<rparr>\<rparr>
       in send_each is (used \<or> useData) p a)"

definition SendImmediate :: "bool \<Rightarrow> reliable_send_params \<Rightarrow> app \<Rightarrow> (bool \<times> reliable_send_params \<times> app) res" where
  "SendImmediate be p a =
     rbind (find_receiver be (receiverAdress p) (eps a)) (\<lambda>(remoteSystemIndex, t).
     let a = a\<lparr>eps := t\<rparr>
     in if broadcast p = False then
          rbind (single_receiver remoteSystemIndex t) (\<lambda>sendList.
            case sendList of
              None \<Rightarrow> Inr (False, p, a)
            | Some [] \<Rightarrow> Inr (False, p, a)
            | Some l \<Rightarrow> send_each l False p a)
        else
          rbind (broadcast_list remoteSystemIndex 0 [] (take (maxConnections t) (remoteSystemList t))) (\<lambda>l.
            if l = [] then Inr (False, p, a) else send_each l False p a))"

section \<open>A broadcast\<close>

definition receivers :: "nat option \<Rightarrow> nat \<Rightarrow> remote_system list \<Rightarrow> nat list" where
  "receivers skip idx rs =
     map fst (filter (\<lambda>(i, r). skip \<noteq> Some i \<and> isActive r \<and> \<not> is_null (systemAddress r)) (enumerate idx rs))"

lemma receivers_Nil [simp]: "receivers skip idx [] = []"
  by (simp add: receivers_def)

lemma receivers_Cons:
  "receivers skip idx (r # rs) =
     (if skip \<noteq> Some idx \<and> isActive r \<and> \<not> is_null (systemAddress r) then [idx] else [])
     @ receivers skip (Suc idx) rs"
  by (simp add: receivers_def)

lemma broadcast_list_receivers:
  "length sendList \<le> 1 \<Longrightarrow> broadcast_list skip idx sendList rs =
     (if length sendList + length (receivers skip idx rs) \<le> 1 then Inr (sendList @ receivers skip idx rs)
      else Inl OutOfBounds)"
proof (induction rs arbitrary: idx sendList)
  case (Cons r rs)
  then show ?case by (auto simp: receivers_Cons)
qed simp

end
