(* ===== verification/Handshake_Client.thy ===== *)
theory Handshake_Client
  imports Offline_Messages Connection_Requests Send_Immediate
begin

text \<open>
  The client side of the connection handshake in \<^verbatim>\<open>src/geco_application.cpp\<close>: the requests that are
  sent until an answer comes, the two answers of the server, and the messages that end an attempt.
\<close>

section \<open>Sending the first request\<close>

definition request1 :: "world \<Rightarrow> nat \<Rightarrow> writer list" where
  "request1 w mtu =
     offline_head w ID_OPEN_CONNECTION_REQUEST_1 @
     [Write_int (big_endian w) JACKIE_INET_PROTOCOL_VERSION, pad_zeros_up_to (sub32 mtu UDP_HEADER_SIZE)]"

text \<open>The index of the MTU to try: fewer bytes the more requests have been made.\<close>

definition MTUSizeIndex :: "connection_request \<Rightarrow> nat res" where
  "MTUSizeIndex r =
     (let n = unat (connAttemptTimes r) div mtuSizesCount
      in if n = 0 then Inl DivisionByZero
         else
           let i = unat (requestsMade r) div n
           in Inr (if i \<ge> mtuSizesCount then mtuSizesCount - 1 else i))"

definition after_send :: "u32 \<Rightarrow> nat \<Rightarrow> send_outcome \<Rightarrow> connection_request \<Rightarrow> connection_request" where
  "after_send timeMS i outcome r =
     (let n = connAttemptTimes r div of_nat mtuSizesCount
      in if so_result outcome < 0 \<and> so_bytesWritten outcome = 10040 then
           r\<lparr>requestsMade := ucast (of_nat (i + 1) * n), nextRequestTime := ucast timeMS\<rparr>
         else if so_end outcome - so_start outcome > 100 then
           let lowestMtuIndex = sint (n * of_nat (mtuSizesCount - 1))
           in if lowestMtuIndex > int (unat (requestsMade r)) then
                r\<lparr>requestsMade := word_of_int lowestMtuIndex, nextRequestTime := ucast timeMS\<rparr>
              else r\<lparr>requestsMade := ucast (connAttemptTimes r + 1)\<rparr>
         else r)"

definition try_request :: "world \<Rightarrow> u32 \<Rightarrow> nat \<Rightarrow> connection_request \<Rightarrow> app \<Rightarrow> app res" where
  "try_request w timeMS index r a =
     rbind (MTUSizeIndex r) (\<lambda>i.
     let r = r\<lparr>requestsMade := requestsMade r + 1, nextRequestTime := ucast (timeMS + connAttemptIntervalMS r)\<rparr>
     in rbind (get_at mtuSizes i) (\<lambda>mtu.
        rbind (datagram_of w (request1 w mtu)) (\<lambda>d.
        rbind (get_at (boundAddrs w) (cr_socket r)) (\<lambda>bound.
        rbind (FixForIPVersion (w_inet_addr w) (w_resolve w) (w_inet_ntoa w) (big_endian w) bound (receiverAddr r))
          (\<lambda>addr.
        let r = r\<lparr>receiverAddr := addr\<rparr>; (out, a) = Send w addr d a
        in rbind (store_at index (after_send timeMS i out r) (connReqQ a)) (\<lambda>q.
             Inr (a\<lparr>connReqQ := q\<rparr>)))))))"

text \<open>The attempt is given up: the packet points to a variable of the function.\<close>

definition give_up :: "world \<Rightarrow> nat \<Rightarrow> connection_request \<Rightarrow> app \<Rightarrow> app res" where
  "give_up w index r a =
     (let a = push_packet ((AllocPacket w DeadVariable)\<lparr>packet_address := receiverAddr r\<rparr>) a
      in rbind (remove_at index (connReqQ a)) (\<lambda>q. Inr (a\<lparr>connReqQ := q\<rparr>)))"

definition request_round :: "world \<Rightarrow> u32 \<Rightarrow> nat \<Rightarrow> app \<Rightarrow> app res" where
  "request_round w timeMS index a =
     rbind (Queue_at (connReqQ a) index) (\<lambda>r.
     rbind (if nextRequestTime r < ucast timeMS then
              if ucast (requestsMade r) = connAttemptTimes r + 1 then give_up w index r a
              else try_request w timeMS index r a
            else Inr a) (\<lambda>a.
       Inr (a\<lparr>connReqQLock := Unlock (connReqQLock a)\<rparr>)))"

text \<open>
  The loop. After a removal the next request is passed over, and the lock is released once in each round.
  The queue never grows, so as many rounds as it has requests are enough.
\<close>

fun request_rounds :: "nat \<Rightarrow> world \<Rightarrow> u32 \<Rightarrow> nat \<Rightarrow> app \<Rightarrow> app res" where
  "request_rounds 0 w timeMS index a = (if index < Queue_Size (connReqQ a) then Inl OutOfFuel else Inr a)"
| "request_rounds (Suc n) w timeMS index a =
     (if index < Queue_Size (connReqQ a)
      then rbind (request_round w timeMS index a) (request_rounds n w timeMS (index + 1))
      else Inr a)"

definition ProcessConnectionRequestQ :: "world \<Rightarrow> u64 \<Rightarrow> u32 \<Rightarrow> app \<Rightarrow> (u64 \<times> u32 \<times> app) res" where
  "ProcessConnectionRequestQ w timeUS timeMS a =
     (if Queue_IsEmpty (connReqQ a) then Inr (timeUS, timeMS, a)
      else
        let (timeUS, timeMS) = (if timeUS = 0 then (time_us w, ucast (time_us w div 1000)) else (timeUS, timeMS));
            a = a\<lparr>connReqQLock := Lock (connReqQLock a)\<rparr>
        in rbind (request_rounds (Queue_Size (connReqQ a)) w timeMS 0 a) (\<lambda>a. Inr (timeUS, timeMS, a)))"

section \<open>The end of an attempt\<close>

abbreviation request_to :: "network_address \<Rightarrow> connection_request \<Rightarrow> bool" where
  "request_to addr r \<equiv> actionToTake r = CONNECT \<and> address_eq (receiverAddr r) addr"

text \<open>Reading the message: the guid of the server.\<close>

definition read_failed :: "world \<Rightarrow> recv_params \<Rightarrow> guid res" where
  "read_failed w rp =
     rbind (received_stream w rp) (\<lambda>s.
     rbind (Read_int (big_endian w) s) (\<lambda>(i :: u8, s).
     rbind (get_at (rp_data rp) 0) (\<lambda>b.
     rbind (if b = ID_INCOMPATIBLE_PROTOCOL_VERSION
            then rbind (Read_int (big_endian w) s) (\<lambda>(v :: u8, s). Inr s) else Inr s) (\<lambda>s.
     rbind (Read_guid (big_endian w) JACKIE_NULL_GUID (skip_read_bytes 16 s)) (\<lambda>(gd, s). Inr gd)))))"

definition failed_attempt :: "world \<Rightarrow> recv_params \<Rightarrow> guid \<Rightarrow> app \<Rightarrow> app res" where
  "failed_attempt w rp gd a =
     (let sender = senderINetAddress rp; a = a\<lparr>connReqQLock := Lock (connReqQLock a)\<rparr>
      in rbind (find_request (request_to sender) (Queue_Size (connReqQ a)) 0 (connReqQ a)) (\<lambda>found.
         rbind (case found of Some i \<Rightarrow> remove_at i (connReqQ a) | None \<Rightarrow> Inr (connReqQ a)) (\<lambda>q.
           let a = a\<lparr>connReqQ := q, connReqQLock := Unlock (connReqQLock a)\<rparr>
           in Inr (if found \<noteq> None
                   then push_packet ((AllocPacket w (ReceivedData rp))\<lparr>packet_address := sender, packet_guid := gd\<rparr>) a
                   else a))))"

definition OnConnectionFailed :: "world \<Rightarrow> recv_params \<Rightarrow> app \<Rightarrow> app res" where
  "OnConnectionFailed w rp a =
     rbind (test_offline (as_size (bytesRead rp) > 1 + 16 \<and> as_size (bytesRead rp) \<le> 1 + 16 + 8) 1 rp a) (\<lambda>a.
       if isUnconnectedRecvPrrams a then
         let a = plugins_receive a
         in rbind (read_failed w rp) (\<lambda>gd. failed_attempt w rp gd a)
       else Inr a)"

section \<open>The first answer of the server\<close>

text \<open>The guid, whether the server wants a secure connection, and the cookie if so.\<close>

definition read_reply1 :: "world \<Rightarrow> recv_params \<Rightarrow> ((guid \<times> bool \<times> u32) \<times> bstream) res" where
  "read_reply1 w rp =
     rbind (received_stream w rp) (\<lambda>s.
     rbind (Read_guid (big_endian w) JACKIE_NULL_GUID (skip_read_bytes 16 (skip_read_bytes 1 s))) (\<lambda>(serverGuid, s).
     rbind (Read_bool s) (\<lambda>(serverRequiresSecureConn, s).
     rbind (if serverRequiresSecureConn then Read_int (big_endian w) s else Inr (raw_cookie w, s)) (\<lambda>(cookie, s).
       Inr ((serverGuid, serverRequiresSecureConn, cookie), s)))))"

text \<open>
  The challenge of a client that connects with any public key is made now. The result is the request with its
  challenge, or \<open>None\<close> when the library fails.
\<close>

definition prepare_challenge :: "world \<Rightarrow> connection_request \<Rightarrow> connection_request option res" where
  "prepare_challenge w r =
     (if publicKeyMode r = ACCEPT_ANY_PUBLIC_KEY then
        if \<not> client_handshake r then Inl OutOfBounds
        else Inr (map_option (\<lambda>c. r\<lparr>handshakeChallenge := c\<rparr>) (any_key_challenge (crypt w)))
      else Inr (Some r))"

definition challenge_writers :: "world \<Rightarrow> u32 \<Rightarrow> connection_request \<Rightarrow> writer list" where
  "challenge_writers w cookie r =
     Write_int (big_endian w) cookie #
     (if \<not> client_handshake r then [Write_bool False]
      else [Write_bool True, write_aligned_bytes (handshakeChallenge r) CHALLENGE_BYTES])"

text \<open>The rest of the second request, whose MTU is the next value of the message of the server.\<close>

definition finish_request2 :: "world \<Rightarrow> recv_params \<Rightarrow> connection_request \<Rightarrow> bstream \<Rightarrow> bstream \<Rightarrow> app \<Rightarrow> (bstream \<times> app) res" where
  "finish_request2 w rp r out reader a =
     rbind (Write_mini_address (big_endian w) (receiverAddr r) out) (\<lambda>out.
     rbind (Read_int (big_endian w) reader) (\<lambda>(mtu :: u16, reader).
     rbind (write_all [Write_mini_int (big_endian w) True mtu, Write_mini_guid (big_endian w) (myGuid (eps a))] out)
       (\<lambda>out.
     rbind (datagram out) (\<lambda>d. Inr (reader, answer_with w rp d a)))))"

text \<open>One request that the answer is for: \<open>True\<close> when the function returns from within the loop.\<close>

definition answer_reply1 ::
  "world \<Rightarrow> recv_params \<Rightarrow> guid \<times> bool \<times> u32 \<Rightarrow> nat \<Rightarrow> connection_request \<Rightarrow> bstream \<Rightarrow> app \<Rightarrow> (bool \<times> bstream \<times> app) res" where
  "answer_reply1 w rp answer_fields index r reader a =
     (let (serverGuid, serverRequiresSecureConn, cookie) = answer_fields
      in rbind (write_all (offline_head w ID_OPEN_CONNECTION_REQUEST_2) (new_stream w)) (\<lambda>out.
         if serverRequiresSecureConn then
           rbind (prepare_challenge w r) (\<lambda>r'.
             case r' of
               None \<Rightarrow> Inr (True, reader, a)
             | Some r \<Rightarrow>
                 rbind (store_at index r (connReqQ a)) (\<lambda>q.
                 rbind (write_all (challenge_writers w cookie r) out) (\<lambda>out.
                 rbind (finish_request2 w rp r out reader (a\<lparr>connReqQ := q\<rparr>)) (\<lambda>(reader, a).
                   Inr (False, reader, a)))))
         else if client_handshake r then
           let a = a\<lparr>msgid := ID_WECLI_SECURE_BUT_SRV_NO\<rparr>
           in Inr (True, reader, push_packet ((AllocPacket w MemberMsgid)\<lparr>packet_address := receiverAddr r,
                packet_guid := serverGuid\<rparr>) a)
         else
           rbind (finish_request2 w rp r out reader a) (\<lambda>(reader, a). Inr (False, reader, a))))"

text \<open>
  The loop over the requests, with the lock held. For each request the answer is for, the lock is released
  and the loop goes on without it.
\<close>

fun reply1_rounds ::
  "nat \<Rightarrow> world \<Rightarrow> recv_params \<Rightarrow> guid \<times> bool \<times> u32 \<Rightarrow> nat \<Rightarrow> bstream \<Rightarrow> app \<Rightarrow> app res" where
  "reply1_rounds 0 w rp answer_fields index reader a = Inr (a\<lparr>connReqQLock := Unlock (connReqQLock a)\<rparr>)"
| "reply1_rounds (Suc n) w rp answer_fields index reader a =
     rbind (Queue_at (connReqQ a) index) (\<lambda>r.
       if request_to (senderINetAddress rp) r then
         rbind (answer_reply1 w rp answer_fields index r reader (a\<lparr>connReqQLock := Unlock (connReqQLock a)\<rparr>))
           (\<lambda>(returned, reader, a).
             if returned then Inr a else reply1_rounds n w rp answer_fields (index + 1) reader a)
       else reply1_rounds n w rp answer_fields (index + 1) reader a)"

definition OnConnectionReply1 :: "world \<Rightarrow> recv_params \<Rightarrow> app \<Rightarrow> app res" where
  "OnConnectionReply1 w rp a =
     rbind (test_offline (as_size (bytesRead rp) \<ge> 1 + 16 + 8) 1 rp a) (\<lambda>a.
       if isUnconnectedRecvPrrams a then
         let a = plugins_receive a
         in rbind (read_reply1 w rp) (\<lambda>(answer_fields, reader).
            let a = a\<lparr>connReqQLock := Lock (connReqQLock a)\<rparr>
            in reply1_rounds (Queue_Size (connReqQ a)) w rp answer_fields 0 reader a)
       else Inr a)"

section \<open>The second answer of the server\<close>

text \<open>
  The answer: the guid, the address the server saw, the MTU, whether the connection is secure, and the proof of
  the server if it is.
\<close>

definition read_reply2 :: "world \<Rightarrow> recv_params \<Rightarrow> (guid \<times> network_address \<times> u16 \<times> bool \<times> u8 list) res" where
  "read_reply2 w rp =
     rbind (received_stream w rp) (\<lambda>s.
     rbind (Read_guid (big_endian w) JACKIE_NULL_GUID (skip_read_bytes 16 (skip_read_bytes 1 s))) (\<lambda>(gd, s).
     rbind (Read_address (big_endian w) (raw_address w) s) (\<lambda>(ours, s).
     rbind (Read_int (big_endian w) s) (\<lambda>(mtu, s).
     rbind (Read_bool s) (\<lambda>(secure, s).
     rbind (if secure then ReadAlignedBytes ANSWER_BYTES s else Inr (raw_bytes w, s)) (\<lambda>(ans, s).
       Inr (gd, ours, mtu, secure, ans)))))))"

text \<open>The requests to the sender leave the queue; after a removal the next one is passed over.\<close>

fun remove_requests :: "nat \<Rightarrow> network_address \<Rightarrow> nat \<Rightarrow> connection_request array_queue \<Rightarrow>
    connection_request array_queue res" where
  "remove_requests 0 addr k q = (if k < Queue_Size q then Inl OutOfFuel else Inr q)"
| "remove_requests (Suc n) addr k q =
     (if k < Queue_Size q then
        rbind (Queue_at q k) (\<lambda>r.
        rbind (if address_eq (receiverAddr r) addr then remove_at k q else Inr q) (remove_requests n addr (k + 1)))
      else Inr q)"

text \<open>The message that asks for the connection; \<open>ident\<close> is the identity of the client if it has to show one.\<close>

definition connection_request_writers ::
  "world \<Rightarrow> guid \<Rightarrow> bool \<Rightarrow> u8 list option \<Rightarrow> nat \<Rightarrow> connection_request \<Rightarrow> writer list" where
  "connection_request_writers w gd secure ident place r =
     [Write_int (big_endian w) ID_CONNECTION_REQUEST, Write_mini_guid (big_endian w) gd,
      Write_mini_int (big_endian w) True (time_ms w)] @
     (if secure then
        [Write_bool True, write_aligned_bytes (GenerateProof (crypt w) place) 32] @
        (case ident of Some i \<Rightarrow> [Write_bool True, write_aligned_bytes i IDENTITY_BYTES] | None \<Rightarrow> [Write_bool False])
      else [Write_bool False]) @
     (if pwdLen r > 0 then [write_aligned_bytes (pwd r) (unat (pwdLen r))] else [])"

text \<open>
  Checking the answer of the server: \<open>None\<close> when it is wrong, otherwise the identity to show.
\<close>

definition check_answer :: "world \<Rightarrow> connection_request \<Rightarrow> u8 list \<Rightarrow> u8 list option option" where
  "check_answer w r ans =
     (if client_handshake r then
        if publicKeyMode r = USE_TWO_WAY_AUTHENTICATION
        then map_option Some (ProcessAnswerWithIdentity (crypt w) ans)
        else if ProcessAnswer (crypt w) ans then Some None else None
      else Some None)"

definition wrong_answer :: "world \<Rightarrow> recv_params \<Rightarrow> connection_request \<Rightarrow> app \<Rightarrow> app" where
  "wrong_answer w rp r a =
     (let a = a\<lparr>connReqQLock := Unlock (connReqQLock a)\<rparr>
      in if publicKeyMode r = USE_TWO_WAY_AUTHENTICATION then a
         else
           let a = a\<lparr>msgid := ID_PUBLIC_KEY_MISMATCH\<rparr>
           in push_packet ((AllocPacket w MemberMsgid)\<lparr>packet_address := senderINetAddress rp,
                packet_guid := myGuid (eps a)\<rparr>) a)"

text \<open>
  The end point is there: it is marked as wanted by this side and asked for the connection. Nothing sets the
  receiver of the message.
\<close>

definition request_connection ::
  "world \<Rightarrow> recv_params \<Rightarrow> guid \<Rightarrow> bool \<Rightarrow> u8 list option \<Rightarrow> nat \<Rightarrow> connection_request \<Rightarrow> app \<Rightarrow> app res" where
  "request_connection w rp gd secure ident place r a =
     rbind (get_at (remoteSystemList (eps a)) place) (\<lambda>rs.
     let a = a\<lparr>eps := (eps a)\<lparr>remoteSystemList := (remoteSystemList (eps a))[place :=
               rs\<lparr>weInitiateConnection := True, connectMode := REQUESTED_CONNECTION\<rparr>]\<rparr>\<rparr>
     in rbind (write_all (connection_request_writers w gd secure ident place r) (new_stream w)) (\<lambda>s.
        rbind (datagram s) (\<lambda>d.
        rbind (SendImmediate (big_endian w)
                 \<lparr>broadcast = False, useCallerDataAllocation = False, send_data = d, bitsSize = writable_bit_pos s,
                  packetReliability = RELIABLE_NOT_ACK_RECEIPT_OF_PACKET, receiverAdress = raw_wrapper w,
                  currentTime = timeRead rp, send_mtu = 0\<rparr> a) (\<lambda>(used, p, a).
          Inr a))))"

definition no_connection :: "world \<Rightarrow> guid \<Rightarrow> connection_request \<Rightarrow> app \<Rightarrow> app" where
  "no_connection w gd r a =
     (let a = a\<lparr>msgid := ID_CONNECTION_ATTEMPT_FAILED\<rparr>
      in push_packet ((AllocPacket w MemberMsgid)\<lparr>packet_address := receiverAddr r, packet_guid := gd\<rparr>) a)"

text \<open>
  The place for the server: an active end point of its address, or a new one. When no place is free the pointer
  keeps the null value it has from the lookup.
\<close>

definition place_for_server ::
  "world \<Rightarrow> recv_params \<Rightarrow> u16 \<Rightarrow> network_address \<Rightarrow> guid \<Rightarrow> connection_request \<Rightarrow> app \<Rightarrow>
     (nat option \<times> bool \<times> app) res" where
  "place_for_server w rp mtu ours gd r a =
     rbind (GetRemoteSystem_address (big_endian w) (senderINetAddress rp) True True (eps a)) (\<lambda>found.
       case found of
         Some place \<Rightarrow> Inr (Some place, False, a)
       | None \<Rightarrow>
           rbind (Add2RemoteSystemList (big_endian w) (ucast (time_ms w)) (boundAddrs w) (cr_socket r) (unat mtu) ours gd
                    (senderINetAddress rp) (eps a)) (\<lambda>(t, free_rs, floods, _).
             Inr (case free_rs of None \<Rightarrow> None | Some place \<Rightarrow> place, floods, a\<lparr>eps := t\<rparr>)))"

text \<open>What is done for the first request the answer is for; \<open>True\<close> when the function returns from within.\<close>

definition connect_to_server ::
  "world \<Rightarrow> recv_params \<Rightarrow> guid \<times> network_address \<times> u16 \<times> bool \<times> u8 list \<Rightarrow> connection_request \<Rightarrow> app \<Rightarrow> (bool \<times> app) res" where
  "connect_to_server w rp answer_fields r a =
     (let (gd, ours, mtu, secure, ans) = answer_fields
      in rbind (place_for_server w rp mtu ours gd r a) (\<lambda>(place, floods, a).
         if floods then Inr (False, a)
         else case place of
                None \<Rightarrow> Inr (False, no_connection w gd r a)
              | Some i \<Rightarrow>
                  (case check_answer w r ans of
                     None \<Rightarrow> Inr (True, wrong_answer w rp r a)
                   | Some ident \<Rightarrow>
                       rbind (request_connection w rp gd secure ident i r a) (\<lambda>a. Inr (False, a)))))"

definition OnConnectionReply2 :: "world \<Rightarrow> recv_params \<Rightarrow> app \<Rightarrow> app res" where
  "OnConnectionReply2 w rp a =
     rbind (test_offline (as_size (bytesRead rp) \<ge> 1 + 16 + 8) 1 rp a) (\<lambda>a.
       if isUnconnectedRecvPrrams a then
         let a = plugins_receive a; sender = senderINetAddress rp
         in rbind (read_reply2 w rp) (\<lambda>answer_fields.
            let a = a\<lparr>connReqQLock := Lock (connReqQLock a)\<rparr>
            in rbind (find_request (\<lambda>r. address_eq (receiverAddr r) sender) (Queue_Size (connReqQ a)) 0 (connReqQ a)) (\<lambda>found.
               let a = a\<lparr>connReqQLock := Unlock (connReqQLock a)\<rparr>
               in case found of
                    None \<Rightarrow> Inr a
                  | Some i \<Rightarrow>
                      rbind (Queue_at (connReqQ a) i) (\<lambda>r.
                      rbind (rassert (actionToTake r = CONNECT)) (\<lambda>_.
                        if fst (snd (snd (snd answer_fields))) \<and> \<not> client_handshake r then
                          Inr (push_packet (AllocPacket w MemberMsgid)
                                 (a\<lparr>msgid := ID_WECLINOTPASS_SRVPUBKEY_WHENCONNECT\<rparr>))
                        else
                          rbind (connect_to_server w rp answer_fields r a) (\<lambda>(returned, a).
                            if returned then Inr a
                            else
                              rbind (remove_requests (Queue_Size (connReqQ a)) sender 0 (connReqQ a)) (\<lambda>q.
                                Inr (a\<lparr>connReqQ := q\<rparr>)))))))
       else Inr a)"

end
