(* ===== verification/Handshake_Server.thy ===== *)
theory Handshake_Server
  imports Offline_Messages
begin

text \<open>
  The server side of the connection handshake in \<^verbatim>\<open>src/geco_application.cpp\<close>: the answers to the first and
  the second request of a client.
\<close>

section \<open>The first request\<close>

text \<open>The MTU is what arrived with the header of UDP, at most the largest one.\<close>

definition newClientMTU :: "recv_params \<Rightarrow> u16" where
  "newClientMTU rp =
     (if bytesRead rp + int UDP_HEADER_SIZE \<ge> int MAXIMUM_MTU_SIZE then of_nat MAXIMUM_MTU_SIZE
      else word_of_int (bytesRead rp + int UDP_HEADER_SIZE))"

definition incompatible :: "world \<Rightarrow> app \<Rightarrow> writer list" where
  "incompatible w a =
     [Write_int (big_endian w) ID_INCOMPATIBLE_PROTOCOL_VERSION,
      Write_int (big_endian w) JACKIE_INET_PROTOCOL_VERSION,
      Write_bytes OFFLINE_MESSAGE_DATA_ID 16, Write_mini_guid (big_endian w) (myGuid (eps a))]"

text \<open>
  The answer. A server without security writes nothing where the client reads whether there is a cookie.
\<close>

definition reply1 :: "world \<Rightarrow> recv_params \<Rightarrow> app \<Rightarrow> writer list" where
  "reply1 w rp a =
     offline_head w ID_OPEN_CONNECTION_REPLY_1 @
     [Write_mini_guid (big_endian w) (myGuid (eps a))] @
     (if secureIncomingConnectionEnabled a then
        [Write_bool True,
         Write_int (big_endian w) (cookie_Generate (crypt w) (address_bytes (senderINetAddress rp)))]
      else []) @
     [Write_mini_int (big_endian w) True (newClientMTU rp),
      pad_zeros_up_to (sub32 (unat (newClientMTU rp)) UDP_HEADER_SIZE)]"

definition OnConnectionRequest1 :: "world \<Rightarrow> recv_params \<Rightarrow> app \<Rightarrow> app res" where
  "OnConnectionRequest1 w rp a =
     rbind (test_offline (nat (bytesRead rp mod 2 ^ 32) \<ge> 1 + 16 + 8) 1 rp a) (\<lambda>a.
       if isUnconnectedRecvPrrams a = True then
         let a = plugins_receive a
         in rbind (get_at (rp_data rp) (1 + 16)) (\<lambda>remote_system_protcol.
            if remote_system_protcol \<noteq> JACKIE_INET_PROTOCOL_VERSION
            then rbind (datagram_of w (incompatible w a)) (\<lambda>d. Inr (answer_checked w rp d a))
            else rbind (datagram_of w (reply1 w rp a)) (\<lambda>d. Inr (answer_checked w rp d a)))
       else Inr a)"

section \<open>The second request\<close>

text \<open>The security exception list is not implemented; no address is in it.\<close>

definition IsInSecurityExceptionList :: "network_address \<Rightarrow> bool" where
  "IsInSecurityExceptionList addr = False"

text \<open>
  The part on security: whether the server requires it, and the challenge of the client. \<open>None\<close> when the request
  is dropped.
\<close>

definition read_security :: "world \<Rightarrow> recv_params \<Rightarrow> app \<Rightarrow> bstream \<Rightarrow> ((bool \<times> u8 list) option \<times> bstream) res" where
  "read_security w rp a s =
     (if secureIncomingConnectionEnabled a then
        let required = (IsInSecurityExceptionList (senderINetAddress rp) = False)
        in rbind (Read_int (big_endian w) s) (\<lambda>(cookie, s).
           if \<not> cookie_Verify (crypt w) (address_bytes (senderINetAddress rp)) cookie then Inr (None, s)
           else
             rbind (Read_bool s) (\<lambda>(enabled, s).
               if required \<and> \<not> enabled then Inr (None, s)
               else if enabled then
                 rbind (ReadAlignedBytes CHALLENGE_BYTES s) (\<lambda>(c, s). Inr (Some (required, c), s))
               else Inr (Some (required, raw_bytes w), s)))
      else Inr (Some (False, raw_bytes w), s))"

definition read_request2 ::
  "world \<Rightarrow> recv_params \<Rightarrow> app \<Rightarrow> (bool \<times> u8 list \<times> network_address \<times> u16 \<times> guid) option res" where
  "read_request2 w rp a =
     rbind (received_stream w rp) (\<lambda>s.
     rbind (read_security w rp a (skip_read_bytes 16 (skip_read_bytes 1 s))) (\<lambda>(security, s).
       case security of
         None \<Rightarrow> Inr None
       | Some (required, challenge) \<Rightarrow>
           rbind (Read_address (big_endian w) (raw_address w) s) (\<lambda>(recvivedBoundAddrFromClient, s).
           rbind (Read_int (big_endian w) s) (\<lambda>(mtu, s).
           rbind (Read_guid (big_endian w) JACKIE_NULL_GUID s) (\<lambda>(gd, s).
             Inr (Some (required, challenge, recvivedBoundAddrFromClient, mtu, gd)))))))"

text \<open>What the server finds of the client, from the active end points of its address and of its guid.\<close>

datatype request2_outcome = NewClient | SameClient nat | AddressAndGuidUsed | GuidUsed | AddressUsed

definition request2_outcome_of :: "nat option \<Rightarrow> nat option \<Rightarrow> endpoints \<Rightarrow> request2_outcome" where
  "request2_outcome_of rsysaddr rsysguid t =
     (let used = (\<lambda>p. case p of None \<Rightarrow> False | Some i \<Rightarrow> isActive (remoteSystemList t ! i));
          usedAddr = used rsysaddr; usedGuid = used rsysguid
      in if usedAddr \<and> usedGuid then
           if rsysaddr = rsysguid \<and> connectMode (remoteSystemList t ! the rsysaddr) = UNVERIFIED_SENDER
           then SameClient (the rsysaddr) else AddressAndGuidUsed
         else if \<not> usedAddr \<and> usedGuid then GuidUsed
         else if usedAddr \<and> \<not> usedGuid then AddressUsed
         else NewClient)"

definition reply2 :: "world \<Rightarrow> recv_params \<Rightarrow> u16 \<Rightarrow> bool \<Rightarrow> app \<Rightarrow> writer list" where
  "reply2 w rp mtu required a =
     offline_head w ID_OPEN_CONNECTION_REPLY_2 @
     [Write_mini_guid (big_endian w) (myGuid (eps a)), Write_mini_address (big_endian w) (senderINetAddress rp),
      Write_mini_int (big_endian w) True mtu, Write_bool required]"

definition refusal :: "world \<Rightarrow> u8 \<Rightarrow> app \<Rightarrow> writer list" where
  "refusal w i a = offline_head w i @ [Write_mini_guid (big_endian w) (myGuid (eps a))]"

definition already_connected :: "world \<Rightarrow> app \<Rightarrow> writer list" where
  "already_connected w a =
     offline_head w ID_ALREADY_CONNECTED @ [Write_guid (big_endian w) (myGuid (eps a))]"

definition send_message :: "world \<Rightarrow> recv_params \<Rightarrow> writer list \<Rightarrow> app \<Rightarrow> app res" where
  "send_message w rp ws a = rbind (datagram_of w ws) (\<lambda>d. Inr (answer_with w rp d a))"

text \<open>
  The challenge of a new client: the answer goes into its place and into the message. \<open>None\<close> when the challenge is
  bad; the address is then no longer linked, but the place stays active. Without a place the pointer is not set.
\<close>

definition secure_new_client ::
  "world \<Rightarrow> recv_params \<Rightarrow> u8 list \<Rightarrow> nat option option \<Rightarrow> app \<Rightarrow> (u8 list option \<times> app) res" where
  "secure_new_client w rp challenge free_rs a =
     (case free_rs of
        Some (Some i) \<Rightarrow>
          (case ProcessChallenge (crypt w) challenge of
             Some ans \<Rightarrow>
               rbind (get_at (remoteSystemList (eps a)) i) (\<lambda>r.
                 Inr (Some ans, a\<lparr>eps := (eps a)\<lparr>remoteSystemList :=
                   (remoteSystemList (eps a))[i := r\<lparr>answer := ans\<rparr>]\<rparr>\<rparr>))
           | None \<Rightarrow>
               rbind (DeRefRemoteSystem (big_endian w) (senderINetAddress rp) (eps a)) (\<lambda>t.
                 Inr (None, a\<lparr>eps := t\<rparr>)))
      | _ \<Rightarrow> Inl OutOfBounds)"

definition accept_client ::
  "world \<Rightarrow> recv_params \<Rightarrow> bool \<Rightarrow> u8 list \<Rightarrow> network_address \<Rightarrow> u16 \<Rightarrow> guid \<Rightarrow> app \<Rightarrow> app res" where
  "accept_client w rp required challenge bound_addr mtu gd a =
     rbind (rassert (\<not> is_null (senderINetAddress rp))) (\<lambda>_.
     rbind (Add2RemoteSystemList (big_endian w) (ucast (time_ms w)) (boundAddrs w) (localBoundSocket rp) (unat mtu) bound_addr gd
              (senderINetAddress rp) (eps a)) (\<lambda>(t, free_rs, floods, _).
     let writers = reply2 w rp mtu required a; a = a\<lparr>eps := t\<rparr>
     in rbind (if floods then send_message w rp (refusal w ID_YOU_CONNECT_TOO_OFTEN a) a else Inr a) (\<lambda>a.
        if required then
          rbind (secure_new_client w rp challenge free_rs a) (\<lambda>(ans, a).
            case ans of
              None \<Rightarrow> Inr a
            | Some ans \<Rightarrow> send_message w rp (writers @ [write_aligned_bytes ans ANSWER_BYTES]) a)
        else send_message w rp writers a)))"

definition answer_request2 ::
  "world \<Rightarrow> recv_params \<Rightarrow> bool \<times> u8 list \<times> network_address \<times> u16 \<times> guid \<Rightarrow> app \<Rightarrow> app res" where
  "answer_request2 w rp req a =
     (let (required, challenge, bound_addr, mtu, gd) = req
      in rbind (GetRemoteSystem_address (big_endian w) (senderINetAddress rp) True True (eps a)) (\<lambda>rsysaddr.
         let rsysguid = GetRemoteSystem_guid gd True (eps a)
         in case request2_outcome_of rsysaddr rsysguid (eps a) of
              SameClient i \<Rightarrow>
                send_message w rp (reply2 w rp mtu required a @
                  (if required then [write_aligned_bytes (answer (remoteSystemList (eps a) ! i)) ANSWER_BYTES] else [])) a
            | NewClient \<Rightarrow>
                rbind (CanAcceptIncomingConnection (eps a)) (\<lambda>can.
                  if \<not> can then send_message w rp (refusal w ID_CANNOT_ACCEPT_INCOMING_CONNECTIONS a) a
                  else accept_client w rp required challenge bound_addr mtu gd a)
            | _ \<Rightarrow> send_message w rp (already_connected w a) a))"

definition OnConnectionRequest2 :: "world \<Rightarrow> recv_params \<Rightarrow> app \<Rightarrow> app res" where
  "OnConnectionRequest2 w rp a =
     rbind (test_offline (as_size (bytesRead rp) \<ge> 1 + 16 + 8) 1 rp a) (\<lambda>a.
       if isUnconnectedRecvPrrams a then
         let a = plugins_receive a
         in rbind (read_request2 w rp a) (\<lambda>req.
              case req of None \<Rightarrow> Inr a | Some req \<Rightarrow> answer_request2 w rp req a)
       else Inr a)"

end
