(* ===== verification/Offline_Dispatch.thy ===== *)
theory Offline_Dispatch
  imports Handshake_Client Handshake_Server
begin

text \<open>
  The way of a received datagram: \<^verbatim>\<open>ProcessOneRecvParam\<close> and \<^verbatim>\<open>IsOfflineRecvParams\<close> of
  \<^verbatim>\<open>src/geco_application.cpp\<close>. The flag \<^verbatim>\<open>isUnconnectedRecvPrrams\<close> that the handlers are given is a member of
  the application, so it keeps its value from one datagram to the next.
\<close>

text \<open>
  The messages that are only tested and shown to the plugins. \<^verbatim>\<open>sizeof(Time)\<close> is 8 and \<^verbatim>\<open>sizeof(TimeMS)\<close> is 4: the two
  branches for a pong look for the marker at different places.
\<close>

definition only_plugins :: "bool \<Rightarrow> nat \<Rightarrow> recv_params \<Rightarrow> app \<Rightarrow> app res" where
  "only_plugins c off rp a =
     rbind (test_offline c off rp a) (\<lambda>a.
       if isUnconnectedRecvPrrams a then Inr (plugins_receive a) else Inr a)"

definition IsOfflineRecvParams :: "world \<Rightarrow> recv_params \<Rightarrow> app \<Rightarrow> app res" where
  "IsOfflineRecvParams w rp a =
     (if bytesRead rp \<le> 2 then Inr (a\<lparr>isUnconnectedRecvPrrams := True\<rparr>)
      else
        let n = as_size (bytesRead rp)
        in rbind (get_at (rp_data rp) 0) (\<lambda>i.
           if i = ID_UNCONNECTED_PING then only_plugins (n \<ge> 1 + 8 + 16) (1 + 8) rp a
           else if i = ID_UNCONNECTED_PING_OPEN_CONNECTIONS then only_plugins (n \<ge> 1 + 8 + 16) (1 + 8) rp a
           else if i = ID_UNCONNECTED_PONG then
             only_plugins True (if n > 1 + 4 + 8 + 16 then 1 + 8 + 8 else 1 + 4 + 8) rp a
           else if i = ID_OUT_OF_BAND_INTERNAL then only_plugins (n \<ge> 1 + 8 + 16) (1 + 8) rp a
           else if i = ID_OPEN_CONNECTION_REPLY_1 then OnConnectionReply1 w rp a
           else if i = ID_OPEN_CONNECTION_REPLY_2 then OnConnectionReply2 w rp a
           else if i = ID_OPEN_CONNECTION_REQUEST_1 then OnConnectionRequest1 w rp a
           else if i = ID_OPEN_CONNECTION_REQUEST_2 then OnConnectionRequest2 w rp a
           else if i \<in> {ID_CONNECTION_ATTEMPT_FAILED, ID_CANNOT_ACCEPT_INCOMING_CONNECTIONS, ID_CONNECTION_BANNED,
                        ID_ALREADY_CONNECTED, ID_YOU_CONNECT_TOO_OFTEN, ID_INCOMPATIBLE_PROTOCOL_VERSION}
           then OnConnectionFailed w rp a
           else Inr (a\<lparr>isUnconnectedRecvPrrams := False\<rparr>)))"

text \<open>The answer to a banned sender.\<close>

definition answer_banned :: "world \<Rightarrow> recv_params \<Rightarrow> app \<Rightarrow> app res" where
  "answer_banned w rp a =
     (let a = plugins_receive a
      in rbind (datagram_of w (refusal w ID_CONNECTION_BANNED a)) (\<lambda>d. Inr (answer_checked w rp d a)))"

definition ProcessOneRecvParam :: "world \<Rightarrow> recv_params \<Rightarrow> app \<Rightarrow> app res" where
  "ProcessOneRecvParam w rp a =
     rbind (IsBanned (w_inet_ntoa w) (big_endian w) (\<lambda>_. time_ms w) (senderINetAddress rp) (banList a))
       (\<lambda>(is_banned, l).
     let a = a\<lparr>banList := l\<rparr>
     in if is_banned then answer_banned w rp a
        else
          rbind (rassert (GetPortHostOrder (big_endian w) (senderINetAddress rp) \<noteq> 0)) (\<lambda>_.
          rbind (IsOfflineRecvParams w rp a) (\<lambda>a.
            if \<not> isUnconnectedRecvPrrams a then
              rbind (GetRemoteSystem_address (big_endian w) (senderINetAddress rp) True True (eps a)) (\<lambda>remote.
                case remote of
                  Some i \<Rightarrow> Inr (a\<lparr>calls := calls a @ [ProcessOneConnectedRecvParams i]\<rparr>)
                | None \<Rightarrow> Inr a)
            else Inr a)))"

end
