(* ===== verification/Handshake_Facts.thy ===== *)
theory Handshake_Facts
  imports Offline_Dispatch
begin

text \<open>
  What the messages of the handshake look like on the wire, and what the side that receives them reads. The
  writers and readers are those of \<open>Bit_Codec\<close>; the message of one side is followed through the operations that
  the other side applies to it.
\<close>

section \<open>Datagrams\<close>

lemma padded_datagram:
  assumes e: "emits (write_all ws) bs" and n: "(length bs + 7) div 8 < n" "8 * n + 8 \<le> max_bits"
  shows "\<exists>d. datagram_of w (ws @ [pad_zeros_up_to n]) = Inr d \<and> length d = n \<and>
    bits_of d = bs @ replicate (8 * n - length bs) False"
proof -
  have le: "length bs \<le> 8 * n" using n(1) by arith
  have w: "writable (new_stream w) (length bs + (8 * n - length bs) + 8)"
    using n(2) le by (intro new_stream_writable) simp
  obtain s where s: "write_all ws (new_stream w) = Inr s" "appends (new_stream w) s bs"
    using e writable_mono [OF w] by (metis emitsE le_add1 add.assoc)
  have pos: "writable_bit_pos s = length bs" "content s = bs" "stream_ok s" "\<not> is_read_only s"
    using s(2) by (simp_all add: appends_def new_stream_start)
  obtain s' where s': "pad_zeros_up_to n s = Inr s'" "appends s s' (replicate (8 * n - length bs) False)"
    using pad_zeros_fills [of s n] pos n le by (auto simp: max_bits_def)
  have "writable s (length (replicate (8 * n - length bs) False) + 8)"
    using appends_writable [OF s(2)] w by (simp add: add.assoc)
  from appends_writable [OF s'(2) this] have "writable s' 8" .
  from datagram_bits [OF this] obtain d where d: "datagram s' = Inr d"
    "bits_of d = content s' @ gap (writable_bit_pos s')" by blast
  have s'_pos: "writable_bit_pos s' = 8 * n" "content s' = bs @ replicate (8 * n - length bs) False"
    using s'(2) pos le by (simp_all add: appends_def)
  then have bits: "bits_of d = bs @ replicate (8 * n - length bs) False"
    using d(2) by (simp add: gap_def padded_bytes)
  then have "8 * length d = 8 * n" using le by (metis length_append length_bits_of length_replicate le_add_diff_inverse)
  then show ?thesis
    using d(1) s(1) s'(1) bits by (intro exI [of _ d]) (simp add: datagram_of_def write_all_append rbind_assoc)
qed

lemma bytes_of_bits:
  assumes "bits_of d = bits_of p @ bs"
  shows "take (length p) d = p" and "length p \<le> length d"
proof -
  have "8 * length d = 8 * length p + length bs" by (metis assms length_append length_bits_of)
  then show le: "length p \<le> length d" by simp
  have "bits_of (take (length p) d) = bits_of p" by (simp add: bits_of_take assms)
  then show "take (length p) d = p" using le by (subst (asm) bits_of_inject) auto
qed

section \<open>A received datagram\<close>

definition holds_datagram :: "recv_params \<Rightarrow> u8 list \<Rightarrow> bool" where
  "holds_datagram rp d \<longleftrightarrow> bytesRead rp = int (length d) \<and> length d < 2 ^ 16 \<and> take (length d) (rp_data rp) = d
     \<and> length d \<le> length (rp_data rp)"

lemma received_stream_ok:
  assumes "holds_datagram rp d"
  shows "\<exists>s. received_stream w rp = Inr s \<and> readable s (8 * length d) \<and> payload s = bits_of d"
proof -
  have d: "nat (bytesRead rp mod 2 ^ 32) = length d" "BYTES_TO_BITS (length d) = 8 * length d"
      "length d \<le> length (rp_data rp)" "8 * length d < 2 ^ 19" "take (length d) (rp_data rp) = d"
    using assms by (auto simp: holds_datagram_def nat_mod_as_int BYTES_TO_BITS_small)
  have "take (8 * length d) (bits_of (rp_data rp)) = bits_of d"
    using d(5) by (simp flip: bits_of_take)
  then show ?thesis
    using d by (simp add: received_stream_def stream_from_def Let_def readable_def buffer_ok_def payload_def content_def max_bits_def)
qed

lemma skip_bytes: "readable s (8 * n) \<Longrightarrow> skip_read_bytes n s = skip_read (8 * n) s"
  by (simp add: skip_read_bytes_def skip_read_bits_def skip_read_def readable_def buffer_ok_def
      BYTES_TO_BITS_small add32_small)

lemma marker_found:
  assumes "holds_datagram rp d" and "take 17 d = i # OFFLINE_MESSAGE_DATA_ID"
  shows "offline_at 1 rp = Inr True" and "rp_data rp ! 0 = i" and "17 \<le> length d"
proof -
  have "length (take 17 d) = 17" unfolding assms(2) by simp
  then show len: "17 \<le> length d" by simp
  have "take 17 (rp_data rp) = take 17 (take (length d) (rp_data rp))" using len by (simp add: min_def)
  then have t: "take 17 (rp_data rp) = i # OFFLINE_MESSAGE_DATA_ID"
    using assms unfolding holds_datagram_def by metis
  have "take 16 (drop 1 (rp_data rp)) = drop 1 (take 17 (rp_data rp))" by (simp add: drop_take)
  then show "offline_at 1 rp = Inr True"
    using t len assms(1) by (simp add: offline_at_def get_range_def holds_datagram_def)
  have "rp_data rp ! 0 = take 17 (rp_data rp) ! 0" by simp
  then show "rp_data rp ! 0 = i" unfolding t by simp
qed

section \<open>Bits of integers\<close>

lemma nth_le_bytes: "i < n \<Longrightarrow> le_bytes n x ! i = ucast (drop_bit (8 * i) x)"
  by (induction n arbitrary: x i) (auto simp: nth_Cons drop_bit_drop_bit add.commute split: nat.split)

lemma nth_net_bits:
  assumes "byte_type (x :: 'a::len word)" and "i < LENGTH('a)"
  shows "net_bits x ! i \<longleftrightarrow> bit x (LENGTH('a) - 1 - i)"
proof -
  define n where "n = bytes_of_type x"
  have len: "LENGTH('a) = 8 * n" using byte_type_size(1) [OF assms(1)] by (simp add: n_def)
  define q r where "q = i div 8" and "r = i mod 8"
  have i: "i = 8 * q + r" "r < 8" "q < n" using assms(2) len by (auto simp: q_def r_def)
  have "net_bits x ! i \<longleftrightarrow> bit (rev (le_bytes n x) ! q) (7 - r)"
    using assms(2) len by (simp add: net_bits_def nth_bits_of n_def q_def r_def)
  also have "\<dots> \<longleftrightarrow> bit x (8 * (n - Suc q) + (7 - r))"
    using i by (auto simp: rev_nth nth_le_bytes bit_simps)
  also have "8 * (n - Suc q) + (7 - r) = LENGTH('a) - 1 - i"
    using i len by simp
  finally show ?thesis .
qed

section \<open>The first request and its answer\<close>

lemma as_size_int [simp]: "n < 2 ^ 64 \<Longrightarrow> as_size (int n) = n"
  by (simp add: as_size_def nat_mod_as_int)

lemma request1_datagram:
  assumes "28 + 20 \<le> mtu" and "mtu < 2 ^ 16"
  shows "\<exists>d. datagram_of w (request1 w mtu) = Inr d \<and> length d = mtu - 28 \<and>
    take 18 d = ID_OPEN_CONNECTION_REQUEST_1 # OFFLINE_MESSAGE_DATA_ID @ [JACKIE_INET_PROTOCOL_VERSION]"
proof -
  let ?p = "ID_OPEN_CONNECTION_REQUEST_1 # OFFLINE_MESSAGE_DATA_ID @ [JACKIE_INET_PROTOCOL_VERSION]"
  have "emits (write_all [Write_int (big_endian w) JACKIE_INET_PROTOCOL_VERSION])
      (concat [net_bits JACKIE_INET_PROTOCOL_VERSION])"
    by (intro emits_write_all list.rel_intros emits_Write_int) simp
  from emits_write_all_append [OF emits_offline_head this]
  have e: "emits (write_all (offline_head w ID_OPEN_CONNECTION_REQUEST_1 @
        [Write_int (big_endian w) JACKIE_INET_PROTOCOL_VERSION])) (bits_of ?p)"
    by (simp add: offline_head_bits_def net_bits_u8)
  have n: "sub32 mtu UDP_HEADER_SIZE = mtu - 28" using assms by (simp add: UDP_HEADER_SIZE_def sub32_small)
  have size: "(length (bits_of ?p) + 7) div 8 < mtu - 28" "8 * (mtu - 28) + 8 \<le> max_bits"
    using assms by (simp_all add: max_bits_def)
  obtain d where d: "datagram_of w (request1 w mtu) = Inr d" "length d = mtu - 28"
    "bits_of d = bits_of ?p @ replicate (8 * (mtu - 28) - length (bits_of ?p)) False"
    using padded_datagram [OF e size, of w] n by (auto simp: request1_def)
  have "length ?p = 18" by simp
  then show ?thesis using d bytes_of_bits(1) [OF d(3)] by metis
qed

definition reply1_bits :: "world \<Rightarrow> recv_params \<Rightarrow> app \<Rightarrow> bool list" where
  "reply1_bits w rp a =
     offline_head_bits ID_OPEN_CONNECTION_REPLY_1 @ mini_wire True (g (myGuid (eps a))) @
     (if secureIncomingConnectionEnabled a
      then True # net_bits (cookie_Generate (crypt w) (address_bytes (senderINetAddress rp))) else []) @
     mini_wire True (newClientMTU rp)"

lemma length_reply1_bits: "length (reply1_bits w rp a) \<le> 259"
proof -
  have "length (mini_wire True (g (myGuid (eps a)))) \<le> 72" "length (mini_wire True (newClientMTU rp)) \<le> 18"
    using length_mini_wire [of "g (myGuid (eps a))" True] length_mini_wire [of "newClientMTU rp" True] by simp_all
  then show ?thesis by (auto simp: reply1_bits_def offline_head_bits_def length_net_bits)
qed

lemma unat_newClientMTU:
  assumes "bytesRead rp = int n"
  shows "unat (newClientMTU rp) = min (n + 28) 1492"
proof (cases "n + 28 \<ge> 1492")
  case False
  have "bytesRead rp + int UDP_HEADER_SIZE = int (n + 28)" using assms by (simp add: UDP_HEADER_SIZE_def)
  then have "newClientMTU rp = of_nat (n + 28)" using False by (simp add: newClientMTU_def MAXIMUM_MTU_SIZE_def)
  then show ?thesis using False by (simp add: unsigned_of_nat take_bit_nat_eq_self del: of_nat_add)
next
  case True
  then show ?thesis using assms by (simp add: newClientMTU_def MAXIMUM_MTU_SIZE_def UDP_HEADER_SIZE_def)
qed

lemma reply1_datagram:
  assumes le: "\<not> big_endian w" and n: "bytesRead rp = int n" "34 \<le> n"
  shows "\<exists>d. datagram_of w (reply1 w rp a) = Inr d \<and> length d = min n 1464 \<and>
    bits_of d = reply1_bits w rp a @ replicate (8 * min n 1464 - length (reply1_bits w rp a)) False"
proof -
  let ?gd = "g (myGuid (eps a))"
  define cookie where "cookie = cookie_Generate (crypt w) (address_bytes (senderINetAddress rp))"
  define sec where "sec = (if secureIncomingConnectionEnabled a then [Write_bool True, Write_int (big_endian w) cookie] else [])"
  have "emits (write_all sec) (if secureIncomingConnectionEnabled a then concat [[True], net_bits cookie] else concat [])"
    unfolding sec_def by (auto intro!: emits_write_all emits_Write_bool emits_Write_int simp del: concat.simps)
  moreover have "emits (write_all [Write_mini_guid (big_endian w) (myGuid (eps a))]) (concat [mini_wire True ?gd])"
    using le by (intro emits_write_all list.rel_intros) (simp_all add: emits_Write_mini_guid)
  moreover have "emits (write_all [Write_mini_int (big_endian w) True (newClientMTU rp)]) (concat [mini_wire True (newClientMTU rp)])"
    using le by (intro emits_write_all list.rel_intros) (simp_all add: emits_Write_mini_int)
  ultimately have e: "emits (write_all (offline_head w ID_OPEN_CONNECTION_REPLY_1 @
      [Write_mini_guid (big_endian w) (myGuid (eps a))] @ sec @
      [Write_mini_int (big_endian w) True (newClientMTU rp)]))
      (offline_head_bits ID_OPEN_CONNECTION_REPLY_1 @ concat [mini_wire True ?gd] @
       (if secureIncomingConnectionEnabled a then concat [[True], net_bits cookie] else concat []) @
       concat [mini_wire True (newClientMTU rp)])"
    by (intro emits_write_all_append emits_offline_head)
  have m: "sub32 (unat (newClientMTU rp)) UDP_HEADER_SIZE = min n 1464"
    using n by (simp add: unat_newClientMTU [OF n(1)] UDP_HEADER_SIZE_def sub32_small min_def)
  have bits: "offline_head_bits ID_OPEN_CONNECTION_REPLY_1 @ concat [mini_wire True ?gd] @
       (if secureIncomingConnectionEnabled a then concat [[True], net_bits cookie] else concat []) @
       concat [mini_wire True (newClientMTU rp)] = reply1_bits w rp a"
    by (simp add: reply1_bits_def cookie_def)
  have "(length (reply1_bits w rp a) + 7) div 8 < min n 1464"
    using length_reply1_bits [of w rp a] n(2) by (simp add: min_def) arith
  moreover have "8 * min n 1464 + 8 \<le> max_bits" by (simp add: max_bits_def min_def)
  moreover have "reply1 w rp a = (offline_head w ID_OPEN_CONNECTION_REPLY_1 @
      [Write_mini_guid (big_endian w) (myGuid (eps a))] @ sec @
      [Write_mini_int (big_endian w) True (newClientMTU rp)]) @ [pad_zeros_up_to (min n 1464)]"
    by (simp add: reply1_def sec_def cookie_def m)
  ultimately show ?thesis using padded_datagram [OF e [unfolded bits], of "min n 1464" w] by simp
qed

lemma OnConnectionRequest1_answers:
  assumes rp: "holds_datagram rp d" and le: "\<not> big_endian w" and n: "34 \<le> length d"
    and head: "take 18 d = ID_OPEN_CONNECTION_REQUEST_1 # OFFLINE_MESSAGE_DATA_ID @ [JACKIE_INET_PROTOCOL_VERSION]"
  shows "\<exists>d'. OnConnectionRequest1 w rp a
      = Inr (answer_checked w rp d' (plugins_receive (a\<lparr>isUnconnectedRecvPrrams := True\<rparr>))) \<and>
    length d' = min (length d) 1464 \<and>
    bits_of d' = reply1_bits w rp a @ replicate (8 * min (length d) 1464 - length (reply1_bits w rp a)) False"
proof -
  let ?a = "plugins_receive (a\<lparr>isUnconnectedRecvPrrams := True\<rparr>)"
  have "take 17 d = take 17 (take 18 d)" by simp
  then have "take 17 d = ID_OPEN_CONNECTION_REQUEST_1 # OFFLINE_MESSAGE_DATA_ID" unfolding head by simp
  note m = marker_found [OF rp this]
  have len: "bytesRead rp = int (length d)" "length d < 2 ^ 16" "length d \<le> length (rp_data rp)"
    "take (length d) (rp_data rp) = d"
    using rp by (simp_all add: holds_datagram_def)
  have "rp_data rp ! 17 = take 18 (take (length d) (rp_data rp)) ! 17" using n by simp
  also have "\<dots> = JACKIE_INET_PROTOCOL_VERSION" unfolding len(4) head by (simp add: nth_append)
  finally have v: "get_at (rp_data rp) (1 + 16) = Inr JACKIE_INET_PROTOCOL_VERSION"
    using n len by (simp add: get_at_def)
  obtain d' where d': "datagram_of w (reply1 w rp ?a) = Inr d'" "length d' = min (length d) 1464"
    "bits_of d' = reply1_bits w rp ?a @ replicate (8 * min (length d) 1464 - length (reply1_bits w rp ?a)) False"
    using reply1_datagram [OF le len(1) n] by blast
  have same: "reply1_bits w rp ?a = reply1_bits w rp a" by (simp add: reply1_bits_def plugins_receive_def)
  have "nat (bytesRead rp mod 2 ^ 32) \<ge> 1 + 16 + 8" using len n by (simp add: nat_mod_as_int)
  then have "test_offline (nat (bytesRead rp mod 2 ^ 32) \<ge> 1 + 16 + 8) 1 rp a = Inr (a\<lparr>isUnconnectedRecvPrrams := True\<rparr>)"
    using m(1) by (simp add: test_offline_def)
  then show ?thesis
    using d' v by (intro exI [of _ d']) (simp add: OnConnectionRequest1_def same Let_def)
qed

lemma net_bits_surj:
  assumes "byte_type (undefined :: 'a::len word)" and "length bs = LENGTH('a)"
  shows "\<exists>x :: 'a word. net_bits x = bs"
proof -
  define x :: "'a word" where "x = horner_sum of_bool 2 (rev bs)"
  have bt: "byte_type x" using assms(1) by (simp add: byte_type_def)
  have "net_bits x = bs"
  proof (rule nth_equalityI)
    fix i assume "i < length (net_bits x)"
    then have i: "i < LENGTH('a)" by (simp add: length_net_bits [OF bt])
    have "bit x (LENGTH('a) - 1 - i) \<longleftrightarrow> rev bs ! (LENGTH('a) - 1 - i)"
      using i assms(2) by (simp add: x_def bit_horner_sum_bit_word_iff)
    then have "net_bits x ! i \<longleftrightarrow> rev bs ! (LENGTH('a) - 1 - i)"
      using nth_net_bits [OF bt i] by simp
    then show "net_bits x ! i = bs ! i" using i assms(2) by (simp add: rev_nth)
  qed (simp add: length_net_bits [OF bt] assms(2))
  then show ?thesis by blast
qed

section \<open>A guid read where a compressed one was written\<close>

text \<open>The bytes of a guid in the opposite order.\<close>

definition other_order :: "u64 \<Rightarrow> u64" where
  "other_order x = mem_word True (mem_bytes False x)"

lemma high_byte:
  assumes "2 ^ 56 \<le> unat (x :: u64)"
  shows "le_bytes 8 x ! 7 \<noteq> 0"
proof
  assume "le_bytes 8 x ! 7 = 0"
  then have z: "ucast (drop_bit 56 x) = (0 :: u8)" by (simp add: nth_le_bytes)
  have "drop_bit 56 x = 0"
  proof (rule bit_word_eqI)
    fix n assume n: "n < LENGTH(64)"
    have "bit (ucast (drop_bit 56 x) :: u8) n = bit (0 :: u8) n" by (simp only: z)
    then show "bit (drop_bit 56 x) n = bit 0 n"
      using bit_imp_le_length [of x "56 + n"] by (auto simp: bit_simps)
  qed
  then have "unat (drop_bit 56 x) = 0" by (simp only: unat_0)
  then have "unat x div 2 ^ 56 = 0"
    using take_bit_nat_eq_self [of "unat x" 64] unsigned_less [of x, where 'a = nat]
    unfolding unsigned_drop_bit_eq by (simp add: drop_bit_eq_div del: div_eq_0_iff)
  then show False using assms by (simp add: div_eq_0_iff)
qed

lemma le_bytes_8:
  "le_bytes 8 (x :: u64) = [ucast x, ucast (drop_bit 8 x), ucast (drop_bit 16 x), ucast (drop_bit 24 x),
     ucast (drop_bit 32 x), ucast (drop_bit 40 x), ucast (drop_bit 48 x), ucast (drop_bit 56 x)]"
  by (simp add: numeral_eq_Suc)

lemma mini_guid_wire:
  assumes "2 ^ 56 \<le> unat (x :: u64)"
  shows "mini_wire True x = net_bits (drop_bit 1 (other_order x)) @ [bit x 56]"
proof -
  have w: "mini_wire True x = False # bits_of (le_bytes 8 x)"
    using high_byte [OF assms] by (simp add: mini_wire_def mem_bytes_def numeral_eq_Suc)
  have "le_bytes 8 (other_order x) = rev (le_bytes 8 x)"
    using le_bytes_le_word [of "rev (le_bytes 8 x)", where 'a = 64]
    by (simp add: other_order_def mem_word_def mem_bytes_def)
  then have y: "net_bits (other_order x) = bits_of (le_bytes 8 x)" by (simp add: net_bits_def)
  have "net_bits (drop_bit 1 (other_order x)) @ [bit x 56] = False # net_bits (other_order x)"
  proof (rule nth_equalityI)
    fix i assume "i < length (net_bits (drop_bit 1 (other_order x)) @ [bit x 56])"
    then have i: "i < 65" by (simp add: length_net_bits)
    consider "i = 0" | j where "i = Suc j" "j < 63" | "i = 64"
      using i by (cases i; force)
    then show "(net_bits (drop_bit 1 (other_order x)) @ [bit x 56]) ! i = (False # net_bits (other_order x)) ! i"
    proof cases
      case 1
      moreover have "\<not> bit (other_order x) 64" using bit_imp_le_length [of "other_order x" 64] by auto
      ultimately show ?thesis by (simp add: nth_append length_net_bits nth_net_bits bit_simps)
    next
      case 2
      then have "1 + (64 - 1 - i) = 64 - 1 - j" by simp
      then show ?thesis using 2 by (simp add: nth_append length_net_bits nth_net_bits bit_drop_bit_eq)
    next
      case 3
      then have "(False # net_bits (other_order x)) ! i = bits_of (le_bytes 8 x) ! 63" by (simp add: y)
      also have "\<dots> = bit x 56" by (simp add: nth_bits_of nth_le_bytes bit_simps)
      finally show ?thesis using 3 by (simp add: nth_append length_net_bits)
    qed
  qed (simp add: length_net_bits)
  then show ?thesis using w y by simp
qed

lemma read_reply1_shifted:
  assumes rp: "holds_datagram rp d" and bits: "bits_of d = offline_head_bits i @ mini_wire True (x :: u64) @ rest"
    and x: "2 ^ 56 \<le> unat x" and rest: "32 \<le> length rest"
  shows "\<exists>cookie s. read_reply1 w rp = Inr ((JACKIE_NULL_GUID\<lparr>g := drop_bit 1 (other_order x)\<rparr>, bit x 56, cookie), s)"
proof -
  obtain s where s: "received_stream w rp = Inr s" "readable s (8 * length d)" "payload s = bits_of d"
    using received_stream_ok [OF rp] by blast
  have h: "length (offline_head_bits i) = 136" by (simp add: offline_head_bits_def)
  have m: "length (mini_wire True x) = 65" by (simp add: mini_guid_wire [OF x] length_net_bits)
  have "8 * length d = 136 + (65 + length rest)" by (metis bits h m length_append length_bits_of)
  then have r: "readable s (136 + (64 + (1 + (32 + (length rest - 32)))))" using s(2) rest by simp
  define s1 where "s1 = skip_read 136 s"
  have skipped: "skip_read_bytes 16 (skip_read_bytes 1 s) = s1"
  proof -
    have "skip_read_bytes 1 s = skip_read 8 s"
      using skip_bytes [of s 1] readable_mono [OF r, of 8] by simp
    moreover have "readable (skip_read 8 s) (8 * 16)"
      by (rule readable_skip_read) (rule readable_mono [OF r], simp)
    ultimately show ?thesis using skip_bytes [of "skip_read 8 s" 16] by (simp add: s1_def)
  qed
  have p1: "payload s1 = net_bits (drop_bit 1 (other_order x)) @ [bit x 56] @ rest"
    by (simp add: s1_def payload_skip_read s(3) bits h mini_guid_wire [OF x])
  have r1: "readable s1 (64 + (1 + (32 + (length rest - 32))))" unfolding s1_def by (rule readable_skip_read [OF r])
  have g: "Read_guid (big_endian w) JACKIE_NULL_GUID s1
      = Inr (JACKIE_NULL_GUID\<lparr>g := drop_bit 1 (other_order x)\<rparr>, skip_read 64 s1)"
    using takesD [OF takes_Read_guid _ p1] readable_mono [OF r1, of 64] by (simp add: length_net_bits)
  have r2: "readable (skip_read 64 s1) (1 + (32 + (length rest - 32)))" by (rule readable_skip_read [OF r1])
  have p2: "payload (skip_read 64 s1) = [bit x 56] @ rest" by (simp add: payload_skip_read p1 length_net_bits)
  have b: "Read_bool (skip_read 64 s1) = Inr (bit x 56, skip_read 65 s1)"
    using takesD [OF takes_Read_bool _ p2] readable_mono [OF r2, of 1] by simp
  have r3: "readable (skip_read 65 s1) (32 + (length rest - 32))"
    using readable_skip_read [OF r2] by (simp add: skip_read_skip_read)
  obtain c :: u32 where c: "net_bits c = take 32 rest" using net_bits_surj [of "take 32 rest", where 'a = 32] rest by auto
  have p3: "payload (skip_read 65 s1) = net_bits c @ drop 32 rest"
    by (simp add: c) (simp add: payload_skip_read p1 length_net_bits)
  have k: "Read_int (big_endian w) (skip_read 65 s1) = Inr (c, skip_read 97 s1)"
    using takesD [OF takes_Read_int _ p3] readable_mono [OF r3, of 32] by (simp add: length_net_bits)
  show ?thesis
    unfolding read_reply1_def s(1) rbind_Inr skipped g prod.case b k by simp
qed

lemma refusal_datagram:
  assumes "\<not> big_endian w"
  shows "\<exists>d. datagram_of w (refusal w i a) = Inr d \<and> length d \<le> 27 \<and>
    bits_of d = (offline_head_bits i @ mini_wire True (g (myGuid (eps a)))) @
      gap (length (offline_head_bits i @ mini_wire True (g (myGuid (eps a)))))"
proof -
  let ?bs = "offline_head_bits i @ mini_wire True (g (myGuid (eps a)))"
  have "emits (write_all [Write_mini_guid (big_endian w) (myGuid (eps a))]) (concat [mini_wire True (g (myGuid (eps a)))])"
    using assms(1) by (intro emits_write_all list.rel_intros) (simp_all add: emits_Write_mini_guid)
  from emits_write_all_append [OF emits_offline_head this]
  have e: "emits (write_all (refusal w i a)) ?bs" by (simp add: refusal_def)
  have l: "length ?bs \<le> 208"
    using length_mini_wire [of "g (myGuid (eps a))" True] by (simp add: offline_head_bits_def)
  then obtain d where d: "datagram_of w (refusal w i a) = Inr d" "bits_of d = ?bs @ gap (length ?bs)"
    using datagram_of_bits [OF e, of w] by (auto simp: max_bits_def)
  then have "8 * length d = padded (length ?bs)" using padded_ge [of "length ?bs"]
    by (metis length_append length_bits_of length_gap le_add_diff_inverse)
  then have "8 * length d < 208 + 8" using padded_small [of "length ?bs"] l by linarith
  then show ?thesis using d by auto
qed

end
