(* ===== verification/Request_Rounds.thy ===== *)
theory Request_Rounds
  imports Handshake_Facts
begin

text \<open>
  The life of a connection request over the calls of \<^verbatim>\<open>ProcessConnectionRequestQ\<close>: a call in which nothing
  is due, a call that sends, and the call that gives up; and the call after a \<^verbatim>\<open>Connect\<close>.
\<close>

section \<open>One queue operation\<close>

lemma store_at_ok:
  assumes "q_ok q" and "i < Queue_Size q"
  shows "\<exists>q'. store_at i x q = Inr q' \<and> q_ok q' \<and> queue_elems q' = (queue_elems q)[i := x]"
  using queue_put(1-3) [OF assms] by (simp add: store_at_def put_at_def)

lemma remove_at_ok:
  assumes "q_ok q" and "i < Queue_Size q"
  shows "\<exists>q'. remove_at i q = Inr q' \<and> q_ok q' \<and> queue_elems q' = take i (queue_elems q) @ drop (Suc i) (queue_elems q)"
  using RemoveAtIndex_ok [OF assms] by (auto simp: remove_at_def)

section \<open>Nothing is due\<close>

lemma idle_rounds:
  assumes ok: "q_ok (connReqQ a)" and idle: "\<forall>r \<in> set (queue_elems (connReqQ a)). \<not> nextRequestTime r < ucast timeMS"
  shows "i + n = Queue_Size (connReqQ a) \<Longrightarrow>
    request_rounds n w timeMS i a = Inr (a\<lparr>connReqQLock := connReqQLock a - int n\<rparr>)"
  using ok idle
proof (induction n arbitrary: i a)
  case (Suc n)
  let ?a = "a\<lparr>connReqQLock := connReqQLock a - 1\<rparr>"
  have i: "i < Queue_Size (connReqQ a)" using Suc.prems by simp
  have "\<not> nextRequestTime (queue_elems (connReqQ a) ! i) < ucast timeMS"
    using Suc.prems(3) i by (metis length_queue_elems nth_mem)
  then have "request_round w timeMS i a = Inr ?a"
    using i Suc.prems by (simp add: request_round_def Queue_at_elems)
  moreover have "request_rounds n w timeMS (i + 1) ?a = Inr (?a\<lparr>connReqQLock := connReqQLock ?a - int n\<rparr>)"
    using Suc.prems by (intro Suc.IH) simp_all
  ultimately show ?case using i by (simp add: diff_diff_eq add.commute)
qed simp

lemma ProcessConnectionRequestQ_idle:
  assumes "q_ok (connReqQ a)" and "Queue_Size (connReqQ a) \<noteq> 0" and "timeUS \<noteq> 0"
    and "\<forall>r \<in> set (queue_elems (connReqQ a)). \<not> nextRequestTime r < ucast timeMS"
  shows "ProcessConnectionRequestQ w timeUS timeMS a
    = Inr (timeUS, timeMS, a\<lparr>connReqQLock := connReqQLock a + 1 - int (Queue_Size (connReqQ a))\<rparr>)"
  using idle_rounds [of "a\<lparr>connReqQLock := Lock (connReqQLock a)\<rparr>" timeMS 0 "Queue_Size (connReqQ a)" w] assms
  by (simp add: ProcessConnectionRequestQ_def Queue_IsEmpty_def Size_0_iff)

section \<open>One request\<close>

definition only_request :: "connection_request \<Rightarrow> app \<Rightarrow> bool" where
  "only_request r a \<longleftrightarrow> q_ok (connReqQ a) \<and> queue_elems (connReqQ a) = [r]"

lemma only_request_size: "only_request r a \<Longrightarrow> Queue_Size (connReqQ a) = 1"
  by (metis length_queue_elems list.size(3,4) One_nat_def only_request_def plus_nat.add_0)

lemma only_request_at: "only_request r a \<Longrightarrow> Queue_at (connReqQ a) 0 = Inr r"
  using Queue_at_elems [of "connReqQ a" 0] only_request_size [of r a] by (simp add: only_request_def)

lemma ProcessConnectionRequestQ_only:
  assumes r: "only_request r a" and us: "timeUS \<noteq> 0" and due: "nextRequestTime r < ucast timeMS"
  shows "ProcessConnectionRequestQ w timeUS timeMS a =
    rbind (if ucast (requestsMade r) = connAttemptTimes r + 1
           then give_up w 0 r (a\<lparr>connReqQLock := connReqQLock a + 1\<rparr>)
           else try_request w timeMS 0 r (a\<lparr>connReqQLock := connReqQLock a + 1\<rparr>))
      (\<lambda>a. if 1 < Queue_Size (connReqQ a) then Inl OutOfFuel
           else Inr (timeUS, timeMS, a\<lparr>connReqQLock := connReqQLock a - 1\<rparr>))"
proof -
  have "\<not> Queue_IsEmpty (connReqQ a)"
    using only_request_size [OF r] by (auto simp: Queue_IsEmpty_def Queue_Size_def)
  then show ?thesis
    using only_request_size [OF r] only_request_at [OF r] us due
    by (simp add: ProcessConnectionRequestQ_def request_round_def rbind_assoc if_distrib [of "\<lambda>m. rbind m _"]
        cong: if_cong rbind_cong) 
qed

text \<open>A network that takes every datagram, in time.\<close>

definition quick_network :: "world \<Rightarrow> bool" where
  "quick_network w \<longleftrightarrow> (\<forall>addr d. let out = sendto w addr d in so_result out \<ge> 0 \<and> so_end out - so_start out \<le> 100)"

text \<open>The address of the request is not rewritten, and its socket is bound.\<close>

definition plain_target :: "world \<Rightarrow> connection_request \<Rightarrow> bool" where
  "plain_target w r \<longleftrightarrow> cr_socket r < length (boundAddrs w) \<and>
     ToString_IPV4 (w_inet_ntoa w) (big_endian w) False CHR ''|'' (receiverAddr r) \<noteq> ''::1''"

definition mtu_of_try :: "nat \<Rightarrow> nat \<Rightarrow> nat" where
  "mtu_of_try n k = mtuSizes ! min 2 (k div (n div 3))"

lemma after_send_quick: "quick_network w \<Longrightarrow> after_send t i (sendto w addr d) r = r"
  by (auto simp: after_send_def quick_network_def Let_def not_less [symmetric])

lemma try_request_sends:
  assumes r: "only_request r a" and n: "3 \<le> unat (connAttemptTimes r)" and w: "quick_network w" "plain_target w r"
  shows "\<exists>a' d. try_request w timeMS 0 r a = Inr a' \<and>
    only_request (r\<lparr>requestsMade := requestsMade r + 1, nextRequestTime := ucast (timeMS + connAttemptIntervalMS r)\<rparr>) a' \<and>
    sent a' = sent a @ [(receiverAddr r, d)] \<and>
    length d = mtu_of_try (unat (connAttemptTimes r)) (unat (requestsMade r)) - UDP_HEADER_SIZE \<and>
    allocPacketQ a' = allocPacketQ a \<and> connReqQLock a' = connReqQLock a"
proof -
  let ?n = "unat (connAttemptTimes r)" and ?k = "unat (requestsMade r)"
  let ?i = "min 2 (?k div (?n div 3))" and ?mtu = "mtu_of_try ?n ?k"
  let ?r = "r\<lparr>requestsMade := requestsMade r + 1, nextRequestTime := ucast (timeMS + connAttemptIntervalMS r)\<rparr>"
  have "?n div 3 \<noteq> 0" using n by simp
  then have i: "MTUSizeIndex r = Inr ?i" by (auto simp: MTUSizeIndex_def mtuSizesCount_def min_def Let_def)
  have mtu: "get_at mtuSizes ?i = Inr ?mtu" "?mtu \<in> {1492, 1200, 576}"
    by (auto simp: mtu_of_try_def mtuSizes_def MAXIMUM_MTU_SIZE_def min_def get_at_def nth_Cons split: nat.split)
  then obtain d where d: "datagram_of w (request1 w ?mtu) = Inr d" "length d = ?mtu - 28"
    using request1_datagram [of ?mtu w] by auto
  have fix_: "FixForIPVersion (w_inet_addr w) (w_resolve w) (w_inet_ntoa w) (big_endian w) b (receiverAddr r)
      = Inr (receiverAddr r)" for b
    using w(2) by (simp add: FixForIPVersion_def plain_target_def)
  let ?a = "a\<lparr>sent := sent a @ [(receiverAddr r, d)]\<rparr>"
  obtain q where q: "store_at 0 ?r (connReqQ a) = Inr q" "q_ok q" "queue_elems q = [?r]"
    using store_at_ok [of "connReqQ a" 0 ?r] r only_request_size [OF r] by (auto simp: only_request_def)
  have "try_request w timeMS 0 r a = Inr (?a\<lparr>connReqQ := q\<rparr>)"
    using i mtu(1) d(1) w q(1)
    by (simp add: try_request_def Let_def fix_ Send_def get_at_def plain_target_def after_send_quick cong: if_cong)
  then show ?thesis using q d(2) by (simp add: only_request_def UDP_HEADER_SIZE_def)
qed

lemma request_sent:
  assumes r: "only_request r a" and n: "3 \<le> unat (connAttemptTimes r)" and w: "quick_network w" "plain_target w r"
    and us: "timeUS \<noteq> 0" and due: "nextRequestTime r < ucast timeMS" and more: "ucast (requestsMade r) \<noteq> connAttemptTimes r + 1"
  shows "\<exists>a' d. ProcessConnectionRequestQ w timeUS timeMS a = Inr (timeUS, timeMS, a') \<and>
    only_request (r\<lparr>requestsMade := requestsMade r + 1, nextRequestTime := ucast (timeMS + connAttemptIntervalMS r)\<rparr>) a' \<and>
    sent a' = sent a @ [(receiverAddr r, d)] \<and>
    length d = mtu_of_try (unat (connAttemptTimes r)) (unat (requestsMade r)) - UDP_HEADER_SIZE \<and>
    allocPacketQ a' = allocPacketQ a \<and> connReqQLock a' = connReqQLock a"
proof -
  let ?a = "a\<lparr>connReqQLock := connReqQLock a + 1\<rparr>"
  let ?r = "r\<lparr>requestsMade := requestsMade r + 1, nextRequestTime := ucast (timeMS + connAttemptIntervalMS r)\<rparr>"
  have "only_request r ?a" using r by (simp add: only_request_def)
  then obtain a' d where a': "try_request w timeMS 0 r ?a = Inr a'" "only_request ?r a'"
      "sent a' = sent a @ [(receiverAddr r, d)]"
      "length d = mtu_of_try (unat (connAttemptTimes r)) (unat (requestsMade r)) - UDP_HEADER_SIZE"
      "allocPacketQ a' = allocPacketQ a" "connReqQLock a' = connReqQLock a + 1"
    using try_request_sends [OF _ n w, of ?a timeMS] by auto
  have "only_request ?r (a'\<lparr>connReqQLock := connReqQLock a' - 1\<rparr>)" using a'(2) by (simp add: only_request_def)
  then show ?thesis
    using a' more by (intro exI [of _ "a'\<lparr>connReqQLock := connReqQLock a' - 1\<rparr>"] exI [of _ d])
      (simp add: ProcessConnectionRequestQ_only [OF r us due] only_request_size)
qed

lemma request_given_up:
  assumes r: "only_request r a" and us: "timeUS \<noteq> 0" and due: "nextRequestTime r < ucast timeMS"
    and last: "ucast (requestsMade r) = connAttemptTimes r + 1"
  shows "\<exists>a' p. ProcessConnectionRequestQ w timeUS timeMS a = Inr (timeUS, timeMS, a') \<and>
    queue_elems (connReqQ a') = [] \<and> sent a' = sent a \<and> connReqQLock a' = connReqQLock a \<and>
    allocPacketQ a' = allocPacketQ a @ [p] \<and> packet_address p = receiverAddr r \<and> packet_data p = DeadVariable"
proof -
  obtain q where q: "remove_at 0 (connReqQ a) = Inr q" "q_ok q" "queue_elems q = []"
    using remove_at_ok [of "connReqQ a" 0] r only_request_size [OF r] by (auto simp: only_request_def)
  then have "Queue_Size q = 0" by (metis length_queue_elems list.size(3))
  then show ?thesis
    using q by (simp add: ProcessConnectionRequestQ_only [OF r us due] last give_up_def push_packet_def AllocPacket_def Let_def)
qed

section \<open>The whole attempt\<close>

text \<open>The cycles of the network thread at the times \<open>ts\<close>.\<close>

fun request_cycles :: "world \<Rightarrow> u32 list \<Rightarrow> app \<Rightarrow> app res" where
  "request_cycles w [] a = Inr a"
| "request_cycles w (t # ts) a = rbind (ProcessConnectionRequestQ w 1 t a) (\<lambda>(_, _, a). request_cycles w ts a)"

text \<open>Each time is later than the request asks for.\<close>

fun spaced :: "u64 \<Rightarrow> u32 \<Rightarrow> u32 list \<Rightarrow> bool" where
  "spaced due interval [] = True"
| "spaced due interval (t # ts) = (due < ucast t \<and> spaced (ucast (t + interval)) interval ts)"

lemma request_cycles_end:
  assumes "only_request r a" and "3 \<le> unat (connAttemptTimes r)" "unat (connAttemptTimes r) < 255"
    and "quick_network w" "plain_target w r"
    and "unat (requestsMade r) + length ts = unat (connAttemptTimes r) + 2"
    and "unat (requestsMade r) \<le> unat (connAttemptTimes r) + 1"
    and "spaced (nextRequestTime r) (connAttemptIntervalMS r) ts"
  shows "\<exists>a' ds p. request_cycles w ts a = Inr a' \<and> queue_elems (connReqQ a') = [] \<and>
    sent a' = sent a @ map (Pair (receiverAddr r)) ds \<and>
    map length ds = map (\<lambda>k. mtu_of_try (unat (connAttemptTimes r)) k - UDP_HEADER_SIZE)
      [unat (requestsMade r)..<unat (connAttemptTimes r) + 1] \<and>
    allocPacketQ a' = allocPacketQ a @ [p] \<and> packet_address p = receiverAddr r \<and> packet_data p = DeadVariable \<and>
    connReqQLock a' = connReqQLock a"
  using assms
proof (induction ts arbitrary: r a)
  case (Cons t ts)
  let ?n = "unat (connAttemptTimes r)" and ?k = "unat (requestsMade r)"
  have due: "nextRequestTime r < ucast t"
    and ts: "spaced (ucast (t + connAttemptIntervalMS r)) (connAttemptIntervalMS r) ts"
    using Cons.prems by simp_all
  have "unat (connAttemptTimes r + 1) = ?n + 1" using Cons.prems(3) by (simp add: unat_word_ariths)
  moreover have "unat (ucast (requestsMade r) :: u32) = ?k"
    using unsigned_less [of "requestsMade r", where 'a = nat]
    by (simp add: unsigned_ucast_eq take_bit_nat_eq_self)
  ultimately have last: "ucast (requestsMade r) = connAttemptTimes r + 1 \<longleftrightarrow> ?k = ?n + 1"
    by (metis word_unat_eq_iff)
  show ?case
  proof (cases "?k = ?n + 1")
    case True
    then have "ts = []" using Cons.prems(6) by simp
    then show ?thesis
      using request_given_up [OF Cons.prems(1) _ due, of 1 w] True last by (auto intro: exI [of _ "[]"])
  next
    case False
    let ?r = "r\<lparr>requestsMade := requestsMade r + 1, nextRequestTime := ucast (t + connAttemptIntervalMS r)\<rparr>"
    have k: "unat (requestsMade r + 1) = ?k + 1" using False Cons.prems(3,7) by (simp add: unat_word_ariths)
    have "ucast (requestsMade r) \<noteq> connAttemptTimes r + 1" using last False by simp
    from request_sent [OF Cons.prems(1,2,4,5) _ due this, of 1]
    obtain a1 d where a1: "ProcessConnectionRequestQ w 1 t a = Inr (1, t, a1)" "only_request ?r a1"
      "sent a1 = sent a @ [(receiverAddr r, d)]" "length d = mtu_of_try ?n ?k - UDP_HEADER_SIZE"
      "allocPacketQ a1 = allocPacketQ a" "connReqQLock a1 = connReqQLock a"
      by auto
    obtain a' ds p where a': "request_cycles w ts a1 = Inr a'" "queue_elems (connReqQ a') = []"
      "sent a' = sent a1 @ map (Pair (receiverAddr r)) ds"
      "map length ds = map (\<lambda>k. mtu_of_try ?n k - UDP_HEADER_SIZE) [?k + 1..<?n + 1]"
      "allocPacketQ a' = allocPacketQ a1 @ [p]" "packet_address p = receiverAddr r" "packet_data p = DeadVariable"
      "connReqQLock a' = connReqQLock a1"
      using Cons.IH [OF a1(2)] Cons.prems ts False k by (auto simp: plain_target_def)
    have "[?k..<?n + 1] = ?k # [?k + 1..<?n + 1]" using False Cons.prems(7) by (simp add: upt_conv_Cons)
    then show ?thesis
      using a1 a' by (intro exI [of _ a'] exI [of _ "d # ds"] exI [of _ p]) simp
  qed
qed simp

section \<open>A new request\<close>

text \<open>What \<^verbatim>\<open>Connect\<close> puts into the queue.\<close>

lemma challenge_keeps:
  "connAttemptTimes (snd (GenerateConnectionRequestChallenge c k r)) = connAttemptTimes r"
  "requestsMade (snd (GenerateConnectionRequestChallenge c k r)) = requestsMade r"
  "nextRequestTime (snd (GenerateConnectionRequestChallenge c k r)) = nextRequestTime r"
  by (simp_all add: GenerateConnectionRequestChallenge_def split: option.split secure_connection_mode.split)

lemma post_request_appends:
  assumes ok: "q_ok (connReqQ a)" and room: "Queue_Size (connReqQ a) + 1 < 2 ^ 30"
    and run: "post_request addr r a = Inr (CONNECTION_ATTEMPT_POSTED, a')"
  shows "q_ok (connReqQ a') \<and> queue_elems (connReqQ a') = queue_elems (connReqQ a) @ [r]"
proof -
  obtain q where q: "PushTail 8 r (connReqQ a) = Inr q" "q_ok q" "queue_elems q = queue_elems (connReqQ a) @ [r]"
    using PushTail_ok [OF ok _ _ room, of 8 r] by auto
  then show ?thesis
    using run by (auto simp: post_request_def Let_def rbind_eq_Inr split: if_splits)
qed

definition posted :: "u8 \<Rightarrow> u64 \<Rightarrow> app \<Rightarrow> app \<Rightarrow> bool" where
  "posted n time a a' \<longleftrightarrow>
     (\<exists>r. q_ok (connReqQ a') \<and> queue_elems (connReqQ a') = queue_elems (connReqQ a) @ [r] \<and>
        connAttemptTimes r = ucast n \<and> requestsMade r = 0 \<and> nextRequestTime r = time)"

lemma Connect_request:
  assumes ok: "q_ok (connReqQ a)" and room: "Queue_Size (connReqQ a) + 1 < 2 ^ 30"
    and run: "Connect ia rs be ch unset raw time socks host port pw pl key si n iv to x a = Inr (CONNECTION_ATTEMPT_POSTED, a')"
  shows "posted n time a a'"
proof -
  have post: "posted n time a a'"
    if "GenerateConnectionRequestChallenge ch key r0 = (True, r)" "connAttemptTimes r0 = ucast n"
      "requestsMade r0 = 0" "nextRequestTime r0 = time"
      "post_request addr r a = Inr (CONNECTION_ATTEMPT_POSTED, a')" for r0 r addr
    using post_request_appends [OF ok room that(5)] challenge_keeps [of ch key r0] that(1-4) by (auto simp: posted_def)
  show ?thesis
    using run unfolding Connect_def Let_def
    by (auto simp: rbind_eq_Inr split: option.splits if_splits prod.splits intro: post)
qed

lemma few_attempts_fail:
  assumes r: "only_request r a" and n: "unat (connAttemptTimes r) < 3" and k: "requestsMade r = 0"
    and us: "timeUS \<noteq> 0" and due: "nextRequestTime r < ucast timeMS"
  shows "ProcessConnectionRequestQ w timeUS timeMS a = Inl DivisionByZero"
proof -
  have "unat (connAttemptTimes r + 1) = unat (connAttemptTimes r) + 1" using n by (simp add: unat_word_ariths)
  then have "connAttemptTimes r + 1 \<noteq> 0" by (metis add_is_0 unat_0 zero_neq_one)
  then have "ucast (requestsMade r) \<noteq> connAttemptTimes r + 1" using k by simp
  moreover have "MTUSizeIndex r = Inl DivisionByZero" using n by (simp add: MTUSizeIndex_def mtuSizesCount_def)
  ultimately show ?thesis by (simp add: ProcessConnectionRequestQ_only [OF r us due] try_request_def)
qed

section \<open>The loop ends\<close>

lemma FixForIPVersion_no_fuel: "FixForIPVersion ia rs ntoa be bound addr \<noteq> Inl OutOfFuel"
  by (auto simp: FixForIPVersion_def FromString_def SetIP4Address_def rbind_def get_at_def put_at_def rassert_def
      Let_def split: sum.split if_splits prod.splits)

lemma rbind_no_fuel:
  "m \<noteq> Inl OutOfFuel \<Longrightarrow> (\<And>x. m = Inr x \<Longrightarrow> f x \<noteq> Inl OutOfFuel) \<Longrightarrow> rbind m f \<noteq> Inl OutOfFuel"
  by (cases m) auto

lemma get_at_no_fuel: "get_at xs i \<noteq> Inl OutOfFuel"
  by (simp add: get_at_def)

lemma request1_no_fuel:
  assumes "get_at mtuSizes i = Inr mtu"
  shows "datagram_of w (request1 w mtu) \<noteq> Inl OutOfFuel"
proof -
  have "mtu \<in> set mtuSizes" using assms by (auto simp: get_at_def split: if_splits)
  then have "48 \<le> mtu" "mtu < 2 ^ 16" by (auto simp: mtuSizes_def MAXIMUM_MTU_SIZE_def)
  then show ?thesis using request1_datagram [of mtu w] by auto
qed

text \<open>A round leaves a sound queue that is not longer.\<close>

definition not_longer :: "nat \<Rightarrow> app res \<Rightarrow> bool" where
  "not_longer n m \<longleftrightarrow>
     (case m of Inl e \<Rightarrow> e \<noteq> OutOfFuel | Inr a \<Rightarrow> q_ok (connReqQ a) \<and> Queue_Size (connReqQ a) \<le> n)"

lemma not_longer_rbind:
  "m \<noteq> Inl OutOfFuel \<Longrightarrow> (\<And>x. m = Inr x \<Longrightarrow> not_longer n (f x)) \<Longrightarrow> not_longer n (rbind m f)"
  by (cases m) (auto simp: not_longer_def)

lemma try_request_not_longer:
  assumes ok: "q_ok (connReqQ a)" and i: "i < Queue_Size (connReqQ a)"
  shows "not_longer (Queue_Size (connReqQ a)) (try_request w t i r a)"
proof -
  have store: "\<exists>q. store_at i x (connReqQ a) = Inr q \<and> q_ok q \<and> Queue_Size q = Queue_Size (connReqQ a)" for x
    using store_at_ok [OF ok i, of x] by (metis length_list_update length_queue_elems)
  have stored: "store_at i x (connReqQ a) \<noteq> Inl OutOfFuel"
    "store_at i x (connReqQ a) = Inr q \<Longrightarrow> not_longer (Queue_Size (connReqQ a)) (Inr (a\<lparr>sent := s, connReqQ := q\<rparr>))" for x q s
    using store [of x] by (auto simp: not_longer_def)
  show ?thesis unfolding try_request_def Let_def Send_def prod.case
    by (intro not_longer_rbind get_at_no_fuel FixForIPVersion_no_fuel)
      (auto simp: stored MTUSizeIndex_def Let_def dest: request1_no_fuel)
qed

lemma request_round_not_longer:
  assumes ok: "q_ok (connReqQ a)" and i: "i < Queue_Size (connReqQ a)"
  shows "not_longer (Queue_Size (connReqQ a)) (request_round w t i a)"
proof -
  let ?n = "Queue_Size (connReqQ a)"
  have unlocked: "not_longer ?n (rbind m (\<lambda>a. Inr (a\<lparr>connReqQLock := Unlock (connReqQLock a)\<rparr>)))"
    if "not_longer ?n m" for m
    using that by (cases m) (auto simp: not_longer_def)
  have "not_longer ?n (give_up w i r a)" for r
  proof -
    obtain q where q: "remove_at i (connReqQ a) = Inr q" "q_ok q"
      "queue_elems q = take i (queue_elems (connReqQ a)) @ drop (Suc i) (queue_elems (connReqQ a))"
      using remove_at_ok [OF ok i] by blast
    then have "Queue_Size q = length (take i (queue_elems (connReqQ a)) @ drop (Suc i) (queue_elems (connReqQ a)))"
      by (metis length_queue_elems)
    then show ?thesis using q i by (simp add: give_up_def push_packet_def not_longer_def Let_def)
  qed
  moreover have "not_longer ?n (try_request w t i r a)" for r by (rule try_request_not_longer [OF ok i])
  moreover have "not_longer ?n (Inr a)" using ok by (simp add: not_longer_def)
  ultimately show ?thesis
    using i ok by (simp add: request_round_def Queue_at_elems unlocked)
qed

lemma request_rounds_end:
  "q_ok (connReqQ a) \<Longrightarrow> Queue_Size (connReqQ a) \<le> i + n \<Longrightarrow> not_longer (Queue_Size (connReqQ a)) (request_rounds n w t i a)"
proof (induction n arbitrary: i a)
  case (Suc n)
  show ?case
  proof (cases "i < Queue_Size (connReqQ a)")
    case True
    have r: "not_longer (Queue_Size (connReqQ a)) (request_round w t i a)"
      by (rule request_round_not_longer [OF Suc.prems(1) True])
    show ?thesis
    proof (cases "request_round w t i a")
      case (Inr a')
      then have a': "q_ok (connReqQ a')" "Queue_Size (connReqQ a') \<le> Queue_Size (connReqQ a)"
        using r by (simp_all add: not_longer_def)
      then have "not_longer (Queue_Size (connReqQ a')) (request_rounds n w t (i + 1) a')"
        using Suc.prems(2) by (intro Suc.IH) simp_all
      then show ?thesis using True Inr a'(2) by (auto simp: not_longer_def split: sum.splits)
    qed (use r True in \<open>simp add: not_longer_def\<close>)
  qed (use Suc.prems in \<open>simp add: not_longer_def\<close>)
qed (simp add: not_longer_def)

end
