(* ===== verification/Server_Slots.thy ===== *)
theory Server_Slots
  imports Handshake_Facts
begin

text \<open>
  What the second request of a client does to the end points of the server, for a server without security: a client
  that nobody knows gets a place and is then known, and a full server answers without giving a place.
\<close>

section \<open>Lookups\<close>

lemma find_endpoint_unique:
  assumes "i < length rs" "p (rs ! i)" "\<And>j. j < length rs \<Longrightarrow> p (rs ! j) \<Longrightarrow> j = i"
  shows "find_endpoint p 0 rs = Some i"
proof (cases "find_endpoint p 0 rs")
  case None
  then show ?thesis using assms(1,2) by (auto simp: find_endpoint_None)
next
  case (Some j)
  then show ?thesis using find_endpoint_0 [OF Some] assms(3) by simp
qed

text \<open>No active end point has this address or this guid.\<close>

definition unknown :: "endpoints \<Rightarrow> network_address \<Rightarrow> guid \<Rightarrow> bool" where
  "unknown t sender gd \<longleftrightarrow>
     (\<forall>r \<in> set (remoteSystemList t). isActive r \<longrightarrow> \<not> address_eq (systemAddress r) sender \<and> \<not> guid_eq (rs_guid r) gd)"

lemma endpoints_okD:
  "endpoints_ok be t \<Longrightarrow> table_ok be t \<and> length (remoteSystemList t) = maxConnections t"
  by (simp add: endpoints_ok_def table_ok_def)

lemma lookup_sender:
  assumes ok: "endpoints_ok be t" and sender: "valid_address sender"
  shows "GetRemoteSystem_address be sender True True t =
    Inr (case routes be t (addr_key sender) of
           None \<Rightarrow> None | Some i \<Rightarrow> if isActive (remoteSystemList t ! i) then Some i else None)"
proof -
  have tok: "table_ok be t" and len: "length (remoteSystemList t) = maxConnections t"
    using endpoints_okD [OF ok] by auto
  have "\<not> is_null sender" using sender by (simp add: valid_address_def is_null_key)
  moreover have "i < maxConnections t \<and> address_eq (systemAddress (remoteSystemList t ! i)) sender"
    if "routes be t (addr_key sender) = Some i" for i
    using that linked_less [OF tok] by (auto simp: routes_iff [OF tok] key_eq_at [OF tok])
  ultimately show ?thesis
    using len by (auto simp: GetRemoteSystem_address_def lookup_routes [OF tok] split: option.split)
qed

lemma unknown_lookups:
  assumes ok: "endpoints_ok be t" and sender: "valid_address sender" and u: "unknown t sender gd"
  shows "GetRemoteSystem_address be sender True True t = Inr None" and "GetRemoteSystem_guid gd True t = None"
    and "\<forall>j < maxConnections t. isActive (remoteSystemList t ! j) \<longrightarrow> key_at t j \<noteq> addr_key sender"
proof -
  have tok: "table_ok be t" and len: "length (remoteSystemList t) = maxConnections t"
    using endpoints_okD [OF ok] by auto
  show new: "\<forall>j < maxConnections t. isActive (remoteSystemList t ! j) \<longrightarrow> key_at t j \<noteq> addr_key sender"
    using u len key_eq_at [OF tok] by (metis nth_mem unknown_def)
  show "GetRemoteSystem_address be sender True True t = Inr None"
    using new linked_less [OF tok] by (auto simp: lookup_sender [OF ok sender] routes_iff [OF tok] split: option.split)
  show "GetRemoteSystem_guid gd True t = None"
    using u by (auto simp: GetRemoteSystem_guid_def find_endpoint_None unknown_def)
qed

definition same_settings :: "endpoints \<Rightarrow> endpoints \<Rightarrow> bool" where
  "same_settings t t' \<longleftrightarrow> myGuid t' = myGuid t \<and> endThreads t' = endThreads t \<and>
     limitConnFrequencyOfSameClient t' = limitConnFrequencyOfSameClient t"

lemma DeRef_keeps: "DeRefRemoteSystem be sa t = Inr t' \<Longrightarrow> same_settings t t'"
  by (auto simp: DeRefRemoteSystem_def rbind_eq_Inr same_settings_def)

lemma Ref_keeps: "RefRemoteEndPoint be sa i t = Inr t' \<Longrightarrow> same_settings t t'"
  by (auto simp: RefRemoteEndPoint_def rbind_eq_Inr Let_def same_settings_def dest!: DeRef_keeps split: if_splits)

lemma activate_keeps:
  "activate_slot be time bound local mtu recvd gd sender i t = Inr t' \<Longrightarrow> same_settings t t'"
  by (auto simp: activate_slot_def AddToActiveSystemList_def rbind_eq_Inr same_settings_def dest!: Ref_keeps)

lemma Add2_keeps:
  "Add2RemoteSystemList be time bound local mtu recvd0 gd sender t = Inr (t', free_rs, fl, recvd) \<Longrightarrow> same_settings t t'"
  by (auto simp: Add2RemoteSystemList_def rbind_eq_Inr Let_def same_settings_def dest!: activate_keeps split: option.splits)

section \<open>The answers\<close>

lemma reply2_datagram:
  assumes "\<not> big_endian w" and "ipv4 (senderINetAddress rp)"
  shows "\<exists>d. datagram_of w (reply2 w rp mtu required a) = Inr d \<and>
    take 17 d = ID_OPEN_CONNECTION_REPLY_2 # OFFLINE_MESSAGE_DATA_ID"
proof -
  let ?bss = "[mini_wire True (g (myGuid (eps a))), mini_address_wire (senderINetAddress rp), mini_wire True mtu, [required]]"
  have e: "emits (write_all [Write_mini_guid (big_endian w) (myGuid (eps a)),
      Write_mini_address (big_endian w) (senderINetAddress rp), Write_mini_int (big_endian w) True mtu, Write_bool required])
      (concat ?bss)"
    using assms by (intro emits_write_all list.rel_intros)
      (simp_all add: emits_Write_mini_guid emits_Write_mini_address emits_Write_mini_int emits_Write_bool)
  have e: "emits (write_all (reply2 w rp mtu required a)) (offline_head_bits ID_OPEN_CONNECTION_REPLY_2 @ concat ?bss)"
    unfolding reply2_def by (rule emits_write_all_append [OF emits_offline_head e])
  have "length (mini_wire True (g (myGuid (eps a)))) \<le> 72" "length (mini_wire True mtu) \<le> 18"
    "length (mini_wire True (4 :: u8)) \<le> 9" "length (mini_wire True (NOT (s_addr (senderINetAddress rp)))) \<le> 36"
    "length (mini_wire True (sin_port (senderINetAddress rp))) \<le> 18"
    using length_mini_wire [of "g (myGuid (eps a))" True] length_mini_wire [of mtu True]
      length_mini_wire [of "4 :: u8" True] length_mini_wire [of "NOT (s_addr (senderINetAddress rp))" True]
      length_mini_wire [of "sin_port (senderINetAddress rp)" True] by simp_all
  then have "length (offline_head_bits ID_OPEN_CONNECTION_REPLY_2 @ concat ?bss) + 8 \<le> max_bits"
    by (simp add: offline_head_bits_def mini_address_wire_def max_bits_def)
  from datagram_of_bits [OF e this] obtain d where d: "datagram_of w (reply2 w rp mtu required a) = Inr d"
    "bits_of d = (offline_head_bits ID_OPEN_CONNECTION_REPLY_2 @ concat ?bss) @
       gap (length (offline_head_bits ID_OPEN_CONNECTION_REPLY_2 @ concat ?bss))"
    by blast
  have "take (length (ID_OPEN_CONNECTION_REPLY_2 # OFFLINE_MESSAGE_DATA_ID)) d
      = ID_OPEN_CONNECTION_REPLY_2 # OFFLINE_MESSAGE_DATA_ID"
    using d(2) unfolding offline_head_bits_def append_assoc by (rule bytes_of_bits)
  then show ?thesis using d(1) by simp
qed

lemma answer_with_sel [simp]:
  "sent (answer_with w rp d a) = sent a @ [(senderINetAddress rp, d)]" "eps (answer_with w rp d a) = eps a"
  by (simp_all add: answer_with_def plugins_send_def Send_def)

text \<open>The client is known at the place \<open>i\<close>, and has not gone on with the connection.\<close>

definition known_at :: "bool \<Rightarrow> endpoints \<Rightarrow> network_address \<Rightarrow> guid \<Rightarrow> nat \<Rightarrow> bool" where
  "known_at be t sender gd i \<longleftrightarrow>
     i < maxConnections t \<and> routes be t (addr_key sender) = Some i \<and> isActive (remoteSystemList t ! i) \<and>
     connectMode (remoteSystemList t ! i) = UNVERIFIED_SENDER \<and> rs_guid (remoteSystemList t ! i) = gd \<and>
     (\<forall>j < maxConnections t. j \<noteq> i \<longrightarrow> isActive (remoteSystemList t ! j) \<longrightarrow> \<not> guid_eq (rs_guid (remoteSystemList t ! j)) gd)"

lemma known_client_answered:
  assumes ok: "endpoints_ok (big_endian w) (eps a)" and sender: "valid_address (senderINetAddress rp)"
    and known: "known_at (big_endian w) (eps a) (senderINetAddress rp) gd i" and gd: "\<not> is_null_guid gd"
    and d: "datagram_of w (reply2 w rp mtu False a) = Inr d"
  shows "answer_request2 w rp (False, challenge, addr, mtu, gd) a = Inr (answer_with w rp d a)"
proof -
  let ?t = "eps a"
  have len: "length (remoteSystemList ?t) = maxConnections ?t" using endpoints_okD [OF ok] by simp
  have "GetRemoteSystem_address (big_endian w) (senderINetAddress rp) True True ?t = Inr (Some i)"
    using known by (simp add: lookup_sender [OF ok sender] known_at_def)
  moreover have "GetRemoteSystem_guid gd True ?t = Some i"
    using known gd len unfolding GetRemoteSystem_guid_def known_at_def
    by (auto simp: guid_eq_def intro!: find_endpoint_unique)
  ultimately show ?thesis
    using known d by (simp add: answer_request2_def request2_outcome_of_def known_at_def send_message_def Let_def)
qed

lemma new_client_placed:
  assumes ok: "endpoints_ok (big_endian w) (eps a)" and sender: "valid_address (senderINetAddress rp)"
    and u: "unknown (eps a) (senderINetAddress rp) gd" and gd: "\<not> is_null_guid gd" and mtu: "unat mtu \<le> MAXIMUM_MTU_SIZE"
    and local: "localBoundSocket rp < length (boundAddrs w)"
    and can: "CanAcceptIncomingConnection (eps a) = Inr True"
    and quiet: "\<not> floods (ucast (time_ms w)) (senderINetAddress rp) (eps a)"
    and d: "datagram_of w (reply2 w rp mtu False a) = Inr d"
  shows "\<exists>t. answer_request2 w rp (False, challenge, addr, mtu, gd) a = Inr (answer_with w rp d (a\<lparr>eps := t\<rparr>)) \<and>
    (if \<forall>r \<in> set (remoteSystemList (eps a)). isActive r then t = eps a
     else endpoints_ok (big_endian w) t \<and> same_settings (eps a) t \<and>
       (\<exists>i. \<not> isActive (remoteSystemList (eps a) ! i) \<and> known_at (big_endian w) t (senderINetAddress rp) gd i \<and>
          (\<forall>j < maxConnections (eps a). j \<noteq> i \<longrightarrow> remoteSystemList t ! j = remoteSystemList (eps a) ! j)))"
proof -
  let ?t = "eps a" and ?s = "senderINetAddress rp" and ?be = "big_endian w"
  note l = unknown_lookups [OF ok sender u]
  have len: "length (remoteSystemList ?t) = maxConnections ?t" using endpoints_okD [OF ok] by simp
  obtain t' free_rs recvd where add: "Add2RemoteSystemList ?be (ucast (time_ms w)) (boundAddrs w) (localBoundSocket rp) (unat mtu) addr gd ?s ?t
      = Inr (t', free_rs, floods (ucast (time_ms w)) ?s ?t, recvd)" "endpoints_ok ?be t'" "maxConnections t' = maxConnections ?t"
    and res: "if \<forall>r \<in> set (remoteSystemList ?t). isActive r
       then t' = ?t \<and> free_rs = (if floods (ucast (time_ms w)) ?s ?t then Some None else None)
       else \<exists>i. free_rs = Some (Some i) \<and> i < maxConnections ?t \<and> \<not> isActive (remoteSystemList ?t ! i) \<and>
         routes ?be t' (addr_key ?s) = Some i \<and>
         activeSystemListSize t' = activeSystemListSize ?t + 1 \<and>
         (\<forall>j < maxConnections ?t. j \<noteq> i \<longrightarrow> remoteSystemList t' ! j = remoteSystemList ?t ! j) \<and>
         isActive (remoteSystemList t' ! i) \<and> systemAddress (remoteSystemList t' ! i) = ?s \<and>
         connectMode (remoteSystemList t' ! i) = UNVERIFIED_SENDER \<and> rs_guid (remoteSystemList t' ! i) = gd"
    using Add2RemoteSystemList_ok [OF ok sender mtu l(3) local, of "ucast (time_ms w)" addr gd] by blast
  have "\<not> is_null ?s" using sender by (simp add: valid_address_def is_null_key)
  then have run: "answer_request2 w rp (False, challenge, addr, mtu, gd) a = Inr (answer_with w rp d (a\<lparr>eps := t'\<rparr>))"
    using l(1,2) can add(1) quiet d
    by (simp add: answer_request2_def request2_outcome_of_def accept_client_def send_message_def Let_def)
  have "\<not> guid_eq (rs_guid (remoteSystemList ?t ! j)) gd" if "j < maxConnections ?t" "isActive (remoteSystemList ?t ! j)" for j
    using u that len by (auto simp: unknown_def)
  then show ?thesis
    using run res add(2,3) Add2_keeps [OF add(1)]
    by (intro exI [of _ t']) (auto simp: known_at_def split: if_splits)
qed

lemma unverified_not_counted:
  assumes ok: "endpoints_ok be t" and "0 < maxConnections t"
    and "\<forall>r \<in> set (remoteSystemList t). isActive r \<and> connectMode r = UNVERIFIED_SENDER"
  shows "CanAcceptIncomingConnection t = Inr True"
proof -
  have "connectMode (remoteSystemList t ! i) \<noteq> CONNECTED" if "i \<in> set (take (activeSystemListSize t) (activeSystemList t))" for i
  proof -
    have "i < length (remoteSystemList t)" using that ok endpoints_okD [OF ok] by (auto simp: endpoints_ok_def)
    then show ?thesis using assms(3) by (auto dest!: nth_mem)
  qed
  then have "filter (\<lambda>i. let r = remoteSystemList t ! i in isActive r \<and> connectMode r = CONNECTED \<and> weInitiateConnection r = False)
      (take (activeSystemListSize t) (activeSystemList t)) = []"
    by (simp add: filter_empty_conv Let_def)
  then show ?thesis
    using ok assms(2) by (simp add: CanAcceptIncomingConnection_def GetIncomingConnectionsCount_def endpoints_ok_def)
qed

end
