(* ===== verification/Mersenne_Twister.thy ===== *)
theory Mersenne_Twister
  imports Bit_Types
begin

unbundle bit_operations_syntax

text \<open>
  The random numbers of \<^verbatim>\<open>src/geco-random-seed-creator.cpp\<close>: the Mersenne Twister in Cokus' pointer
  version. A generator is its array of 625 words, the place \<^verbatim>\<open>next\<close> points to and the counter
  \<^verbatim>\<open>left\<close>; \<open>mt_ref\<close> is the recurrence the generator is defined by, and the theorem of the section
  at the end says that the pointer loops compute it.
\<close>

section \<open>State\<close>

record mt =
  mt_state :: "u32 list"
  mt_next :: nat
  mt_left :: int

definition MT_N :: nat where "MT_N = 624"

definition MT_M :: nat where "MT_M = 397"

definition MT_K :: u32 where "MT_K = 0x9908B0DF"

definition hiBit :: "u32 \<Rightarrow> u32" where "hiBit u = u AND 0x80000000"

definition loBit :: "u32 \<Rightarrow> u32" where "loBit u = u AND 0x00000001"

definition loBits :: "u32 \<Rightarrow> u32" where "loBits u = u AND 0x7FFFFFFF"

definition mixBits :: "u32 \<Rightarrow> u32 \<Rightarrow> u32" where "mixBits u v = (hiBit u OR loBits v)"

section \<open>Operations\<close>

text \<open>The seeding loop: \<open>j\<close> counts down, \<open>s\<close> is the place to write to.\<close>

fun seed_loop :: "nat \<Rightarrow> nat \<Rightarrow> u32 \<Rightarrow> u32 list \<Rightarrow> u32 list res" where
  "seed_loop 0 s x st = Inr st"
| "seed_loop (Suc j) s x st =
     (let x = x * 69069 in rbind (put_at st s (x AND 0xFFFFFFFF)) (seed_loop j (s + 1) x))"

definition seedMT :: "u32 \<Rightarrow> mt \<Rightarrow> mt res" where
  "seedMT seed g =
     (let x = (seed OR 1) AND 0xFFFFFFFF
      in rbind (put_at (mt_state g) 0 x) (\<lambda>st.
         rbind (seed_loop (MT_N - 1) 1 x st) (\<lambda>st.
           Inr (g\<lparr>mt_state := st, mt_left := 0\<rparr>))))"

definition twist :: "u32 \<Rightarrow> u32 \<Rightarrow> u32" where
  "twist s0 s1 = drop_bit 1 (mixBits s0 s1) XOR (if loBit s1 \<noteq> 0 then MT_K else 0)"

definition temper :: "u32 \<Rightarrow> u32" where
  "temper y =
     (let y = y XOR drop_bit 11 y;
          y = y XOR (push_bit 7 y AND 0x9D2C5680);
          y = y XOR (push_bit 15 y AND 0xEFC60000)
      in y XOR drop_bit 18 y)"

text \<open>The body both loops of \<^verbatim>\<open>reloadMT\<close> share, with their pointers \<^verbatim>\<open>p0\<close>, \<^verbatim>\<open>pM\<close> and \<^verbatim>\<open>p2\<close> as places.\<close>

fun reload_loop :: "nat \<Rightarrow> nat \<Rightarrow> nat \<Rightarrow> nat \<Rightarrow> u32 \<Rightarrow> u32 \<Rightarrow> u32 list \<Rightarrow>
    (nat \<times> nat \<times> nat \<times> u32 \<times> u32 \<times> u32 list) res" where
  "reload_loop 0 p0 pM p2 s0 s1 st = Inr (p0, pM, p2, s0, s1, st)"
| "reload_loop (Suc j) p0 pM p2 s0 s1 st =
     rbind (get_at st pM) (\<lambda>m.
     rbind (put_at st p0 (m XOR twist s0 s1)) (\<lambda>st1.
     rbind (get_at st1 p2) (\<lambda>v.
       reload_loop j (p0 + 1) (pM + 1) (p2 + 1) s1 v st1)))"

text \<open>
  \<^verbatim>\<open>reloadMT\<close>. When \<^verbatim>\<open>left < -1\<close> it seeds with 4357, but through the function without a generator,
  that is, it seeds the global one \<open>glob\<close>.
\<close>

definition reloadMT :: "mt \<Rightarrow> mt \<Rightarrow> (u32 \<times> mt \<times> mt) res" where
  "reloadMT glob g =
     rbind (if mt_left g < - 1 then seedMT 4357 glob else Inr glob) (\<lambda>glob.
     let g = g\<lparr>mt_left := int MT_N - 1, mt_next := 1\<rparr>; st = mt_state g
     in rbind (get_at st 0) (\<lambda>s0.
        rbind (get_at st 1) (\<lambda>s1.
        rbind (reload_loop (MT_N - MT_M) 0 MT_M 2 s0 s1 st) (\<lambda>(p0, pM, p2, s0, s1, st).
        rbind (reload_loop (MT_M - 1) p0 0 p2 s0 s1 st) (\<lambda>(p0, pM, p2, s0, s1, st).
        rbind (get_at st 0) (\<lambda>s1.
        rbind (get_at st pM) (\<lambda>m.
        rbind (put_at st p0 (m XOR twist s0 s1)) (\<lambda>st.
          Inr (temper s1, glob, g\<lparr>mt_state := st\<rparr>)))))))))"

definition randomMT :: "mt \<Rightarrow> mt \<Rightarrow> (u32 \<times> mt \<times> mt) res" where
  "randomMT glob g =
     (let g = g\<lparr>mt_left := mt_left g - 1\<rparr>
      in if mt_left g < 0 then reloadMT glob g
         else rbind (get_at (mt_state g) (mt_next g)) (\<lambda>y.
                Inr (temper y, glob, g\<lparr>mt_next := mt_next g + 1\<rparr>)))"

text \<open>\<^verbatim>\<open>fillBufferMT\<close>: whole words first, then a last word of which the rest of the bytes is taken.\<close>

fun fill_loop :: "bool \<Rightarrow> nat \<Rightarrow> nat \<Rightarrow> mt \<Rightarrow> mt \<Rightarrow> (u8 list \<times> nat \<times> mt \<times> mt) res" where
  "fill_loop be 0 rest glob g = Inr ([], rest, glob, g)"
| "fill_loop be (Suc fuel) rest glob g =
     (if rest \<ge> 4 then
        rbind (randomMT glob g) (\<lambda>(r, glob, g).
        rbind (fill_loop be fuel (rest - 4) glob g) (\<lambda>(bs, rest, glob, g).
          Inr (mem_bytes be r @ bs, rest, glob, g)))
      else Inr ([], rest, glob, g))"

definition fillBufferMT :: "bool \<Rightarrow> nat \<Rightarrow> mt \<Rightarrow> mt \<Rightarrow> (u8 list \<times> mt \<times> mt) res" where
  "fillBufferMT be bytes glob g =
     rbind (fill_loop be (Suc bytes) bytes glob g) (\<lambda>(bs, rest, glob, g).
     rbind (randomMT glob g) (\<lambda>(r, glob, g).
       Inr (bs @ take rest (mem_bytes be r), glob, g)))"

text \<open>The members of \<^verbatim>\<open>RandomSeedCreator\<close>; \<open>raw\<close> is the uninitialised object.\<close>

definition creator_new :: "mt \<Rightarrow> mt" where
  "creator_new raw = raw\<lparr>mt_left := - 1\<rparr>"

definition SeedMT :: "u32 \<Rightarrow> mt \<Rightarrow> mt res" where
  "SeedMT seed g = seedMT seed g"

definition ReloadMT :: "mt \<Rightarrow> mt \<Rightarrow> (u32 \<times> mt \<times> mt) res" where
  "ReloadMT glob g = reloadMT glob g"

definition RandomMT :: "mt \<Rightarrow> mt \<Rightarrow> (u32 \<times> mt \<times> mt) res" where
  "RandomMT glob g = randomMT glob g"

definition FillBufferMT :: "bool \<Rightarrow> nat \<Rightarrow> mt \<Rightarrow> mt \<Rightarrow> (u8 list \<times> mt \<times> mt) res" where
  "FillBufferMT be bytes glob g = fillBufferMT be bytes glob g"

text \<open>The first \<open>n\<close> numbers a generator gives.\<close>

fun randoms :: "nat \<Rightarrow> mt \<Rightarrow> mt \<Rightarrow> (u32 list \<times> mt \<times> mt) res" where
  "randoms 0 glob g = Inr ([], glob, g)"
| "randoms (Suc n) glob g =
     rbind (RandomMT glob g) (\<lambda>(r, glob, g).
     rbind (randoms n glob g) (\<lambda>(rs, glob, g). Inr (r # rs, glob, g)))"

section \<open>The reference recurrence\<close>

fun mt_ref :: "u32 list \<Rightarrow> nat \<Rightarrow> u32" where
  "mt_ref st n =
     (if n < 624 then st ! n
      else mt_ref st (n - 227) XOR twist (mt_ref st (n - 624)) (mt_ref st (n - 623)))"

declare mt_ref.simps [simp del]

lemma mt_ref_init: "n < 624 \<Longrightarrow> mt_ref st n = st ! n"
  by (simp add: mt_ref.simps)

lemma mt_ref_step: "mt_ref st (n + 624) = mt_ref st (n + 397) XOR twist (mt_ref st n) (mt_ref st (Suc n))"
  by (subst mt_ref.simps) (simp add: add.commute [of 397])

text \<open>
  The array in the middle of a reload that began when it held the numbers from \<open>b\<close> on: the first
  \<open>k\<close> places hold the next generation.
\<close>

definition reloading :: "(nat \<Rightarrow> u32) \<Rightarrow> nat \<Rightarrow> nat \<Rightarrow> u32 list \<Rightarrow> bool" where
  "reloading x b k st \<longleftrightarrow> length st = 625 \<and> (\<forall>i < 624. st ! i = (if i < k then x (b + 624 + i) else x (b + i)))"

definition recurrence :: "(nat \<Rightarrow> u32) \<Rightarrow> bool" where
  "recurrence x \<longleftrightarrow> (\<forall>n. x (n + 624) = x (n + 397) XOR twist (x n) (x (Suc n)))"

lemma reload_loop_ok:
  assumes x: "recurrence x"
  shows "reloading x b k st \<Longrightarrow> k + j < 624 \<Longrightarrow> s0 = x (b + k) \<Longrightarrow> s1 = x (b + Suc k) \<Longrightarrow>
    (k + j \<le> 227 \<and> pM = k + 397) \<or> (227 \<le> k \<and> pM + 227 = k) \<Longrightarrow>
    \<exists>s1' st'. reload_loop j k pM (k + 2) s0 s1 st = Inr (k + j, pM + j, k + 2 + j, x (b + k + j), s1', st')
      \<and> reloading x b (k + j) st' \<and> (k + j < 623 \<longrightarrow> s1' = x (b + Suc (k + j)))"
proof (induction j arbitrary: k pM s0 s1 st)
  case (Suc j)
  note r = Suc.prems(1)
  have len: "length st = 625" using r by (simp add: reloading_def)
  have k: "k < 623" using Suc.prems(2) by simp
  have m: "get_at st pM = Inr (x (b + k + 397))"
  proof -
    have "pM < 624 \<and> (if pM < k then b + 624 + pM else b + pM) = b + k + 397"
      using Suc.prems(2,5) by auto
    then show ?thesis using r len by (auto simp: reloading_def ac_simps)
  qed
  have new: "x (b + k + 397) XOR twist s0 s1 = x (b + 624 + k)"
    using x Suc.prems(3,4) unfolding recurrence_def by (metis add.commute add.left_commute add_Suc_right)
  define st1 where "st1 = st[k := x (b + 624 + k)]"
  have r1: "reloading x b (Suc k) st1"
    using r k by (auto simp: reloading_def st1_def nth_list_update less_Suc_eq)
  have v: "get_at st1 (k + 2) = Inr (st1 ! (k + 2))" "k + 2 < 624 \<Longrightarrow> st1 ! (k + 2) = x (b + Suc (Suc k))"
    using r1 k by (auto simp: reloading_def)
  show ?case
  proof (cases "j = 0")
    case True
    then have "reload_loop (Suc j) k pM (k + 2) s0 s1 st = Inr (Suc k, Suc pM, k + 3, s1, st1 ! (k + 2), st1)"
      using m new v(1) len k by (simp add: st1_def)
    then show ?thesis using True r1 Suc.prems(4) v(2) by auto
  next
    case False
    then have "k + 2 < 624" using Suc.prems(2) by simp
    then have s1': "st1 ! (k + 2) = x (b + Suc (Suc k))" using v(2) by simp
    have "\<exists>s1' st'. reload_loop j (Suc k) (Suc pM) (Suc k + 2) s1 (st1 ! (k + 2)) st1
        = Inr (Suc k + j, Suc pM + j, Suc k + 2 + j, x (b + Suc k + j), s1', st')
      \<and> reloading x b (Suc k + j) st' \<and> (Suc k + j < 623 \<longrightarrow> s1' = x (b + Suc (Suc k + j)))"
      by (rule Suc.IH) (use r1 Suc.prems s1' in auto)
    then show ?thesis using m new v(1) len k by (auto simp: st1_def)
  qed
qed simp

lemma reloadMT_ok:
  assumes x: "recurrence x" and r: "reloading x b 0 (mt_state m)" and left: "mt_left m = -1"
  shows "\<exists>st'. reloadMT glob m = Inr (temper (x (b + 624)), glob,
      m\<lparr>mt_left := 623, mt_next := 1, mt_state := st'\<rparr>) \<and> reloading x (b + 624) 0 st'"
proof -
  let ?st = "mt_state m"
  have init: "length ?st = 625" "?st ! 0 = x b" "?st ! Suc 0 = x (Suc b)"
    using r by (auto simp: reloading_def)
  obtain s1 st1 where l1: "reload_loop 227 0 397 2 (x b) (x (Suc b)) ?st
      = Inr (227, 624, 229, x (b + 227), s1, st1)"
    and r1: "reloading x b 227 st1" and s1: "s1 = x (b + 228)"
    using reload_loop_ok [OF x, of b 0 ?st 227 "x b" "x (Suc b)" 397] r by (auto simp: numeral_2_eq_2)
  obtain s2 st2 where l2: "reload_loop 396 227 0 229 (x (b + 227)) s1 st1
      = Inr (623, 396, 625, x (b + 623), s2, st2)"
    and r2: "reloading x b 623 st2"
    using reload_loop_ok [OF x, of b 227 st1 396 "x (b + 227)" s1 0] r1 s1 by (auto simp: add.commute [of _ b])
  have e: "length st2 = 625" "st2 ! 0 = x (b + 624)" "st2 ! 396 = x (b + 1020)"
    using r2 by (auto simp: reloading_def add.commute [of _ b])
  define st3 where "st3 = st2[623 := x (b + 1247)]"
  have new: "x (b + 1020) XOR twist (x (b + 623)) (x (b + 624)) = x (b + 1247)"
    using x [unfolded recurrence_def, rule_format, of "b + 623"] by (simp add: add.commute [of _ b])
  have "reloading x (b + 624) 0 st3"
    using r2 by (auto simp: reloading_def st3_def nth_list_update add.commute [of _ b])
  moreover have "reloadMT glob m = Inr (temper (x (b + 624)), glob,
      m\<lparr>mt_left := 623, mt_next := 1, mt_state := st3\<rparr>)"
    using l1 l2 init e new left by (simp add: reloadMT_def MT_N_def MT_M_def Let_def st3_def)
  ultimately show ?thesis by blast
qed

text \<open>\<open>n\<close> numbers of the sequence \<open>x\<close> have been taken before the next one.\<close>

definition taken :: "(nat \<Rightarrow> u32) \<Rightarrow> nat \<Rightarrow> mt \<Rightarrow> bool" where
  "taken x n m \<longleftrightarrow> (\<exists>b c. n = b + c \<and> c \<le> 624 \<and> reloading x b 0 (mt_state m) \<and>
     mt_left m = 624 - int c \<and> (c < 624 \<longrightarrow> mt_next m = c))"

lemma RandomMT_ok:
  assumes x: "recurrence x" and t: "taken x n m"
  shows "\<exists>m'. RandomMT glob m = Inr (temper (x n), glob, m') \<and> taken x (Suc n) m'"
proof -
  obtain b c where bc: "n = b + c" "c \<le> 624" and r: "reloading x b 0 (mt_state m)"
    and left: "mt_left m = 624 - int c" and nxt: "c < 624 \<longrightarrow> mt_next m = c"
    using t by (auto simp: taken_def)
  show ?thesis
  proof (cases "c < 624")
    case True
    then have "RandomMT glob m = Inr (temper (x n), glob, m\<lparr>mt_left := 624 - int (Suc c), mt_next := Suc c\<rparr>)"
      using r bc left nxt by (auto simp: RandomMT_def randomMT_def Let_def reloading_def)
    moreover have "taken x (Suc n) (m\<lparr>mt_left := 624 - int (Suc c), mt_next := Suc c\<rparr>)"
      unfolding taken_def by (rule exI [of _ b], rule exI [of _ "Suc c"]) (use True r bc in auto)
    ultimately show ?thesis by blast
  next
    case False
    then have n: "n = b + 624" "c = 624" using bc by auto
    obtain st' where e: "reloadMT glob (m\<lparr>mt_left := -1\<rparr>) = Inr (temper (x (b + 624)), glob,
        (m\<lparr>mt_left := -1\<rparr>)\<lparr>mt_left := 623, mt_next := 1, mt_state := st'\<rparr>)"
      and r': "reloading x (b + 624) 0 st'"
      using reloadMT_ok [OF x, of b "m\<lparr>mt_left := -1\<rparr>" glob] r by auto
    have "taken x (Suc n) ((m\<lparr>mt_left := -1\<rparr>)\<lparr>mt_left := 623, mt_next := 1, mt_state := st'\<rparr>)"
      unfolding taken_def by (rule exI [of _ "b + 624"], rule exI [of _ 1]) (use r' n in auto)
    then show ?thesis using e n left by (simp add: RandomMT_def randomMT_def Let_def)
  qed
qed

lemma randoms_ok:
  assumes x: "recurrence x"
  shows "taken x n m \<Longrightarrow> \<exists>m'. randoms k glob m = Inr (map (\<lambda>i. temper (x i)) [n..<n + k], glob, m')
    \<and> taken x (n + k) m'"
proof (induction k arbitrary: n m)
  case (Suc k)
  obtain m1 where m1: "RandomMT glob m = Inr (temper (x n), glob, m1)" "taken x (Suc n) m1"
    using RandomMT_ok [OF x Suc.prems] by blast
  obtain m2 where m2: "randoms k glob m1 = Inr (map (\<lambda>i. temper (x i)) [Suc n..<Suc n + k], glob, m2)"
      "taken x (Suc n + k) m2"
    using Suc.IH [OF m1(2)] by blast
  have up: "[n..<n + Suc k] = n # [Suc n..<Suc n + k]" by (simp add: upt_conv_Cons)
  show ?case using m1(1) m2 by (simp only: up) (simp del: upt_Suc)
qed simp

lemma recurrence_mt_ref: "recurrence (mt_ref st)"
  by (simp add: recurrence_def mt_ref_step)

text \<open>The numbers the seeding writes.\<close>

definition seed_at :: "u32 \<Rightarrow> nat \<Rightarrow> u32" where
  "seed_at seed i = 69069 ^ i * (seed OR 1)"

lemma and_all_ones: "(x :: u32) AND 0xFFFFFFFF = x"
proof -
  have "(0xFFFFFFFF :: u32) = - 1" by simp
  then show ?thesis by (simp only: and.right_neutral)
qed

lemma seed_loop_ok:
  "length st = 625 \<Longrightarrow> s + j \<le> 625 \<Longrightarrow> \<exists>st'. seed_loop j s x st = Inr st' \<and> length st' = 625 \<and>
     (\<forall>i < 625. st' ! i = (if s \<le> i \<and> i < s + j then 69069 ^ (i + 1 - s) * x else st ! i))"
proof (induction j arbitrary: s x st)
  case (Suc j)
  have a: "x * 69069 AND 0xFFFFFFFF = x * 69069"
    by (rule and_all_ones)
  obtain st' where st': "seed_loop j (Suc s) (x * 69069) (st[s := x * 69069]) = Inr st'" "length st' = 625"
    "\<forall>i < 625. st' ! i = (if Suc s \<le> i \<and> i < Suc s + j then 69069 ^ (i + 1 - Suc s) * (x * 69069)
       else st[s := x * 69069] ! i)"
    using Suc.IH [of "st[s := x * 69069]" "Suc s" "x * 69069"] Suc.prems by auto
  have "st' ! i = (if s \<le> i \<and> i < s + Suc j then 69069 ^ (i + 1 - s) * x else st ! i)" if "i < 625" for i
  proof -
    have "69069 ^ (i - s) * (x * 69069) = 69069 ^ (i + 1 - s) * x" if "s < i"
      using that by (simp add: Suc_diff_le)
    then show ?thesis using st'(3) that Suc.prems by (auto simp: nth_list_update)
  qed
  then show ?case using st' a Suc.prems by (auto simp: Let_def)
qed auto

lemma SeedMT_ok:
  assumes "length (mt_state m) = 625"
  shows "\<exists>st. SeedMT seed m = Inr (m\<lparr>mt_state := st, mt_left := 0\<rparr>) \<and> length st = 625 \<and>
    (\<forall>i < 624. st ! i = seed_at seed i)"
proof -
  have a: "(seed OR 1) AND 0xFFFFFFFF = seed OR 1"
    by (rule and_all_ones)
  obtain st where "seed_loop 623 1 (seed OR 1) ((mt_state m)[0 := seed OR 1]) = Inr st" "length st = 625"
    "\<forall>i < 625. st ! i = (if 1 \<le> i \<and> i < 1 + 623 then 69069 ^ (i + 1 - 1) * (seed OR 1)
        else (mt_state m)[0 := seed OR 1] ! i)"
    using seed_loop_ok [of "(mt_state m)[0 := seed OR 1]" 1 623 "seed OR 1"] assms by auto
  then show ?thesis using a assms
    by (auto simp: SeedMT_def seedMT_def MT_N_def Let_def seed_at_def not_less_eq_eq intro!: exI [of _ st])
qed

lemma taken_SeedMT:
  assumes "length (mt_state m) = 625" and "SeedMT seed m = Inr m'"
  shows "taken (mt_ref (map (seed_at seed) [0..<624])) 624 m'"
proof -
  obtain st where st: "m' = m\<lparr>mt_state := st, mt_left := 0\<rparr>" "length st = 625" "\<forall>i < 624. st ! i = seed_at seed i"
    using SeedMT_ok [OF assms(1), of seed] assms(2) by auto
  show ?thesis unfolding taken_def
    by (rule exI [of _ 0], rule exI [of _ 624]) (use st in \<open>auto simp: reloading_def mt_ref_init\<close>)
qed

end
