(* ===== verification/Mem_Copy.thy ===== *)
theory Mem_Copy
  imports Geco_Prelude
begin

text \<open>
  \<^verbatim>\<open>SuperFastMemCpy\<close> of \<^verbatim>\<open>src/geco-globals.cpp\<close>: the switch over the sizes up to 128 as the table of its
  cases, run with the falling through of C, and the copying in blocks of eight registers. The two
  buffers are lists of bytes with the addresses of their starts, which decide about the aligned
  loads and stores. At the end stands that it copies what \<^verbatim>\<open>memcpy\<close> copies.
\<close>

section \<open>Registers\<close>

definition aligned :: "bool \<Rightarrow> nat \<Rightarrow> unit res" where
  "aligned al address = (if al \<and> address mod 16 \<noteq> 0 then Inl Misaligned else Inr ())"

definition load_reg :: "bool \<Rightarrow> nat \<Rightarrow> u8 list \<Rightarrow> nat \<Rightarrow> u8 list res" where
  "load_reg al base src s = rbind (aligned al (base + s)) (\<lambda>_.
     if s + 16 \<le> length src then Inr (take 16 (drop s src)) else Inl OutOfBounds)"

definition store_reg :: "bool \<Rightarrow> nat \<Rightarrow> u8 list \<Rightarrow> nat \<Rightarrow> u8 list \<Rightarrow> u8 list res" where
  "store_reg al base dst d r = rbind (aligned al (base + d)) (\<lambda>_. copy_into dst d r 16)"

text \<open>\<open>k\<close> registers loaded one after the other, and stored likewise.\<close>

fun load_regs :: "bool \<Rightarrow> nat \<Rightarrow> u8 list \<Rightarrow> nat \<Rightarrow> nat \<Rightarrow> u8 list list res" where
  "load_regs al base src s 0 = Inr []"
| "load_regs al base src s (Suc k) =
     rbind (load_reg al base src s) (\<lambda>r. rbind (load_regs al base src (s + 16) k) (\<lambda>rs. Inr (r # rs)))"

fun store_regs :: "bool \<Rightarrow> nat \<Rightarrow> u8 list \<Rightarrow> nat \<Rightarrow> u8 list list \<Rightarrow> u8 list res" where
  "store_regs al base dst d [] = Inr dst"
| "store_regs al base dst d (r # rs) =
     rbind (store_reg al base dst d r) (\<lambda>dst. store_regs al base dst (d + 16) rs)"

section \<open>Small sizes\<close>

text \<open>\<^verbatim>\<open>memcpy_sse2_16\<close>, \<^verbatim>\<open>_32\<close>, \<^verbatim>\<open>_64\<close> and \<^verbatim>\<open>_128\<close>, with \<open>k\<close> registers.\<close>

definition memcpy_sse2 :: "nat \<Rightarrow> u8 list \<Rightarrow> nat \<Rightarrow> u8 list \<Rightarrow> nat \<Rightarrow> u8 list res" where
  "memcpy_sse2 k dst d src s = rbind (load_regs False 0 src s k) (store_regs False 0 dst d)"

text \<open>The assignment through a pointer to an integer of \<open>n\<close> bytes.\<close>

definition assign_bytes :: "nat \<Rightarrow> u8 list \<Rightarrow> nat \<Rightarrow> u8 list \<Rightarrow> nat \<Rightarrow> u8 list res" where
  "assign_bytes n dst d src s = copy_into dst d (drop s src) n"

text \<open>
  A case of the switch: its label, its statements and whether it ends with \<^verbatim>\<open>break\<close>. A statement
  \<open>(k, n)\<close> copies \<open>n\<close> bytes from \<^verbatim>\<open>ss - k\<close> to \<^verbatim>\<open>dd - k\<close>.
\<close>

type_synonym switch_case = "nat \<times> (nat \<times> nat) list \<times> bool"

definition tiny_cases_0 :: "switch_case list" where
  "tiny_cases_0 =
    [(64, [(64, 64)], False), (0, [], True),
     (65, [(65, 64)], False), (1, [(1, 1)], True),
     (66, [(66, 64)], False), (2, [(2, 2)], True),
     (67, [(67, 64)], False), (3, [(3, 2), (1, 1)], True),
     (68, [(68, 64)], False), (4, [(4, 4)], True),
     (69, [(69, 64)], False), (5, [(5, 4), (1, 1)], True),
     (70, [(70, 64)], False), (6, [(6, 4), (2, 2)], True),
     (71, [(71, 64)], False), (7, [(7, 4), (4, 4)], True),
     (72, [(72, 64)], False), (8, [(8, 8)], True),
     (73, [(73, 64)], False), (9, [(9, 8), (1, 1)], True),
     (74, [(74, 64)], False), (10, [(10, 8), (2, 2)], True),
     (75, [(75, 64)], False), (11, [(11, 8), (4, 4)], True),
     (76, [(76, 64)], False), (12, [(12, 8), (4, 4)], True),
     (77, [(77, 64)], False), (13, [(13, 8), (5, 4), (1, 1)], True),
     (78, [(78, 64)], False), (14, [(14, 8), (8, 8)], True),
     (79, [(79, 64)], False), (15, [(15, 8), (8, 8)], True)]"

definition tiny_cases_16 :: "switch_case list" where
  "tiny_cases_16 =
    [(80, [(80, 64)], False), (16, [(16, 16)], True),
     (81, [(81, 64)], False), (17, [(17, 16), (1, 1)], True),
     (82, [(82, 64)], False), (18, [(18, 16), (2, 2)], True),
     (83, [(83, 64)], False), (19, [(19, 16), (3, 2), (1, 1)], True),
     (84, [(84, 64)], False), (20, [(20, 16), (4, 4)], True),
     (85, [(85, 64)], False), (21, [(21, 16), (5, 4), (1, 1)], True),
     (86, [(86, 64)], False), (22, [(22, 16), (6, 4), (2, 2)], True),
     (87, [(87, 64)], False), (23, [(23, 16), (7, 4), (4, 4)], True),
     (88, [(88, 64)], False), (24, [(24, 16), (16, 16)], True),
     (89, [(89, 64)], False), (25, [(25, 16), (16, 16)], True),
     (90, [(90, 64)], False), (26, [(26, 16), (16, 16)], True),
     (91, [(91, 64)], False), (27, [(27, 16), (16, 16)], True),
     (92, [(92, 64)], False), (28, [(28, 16), (16, 16)], True),
     (93, [(93, 64)], False), (29, [(29, 16), (16, 16)], True),
     (94, [(94, 64)], False), (30, [(30, 16), (16, 16)], True),
     (95, [(95, 64)], False), (31, [(31, 16), (16, 16)], True)]"

definition tiny_cases_32 :: "switch_case list" where
  "tiny_cases_32 =
    [(96, [(96, 64)], False), (32, [(32, 32)], True),
     (97, [(97, 64)], False), (33, [(33, 32), (1, 1)], True),
     (98, [(98, 64)], False), (34, [(34, 32), (2, 2)], True),
     (99, [(99, 64)], False), (35, [(35, 32), (3, 2), (1, 1)], True),
     (100, [(100, 64)], False), (36, [(36, 32), (4, 4)], True),
     (101, [(101, 64)], False), (37, [(37, 32), (5, 4), (1, 1)], True),
     (102, [(102, 64)], False), (38, [(38, 32), (6, 4), (2, 2)], True),
     (103, [(103, 64)], False), (39, [(39, 32), (7, 4), (4, 4)], True),
     (104, [(104, 64)], False), (40, [(40, 32), (8, 8)], True),
     (105, [(105, 64)], False), (41, [(41, 32), (9, 8), (1, 1)], True),
     (106, [(106, 64)], False), (42, [(42, 32), (10, 8), (2, 2)], True),
     (107, [(107, 64)], False), (43, [(43, 32), (11, 8), (4, 4)], True),
     (108, [(108, 64)], False), (44, [(44, 32), (12, 8), (4, 4)], True),
     (109, [(109, 64)], False), (45, [(45, 32), (13, 8), (5, 4), (1, 1)], True),
     (110, [(110, 64)], False), (46, [(46, 32), (14, 8), (8, 8)], True),
     (111, [(111, 64)], False), (47, [(47, 32), (15, 8), (8, 8)], True)]"

definition tiny_cases_48 :: "switch_case list" where
  "tiny_cases_48 =
    [(112, [(112, 64)], False), (48, [(48, 32), (16, 16)], True),
     (113, [(113, 64)], False), (49, [(49, 32), (17, 16), (1, 1)], True),
     (114, [(114, 64)], False), (50, [(50, 32), (18, 16), (2, 2)], True),
     (115, [(115, 64)], False), (51, [(51, 32), (19, 16), (3, 2), (1, 1)], True),
     (116, [(116, 64)], False), (52, [(52, 32), (20, 16), (4, 4)], True),
     (117, [(117, 64)], False), (53, [(53, 32), (21, 16), (5, 4), (1, 1)], True),
     (118, [(118, 64)], False), (54, [(54, 32), (22, 16), (6, 4), (2, 2)], True),
     (119, [(119, 64)], False), (55, [(55, 32), (23, 16), (7, 4), (4, 4)], True),
     (120, [(120, 64)], False), (56, [(56, 32), (24, 16), (16, 16)], True),
     (121, [(121, 64)], False), (57, [(57, 32), (25, 16), (16, 16)], True),
     (122, [(122, 64)], False), (58, [(58, 32), (26, 16), (16, 16)], True),
     (123, [(123, 64)], False), (59, [(59, 32), (27, 16), (16, 16)], True),
     (124, [(124, 64)], False), (60, [(60, 32), (28, 16), (16, 16)], True),
     (125, [(125, 64)], False), (61, [(61, 32), (29, 16), (16, 16)], True),
     (126, [(126, 64)], False), (62, [(62, 32), (30, 16), (16, 16)], True),
     (127, [(127, 64)], False), (63, [(63, 32), (31, 16), (16, 16)], True),
     (128, [(128, 128)], True)]"

definition tiny_switch :: "switch_case list" where
  "tiny_switch = tiny_cases_0 @ tiny_cases_16 @ tiny_cases_32 @ tiny_cases_48"

text \<open>From a case on, the statements up to the next \<^verbatim>\<open>break\<close>; a size without a case has none.\<close>

fun until_break :: "switch_case list \<Rightarrow> (nat \<times> nat) list" where
  "until_break [] = []"
| "until_break ((label, statements, brk) # cs) =
     statements @ (if brk then [] else until_break cs)"

fun switch_on :: "nat \<Rightarrow> switch_case list \<Rightarrow> (nat \<times> nat) list" where
  "switch_on n [] = []"
| "switch_on n ((label, statements, brk) # cs) =
     (if label = n then until_break ((label, statements, brk) # cs) else switch_on n cs)"

fun run_statements :: "(nat \<times> nat) list \<Rightarrow> u8 list \<Rightarrow> nat \<Rightarrow> u8 list \<Rightarrow> nat \<Rightarrow> u8 list res" where
  "run_statements [] dst dd src ss = Inr dst"
| "run_statements ((k, n) # cs) dst dd src ss =
     rbind (if n < 16 then assign_bytes n dst (dd - k) src (ss - k)
            else memcpy_sse2 (n div 16) dst (dd - k) src (ss - k)) (\<lambda>dst.
       run_statements cs dst dd src ss)"

definition memcpy_tiny :: "u8 list \<Rightarrow> nat \<Rightarrow> u8 list \<Rightarrow> nat \<Rightarrow> nat \<Rightarrow> u8 list res" where
  "memcpy_tiny dst d src s n = run_statements (switch_on n tiny_switch) dst (d + n) src (s + n)"

section \<open>Large sizes\<close>

text \<open>The loop over blocks of 128 bytes; \<open>al\<close> says whether its loads are the aligned ones.\<close>

fun copy_blocks :: "bool \<Rightarrow> nat \<Rightarrow> nat \<Rightarrow> u8 list \<Rightarrow> nat \<Rightarrow> u8 list \<Rightarrow> nat \<Rightarrow> nat \<Rightarrow>
    (u8 list \<times> nat \<times> nat \<times> nat) res" where
  "copy_blocks al dbase sbase dst d src s n =
     (if n \<ge> 128 then
        rbind (load_regs al sbase src s 8) (\<lambda>rs.
        rbind (store_regs True dbase dst d rs) (\<lambda>dst.
          copy_blocks al dbase sbase dst (d + 128) src (s + 128) (n - 128)))
      else Inr (dst, d, s, n))"

definition SuperFastMemCpy :: "nat \<Rightarrow> nat \<Rightarrow> u8 list \<Rightarrow> nat \<Rightarrow> u8 list \<Rightarrow> nat \<Rightarrow> nat \<Rightarrow> u8 list res" where
  "SuperFastMemCpy dbase sbase dst d src s n =
     (if n \<le> 128 then memcpy_tiny dst d src s n
      else let padding = (16 - (dbase + d) mod 16) mod 16
      in rbind (if padding > 0 then
                  rbind (load_reg False sbase src s) (\<lambda>head.
                  rbind (store_reg False dbase dst d head) (\<lambda>dst.
                    Inr (dst, d + padding, s + padding, n - padding)))
                else Inr (dst, d, s, n)) (\<lambda>(dst, d, s, n).
         rbind (if n \<le> 0x200000 then copy_blocks False dbase sbase dst d src s n
                else if (sbase + s) mod 16 = 0 then copy_blocks True dbase sbase dst d src s n
                else copy_blocks False dbase sbase dst d src s n) (\<lambda>(dst, d, s, n).
           memcpy_tiny dst d src s n)))"

section \<open>What is copied\<close>

definition overwrite :: "'a list \<Rightarrow> nat \<Rightarrow> 'a list \<Rightarrow> 'a list" where
  "overwrite dst d bs = take d dst @ bs @ drop (d + length bs) dst"

lemma length_overwrite [simp]: "d + length bs \<le> length dst \<Longrightarrow> length (overwrite dst d bs) = length dst"
  by (simp add: overwrite_def)

lemma nth_overwrite: "d + length bs \<le> length dst \<Longrightarrow> i < length dst \<Longrightarrow>
  overwrite dst d bs ! i = (if d \<le> i \<and> i < d + length bs then bs ! (i - d) else dst ! i)"
  by (auto simp: overwrite_def nth_append min_def)

lemma overwrite_Nil [simp]: "overwrite dst d [] = dst"
  by (simp add: overwrite_def)

lemma overwrite_append:
  assumes "d + length as + length bs \<le> length dst"
  shows "overwrite (overwrite dst d as) (d + length as) bs = overwrite dst d (as @ bs)"
  by (rule nth_equalityI) (use assms in \<open>auto simp: nth_overwrite nth_append\<close>)

text \<open>A second piece of the same source that starts inside the first or just behind it.\<close>

lemma overwrite_take:
  assumes "b \<le> a" "a \<le> b + n" "b + n \<le> length x" "d + b + n \<le> length dst"
  shows "overwrite (overwrite dst d (take a x)) (d + b) (take n (drop b x)) = overwrite dst d (take (b + n) x)"
  by (rule nth_equalityI) (use assms in \<open>auto simp: nth_overwrite\<close>)

lemma copy_into_overwrite:
  "n \<le> length src \<Longrightarrow> i + n \<le> length dst \<Longrightarrow> copy_into dst i src n = Inr (overwrite dst i (take n src))"
  by (simp add: copy_into_ok overwrite_def min_def)

lemma load_regs_ok:
  "s + 16 * k \<le> length src \<Longrightarrow> (al \<longrightarrow> (base + s) mod 16 = 0) \<Longrightarrow>
   \<exists>rs. load_regs al base src s k = Inr rs \<and> concat rs = take (16 * k) (drop s src)
     \<and> length rs = k \<and> (\<forall>r \<in> set rs. length r = 16)"
proof (induction k arbitrary: s)
  case (Suc k)
  have "al \<longrightarrow> (base + (s + 16)) mod 16 = 0"
    using Suc.prems(2) by (simp flip: add.assoc)
  then obtain rs where "load_regs al base src (s + 16) k = Inr rs" "length rs = k"
      "concat rs = take (16 * k) (drop (s + 16) src)" "\<forall>r \<in> set rs. length r = 16"
    using Suc.IH [of "s + 16"] Suc.prems(1) by auto
  moreover have "take 16 (drop s src) @ take (16 * k) (drop (s + 16) src) = take (16 * Suc k) (drop s src)"
    by (simp add: take_add add.commute [of s])
  ultimately show ?case
    using Suc.prems by (auto simp: load_reg_def aligned_def)
qed simp

lemma store_regs_ok:
  "d + 16 * length rs \<le> length dst \<Longrightarrow> \<forall>r \<in> set rs. length r = 16 \<Longrightarrow> (al \<longrightarrow> (base + d) mod 16 = 0) \<Longrightarrow>
   store_regs al base dst d rs = Inr (overwrite dst d (concat rs))"
proof (induction rs arbitrary: d dst)
  case (Cons r rs)
  have len: "length (concat rs) = 16 * length rs"
    using Cons.prems(2) by (induction rs) auto
  have "al \<longrightarrow> (base + (d + 16)) mod 16 = 0"
    using Cons.prems(3) by (simp flip: add.assoc)
  then have "store_regs al base (overwrite dst d r) (d + 16) rs
      = Inr (overwrite (overwrite dst d r) (d + 16) (concat rs))"
    using Cons.prems by (intro Cons.IH) auto
  moreover have "overwrite (overwrite dst d r) (d + 16) (concat rs) = overwrite dst d (r @ concat rs)"
    using overwrite_append [of d r "concat rs" dst] Cons.prems(1,2) len by simp
  ultimately show ?case
    using Cons.prems by (simp add: store_reg_def aligned_def copy_into_overwrite)
qed simp

lemma regs_ok:
  assumes "s + 16 * k \<le> length src" "d + 16 * k \<le> length dst"
    "al \<longrightarrow> (sbase + s) mod 16 = 0" "al' \<longrightarrow> (dbase + d) mod 16 = 0"
  shows "\<exists>rs. load_regs al sbase src s k = Inr rs
    \<and> store_regs al' dbase dst d rs = Inr (overwrite dst d (take (16 * k) (drop s src)))"
proof -
  obtain rs where rs: "load_regs al sbase src s k = Inr rs" "concat rs = take (16 * k) (drop s src)"
      "length rs = k" "\<forall>r \<in> set rs. length r = 16"
    using load_regs_ok [OF assms(1,3)] by blast
  then show ?thesis using store_regs_ok [of d rs dst al' dbase] assms by auto
qed

lemma memcpy_sse2_ok:
  assumes "s + 16 * k \<le> length src" "d + 16 * k \<le> length dst"
  shows "memcpy_sse2 k dst d src s = Inr (overwrite dst d (take (16 * k) (drop s src)))"
  using regs_ok [OF assms, of False 0 False 0] by (auto simp: memcpy_sse2_def)

text \<open>
  The statements of a case go through the bytes from the front without a gap: \<open>r\<close> bytes are left,
  and the next statement starts there or before.
\<close>

fun gapless :: "nat \<Rightarrow> nat \<Rightarrow> (nat \<times> nat) list \<Rightarrow> bool" where
  "gapless whole r [] \<longleftrightarrow> r = 0"
| "gapless whole r ((k, n) # cs) \<longleftrightarrow> r \<le> k \<and> k \<le> whole \<and> n \<le> k \<and> k - n \<le> r \<and>
     (n < 16 \<or> n = 16 * (n div 16)) \<and> gapless whole (k - n) cs"

lemma run_statements_ok:
  assumes "gapless whole r cs" and "r \<le> whole"
    and "s + whole \<le> length src" and "d + whole \<le> length dst"
  shows "run_statements cs (overwrite dst d (take (whole - r) (drop s src))) (d + whole) src (s + whole)
    = Inr (overwrite dst d (take whole (drop s src)))"
  using assms(1,2)
proof (induction cs arbitrary: r)
  case (Cons c cs)
  obtain k n where c: "c = (k, n)" by (cases c)
  have g: "r \<le> k" "k \<le> whole" "n \<le> k" "k - n \<le> r" "n < 16 \<or> n = 16 * (n div 16)" "gapless whole (k - n) cs"
    using Cons.prems(1) c by simp_all
  let ?x = "drop s src"
  let ?dst = "overwrite dst d (take (whole - r) ?x)"
  have pos: "d + whole - k = d + (whole - k)" "s + whole - k = s + (whole - k)" using g by auto
  have "(if n < 16 then assign_bytes n ?dst (d + whole - k) src (s + whole - k)
         else memcpy_sse2 (n div 16) ?dst (d + whole - k) src (s + whole - k))
     = Inr (overwrite ?dst (d + (whole - k)) (take n (drop (whole - k) ?x)))"
  proof (cases "n < 16")
    case True
    then show ?thesis using g assms(3,4) unfolding pos
      by (simp add: assign_bytes_def copy_into_overwrite add.commute [of s])
  next
    case False
    then have n: "16 * (n div 16) = n" using g(5) by simp
    have "memcpy_sse2 (n div 16) ?dst (d + (whole - k)) src (s + (whole - k))
        = Inr (overwrite ?dst (d + (whole - k)) (take (16 * (n div 16)) (drop (s + (whole - k)) src)))"
      by (rule memcpy_sse2_ok) (use g assms(3,4) n in simp_all)
    then show ?thesis using False unfolding pos n by (simp add: add.commute [of s])
  qed
  also have "overwrite ?dst (d + (whole - k)) (take n (drop (whole - k) ?x))
     = overwrite dst d (take (whole - k + n) ?x)"
    using g assms(3,4) by (intro overwrite_take) auto
  also have "whole - k + n = whole - (k - n)" using g by simp
  finally show ?case using Cons.IH [of "k - n"] g by (simp add: c)
qed simp

fun cases_ok :: "switch_case list \<Rightarrow> bool" where
  "cases_ok [] \<longleftrightarrow> True"
| "cases_ok (c # cs) \<longleftrightarrow> gapless (fst c) (fst c) (until_break (c # cs)) \<and> cases_ok cs"

lemma switch_on_ok: "cases_ok cs \<Longrightarrow> n \<in> set (map fst cs) \<Longrightarrow> gapless n n (switch_on n cs)"
  by (induction cs) (auto simp del: set_map)

lemma until_break_append:
  "cs \<noteq> [] \<Longrightarrow> snd (snd (last cs)) \<Longrightarrow> until_break (cs @ ds) = until_break cs"
  by (induction cs rule: until_break.induct) (auto split: if_splits)

lemma cases_ok_append:
  "snd (snd (last as)) \<Longrightarrow> cases_ok as \<Longrightarrow> cases_ok bs \<Longrightarrow> cases_ok (as @ bs)"
proof (induction as)
  case (Cons a as)
  show ?case
    using Cons until_break_append [of "a # as" bs] by (cases "as = []") auto
qed simp

lemma tiny_cases_ok: "cases_ok tiny_cases_0" "cases_ok tiny_cases_16" "cases_ok tiny_cases_32"
    "cases_ok tiny_cases_48"
  by (simp add: tiny_cases_0_def, simp add: tiny_cases_16_def, simp add: tiny_cases_32_def,
      simp add: tiny_cases_48_def)

lemma tiny_cases_last: "snd (snd (last tiny_cases_0))" "snd (snd (last tiny_cases_16))"
    "snd (snd (last tiny_cases_32))"
  by (simp add: tiny_cases_0_def, simp add: tiny_cases_16_def, simp add: tiny_cases_32_def)

lemma tiny_switch_ok: "cases_ok tiny_switch"
  unfolding tiny_switch_def by (intro cases_ok_append tiny_cases_ok tiny_cases_last)

definition labels :: "nat \<Rightarrow> nat \<Rightarrow> nat list" where
  "labels i j = concat (map (\<lambda>k. [64 + k, k]) [i..<j])"

lemma labels_append: "i \<le> j \<Longrightarrow> j \<le> k \<Longrightarrow> labels i j @ labels j k = labels i k"
  using upt_add_eq_append [of i j "k - j"] by (simp add: labels_def)

lemma tiny_labels: "map fst tiny_cases_0 = labels 0 16" "map fst tiny_cases_16 = labels 16 32"
    "map fst tiny_cases_32 = labels 32 48" "map fst tiny_cases_48 = labels 48 64 @ [128]"
  by (simp add: tiny_cases_0_def labels_def upt_conv_Cons, simp add: tiny_cases_16_def labels_def,
      simp add: tiny_cases_32_def labels_def, simp add: tiny_cases_48_def labels_def)

lemma tiny_switch_labels: "n \<le> 128 \<Longrightarrow> n \<in> set (map fst tiny_switch)"
proof -
  assume n: "n \<le> 128"
  have "labels 0 16 @ labels 16 32 @ labels 32 48 @ labels 48 64 = labels 0 64"
    by (simp add: labels_append)
  then have "set (map fst tiny_switch) = set (labels 0 64 @ [128])"
    unfolding tiny_switch_def map_append tiny_labels by (metis append.assoc)
  moreover have "n \<in> set (labels 0 64 @ [128])"
  proof -
    consider "n < 64" | "64 \<le> n" "n - 64 < 64" "n = 64 + (n - 64)" | "n = 128" using n by linarith
    then show ?thesis by cases (auto simp: labels_def intro: bexI [of _ "n - 64"])
  qed
  ultimately show ?thesis by (simp only:)
qed

lemma memcpy_tiny_ok:
  assumes "n \<le> 128" "s + n \<le> length src" "d + n \<le> length dst"
  shows "memcpy_tiny dst d src s n = Inr (overwrite dst d (take n (drop s src)))"
proof -
  have "gapless n n (switch_on n tiny_switch)"
    using tiny_switch_ok tiny_switch_labels [OF assms(1)] by (rule switch_on_ok)
  from run_statements_ok [OF this _ assms(2,3)] show ?thesis by (simp add: memcpy_tiny_def)
qed

declare copy_blocks.simps [simp del]

lemma add128_aligned: "(b + (s + (a + 128))) mod 16 = (b + (s + a)) mod (16 :: nat)"
proof -
  have "b + (s + (a + 128)) = (b + (s + a)) + 16 * 8" by simp
  then show ?thesis by (simp only: mod_mult_self2)
qed

lemma copy_blocks_ok:
  assumes "s + whole \<le> length src" "d + whole \<le> length dst"
    and "w \<le> a + 128" "a \<le> w" "w \<le> whole" "a + n = whole"
    and "(dbase + (d + a)) mod 16 = 0" "al \<longrightarrow> (sbase + (s + a)) mod 16 = 0"
  shows "\<exists>a' w'. copy_blocks al dbase sbase (overwrite dst d (take w (drop s src))) (d + a) src (s + a) n
      = Inr (overwrite dst d (take w' (drop s src)), d + a', s + a', whole - a')
      \<and> a' \<le> w' \<and> w' \<le> whole \<and> whole - a' < 128"
  using assms(3-)
proof (induction n arbitrary: a w rule: less_induct)
  case (less n)
  let ?x = "drop s src"
  show ?case
  proof (cases "n \<ge> 128")
    case False
    then show ?thesis using less.prems by (auto simp: copy_blocks.simps)
  next
    case True
    have len: "length (overwrite dst d (take w ?x)) = length dst"
      using less.prems(3) assms(1,2) by simp
    have "s + a + 16 * 8 \<le> length src" "d + a + 16 * 8 \<le> length (overwrite dst d (take w ?x))"
      "al \<longrightarrow> (sbase + (s + a)) mod 16 = 0" "True \<longrightarrow> (dbase + (d + a)) mod 16 = 0"
      using True less.prems(4,5,6) assms(1,2) len by simp_all
    from regs_ok [OF this] obtain rs where rs: "load_regs al sbase src (s + a) 8 = Inr rs"
      "store_regs True dbase (overwrite dst d (take w ?x)) (d + a) rs
        = Inr (overwrite (overwrite dst d (take w ?x)) (d + a) (take (16 * 8) (drop (s + a) src)))"
      by blast
    have o: "overwrite (overwrite dst d (take w ?x)) (d + a) (take 128 (drop (s + a) src))
        = overwrite dst d (take (a + 128) ?x)"
      using overwrite_take [of a w 128 ?x d dst] True less.prems(1-4) assms(1,2) by (simp add: add.commute [of a s])
    have "(dbase + (d + (a + 128))) mod 16 = 0" "al \<longrightarrow> (sbase + (s + (a + 128))) mod 16 = 0"
      using less.prems(5,6) unfolding add128_aligned by simp_all
    then obtain a' w' where
      "copy_blocks al dbase sbase (overwrite dst d (take (a + 128) ?x)) (d + (a + 128)) src (s + (a + 128)) (n - 128)
        = Inr (overwrite dst d (take w' ?x), d + a', s + a', whole - a')" "a' \<le> w'" "w' \<le> whole" "whole - a' < 128"
      using less.IH [of "n - 128" "a + 128" "a + 128"] True less.prems(1-4) by auto
    then show ?thesis using True rs o
      by (intro exI [of _ a'] exI [of _ w']) (subst copy_blocks.simps, simp add: add.assoc)
  qed
qed

lemma padding_aligned: "(b + (16 - b mod 16) mod 16) mod 16 = (0 :: nat)"
proof (cases "b mod 16 = 0")
  case False
  define q m where "q = b div 16" and "m = b mod 16"
  have qm: "b = 16 * q + m" "m < 16" "m \<noteq> 0" using False by (simp_all add: q_def m_def)
  then have "b + (16 - m) mod 16 = 16 * (q + 1)" by simp
  then show ?thesis by (simp flip: m_def)
qed simp

lemma SuperFastMemCpy_ok:
  assumes "s + n \<le> length src" "d + n \<le> length dst"
  shows "SuperFastMemCpy dbase sbase dst d src s n = Inr (overwrite dst d (take n (drop s src)))"
proof (cases "n \<le> 128")
  case True
  then show ?thesis using assms by (simp add: SuperFastMemCpy_def memcpy_tiny_ok)
next
  case False
  let ?x = "drop s src"
  define p where "p = (16 - (dbase + d) mod 16) mod 16"
  define w where "w = (if p > 0 then 16 else 0 :: nat)"
  have p: "p < 16" "(dbase + (d + p)) mod 16 = 0"
    using padding_aligned [of "dbase + d"] by (simp_all add: p_def add.assoc)
  have w: "p \<le> w" "w \<le> n" "w \<le> p + 128" using p False by (auto simp: w_def)
  have first: "(if p > 0 then
        rbind (load_reg False sbase src s) (\<lambda>head.
        rbind (store_reg False dbase dst d head) (\<lambda>dst. Inr (dst, d + p, s + p, n - p)))
      else Inr (dst, d, s, n)) = Inr (overwrite dst d (take w ?x), d + p, s + p, n - p)"
    using assms False by (auto simp: w_def load_reg_def store_reg_def aligned_def copy_into_overwrite)
  define al where "al = (n - p > 0x200000 \<and> (sbase + (s + p)) mod 16 = 0)"
  have al: "al \<longrightarrow> (sbase + (s + p)) mod 16 = 0" by (simp add: al_def)
  obtain a' w' where c: "copy_blocks al dbase sbase (overwrite dst d (take w ?x)) (d + p) src (s + p) (n - p)
      = Inr (overwrite dst d (take w' ?x), d + a', s + a', n - a')" "a' \<le> w'" "w' \<le> n" "n - a' < 128"
    using copy_blocks_ok [OF assms w(3,1,2) _ p(2), of "n - p" al sbase] p(1) False al by fastforce
  have "SuperFastMemCpy dbase sbase dst d src s n
      = rbind (copy_blocks al dbase sbase (overwrite dst d (take w ?x)) (d + p) src (s + p) (n - p))
          (\<lambda>(dst, d, s, n). memcpy_tiny dst d src s n)"
    using False unfolding SuperFastMemCpy_def Let_def p_def [symmetric] first by (simp add: al_def)
  also have "\<dots> = Inr (overwrite (overwrite dst d (take w' ?x)) (d + a') (take (n - a') (drop (s + a') src)))"
    using c assms by (simp add: memcpy_tiny_ok)
  also have "\<dots> = Inr (overwrite dst d (take n ?x))"
    using overwrite_take [of a' w' "n - a'" ?x d dst] c assms by (simp add: add.commute)
  finally show ?thesis .
qed

end
