(* ===== verification/Engine_Properties.thy ===== *)
theory Engine_Properties
  imports Mersenne_Twister Mem_Copy Connection_Requests
begin

text \<open>
  The properties of the engine (\<^verbatim>\<open>src/geco_application.cpp\<close>) and of the routines it is built with:
  the memory copy and the random numbers.
\<close>

section \<open>Memory copy\<close>

text \<open>C17: Whatever the size, and whatever the alignment of the two buffers, SuperFastMemCpy copies exactly the
  bytes memcpy copies, without an aligned access to an unaligned address.\<close>

theorem memcpy_copies:
  assumes "s + n \<le> length src" and "d + n \<le> length dst"
  shows "SuperFastMemCpy dbase sbase dst d src s n = copy_into dst d (drop s src) n"
  using SuperFastMemCpy_ok [OF assms] assms by (simp add: copy_into_overwrite)

theorem memcpy_copies_witness:
  "SuperFastMemCpy 3 5 (replicate 400 0) 1 (replicate 400 7) 2 300
    = copy_into (replicate 400 0) 1 (drop 2 (replicate 400 7)) 300"
  by (rule memcpy_copies) simp_all

section \<open>Random numbers\<close>

text \<open>C25: After SeedMT the numbers RandomMT returns are, however many are taken, the tempered numbers of the
  recurrence of the Mersenne Twister that starts with the seed times the powers of 69069; the
  global generator is not touched.\<close>

theorem seeded_numbers:
  assumes "length (mt_state m) = 625"
  shows "\<exists>m' m''. SeedMT seed m = Inr m' \<and> randoms n glob m'
     = Inr (map (\<lambda>i. temper (mt_ref (map (seed_at seed) [0..<624]) (624 + i))) [0..<n], glob, m'')"
proof -
  obtain m' where m': "SeedMT seed m = Inr m'" using SeedMT_ok [OF assms] by blast
  let ?x = "mt_ref (map (seed_at seed) [0..<624])"
  obtain m'' where "randoms n glob m' = Inr (map (\<lambda>i. temper (?x i)) [624..<624 + n], glob, m'')"
    using randoms_ok [OF recurrence_mt_ref taken_SeedMT [OF assms m']] by blast
  moreover have "map (\<lambda>i. temper (?x i)) [624..<624 + n] = map (\<lambda>i. temper (?x (624 + i))) [0..<n]"
    by (rule nth_equalityI) auto
  ultimately show ?thesis using m' by metis
qed

theorem seeded_numbers_witness:
  "let m = creator_new \<lparr>mt_state = replicate 625 0, mt_next = 0, mt_left = 0\<rparr>
   in \<exists>m' m''. SeedMT 5 m = Inr m' \<and> randoms 700 m m'
     = Inr (map (\<lambda>i. temper (mt_ref (map (seed_at 5) [0..<624]) (624 + i))) [0..<700], m, m'')"
  unfolding Let_def
  by (rule seeded_numbers) (simp add: creator_new_def)

section \<open>Remote systems\<close>

abbreviation no_endpoints :: endpoints where
  "no_endpoints \<equiv> \<lparr>maxConnections = 0, remoteSystemList = [], activeSystemList = [], activeSystemListSize = 0,
     remoteSystemLookup = [], myGuid = guid_of 1, localIPAddrs = [], firstExternalID = JACKIE_NULL_ADDRESS,
     limitConnFrequencyOfSameClient = False, defaultMTUSize = 576, endThreads = False\<rparr>"

abbreviation raw_endpoint :: remote_system where
  "raw_endpoint \<equiv> \<lparr>isActive = True, systemAddress = JACKIE_NULL_ADDRESS, myExternalSystemAddress = JACKIE_NULL_ADDRESS,
     weInitiateConnection = False, pingAndClockDifferential = [], pingAndClockDifferentialWriteIndex = 0,
     lowestPing = 0, nextPingTime = 0, lastReliableSend = 0, connectionTime = 0, rs_guid = JACKIE_NULL_GUID,
     MTUSize = 0, socket2use = 0, remoteSystemIndex = 0, answer = [], connectMode = NO_ACTION\<rparr>"

definition peer :: "u32 \<Rightarrow> network_address" where
  "peer a = JACKIE_NULL_ADDRESS\<lparr>sin_port := 7, s_addr := a\<rparr>"

lemma peer_valid [simp]: "valid_address (peer a)" "addr_key (peer a) = (7, a)"
  by (simp_all add: valid_address_def peer_def addr_key_def JACKIE_NULL_ADDRESS_def address_default_def)

text \<open>C18: In a new table of n end points, distinct addresses linked to distinct places one after the
  other are all found again at their places, in whatever order and however their hashes collide.\<close>

theorem linked_addresses_found:
  assumes "maxConnections t = 0" and "0 < n" and "8 * n < 2 ^ 32"
    and "\<forall>(a, i) \<in> set xs. i < n \<and> valid_address a"
    and "distinct (map (\<lambda>(a, i). addr_key a) xs)" and "distinct (map snd xs)"
  shows "\<exists>t'. ref_all (RefRemoteEndPoint be) xs (setup_connections n raw t) = Inr t' \<and>
    (\<forall>(a, i) \<in> set xs. GetRemoteSystemIndex be a t' = Inr (Some i))"
proof -
  note new = setup_connections_ok [OF assms(1-3)]
  have "\<forall>(a, i) \<in> set xs. usable_slot (setup_connections n raw t) i \<and> valid_address a"
    using assms(4) new(3) by auto
  from remote_table.ref_all_lookup [OF new(1) this assms(5,6)] show ?thesis by blast
qed

theorem linked_addresses_found_witness:
  "\<exists>t'. ref_all (RefRemoteEndPoint False) [(peer 5, 2), (peer 6, 0)] (setup_connections 3 (\<lambda>_. raw_endpoint) no_endpoints) = Inr t' \<and>
    (\<forall>(a, i) \<in> set [(peer 5, 2), (peer 6, 0)]. GetRemoteSystemIndex False a t' = Inr (Some i))"
  by (rule linked_addresses_found) simp_all

text \<open>C4: However many new clients Add2RemoteSystemList has taken, every active end point is found through
  the hash table at its own place, and activeSystemList holds each active end point once and is never
  written outside.\<close>

theorem active_endpoints_found:
  assumes "joined be n t" and "0 < n" and "8 * n < 2 ^ 32"
  shows "activeSystemListSize t \<le> n \<and> distinct (take (activeSystemListSize t) (activeSystemList t)) \<and>
    set (take (activeSystemListSize t) (activeSystemList t)) = {i. i < n \<and> isActive (remoteSystemList t ! i)} \<and>
    (\<forall>i < n. isActive (remoteSystemList t ! i) \<longrightarrow>
       GetRemoteSystemIndex be (systemAddress (remoteSystemList t ! i)) t = Inr (Some i))"
proof -
  have ok: "endpoints_ok be t" "maxConnections t = n" using joined_ok [OF assms] by auto
  then have "table_ok be t" by (simp add: endpoints_ok_def)
  then show ?thesis
    using ok by (auto simp: endpoints_ok_def remote_table.lookup_route key_at_def)
qed

lemma one_client:
  "\<exists>t fl recvd. Add2RemoteSystemList False 9 [peer 1] 0 1200 (peer 2) (guid_of 4) (peer 5)
      (setup_connections 2 (\<lambda>_. raw_endpoint) no_endpoints) = Inr (t, Some (Some 0), fl, recvd)
    \<and> isActive (remoteSystemList t ! 0) \<and> rs_guid (remoteSystemList t ! 0) = guid_of 4 \<and> remoteSystemList t \<noteq> []"
proof -
  let ?t = "setup_connections 2 (\<lambda>_. raw_endpoint) no_endpoints"
  have ok: "endpoints_ok False ?t" by (rule setup_endpoints_ok) simp_all
  have rs: "remoteSystemList ?t = [endpoint_init 576 (\<lambda>_. raw_endpoint) 0, endpoint_init 576 (\<lambda>_. raw_endpoint) 1]"
    "maxConnections ?t = 2"
    by (simp_all add: setup_connections_def upt_conv_Cons)
  have i: "0 < maxConnections ?t" "\<not> isActive (remoteSystemList ?t ! 0)"
    "\<forall>j < maxConnections ?t. isActive (remoteSystemList ?t ! j) \<longrightarrow> key_at ?t j \<noteq> addr_key (peer 5)"
    unfolding rs by (auto simp: endpoint_init_def less_2_cases_iff)
  have "find_endpoint (\<lambda>r. isActive r = False) 0 (remoteSystemList ?t) = Some 0"
    by (simp add: rs endpoint_init_def)
  then show ?thesis
    using activate_slot_ok [OF ok i(1,2) peer_valid(1) _ i(3), of 1200 9 "[peer 1]" 0
        "SetPortNetworkOrder False (GetPortNetworkOrder (peer 1)) (peer 2)" "guid_of 4"]
    by (auto simp: Add2RemoteSystemList_def MAXIMUM_MTU_SIZE_def Let_def endpoints_ok_def table_ok_def)
qed

lemma one_client_joined:
  "\<exists>t. joined False 2 t \<and> isActive (remoteSystemList t ! 0) \<and> rs_guid (remoteSystemList t ! 0) = guid_of 4
     \<and> remoteSystemList t \<noteq> []"
proof -
  obtain t fl recvd where t: "Add2RemoteSystemList False 9 [peer 1] 0 1200 (peer 2) (guid_of 4) (peer 5)
      (setup_connections 2 (\<lambda>_. raw_endpoint) no_endpoints) = Inr (t, Some (Some 0), fl, recvd)"
    "isActive (remoteSystemList t ! 0)" "rs_guid (remoteSystemList t ! 0) = guid_of 4" "remoteSystemList t \<noteq> []"
    using one_client by blast
  have "GetRemoteSystem_address False (peer 5) False True (setup_connections 2 (\<lambda>_. raw_endpoint) no_endpoints) = Inr None"
    by (simp add: GetRemoteSystem_address_def setup_connections_def upt_conv_Cons endpoint_init_def)
  then have "joined False 2 t"
    using joined.join [OF joined.start [of no_endpoints False 2 "\<lambda>_. raw_endpoint"] t(1)]
    by (simp add: MAXIMUM_MTU_SIZE_def)
  then show ?thesis using t(2-4) by blast
qed

theorem active_endpoints_found_witness:
  "\<exists>t. joined False 2 t \<and> isActive (remoteSystemList t ! 0) \<and>
     GetRemoteSystemIndex False (systemAddress (remoteSystemList t ! 0)) t = Inr (Some 0)"
proof -
  obtain t where t: "joined False 2 t" "isActive (remoteSystemList t ! 0)" using one_client_joined by blast
  then show ?thesis using active_endpoints_found [of False 2 t] by auto
qed

text \<open>In every state the engine reaches by new clients, the command BCS_CHANGE_SYSTEM_ADDRESS never gives an
  end point another address: either it finds no active end point and changes nothing, or it finds one and stops at
  the assertion of RefRemoteEndPoint that the end point is inactive.\<close>

lemma rerouting_never_succeeds:
  assumes "joined be n t" and "0 < n" and "8 * n < 2 ^ 32"
  shows "change_system_address be w t =
    (if GetRemoteSystem_wrapper be w True True t = Inr None then Inr t else Inl AssertFailed)"
proof -
  have ok: "endpoints_ok be t" using joined_ok [OF assms] by simp
  show ?thesis using change_system_address_result [OF ok, of w] wrapper_total [OF ok, of w]
    by (auto split: option.split)
qed

section \<open>Bans\<close>

definition plain_ban :: "string \<Rightarrow> banned" where
  "plain_ban ip = \<lparr>ban_IP = ip, firstTimeBanned = 0, ban_timeout = 0, bannedTImes = 1\<rparr>"

abbreviation two_bans :: ban_list where
  "two_bans \<equiv> \<lparr>listArray = [plain_ban ''1.1'', plain_ban ''1.2''], list_size = 2, list_alloc = 2,
     junk_at = (\<lambda>_. plain_ban [])\<rparr>"

text \<open>In a list of bans that do not expire, IsBanned compares the address with every second entry only,
  beginning with the first; an entry matches if it is the address or has a star where the address goes on with
  another character.\<close>

lemma IsBanned_every_second:
  assumes "l_ok l" and "\<forall>b \<in> set (list_elems l). ban_timeout b = 0"
    and "ip = ToString_IPV4 inet_ntoa be False (CHR ''|'') sender" and "ip \<noteq> []" "hd ip \<noteq> CHR '' ''" "length ip \<le> 65"
  shows "IsBanned inet_ntoa be clock sender l = Inr (\<exists>k. 2 * k < list_size l \<and>
    (let p = ban_IP (list_elems l ! (2 * k)) in p = ip \<or>
      (\<exists>pre suf c cs. p = pre @ CHR ''*'' # suf \<and> ip = pre @ c # cs \<and> c \<noteq> CHR ''*'')), l)"
proof (cases "list_size l = 0")
  case False
  then show ?thesis
    using assms ban_loop_plain [OF assms(1,2), of 0 "list_size l + 1" clock ip]
    by (simp add: IsBanned_def Let_def ip_match_iff)
qed (simp add: IsBanned_def)

section \<open>Connection requests\<close>

text \<open>C26: Whatever arguments Connect_ packs into a command, the network thread reads outside the buffer when it
  unpacks them, for the data pointer has been moved to the last argument.\<close>

theorem connect_command_unreadable:
  assumes "length key = 8" and "length passwd + 22 \<le> length mem"
  shows "rbind (Connect_pack be mem passwd passwdLength key socket attempts interval timeout extra) (connect_unpack be)
    = Inl OutOfBounds"
proof -
  obtain d where "Connect_pack be mem passwd passwdLength key socket attempts interval timeout extra = Inr d"
    "length (fst d) = snd d + 4"
    using Connect_pack_place [OF assms] by blast
  then show ?thesis by (simp add: connect_unpack_outside)
qed

theorem connect_command_unreadable_witness:
  "rbind (Connect_pack False (replicate 25 0) ''abc'' 3 (replicate 8 0) 0 6 1000 0 0) (connect_unpack False)
    = Inl OutOfBounds"
  by (rule connect_command_unreadable) simp_all

text \<open>C27: Connect adds at most one request and only for an address without one, so no two pending requests have
  the same address; it leaves the lock of the queue as it was, except that it keeps it when an attempt is already
  in progress.\<close>

theorem Connect_posts_once:
  assumes "q_ok (connReqQ a)" and "Queue_Size (connReqQ a) + 1 < 2 ^ 30" and "requests_distinct (connReqQ a)"
    and "Connect inet_addr resolve be challenge unset raw time sockets host port passwd passwdLength key si n iv to x a
      = Inr (res, a')"
  shows "requests_distinct (connReqQ a') \<and>
    connReqQLock a' = connReqQLock a + (if res = CONNECTION_ATTEMPT_ALREADY_IN_PROGRESS then 1 else 0) \<and>
    Queue_Size (connReqQ a') = Queue_Size (connReqQ a) + (if res = CONNECTION_ATTEMPT_POSTED then 1 else 0) \<and>
    a' = a\<lparr>connReqQ := connReqQ a', connReqQLock := connReqQLock a'\<rparr>"
proof (cases "res = CONNECTION_ATTEMPT_POSTED")
  case True
  then obtain r where r: "queue_elems (connReqQ a') = queue_elems (connReqQ a) @ [r]"
      "\<forall>s \<in> set (queue_elems (connReqQ a)). \<not> address_eq (receiverAddr s) (receiverAddr r)"
    using Connect_effect [OF assms(1,2,4)] by (auto simp: connect_effect_def)
  have "Queue_Size (connReqQ a') = Queue_Size (connReqQ a) + 1"
    using r(1) by (metis length_append_singleton length_queue_elems Suc_eq_plus1)
  moreover have "requests_distinct (connReqQ a')"
    using assms(3) r by (simp add: requests_distinct_def sorted_wrt_append)
  moreover have "a' = a\<lparr>connReqQ := connReqQ a', connReqQLock := connReqQLock a'\<rparr>"
    "connReqQLock a' = connReqQLock a"
    using Connect_effect [OF assms(1,2,4)] True unfolding connect_effect_def by (blast, simp)
  ultimately show ?thesis using True by simp
next
  case False
  have q: "connReqQ a' = connReqQ a" and a': "a' = a\<lparr>connReqQ := connReqQ a', connReqQLock := connReqQLock a'\<rparr>"
    and l: "connReqQLock a' = connReqQLock a + (if res = CONNECTION_ATTEMPT_ALREADY_IN_PROGRESS then 1 else 0)"
    using Connect_effect [OF assms(1,2,4)] False unfolding connect_effect_def by (simp, blast, blast)
  show ?thesis
    by (intro conjI l a') (simp_all add: False q assms(3))
qed

abbreviation raw_request :: connection_request where
  "raw_request \<equiv> \<lparr>receiverAddr = JACKIE_NULL_ADDRESS, nextRequestTime = 0, requestsMade = 0, pwd = [], pwdLen = 0,
     socketIndex = 0, extraData = 0, connAttemptTimes = 0, connAttemptIntervalMS = 0, cr_timeout = 0,
     publicKeyMode = INSECURE_CONNECTION, cr_socket = 0, actionToTake = PING, client_handshake = False,
     handshakeChallenge = []\<rparr>"

abbreviation idle_app :: app where
  "idle_app \<equiv> \<lparr>eps = no_endpoints, connReqQ = queue_new (\<lambda>_. raw_request), connReqQLock = 0,
     connReqCancelQ = queue_new (\<lambda>_. JACKIE_NULL_ADDRESS), connReqCancelQLock = 0, allocPacketQ = [], sent = [],
     calls = [], pluginListNTS_Size = 0, banList = two_bans, msgid = 0, secureIncomingConnectionEnabled = False, isUnconnectedRecvPrrams = False\<rparr>"

lemma local_connect:
  "\<exists>a'. Connect (\<lambda>_. 5) (\<lambda>_. []) False None JACKIE_NULL_ADDRESS raw_request time
      [\<lparr>userConnectionSocketIndex = 0, boundAddress = peer 9\<rparr>] (Some ''localhost'') 7 None 0 None 0 n 1000 0 0 idle_app
    = Inr (CONNECTION_ATTEMPT_POSTED, a')"
  by (simp add: Connect_def Let_def FromStringPort_def FromString_def SetIP4Address_def is_localhost_def to_lower_def
      GetRemoteSystem_address_def GenerateConnectionRequestChallenge_def post_request_def Queue_Size_def queue_new_def
      PushTail_def address_eq_def EqualsExcludingPort_def JACKIE_NULL_ADDRESS_def address_default_def)

theorem Connect_posts_once_witness:
  "\<exists>a'. Connect (\<lambda>_. 5) (\<lambda>_. []) False None JACKIE_NULL_ADDRESS raw_request 10
      [\<lparr>userConnectionSocketIndex = 0, boundAddress = peer 9\<rparr>] (Some ''localhost'') 7 None 0 None 0 6 1000 0 0 idle_app
    = Inr (CONNECTION_ATTEMPT_POSTED, a') \<and> Queue_Size (connReqQ a') = 1 \<and> connReqQLock a' = 0"
proof -
  obtain a' where a': "Connect (\<lambda>_. 5) (\<lambda>_. []) False None JACKIE_NULL_ADDRESS raw_request 10
      [\<lparr>userConnectionSocketIndex = 0, boundAddress = peer 9\<rparr>] (Some ''localhost'') 7 None 0 None 0 6 1000 0 0 idle_app
    = Inr (CONNECTION_ATTEMPT_POSTED, a')"
    using local_connect by blast
  have "Queue_Size (queue_new (\<lambda>_. raw_request)) = 0" by (simp add: Queue_Size_def queue_new_def)
  then show ?thesis
    using Connect_posts_once [OF _ _ _ a'] a' by (simp add: requests_distinct_def)
qed

text \<open>CancelConnectionRequest followed by the network thread's ProcessConnectionRequestCancelQ cancels no
  request, unless its address happens to be the one in the variable the function never sets, and the entry stays in
  the cancel queue.\<close>

lemma cancel_cancels_nothing:
  assumes "q_ok (connReqQ a)" and "q_ok (connReqCancelQ a)" and "Queue_Size (connReqCancelQ a) + 1 < 2 ^ 30"
    and "\<forall>r \<in> set (queue_elems (connReqQ a)). \<not> address_eq (receiverAddr r) unset"
  shows "\<exists>cq. rbind (CancelConnectionRequest target a) (ProcessConnectionRequestCancelQ unset)
      = Inr (a\<lparr>connReqCancelQ := cq\<rparr>) \<and> queue_elems cq = queue_elems (connReqCancelQ a) @ [target]"
  by (rule cancel_then_process [OF assms])

definition one_request :: "connection_request array_queue" where
  "one_request = \<lparr>queueArrary = [raw_request\<lparr>receiverAddr := peer 3\<rparr>, raw_request], head = 0, tail = 1,
     allocation_size = 2, junk = (\<lambda>_. raw_request)\<rparr>"

end
