(* ===== verification/Handshake_Properties.thy ===== *)
theory Handshake_Properties
  imports Request_Rounds Server_Slots Engine_Properties
begin

text \<open>
  Properties of the connection handshake: of single messages, of a client and a server put together, and of
  the requests over the rounds of the network thread.
\<close>

section \<open>A machine to run the handshake on\<close>

abbreviation far :: network_address where
  "far \<equiv> \<lparr>sin_family = AF_INET, sin_port = 5, s_addr = 5, systemIndex = -1, debugPort = 0\<rparr>"

definition test_world :: world where
  "test_world =
     \<lparr>big_endian = False, w_inet_addr = (\<lambda>_. 5), w_resolve = (\<lambda>_. []), w_inet_ntoa = (\<lambda>_. ''1.2.3.4''),
      fresh_memory = (\<lambda>_. 0),
      sendto = (\<lambda>_ _. \<lparr>so_result = 1, so_bytesWritten = 0, so_start = 0, so_end = 0\<rparr>),
      time_ms = 50, time_us = 50000, boundAddrs = [far],
      crypt = \<lparr>cookie_Generate = (\<lambda>_. 7), cookie_Verify = (\<lambda>_ _. True), ProcessChallenge = (\<lambda>_. None),
        any_key_challenge = None, ProcessAnswer = (\<lambda>_. False), ProcessAnswerWithIdentity = (\<lambda>_. None),
        GenerateProof = (\<lambda>_. replicate 32 0)\<rparr>,
      raw_packet = \<lparr>packet_address = JACKIE_NULL_ADDRESS, packet_guid = JACKIE_NULL_GUID, packet_data = DeadVariable\<rparr>,
      raw_address = JACKIE_NULL_ADDRESS,
      raw_wrapper = \<lparr>w_guid = JACKIE_NULL_GUID, w_systemAddress = JACKIE_NULL_ADDRESS\<rparr>,
      raw_bytes = [], raw_cookie = 0\<rparr>"

lemma test_world_le [simp]: "\<not> big_endian test_world"
  by (simp add: test_world_def)

definition arrived :: "u8 list \<Rightarrow> recv_params" where
  "arrived d = \<lparr>rp_data = d @ replicate (1492 - length d) 0, bytesRead = int (length d), senderINetAddress = far,
     timeRead = 0, localBoundSocket = 0\<rparr>"

lemma arrived_holds [simp]: "length d \<le> 1492 \<Longrightarrow> holds_datagram (arrived d) d"
  by (simp add: holds_datagram_def arrived_def)

definition test_request :: connection_request where
  "test_request =
     \<lparr>receiverAddr = far, nextRequestTime = 10, requestsMade = 0, pwd = [], pwdLen = 0, socketIndex = 0, extraData = 0,
      connAttemptTimes = 3, connAttemptIntervalMS = 100, cr_timeout = 0, publicKeyMode = INSECURE_CONNECTION,
      cr_socket = 0, actionToTake = CONNECT, client_handshake = False, handshakeChallenge = []\<rparr>"

definition two_requests :: "connection_request array_queue" where
  "two_requests = \<lparr>queueArrary = [test_request, test_request, test_request], head = 0, tail = 2, allocation_size = 3,
     junk = (\<lambda>_. test_request)\<rparr>"

definition test_endpoints :: "u64 \<Rightarrow> endpoints" where
  "test_endpoints x =
     \<lparr>maxConnections = 0, remoteSystemList = [], activeSystemList = [], activeSystemListSize = 0, remoteSystemLookup = [],
      myGuid = guid_of x, localIPAddrs = [], firstExternalID = JACKIE_NULL_ADDRESS,
      limitConnFrequencyOfSameClient = False, defaultMTUSize = 576, endThreads = False\<rparr>"

definition test_app :: "u64 \<Rightarrow> app" where
  "test_app x =
     \<lparr>eps = test_endpoints x, connReqQ = two_requests, connReqQLock = 0,
      connReqCancelQ = queue_new (\<lambda>_. JACKIE_NULL_ADDRESS), connReqCancelQLock = 0, allocPacketQ = [], sent = [],
      calls = [], pluginListNTS_Size = 1, banList = list_new (\<lambda>_. undefined), msgid = 0,
      secureIncomingConnectionEnabled = False, isUnconnectedRecvPrrams = False\<rparr>"

section \<open>Messages\<close>

text \<open>C19: The first request of a client, in each of the three sizes, is answered by the server with a datagram of the
  same size, so that the MTU is tried in both directions; nothing else of the server changes.\<close>

theorem mtu_probe_answered:
  assumes "mtu \<in> set mtuSizes" and "datagram_of w (request1 w mtu) = Inr d" and "holds_datagram rp d"
    and "\<not> big_endian w'"
  shows "length d = mtu - UDP_HEADER_SIZE \<and>
    (\<exists>d' a'. OnConnectionRequest1 w' rp a = Inr a' \<and> isUnconnectedRecvPrrams a' \<and>
     sent a' = sent a @ [(senderINetAddress rp, d')] \<and>
     a' = a\<lparr>isUnconnectedRecvPrrams := True, sent := sent a', calls := calls a'\<rparr> \<and>
     length d' = length d \<and> take 17 d' = ID_OPEN_CONNECTION_REPLY_1 # OFFLINE_MESSAGE_DATA_ID)"
proof -
  have mtu: "48 \<le> mtu" "mtu \<le> 1492" "34 \<le> mtu - 28"
    using assms(1) by (auto simp: mtuSizes_def MAXIMUM_MTU_SIZE_def)
  have d: "length d = mtu - 28"
    "take 18 d = ID_OPEN_CONNECTION_REQUEST_1 # OFFLINE_MESSAGE_DATA_ID @ [JACKIE_INET_PROTOCOL_VERSION]"
    using request1_datagram [of mtu w] assms(2) mtu by auto
  then obtain d' where d': "OnConnectionRequest1 w' rp a
      = Inr (answer_checked w' rp d' (plugins_receive (a\<lparr>isUnconnectedRecvPrrams := True\<rparr>)))"
    "length d' = min (length d) 1464"
    "bits_of d' = reply1_bits w' rp a @ replicate (8 * min (length d) 1464 - length (reply1_bits w' rp a)) False"
    using OnConnectionRequest1_answers [OF assms(3,4), of a] mtu(3) by auto
  have "take (length (ID_OPEN_CONNECTION_REPLY_1 # OFFLINE_MESSAGE_DATA_ID)) d'
      = ID_OPEN_CONNECTION_REPLY_1 # OFFLINE_MESSAGE_DATA_ID"
    using d'(3) unfolding reply1_bits_def offline_head_bits_def append_assoc by (rule bytes_of_bits)
  moreover have "length d' = length d" using d(1) d'(2) mtu by simp
  moreover define a' where "a' = answer_checked w' rp d' (plugins_receive (a\<lparr>isUnconnectedRecvPrrams := True\<rparr>))"
  moreover have "isUnconnectedRecvPrrams a'" "sent a' = sent a @ [(senderINetAddress rp, d')]"
    "a' = a\<lparr>isUnconnectedRecvPrrams := True, sent := sent a', calls := calls a'\<rparr>"
    by (simp_all add: a'_def answer_checked_def Send_def plugins_receive_def plugins_send_def)
  ultimately show ?thesis using d'(1) d(1) by (auto simp: UDP_HEADER_SIZE_def)
qed

theorem mtu_probe_answered_witness:
  "\<exists>d d' a'. datagram_of test_world (request1 test_world 1200) = Inr d \<and>
     OnConnectionRequest1 test_world (arrived d) (test_app 5) = Inr a' \<and> sent a' = [(far, d')] \<and> length d' = 1172"
proof -
  obtain d where d: "datagram_of test_world (request1 test_world 1200) = Inr d" "length d = 1172"
    using request1_datagram [of 1200 test_world] by auto
  then have "holds_datagram (arrived d) d" by simp
  moreover have "sent (test_app 5) = []" "senderINetAddress (arrived d) = far"
    by (simp_all add: test_app_def arrived_def)
  ultimately show ?thesis
    using mtu_probe_answered [of 1200 test_world d "arrived d" test_world "test_app 5"] d
    by (auto simp: mtuSizes_def)
qed

text \<open>C28: A client reads the first answer of a server without security at the wrong places: the compressed guid has a
  bit more than the 64 the client reads, and the bit that tells whether there is a cookie is missing. For a guid
  with a nonzero highest byte the client takes half of the guid with its bytes reversed for the guid, and bit 56
  of the guid for the word of the server that it wants a secure connection.\<close>

theorem reply1_misread:
  assumes "\<not> big_endian w" and "\<not> secureIncomingConnectionEnabled a" and "2 ^ 56 \<le> unat (g (myGuid (eps a)))"
    and "bytesRead rp = int n" "34 \<le> n" and "datagram_of w (reply1 w rp a) = Inr d" and "holds_datagram rp' d"
  shows "\<exists>cookie s. read_reply1 w' rp' = Inr ((JACKIE_NULL_GUID\<lparr>g := drop_bit 1 (other_order (g (myGuid (eps a))))\<rparr>,
    bit (g (myGuid (eps a))) 56, cookie), s)"
proof -
  let ?rest = "mini_wire True (newClientMTU rp) @ replicate (8 * min n 1464 - length (reply1_bits w rp a)) False"
  have bits: "bits_of d = offline_head_bits ID_OPEN_CONNECTION_REPLY_1 @ mini_wire True (g (myGuid (eps a))) @ ?rest"
    using reply1_datagram [OF assms(1,4,5), of a] assms(2,6) by (auto simp: reply1_bits_def)
  have m: "length (reply1_bits w rp a) = 136 + (65 + length (mini_wire True (newClientMTU rp)))"
    using assms(2) by (simp add: reply1_bits_def offline_head_bits_def mini_guid_wire [OF assms(3)] length_net_bits)
  have "8 * 34 \<le> 8 * min n 1464" using assms(5) by simp
  then have "32 \<le> length ?rest" unfolding length_append length_replicate m by linarith
  then show ?thesis using read_reply1_shifted [OF assms(7) bits assms(3)] by blast
qed

theorem reply1_misread_witness:
  "\<exists>rp d cookie s. datagram_of test_world (reply1 test_world rp (test_app (2 ^ 56))) = Inr d \<and>
     read_reply1 test_world (arrived d) = Inr ((JACKIE_NULL_GUID\<lparr>g := 0\<rparr>, True, cookie), s)"
proof -
  let ?rp = "arrived (replicate 548 0)"
  obtain d where d: "datagram_of test_world (reply1 test_world ?rp (test_app (2 ^ 56))) = Inr d" "length d = 548"
    using reply1_datagram [of test_world ?rp 548 "test_app (2 ^ 56)"] by (auto simp: arrived_def)
  have gd: "g (myGuid (eps (test_app (2 ^ 56)))) = 2 ^ 56"
    by (simp add: test_app_def test_endpoints_def guid_of_def)
  have "other_order (2 ^ 56) = 1" by (simp add: other_order_def mem_bytes_def mem_word_def le_bytes_8)
  then have "drop_bit 1 (other_order (2 ^ 56)) = 0" "bit (2 ^ 56 :: u64) 56" by simp_all
  moreover have "unat (2 ^ 56 :: u64) = 2 ^ 56" by simp
  moreover have "\<not> secureIncomingConnectionEnabled (test_app (2 ^ 56))" by (simp add: test_app_def)
  moreover have "bytesRead ?rp = int 548" by (simp add: arrived_def)
  ultimately show ?thesis
    using reply1_misread [of test_world "test_app (2 ^ 56)" ?rp 548 d "arrived d" test_world] d unfolding gd
    by (intro exI [of _ ?rp] exI [of _ d]) simp
qed

lemma read_failed_shifted:
  assumes rp: "holds_datagram rp d" and bits: "bits_of d = offline_head_bits i @ mini_wire True (x :: u64) @ rest"
    and x: "2 ^ 56 \<le> unat x" and i: "rp_data rp \<noteq> []" "rp_data rp ! 0 = i" "i \<noteq> ID_INCOMPATIBLE_PROTOCOL_VERSION"
  shows "read_failed w rp = Inr (JACKIE_NULL_GUID\<lparr>g := drop_bit 1 (other_order x)\<rparr>)"
proof -
  obtain s where s: "received_stream w rp = Inr s" "readable s (8 * length d)" "payload s = bits_of d"
    using received_stream_ok [OF rp] by blast
  have h: "length (offline_head_bits i) = 136" by (simp add: offline_head_bits_def)
  have m: "length (mini_wire True x) = 65" by (simp add: mini_guid_wire [OF x] length_net_bits)
  have "8 * length d = 136 + (65 + length rest)" by (metis bits h m length_append length_bits_of)
  then have r: "readable s (136 + (64 + (1 + length rest)))" using s(2) by simp
  have p: "payload s = net_bits i @ bits_of OFFLINE_MESSAGE_DATA_ID @ mini_wire True x @ rest"
    unfolding s(3) bits by (simp add: offline_head_bits_def net_bits_def)
  then have b: "Read_int (big_endian w) s = Inr (i, skip_read 8 s)"
    using takesD [OF takes_Read_int _ p] readable_mono [OF r, of 8] by (simp add: length_net_bits)
  have "readable (skip_read 8 s) (8 * 16)" by (rule readable_skip_read) (rule readable_mono [OF r], simp)
  then have k: "skip_read_bytes 16 (skip_read 8 s) = skip_read 136 s" using skip_bytes by (simp add: skip_read_skip_read)
  have "payload (skip_read 136 s) = net_bits (drop_bit 1 (other_order x)) @ [bit x 56] @ rest"
    by (simp add: payload_skip_read s(3) bits h mini_guid_wire [OF x])
  moreover have "readable (skip_read 136 s) 64" using readable_mono [OF readable_skip_read [OF r]] by simp
  ultimately have "Read_guid (big_endian w) JACKIE_NULL_GUID (skip_read 136 s)
      = Inr (JACKIE_NULL_GUID\<lparr>g := drop_bit 1 (other_order x)\<rparr>, skip_read 64 (skip_read 136 s))"
    using takesD [OF takes_Read_guid] by (simp add: length_net_bits)
  then show ?thesis using i by (simp add: read_failed_def s(1) b k get_at_def)
qed

text \<open>C29: A server whose guid has a nonzero highest byte refuses a client with a datagram of 26 bytes, and the client
  takes 25 for the longest refusal, so it does not look for the marker of an offline message in it. What happens is left
  to the flag of the datagram before. If that was no offline message (so for a ban in answer to the first request,
  after any such datagram) the client leaves the pending request and all the rest as it is. If it was one (so for
  any refusal that follows the first answer of the server) the refusal is handled, with half of the guid of the server,
  its bytes reversed, for the guid.\<close>

theorem refusal_not_understood:
  assumes "\<not> big_endian w" and "2 ^ 56 \<le> unat (g (myGuid (eps a)))" and "datagram_of w (refusal w i a) = Inr d"
    and "i \<in> {ID_CANNOT_ACCEPT_INCOMING_CONNECTIONS, ID_CONNECTION_BANNED, ID_YOU_CONNECT_TOO_OFTEN}"
    and "holds_datagram rp d"
  shows "length d = 26 \<and> IsOfflineRecvParams w' rp a' =
    (if isUnconnectedRecvPrrams a'
     then failed_attempt w' rp (JACKIE_NULL_GUID\<lparr>g := drop_bit 1 (other_order (g (myGuid (eps a))))\<rparr>) (plugins_receive a')
     else Inr a')"
proof -
  let ?x = "g (myGuid (eps a))"
  have l: "length (offline_head_bits i @ mini_wire True ?x) = 201"
    by (simp add: offline_head_bits_def mini_guid_wire [OF assms(2)] length_net_bits)
  have bits: "bits_of d = (offline_head_bits i @ mini_wire True ?x) @ gap 201"
    using refusal_datagram [OF assms(1), of i a] assms(3) l by auto
  then have "8 * length d = 201 + (padded 201 - 201)" by (metis l length_append length_bits_of length_gap)
  then have len: "length d = 26" by (simp add: padded_def)
  have "take (length (i # OFFLINE_MESSAGE_DATA_ID)) d = i # OFFLINE_MESSAGE_DATA_ID"
    using bits unfolding offline_head_bits_def append_assoc by (rule bytes_of_bits)
  then have "take 17 d = i # OFFLINE_MESSAGE_DATA_ID" by simp
  note m = marker_found [OF assms(5) this]
  have rp: "bytesRead rp = int 26" "26 \<le> length (rp_data rp)" using assms(5) len by (simp_all add: holds_datagram_def)
  have "test_offline (as_size (bytesRead rp) > 1 + 16 \<and> as_size (bytesRead rp) \<le> 1 + 16 + 8) 1 rp a' = Inr a'"
    using rp by (simp add: test_offline_def as_size_def)
  moreover have "read_failed w' rp = Inr (JACKIE_NULL_GUID\<lparr>g := drop_bit 1 (other_order ?x)\<rparr>)"
  proof -
    have "rp_data rp \<noteq> []" using rp(2) by auto
    moreover have "i \<noteq> ID_INCOMPATIBLE_PROTOCOL_VERSION" using assms(4) by auto
    ultimately show ?thesis
      using read_failed_shifted [OF assms(5) bits [unfolded append_assoc] assms(2) _ m(2)] by blast
  qed
  ultimately have "OnConnectionFailed w' rp a' =
    (if isUnconnectedRecvPrrams a'
     then failed_attempt w' rp (JACKIE_NULL_GUID\<lparr>g := drop_bit 1 (other_order ?x)\<rparr>) (plugins_receive a') else Inr a')"
    by (simp add: OnConnectionFailed_def Let_def)
  moreover have "get_at (rp_data rp) 0 = Inr i" using m(2) rp(2) by (cases "rp_data rp") (simp_all add: get_at_def)
  ultimately show ?thesis using assms(4) rp(1) len by (auto simp: IsOfflineRecvParams_def)
qed

theorem refusal_not_understood_witness:
  "\<exists>d. datagram_of test_world (refusal test_world ID_CONNECTION_BANNED (test_app (2 ^ 56))) = Inr d \<and>
     IsOfflineRecvParams test_world (arrived d) (test_app 3) = Inr (test_app 3) \<and>
     IsOfflineRecvParams test_world (arrived d) ((test_app 3)\<lparr>isUnconnectedRecvPrrams := True\<rparr>) =
       failed_attempt test_world (arrived d) (JACKIE_NULL_GUID\<lparr>g := 0\<rparr>)
         (plugins_receive ((test_app 3)\<lparr>isUnconnectedRecvPrrams := True\<rparr>))"
proof -
  have x: "g (myGuid (eps (test_app (2 ^ 56)))) = 2 ^ 56"
    by (simp add: test_app_def test_endpoints_def guid_of_def)
  have gd: "2 ^ 56 \<le> unat (g (myGuid (eps (test_app (2 ^ 56)))))" unfolding x by simp
  have "other_order (2 ^ 56) = 1" by (simp add: other_order_def mem_bytes_def mem_word_def le_bytes_8)
  then have half: "drop_bit 1 (other_order (2 ^ 56)) = 0" by simp
  obtain d where d: "datagram_of test_world (refusal test_world ID_CONNECTION_BANNED (test_app (2 ^ 56))) = Inr d"
    "length d \<le> 27"
    using refusal_datagram [of test_world] by auto
  then have "holds_datagram (arrived d) d" by simp
  note r = refusal_not_understood [OF _ gd d(1) _ this, of test_world, unfolded x half]
  have f: "\<not> isUnconnectedRecvPrrams (test_app 3)" by (simp add: test_app_def)
  show ?thesis
    using r [of "test_app 3"] r [of "(test_app 3)\<lparr>isUnconnectedRecvPrrams := True\<rparr>"] d(1) f by auto
qed

section \<open>Requests over the rounds of the network thread\<close>

text \<open>C30: A call of ProcessConnectionRequestQ in which no request is due only changes the lock: it takes it once and
  releases it once for each request in the queue, so with more than one request the lock is released by a thread
  that does not hold it.\<close>

theorem idle_call_unlocks:
  assumes "q_ok (connReqQ a)" and "Queue_Size (connReqQ a) \<noteq> 0" and "timeUS \<noteq> 0"
    and "\<forall>r \<in> set (queue_elems (connReqQ a)). \<not> nextRequestTime r < ucast timeMS"
  shows "ProcessConnectionRequestQ w timeUS timeMS a
    = Inr (timeUS, timeMS, a\<lparr>connReqQLock := connReqQLock a + 1 - int (Queue_Size (connReqQ a))\<rparr>)"
  by (rule ProcessConnectionRequestQ_idle [OF assms])

lemma two_requests_ok: "q_ok two_requests" "queue_elems two_requests = [test_request, test_request]"
  "Queue_Size two_requests = 2"
  by (simp_all add: two_requests_def q_ok_def queue_elems_def Queue_Size_def upt_conv_Cons)

lemma test_app_queue [simp]: "connReqQ (test_app x) = two_requests"
  by (simp add: test_app_def)

theorem idle_call_unlocks_witness:
  "ProcessConnectionRequestQ test_world 1 5 (test_app 1) = Inr (1, 5, (test_app 1)\<lparr>connReqQLock := -1\<rparr>)"
  using idle_call_unlocks [of "test_app 1" 1 5 test_world] two_requests_ok
  by (simp add: test_app_def test_request_def)

text \<open>C20: The loop of ProcessConnectionRequestQ ends whatever is removed from the queue on the way: as many rounds as
  there are requests are enough, and the queue is sound and not longer afterwards.\<close>

theorem request_loop_ends:
  assumes "q_ok (connReqQ a)"
  shows "case ProcessConnectionRequestQ w timeUS timeMS a of
      Inl e \<Rightarrow> e \<noteq> OutOfFuel
    | Inr (_, _, a') \<Rightarrow> q_ok (connReqQ a') \<and> Queue_Size (connReqQ a') \<le> Queue_Size (connReqQ a)"
proof (cases "Queue_IsEmpty (connReqQ a)")
  case False
  let ?n = "Queue_Size (connReqQ a)"
  let ?rounds = "\<lambda>t. request_rounds ?n w t 0 (a\<lparr>connReqQLock := Lock (connReqQLock a)\<rparr>)"
  obtain us t where "ProcessConnectionRequestQ w timeUS timeMS a = rbind (?rounds t) (\<lambda>a. Inr (us, t, a))"
    using False by (cases "timeUS = 0") (simp_all add: ProcessConnectionRequestQ_def)
  moreover have "not_longer ?n (?rounds t)"
    using request_rounds_end [of "a\<lparr>connReqQLock := Lock (connReqQLock a)\<rparr>" 0 ?n] assms by simp
  ultimately show ?thesis by (cases "?rounds t") (simp_all add: not_longer_def)
qed (use assms in \<open>simp add: ProcessConnectionRequestQ_def\<close>)

theorem request_loop_ends_witness:
  "\<forall>t. case ProcessConnectionRequestQ test_world 1 t (test_app 1) of
      Inl e \<Rightarrow> e \<noteq> OutOfFuel
    | Inr (_, _, a') \<Rightarrow> q_ok (connReqQ a') \<and> Queue_Size (connReqQ a') \<le> 2"
  by (rule allI, rule request_loop_ends [of "test_app 1" test_world 1, unfolded test_app_queue two_requests_ok(3)])
    (rule two_requests_ok)

text \<open>C7: A request to connect ends, if it is the only one in the queue, has not been sent yet and asks for 3 to 254
  attempts, its address is not rewritten and its socket is bound, every datagram is taken by the network within 100 ms,
  and each cycle comes later than the request is due: the network thread then sends one datagram more than the attempts
  asked for, of 1464, then 1172, then 548 bytes for a third of the attempts each, and the cycle after these gives up.
  The packet that tells the user so cannot be read: its data is a variable of a function that has returned.\<close>

theorem attempts_end:
  assumes "only_request r a" and "requestsMade r = 0" and "3 \<le> n" "n < 255" "unat (connAttemptTimes r) = n"
    and "quick_network w" and "plain_target w r"
    and "length ts = n + 2" and "spaced (nextRequestTime r) (connAttemptIntervalMS r) ts"
  shows "\<exists>a' ds p. request_cycles w ts a = Inr a' \<and> queue_elems (connReqQ a') = [] \<and>
    sent a' = sent a @ map (Pair (receiverAddr r)) ds \<and>
    map length ds = map (\<lambda>k. mtuSizes ! min 2 (k div (n div 3)) - UDP_HEADER_SIZE) [0..<n + 1] \<and>
    allocPacketQ a' = allocPacketQ a @ [p] \<and> packet_address p = receiverAddr r \<and> packet_id a' p = Inl OutOfBounds \<and>
    connReqQLock a' = connReqQLock a"
  using request_cycles_end [of r a w ts] assms by (auto simp: mtu_of_try_def packet_id_def)

definition single_request :: "connection_request array_queue" where
  "single_request = \<lparr>queueArrary = [test_request, test_request], head = 0, tail = 1, allocation_size = 2,
     junk = (\<lambda>_. test_request)\<rparr>"

theorem attempts_end_witness:
  "\<exists>a' ds. request_cycles test_world [11, 112, 213, 314, 415] ((test_app 1)\<lparr>connReqQ := single_request\<rparr>) = Inr a' \<and>
     sent a' = map (Pair far) ds \<and> map length ds = [1464, 1172, 548, 548]"
proof -
  let ?a = "(test_app 1)\<lparr>connReqQ := single_request\<rparr>"
  have r: "only_request test_request ?a"
    by (simp add: only_request_def single_request_def q_ok_def queue_elems_def Queue_Size_def)
  have w: "quick_network test_world" "plain_target test_world test_request"
    by (simp_all add: quick_network_def plain_target_def test_world_def test_request_def ToString_IPV4_def Let_def
        address_eq_def EqualsExcludingPort_def JACKIE_NULL_ADDRESS_def address_default_def)
  have n: "unat (connAttemptTimes test_request) = 3" "requestsMade test_request = 0" "receiverAddr test_request = far"
    "spaced (nextRequestTime test_request) (connAttemptIntervalMS test_request) [11, 112, 213, 314, 415]"
    by (simp_all add: test_request_def)
  have "map (\<lambda>k. mtuSizes ! min 2 (k div (3 div 3)) - UDP_HEADER_SIZE) [0..<3 + 1] = [1464, 1172, 548, 548]"
    by (simp add: mtuSizes_def UDP_HEADER_SIZE_def MAXIMUM_MTU_SIZE_def upt_conv_Cons)
  moreover have "sent ?a = []" by (simp add: test_app_def)
  ultimately show ?thesis
    using attempts_end [OF r n(2) _ _ n(1) w _ n(4)] n(3) by fastforce
qed

text \<open>
  C38: A request posted 2 ^ 32 - 1 milliseconds or later after the clock was started, so after some 49 days, is never
  sent, whenever the network thread runs: Connect notes the time in 64 bits and the thread compares it with the time
  in 32. The request stays in the queue for good and nobody is told.
\<close>

theorem late_request_never_sent:
  assumes "q_ok (connReqQ a)" and "Queue_Size (connReqQ a) = 0"
    and "Connect inet_addr resolve be challenge unset raw time sockets host port passwd passwdLength key si n iv to x a
      = Inr (CONNECTION_ATTEMPT_POSTED, a')"
    and "2 ^ 32 - 1 \<le> unat time"
  shows "Queue_Size (connReqQ a') = 1 \<and> request_cycles w ts a' = Inr a'"
proof -
  obtain r where r: "q_ok (connReqQ a')" "queue_elems (connReqQ a') = queue_elems (connReqQ a) @ [r]" "nextRequestTime r = time"
    using Connect_request [OF assms(1) _ assms(3)] assms(2) by (auto simp: posted_def)
  have q: "queue_elems (connReqQ a') = [r]" using r(2) assms(2) by (simp add: queue_elems_Nil_iff)
  then have size: "Queue_Size (connReqQ a') = 1" using only_request_size [of r a'] r(1) by (simp add: only_request_def)
  have "\<not> time < ucast t" for t :: u32
    using assms(4) unsigned_less [of t, where 'a = nat]
    by (simp add: word_less_nat_alt unsigned_ucast_eq take_bit_nat_eq_self)
  then have "ProcessConnectionRequestQ w 1 t a' = Inr (1, t, a')" for t
    using ProcessConnectionRequestQ_idle [OF r(1), of 1 t w] size q r(3) by simp
  then have "request_cycles w ts a' = Inr a'" by (induction ts) simp_all
  with size show ?thesis by simp
qed

theorem late_request_never_sent_witness:
  "\<exists>a'. Connect (\<lambda>_. 5) (\<lambda>_. []) False None JACKIE_NULL_ADDRESS raw_request (2 ^ 32)
      [\<lparr>userConnectionSocketIndex = 0, boundAddress = peer 9\<rparr>] (Some ''localhost'') 7 None 0 None 0 6 1000 0 0 idle_app
    = Inr (CONNECTION_ATTEMPT_POSTED, a') \<and> (\<forall>w ts. Queue_Size (connReqQ a') = 1 \<and> request_cycles w ts a' = Inr a')"
proof -
  obtain a' where a': "Connect (\<lambda>_. 5) (\<lambda>_. []) False None JACKIE_NULL_ADDRESS raw_request (2 ^ 32)
      [\<lparr>userConnectionSocketIndex = 0, boundAddress = peer 9\<rparr>] (Some ''localhost'') 7 None 0 None 0 6 1000 0 0 idle_app
    = Inr (CONNECTION_ATTEMPT_POSTED, a')"
    using local_connect [where time = "2 ^ 32"] by blast
  have "Queue_Size (queue_new (\<lambda>_. raw_request)) = 0" by (simp add: Queue_Size_def queue_new_def)
  then show ?thesis using late_request_never_sent [OF _ _ a'] a' by simp
qed

text \<open>A connection for which Connect was given one or two attempts (or none) makes the network thread divide by
  zero.\<close>

lemma few_attempts_divide_by_zero:
  assumes "q_ok (connReqQ a)" and "Queue_Size (connReqQ a) = 0"
    and "Connect inet_addr resolve be challenge unset raw time sockets host port passwd passwdLength key si n iv to x a
      = Inr (CONNECTION_ATTEMPT_POSTED, a')"
    and "unat n < 3" and "timeUS \<noteq> 0" and "time < ucast timeMS"
  shows "ProcessConnectionRequestQ w timeUS timeMS a' = Inl DivisionByZero"
proof -
  obtain r where r: "q_ok (connReqQ a')" "queue_elems (connReqQ a') = queue_elems (connReqQ a) @ [r]"
      "connAttemptTimes r = ucast n" "requestsMade r = 0" "nextRequestTime r = time"
    using Connect_request [OF assms(1) _ assms(3)] assms(2) by (auto simp: posted_def)
  have "queue_elems (connReqQ a) = []" using assms(2) by (simp add: queue_elems_Nil_iff)
  then have "only_request r a'" using r(1,2) by (simp add: only_request_def)
  moreover have "unat (connAttemptTimes r) < 3"
    using assms(4) unsigned_less [of n, where 'a = nat] by (simp add: r(3) unsigned_ucast_eq take_bit_nat_eq_self)
  ultimately show ?thesis using few_attempts_fail [of r a' timeUS timeMS w] r(4,5) assms(5,6) by simp
qed

section \<open>Places of the server\<close>

text \<open>C3: The second request of a client that is unknown, to a server without security, gets it a place among the end
  points, which stay consistent, and an answer; the same request again, as it comes when the answer is lost, gets the
  same answer and changes no end point.\<close>

theorem second_request_repeated:
  assumes "endpoints_ok False (eps a)" and "\<not> big_endian w" and "valid_address (senderINetAddress rp)"
    and "unknown (eps a) (senderINetAddress rp) gd" and "\<not> is_null_guid gd" and "unat mtu \<le> MAXIMUM_MTU_SIZE"
    and "localBoundSocket rp < length (boundAddrs w)" and "CanAcceptIncomingConnection (eps a) = Inr True"
    and "\<not> floods (ucast (time_ms w)) (senderINetAddress rp) (eps a)" and "\<exists>r \<in> set (remoteSystemList (eps a)). \<not> isActive r"
  shows "\<exists>a1 a2 i d. answer_request2 w rp (False, ch, addr, mtu, gd) a = Inr a1 \<and>
    answer_request2 w rp (False, ch, addr, mtu, gd) a1 = Inr a2 \<and>
    take 17 d = ID_OPEN_CONNECTION_REPLY_2 # OFFLINE_MESSAGE_DATA_ID \<and>
    sent a1 = sent a @ [(senderINetAddress rp, d)] \<and> sent a2 = sent a1 @ [(senderINetAddress rp, d)] \<and>
    endpoints_ok False (eps a1) \<and> eps a2 = eps a1 \<and>
    GetRemoteSystem_address False (senderINetAddress rp) True True (eps a1) = Inr (Some i) \<and>
    \<not> isActive (remoteSystemList (eps a) ! i) \<and> rs_guid (remoteSystemList (eps a1) ! i) = gd \<and>
    (\<forall>j < maxConnections (eps a). j \<noteq> i \<longrightarrow> remoteSystemList (eps a1) ! j = remoteSystemList (eps a) ! j)"
proof -
  have be: "big_endian w = False" using assms(2) by simp
  note ok = assms(1) [folded be]
  obtain d where d: "datagram_of w (reply2 w rp mtu False a) = Inr d"
    "take 17 d = ID_OPEN_CONNECTION_REPLY_2 # OFFLINE_MESSAGE_DATA_ID"
    using reply2_datagram [of w rp mtu False a] assms(2,3) by (auto simp: valid_address_def)
  obtain t i where t: "answer_request2 w rp (False, ch, addr, mtu, gd) a = Inr (answer_with w rp d (a\<lparr>eps := t\<rparr>))"
    "endpoints_ok (big_endian w) t" "same_settings (eps a) t" "\<not> isActive (remoteSystemList (eps a) ! i)"
    "known_at (big_endian w) t (senderINetAddress rp) gd i"
    "\<forall>j < maxConnections (eps a). j \<noteq> i \<longrightarrow> remoteSystemList t ! j = remoteSystemList (eps a) ! j"
    using new_client_placed [OF ok assms(3-9) d(1), of ch addr] assms(10)
    by (elim exE conjE) (simp only: if_P if_not_P, metis)
  let ?a1 = "answer_with w rp d (a\<lparr>eps := t\<rparr>)"
  have "reply2 w rp mtu False ?a1 = reply2 w rp mtu False a" using t(3) by (simp add: reply2_def same_settings_def)
  then have d1: "datagram_of w (reply2 w rp mtu False ?a1) = Inr d" using d(1) by simp
  have again: "answer_request2 w rp (False, ch, addr, mtu, gd) ?a1 = Inr (answer_with w rp d ?a1)"
    by (rule known_client_answered [OF _ assms(3) _ assms(5) d1]) (use t in simp_all)
  have "GetRemoteSystem_address False (senderINetAddress rp) True True t = Inr (Some i)"
    using lookup_sender [OF t(2) assms(3)] t(5) be by (simp add: known_at_def)
  then show ?thesis
    using t again d(2) be by (intro exI [of _ ?a1] exI [of _ "answer_with w rp d ?a1"] exI [of _ i] exI [of _ d])
      (simp add: known_at_def)
qed

abbreviation new_server :: app where
  "new_server \<equiv> (test_app 1)\<lparr>eps := setup_connections 1 (\<lambda>_. raw_endpoint) no_endpoints\<rparr>"

lemma new_server_ok:
  "endpoints_ok False (eps new_server)" "unknown (eps new_server) far (guid_of 4)"
  "CanAcceptIncomingConnection (eps new_server) = Inr True" "\<not> floods t far (eps new_server)"
  "\<exists>r \<in> set (remoteSystemList (eps new_server)). \<not> isActive r"
  using setup_endpoints_ok [of no_endpoints 1 False "\<lambda>_. raw_endpoint"]
  by (simp_all add: unknown_def setup_connections_def endpoint_init_def CanAcceptIncomingConnection_def
      GetIncomingConnectionsCount_def floods_def)

lemma far_valid [simp]: "valid_address far" "address_eq (peer 6) far = False"
  by (simp_all add: valid_address_def addr_key_def address_eq_def EqualsExcludingPort_def peer_def
      JACKIE_NULL_ADDRESS_def address_default_def)

lemma some_guids [simp]: "\<not> is_null_guid (guid_of 4)" "\<not> is_null_guid (guid_of 9)" "\<not> guid_eq (guid_of 9) (guid_of 4)"
  by (simp_all add: guid_eq_def guid_of_def JACKIE_NULL_GUID_def)

theorem second_request_repeated_witness:
  "\<exists>a1 a2 d. answer_request2 test_world (arrived []) (False, [], far, 1200, guid_of 4) new_server = Inr a1 \<and>
     answer_request2 test_world (arrived []) (False, [], far, 1200, guid_of 4) a1 = Inr a2 \<and>
     sent a2 = [(far, d), (far, d)] \<and> eps a2 = eps a1"
proof -
  have "senderINetAddress (arrived []) = far" "localBoundSocket (arrived []) < length (boundAddrs test_world)"
    "sent new_server = []" "unat (1200 :: u16) \<le> MAXIMUM_MTU_SIZE"
    by (simp_all add: arrived_def test_world_def test_app_def MAXIMUM_MTU_SIZE_def)
  then show ?thesis
    using second_request_repeated [of new_server test_world "arrived []" "guid_of 4" 1200 "[]" far] new_server_ok
    by (simp only: test_world_le far_valid some_guids not_False_eq_True) fastforce
qed

text \<open>C31: A server whose places are all taken by clients that have not been heard of since their request still counts
  none of them as a connection: it answers the next client that it is accepted, and gives it no place.\<close>

theorem full_server_answers:
  assumes "endpoints_ok False (eps a)" and "\<not> big_endian w" and "valid_address (senderINetAddress rp)"
    and "unknown (eps a) (senderINetAddress rp) gd" and "\<not> is_null_guid gd" and "unat mtu \<le> MAXIMUM_MTU_SIZE"
    and "localBoundSocket rp < length (boundAddrs w)" and "\<not> floods (ucast (time_ms w)) (senderINetAddress rp) (eps a)"
    and "0 < maxConnections (eps a)"
    and "\<forall>r \<in> set (remoteSystemList (eps a)). isActive r \<and> connectMode r = UNVERIFIED_SENDER"
  shows "\<exists>a' d. answer_request2 w rp (False, ch, addr, mtu, gd) a = Inr a' \<and> eps a' = eps a \<and>
    take 17 d = ID_OPEN_CONNECTION_REPLY_2 # OFFLINE_MESSAGE_DATA_ID \<and> sent a' = sent a @ [(senderINetAddress rp, d)]"
proof -
  have be: "big_endian w = False" using assms(2) by simp
  note ok = assms(1) [folded be]
  have can: "CanAcceptIncomingConnection (eps a) = Inr True"
    by (rule unverified_not_counted [OF ok assms(9,10)])
  obtain d where d: "datagram_of w (reply2 w rp mtu False a) = Inr d"
    "take 17 d = ID_OPEN_CONNECTION_REPLY_2 # OFFLINE_MESSAGE_DATA_ID"
    using reply2_datagram [of w rp mtu False a] assms(2,3) by (auto simp: valid_address_def)
  obtain t where "answer_request2 w rp (False, ch, addr, mtu, gd) a = Inr (answer_with w rp d (a\<lparr>eps := t\<rparr>))" "t = eps a"
    using new_client_placed [OF ok assms(3-7) can assms(8) d(1), of ch addr] assms(10) by auto
  then show ?thesis using d(2) by simp
qed

lemma full_server_exists:
  "\<exists>t. endpoints_ok False t \<and> unknown t far (guid_of 4) \<and> \<not> floods m far t \<and> 0 < maxConnections t \<and>
    (\<forall>r \<in> set (remoteSystemList t). isActive r \<and> connectMode r = UNVERIFIED_SENDER)"
proof -
  obtain t where t: "t = setup_connections 1 (\<lambda>_. raw_endpoint) no_endpoints" by blast
  have rs: "remoteSystemList t = [endpoint_init 576 (\<lambda>_. raw_endpoint) 0]" "maxConnections t = 1"
    "limitConnFrequencyOfSameClient t = False"
    by (simp_all add: t setup_connections_def)
  have idle: "\<not> isActive (endpoint_init 576 (\<lambda>_. raw_endpoint) 0)" by (simp add: endpoint_init_def)
  have ok: "endpoints_ok False t" unfolding t by (rule setup_endpoints_ok) simp_all
  obtain t' free_rs recvd where add: "Add2RemoteSystemList False 9 [peer 1] 0 1200 (peer 2) (guid_of 9) (peer 6) t
      = Inr (t', free_rs, floods 9 (peer 6) t, recvd)" "endpoints_ok False t'" "maxConnections t' = 1"
    and r: "isActive (remoteSystemList t' ! 0)" "systemAddress (remoteSystemList t' ! 0) = peer 6"
      "connectMode (remoteSystemList t' ! 0) = UNVERIFIED_SENDER" "rs_guid (remoteSystemList t' ! 0) = guid_of 9"
    using Add2RemoteSystemList_ok [OF ok peer_valid(1) [of 6], of 1200 0 "[peer 1]" 9 "peer 2" "guid_of 9"] idle
    by (auto simp: rs MAXIMUM_MTU_SIZE_def)
  have "length (remoteSystemList t') = 1" using endpoints_okD [OF add(2)] add(3) by simp
  then have "remoteSystemList t' = [remoteSystemList t' ! 0]" by (cases "remoteSystemList t'") simp_all
  then have "\<forall>x \<in> set (remoteSystemList t'). x = remoteSystemList t' ! 0" by (metis list.set(1) list.set(2) singletonD)
  moreover have "limitConnFrequencyOfSameClient t' = False"
    using Add2_keeps [OF add(1)] rs(3) by (simp add: same_settings_def)
  ultimately show ?thesis
    using add(2,3) r by (intro exI [of _ t']) (auto simp: unknown_def floods_def)
qed

theorem full_server_answers_witness:
  "\<exists>a a' d. answer_request2 test_world (arrived []) (False, [], far, 1200, guid_of 4) a = Inr a' \<and>
     eps a' = eps a \<and> remoteSystemList (eps a) \<noteq> [] \<and> sent a' = sent a @ [(far, d)]"
proof -
  obtain t where t: "endpoints_ok False t" "unknown t far (guid_of 4)" "\<not> floods (ucast (time_ms test_world)) far t"
    "0 < maxConnections t" "\<forall>r \<in> set (remoteSystemList t). isActive r \<and> connectMode r = UNVERIFIED_SENDER"
    using full_server_exists by blast
  let ?a = "(test_app 1)\<lparr>eps := t\<rparr>"
  have e: "eps ?a = t" by simp
  have s: "senderINetAddress (arrived []) = far" "localBoundSocket (arrived []) < length (boundAddrs test_world)"
    "unat (1200 :: u16) \<le> MAXIMUM_MTU_SIZE"
    by (simp_all add: arrived_def test_world_def MAXIMUM_MTU_SIZE_def)
  have "remoteSystemList t \<noteq> []" using endpoints_okD [OF t(1)] t(4) by auto
  then show ?thesis
    using full_server_answers [of ?a test_world "arrived []" "guid_of 4" 1200 "[]" far, unfolded e s(1),
        OF t(1) test_world_le far_valid(1) t(2) some_guids(1) s(3,2) t(3,4,5)] e by metis
qed

section \<open>Messages for several end points\<close>

text \<open>C32: A broadcast to two or more end points writes behind the list of its receivers, which has room for one; with
  exactly one receiver the message is handed over to it, and with none nothing happens.\<close>

theorem broadcast_overflows:
  assumes "find_receiver be (receiverAdress p) (eps a) = Inr (skip, t)" and "broadcast p"
  shows "case receivers skip 0 (take (maxConnections t) (remoteSystemList t)) of
      [] \<Rightarrow> SendImmediate be p a = Inr (False, p, a\<lparr>eps := t\<rparr>)
    | [i] \<Rightarrow> \<exists>p' a'. SendImmediate be p a = Inr (useCallerDataAllocation p, p', a') \<and>
               calls a' = calls a @ [ReliabilitySend i (send_data p)]
    | _ \<Rightarrow> SendImmediate be p a = Inl OutOfBounds"
proof -
  let ?l = "receivers skip 0 (take (maxConnections t) (remoteSystemList t))"
  have l: "broadcast_list skip 0 [] (take (maxConnections t) (remoteSystemList t)) =
      (if length ?l \<le> 1 then Inr ?l else Inl OutOfBounds)"
    by (simp add: broadcast_list_receivers)
  have one: "i < length (remoteSystemList t)" if "?l = [i]" for i
  proof -
    have "i \<in> set ?l" using that by simp
    then show ?thesis unfolding receivers_def by (auto simp: in_set_enumerate_eq)
  qed
  show ?thesis
    using assms l one by (auto simp: SendImmediate_def get_at_def Let_def split: list.split)
qed

theorem broadcast_overflows_witness:
  "SendImmediate False
     \<lparr>broadcast = True, useCallerDataAllocation = False, send_data = [1], bitsSize = 8,
      packetReliability = UNRELIABLE_NOT_ACK_RECEIPT_OF_PACKET,
      receiverAdress = \<lparr>w_guid = JACKIE_NULL_GUID, w_systemAddress = JACKIE_NULL_ADDRESS\<rparr>, currentTime = 0, send_mtu = 0\<rparr>
     ((test_app 1)\<lparr>eps := no_endpoints\<lparr>maxConnections := 2,
        remoteSystemList := replicate 2 (raw_endpoint\<lparr>systemAddress := peer 5\<rparr>)\<rparr>\<rparr>) = Inl OutOfBounds"
proof -
  let ?r = "raw_endpoint\<lparr>systemAddress := peer 5\<rparr>"
  let ?t = "no_endpoints\<lparr>maxConnections := 2, remoteSystemList := replicate 2 ?r\<rparr>"
  let ?w = "\<lparr>w_guid = JACKIE_NULL_GUID, w_systemAddress = JACKIE_NULL_ADDRESS\<rparr>"
  have f: "find_receiver False ?w ?t = Inr (None, ?t)"
    by (simp add: find_receiver_def guid_eq_def is_null_key)
  have "\<not> is_null (peer 5)" using peer_valid [of 5] by (simp add: valid_address_def is_null_key)
  then have "receivers None 0 (take 2 (replicate 2 ?r)) = [0, 1]"
    by (simp add: receivers_Cons numeral_2_eq_2)
  then show ?thesis
    using broadcast_overflows [of False "\<lparr>broadcast = True, useCallerDataAllocation = False, send_data = [1], bitsSize = 8,
      packetReliability = UNRELIABLE_NOT_ACK_RECEIPT_OF_PACKET, receiverAdress = ?w, currentTime = 0, send_mtu = 0\<rparr>"
      "(test_app 1)\<lparr>eps := ?t\<rparr>" None ?t] f by simp
qed

end
