(* ===== verification/Local_Addresses.thy ===== *)
theory Local_Addresses
  imports Connection_Slots "HOL-Library.Multiset"
begin

text \<open>
  The addresses of the machine itself: \<^verbatim>\<open>GetMyIPBerkleyV4\<close> of \<^verbatim>\<open>src/network_socket_t.cpp\<close>, \<^verbatim>\<open>InitIPAddress\<close> of
  \<^verbatim>\<open>src/geco_application.cpp\<close> and \<^verbatim>\<open>GetLocalIPAddrCount\<close> of \<^verbatim>\<open>include/geco_application.h\<close>. What
  \<^verbatim>\<open>gethostname\<close> and \<^verbatim>\<open>gethostbyname\<close> deliver is the argument \<open>hosts\<close>: the addresses of the host, or \<open>None\<close>
  when one of the two fails.
\<close>

section \<open>Operations\<close>

definition GetMyIPBerkleyV4 :: "u32 list option \<Rightarrow> network_address list \<Rightarrow> network_address list" where
  "GetMyIPBerkleyV4 hosts addresses =
     (case hosts of
        None \<Rightarrow> addresses
      | Some h_addr_list \<Rightarrow>
          map (\<lambda>idx. if idx < length h_addr_list then (addresses ! idx)\<lparr>s_addr := h_addr_list ! idx\<rparr>
                     else JACKIE_NULL_ADDRESS) [0..<MAX_COUNT_LOCAL_IP_ADDR])"

text \<open>
  The inner loop. It compares with the address at \<^verbatim>\<open>startingIdx\<close>, not with the lowest one found so far; the
  round of \<^verbatim>\<open>curIdx\<close> has \<open>fuel\<close> more rounds after it.
\<close>

fun lowest_loop :: "nat \<Rightarrow> nat \<Rightarrow> nat \<Rightarrow> nat \<Rightarrow> network_address list \<Rightarrow> nat" where
  "lowest_loop 0 curIdx startingIdx lowestIdx l = lowestIdx"
| "lowest_loop (Suc fuel) curIdx startingIdx lowestIdx l =
     (if curIdx < MAX_COUNT_LOCAL_IP_ADDR - 1 \<and> \<not> is_null (l ! curIdx)
      then lowest_loop fuel (curIdx + 1) startingIdx
             (if address_less (l ! curIdx) (l ! startingIdx) then curIdx else lowestIdx) l
      else lowestIdx)"

definition swap_places :: "nat \<Rightarrow> nat \<Rightarrow> 'a list \<Rightarrow> 'a list" where
  "swap_places i j l = (if i \<noteq> j then l[i := l ! j, j := l ! i] else l)"

fun sort_loop :: "nat \<Rightarrow> nat \<Rightarrow> network_address list \<Rightarrow> network_address list" where
  "sort_loop 0 startingIdx l = l"
| "sort_loop (Suc fuel) startingIdx l =
     (if startingIdx < MAX_COUNT_LOCAL_IP_ADDR - 1 \<and> \<not> is_null (l ! startingIdx)
      then let lowestIdx = lowest_loop MAX_COUNT_LOCAL_IP_ADDR (startingIdx + 1) startingIdx startingIdx l
           in sort_loop fuel (startingIdx + 1) (swap_places startingIdx lowestIdx l)
      else l)"

definition InitIPAddress :: "u32 list option \<Rightarrow> endpoints \<Rightarrow> endpoints res" where
  "InitIPAddress hosts t =
     rbind (get_at (localIPAddrs t) 0) (\<lambda>first.
     rbind (rassert (is_null first)) (\<lambda>_.
       Inr (t\<lparr>localIPAddrs :=
         sort_loop MAX_COUNT_LOCAL_IP_ADDR 0 (GetMyIPBerkleyV4 hosts (localIPAddrs t))\<rparr>)))"

text \<open>\<open>active t\<close> is \<^verbatim>\<open>active()\<close>. The count goes on over the end of the array when no address in it is null.\<close>

definition active :: "endpoints \<Rightarrow> bool" where
  "active t \<longleftrightarrow> \<not> endThreads t"

definition GetLocalIPAddrCount :: "u32 list option \<Rightarrow> endpoints \<Rightarrow> (nat \<times> endpoints) res" where
  "GetLocalIPAddrCount hosts t =
     rbind (if \<not> active t then InitIPAddress hosts t else Inr t) (\<lambda>t.
       let i = length (takeWhile (\<lambda>a. \<not> is_null a) (localIPAddrs t))
       in if i < length (localIPAddrs t) then Inr (i, t) else Inl OutOfBounds)"

section \<open>What the sorting keeps\<close>

lemma lowest_loop_less:
  "lowestIdx < n \<Longrightarrow> MAX_COUNT_LOCAL_IP_ADDR - 1 \<le> n \<Longrightarrow> lowest_loop fuel curIdx startingIdx lowestIdx l < n"
  by (induction fuel arbitrary: curIdx lowestIdx) auto

lemma swap_places_mset: "i < length l \<Longrightarrow> j < length l \<Longrightarrow> mset (swap_places i j l) = mset l"
  by (simp add: swap_places_def mset_swap)

lemma length_swap_places [simp]: "length (swap_places i j l) = length l"
  by (simp add: swap_places_def)

lemma sort_loop_mset:
  "length l = MAX_COUNT_LOCAL_IP_ADDR \<Longrightarrow>
   mset (sort_loop fuel startingIdx l) = mset l \<and> length (sort_loop fuel startingIdx l) = MAX_COUNT_LOCAL_IP_ADDR"
proof (induction fuel startingIdx l rule: sort_loop.induct)
  case (2 fuel startingIdx l)
  let ?j = "lowest_loop MAX_COUNT_LOCAL_IP_ADDR (startingIdx + 1) startingIdx startingIdx l"
  show ?case
  proof (cases "startingIdx < MAX_COUNT_LOCAL_IP_ADDR - 1 \<and> \<not> is_null (l ! startingIdx)")
    case True
    then have i: "startingIdx < length l" using 2(2) by linarith
    then have "?j < length l" using lowest_loop_less [of startingIdx "length l"] 2(2) by simp
    then have "mset (swap_places startingIdx ?j l) = mset l" by (rule swap_places_mset [OF i])
    then show ?thesis using 2 True by (simp add: Let_def)
  qed (use 2(2) in auto)
qed simp

lemma length_GetMyIP [simp]:
  "length l = MAX_COUNT_LOCAL_IP_ADDR \<Longrightarrow> length (GetMyIPBerkleyV4 hosts l) = MAX_COUNT_LOCAL_IP_ADDR"
  by (simp add: GetMyIPBerkleyV4_def split: option.split)

lemma InitIPAddress_ok:
  assumes "length (localIPAddrs t) = MAX_COUNT_LOCAL_IP_ADDR" and "InitIPAddress hosts t = Inr t'"
  shows "mset (localIPAddrs t') = mset (GetMyIPBerkleyV4 hosts (localIPAddrs t)) \<and>
    length (localIPAddrs t') = MAX_COUNT_LOCAL_IP_ADDR"
  using assms sort_loop_mset by (auto simp: InitIPAddress_def rbind_eq_Inr)

end
