(* ===== verification/Engine_State.thy ===== *)
theory Engine_State
  imports Offline_Dispatch Local_Addresses
begin

text \<open>
  The state the three threads of the engine share, the rest of the one in \<open>Application_State\<close>: the queues between
  the user thread, the network thread and the receiving threads, the pools their objects come from, and the
  plugins. The queues are lists, the oldest element first; that the queue between two threads is such a list
  under every interleaving is shown of \<open>Spsc_Queue\<close>. A thread that has to wait for room in a queue waits here for
  no time.
\<close>

section \<open>Commands\<close>

datatype command_id =
    BCS_SEND | BCS_CLOSE_CONNECTION | BCS_GET_SOCKET | BCS_CHANGE_SYSTEM_ADDRESS | BCS_ADD_2_BANNED_LIST
  | BCS_CONEECT | BCS_DO_NOTHING

text \<open>
  A command. The buffer \<^verbatim>\<open>data\<close> points to is there or not; of the union, the commands use \<^verbatim>\<open>repStatus\<close> or
  \<^verbatim>\<open>arrayparams\<close>, never both.
\<close>

record cmd =
  commandID :: command_id
  systemIdentifier :: guid_address_wrapper
  cmd_data :: "command_data option"
  repStatus :: ConnectMode
  arrayparams :: "u8 list"

section \<open>Plugins\<close>

datatype plugin_action_to_take = PROCESSED_BY_ME_THEN_DEALLOC | PROCESSED_BY_OTHERS | HOLD_ON_BY_ME_NOT_DEALLOC

datatype connection_lost_reason = LCR_CLOSED_BY_USER | LCR_DISCONNECTION_NOTIFICATION | LCR_CONNECTION_LOST

datatype connection_attempt_fail_reason =
    CAFR_CONNECTION_ATTEMPT_FAILED | CAFR_ALREADY_CONNECTED | CAFR_NO_FREE_INCOMING_CONNECTIONS
  | CAFR_SECURITY_PUBLIC_KEY_MISMATCH | CAFR_CONNECTION_BANNED | CAFR_INVALID_PASSWORD | CAFR_INCOMPATIBLE_PROTOCOL
  | CAFR_IP_RECENTLY_CONNECTED | CAFR_REMOTE_SYSTEM_REQUIRES_PUBLIC_KEY | CAFR_OUR_SYSTEM_REQUIRES_SECURITY
  | CAFR_PUBLIC_KEY_MISMATCH

text \<open>The calls of the methods of a plugin; a packet is handed over as a pointer, which can be null.\<close>

datatype plugin_call =
    OnAttach
  | OnStartup
  | Update
  | OnClosedConnection network_address guid connection_lost_reason
  | OnNewConnection network_address guid bool
  | OnFailedConnectionAttempt packet connection_attempt_fail_reason
  | OnRecvPacket "packet option"

text \<open>A plugin is the number of its object; what the engine sees of it are these results of its methods.\<close>

record plugin_methods =
  UsesReliabilityLayer :: "nat \<Rightarrow> bool"
  OnRecvPacket_result :: "nat \<Rightarrow> packet option \<Rightarrow> plugin_action_to_take"

section \<open>The state\<close>

text \<open>
  A buffer for a received datagram: how many buffers had been taken from the pools before it, which tells it from all
  others, the number of the pool it was taken from, and its contents. The code has no such numbers.
\<close>

record recv_buffer =
  buffer_number :: nat
  buffer_pool :: nat
  buffer_params :: recv_params

text \<open>
  The lists \<open>reclaimed_commands\<close>, \<open>reclaimed_packets\<close> and \<open>reclaimed_buffers\<close> are what was given back to the pools;
  a buffer is there with the number of the pool it was given to.
\<close>

record engine =
  app_of :: app
  pluginListTS :: "nat list"
  pluginListNTS :: "nat list"
  plugin_calls :: "(nat \<times> plugin_call) list"
  allocCommandQ :: "cmd list"
  deAllocCommandQ :: "cmd list"
  reclaimed_commands :: "cmd list"
  deAllocPacketQ :: "packet option list"
  reclaimed_packets :: "packet list"
  allocRecvParamQ :: "recv_buffer list list"
  deAllocRecvParamQ :: "recv_buffer list list"
  reclaimed_buffers :: "(nat \<times> recv_buffer) list"
  buffers_taken :: nat

section \<open>Queues as lists\<close>

definition list_push :: "'a \<Rightarrow> 'a list \<Rightarrow> 'a list res" where
  "list_push x q = Inr (q @ [x])"

definition list_pop :: "'a list \<Rightarrow> ('a option \<times> 'a list) res" where
  "list_pop q = Inr (case q of [] \<Rightarrow> (None, []) | x # xs \<Rightarrow> (Some x, xs))"

interpretation engine_fifo: fifo list_push list_pop length "\<lambda>q. q" "\<lambda>q n. True"
  by unfold_locales (simp_all add: list_push_def list_pop_def)

text \<open>What the loop \<^verbatim>\<open>for (i = 0; i < q.Size(); i++) { q.PopHead(x); ... }\<close> takes out and what it leaves.\<close>

abbreviation first_half :: "'a list \<Rightarrow> 'a list" where
  "first_half q \<equiv> take ((length q + 1) div 2) q"

abbreviation second_half :: "'a list \<Rightarrow> 'a list" where
  "second_half q \<equiv> drop ((length q + 1) div 2) q"

lemma drain_list: "drain_queue list_pop length q = Inr (first_half q, second_half q)"
  using engine_fifo.drain_takes_half [of q] by auto

text \<open>
  The same loop with a body that works on the state the queue is in. The body gets the index of the round and the
  element; \<open>q\<close> reads the queue of a state and \<open>upd\<close> puts another one in. The rounds are at most one more than the
  elements, unless the body lets the queue grow.
\<close>

fun each_popped ::
  "nat \<Rightarrow> nat \<Rightarrow> ('s \<Rightarrow> 'x list) \<Rightarrow> ('x list \<Rightarrow> 's \<Rightarrow> 's) \<Rightarrow> (nat \<Rightarrow> 'x \<Rightarrow> 's \<Rightarrow> 's res) \<Rightarrow> 's \<Rightarrow> 's res" where
  "each_popped 0 index q upd body s = Inl OutOfFuel"
| "each_popped (Suc fuel) index q upd body s =
     (if index < length (q s)
      then rbind (body index (hd (q s)) (upd (tl (q s)) s)) (each_popped fuel (index + 1) q upd body)
      else Inr s)"

text \<open>An invariant of the state that each round keeps; a body that does not let the queue grow leaves it short enough.\<close>

lemma each_popped_good:
  assumes round: "\<And>index x xs s. P s \<Longrightarrow> q s = x # xs \<Longrightarrow> good P (body index x (upd xs s))"
  shows "P s \<Longrightarrow> good P (each_popped fuel index q upd body s)"
proof (induction fuel arbitrary: index s)
  case (Suc fuel)
  show ?case
  proof (cases "q s")
    case (Cons x xs)
    then have "good P (body index x (upd xs s))" using round Suc.prems by blast
    then have "good P (rbind (body index x (upd xs s)) (each_popped fuel (index + 1) q upd body))"
      by (rule good_then) (rule Suc.IH)
    then show ?thesis using Cons Suc.prems by simp
  qed (use Suc.prems in simp)
qed simp

lemma each_popped_ends:
  assumes "\<And>index x s s'. body index x s = Inr s' \<Longrightarrow> length (q s') \<le> length (q s) + 1"
    and "\<And>index x s. body index x s \<noteq> Inl OutOfFuel" and "\<And>l s. q (upd l s) = l"
  shows "length (q s) - index < fuel \<Longrightarrow> each_popped fuel index q upd body s \<noteq> Inl OutOfFuel"
proof (induction fuel arbitrary: index s)
  case (Suc fuel)
  show ?case
  proof (cases "index < length (q s)")
    case True
    then obtain x xs where x: "q s = x # xs" by (cases "q s") auto
    show ?thesis
    proof (cases "body index x (upd xs s)")
      case (Inr s')
      have "length (q s') \<le> length xs + 1" using assms(1) [OF Inr] assms(3) by simp
      then have "length (q s') - (index + 1) < fuel" using Suc.prems x True by auto
      then have "each_popped fuel (index + 1) q upd body s' \<noteq> Inl OutOfFuel" by (rule Suc.IH)
      then show ?thesis using True x Inr by simp
    qed (use True x assms(2) in auto)
  qed simp
qed simp

end
