(* ===== verification/Plugins.thy ===== *)
theory Plugins
  imports Engine_State
begin

text \<open>
  The user thread: \<^verbatim>\<open>set_plugin\<close>, \<^verbatim>\<open>PacketGoThroughPluginCBs\<close>, \<^verbatim>\<open>PacketGoThroughPlugins\<close>, \<^verbatim>\<open>UpdatePlugins\<close>,
  \<^verbatim>\<open>reclaim_packet\<close>, \<^verbatim>\<open>AdjustTimestamp\<close>, \<^verbatim>\<open>RunGetPacketCycleOnce\<close> and \<^verbatim>\<open>fetch_packet\<close> of
  \<^verbatim>\<open>src/geco_application.cpp\<close>, and the commands the user posts.
\<close>

definition call_plugin :: "nat \<Rightarrow> plugin_call \<Rightarrow> engine \<Rightarrow> engine" where
  "call_plugin plugin c e = e\<lparr>plugin_calls := plugin_calls e @ [(plugin, c)]\<rparr>"

text \<open>The handlers of datagrams call the plugins that use the reliability layer, so \<open>app\<close> keeps their number.\<close>

definition set_plugin :: "plugin_methods \<Rightarrow> nat \<Rightarrow> engine \<Rightarrow> engine" where
  "set_plugin m plugin e =
     (if UsesReliabilityLayer m plugin then
        if plugin \<notin> set (pluginListNTS e) then
          let e = call_plugin plugin OnAttach e
          in e\<lparr>pluginListNTS := pluginListNTS e @ [plugin],
               app_of := (app_of e)\<lparr>pluginListNTS_Size := length (pluginListNTS e) + 1\<rparr>\<rparr>
        else e
      else
        if plugin \<notin> set (pluginListTS e) then
          let e = call_plugin plugin OnAttach e in e\<lparr>pluginListTS := pluginListTS e @ [plugin]\<rparr>
        else e)"

section \<open>Events\<close>

abbreviation (input) ID_CONNECTION_REQUEST_ACCEPTED :: u8 where "ID_CONNECTION_REQUEST_ACCEPTED \<equiv> 16"
abbreviation (input) ID_NEW_INCOMING_CONNECTION :: u8 where "ID_NEW_INCOMING_CONNECTION \<equiv> 19"
abbreviation (input) ID_DISCONNECTION_NOTIFICATION :: u8 where "ID_DISCONNECTION_NOTIFICATION \<equiv> 21"
abbreviation (input) ID_CONNECTION_LOST :: u8 where "ID_CONNECTION_LOST \<equiv> 22"
abbreviation (input) ID_INVALID_PASSWORD :: u8 where "ID_INVALID_PASSWORD \<equiv> 24"
abbreviation (input) ID_TIMESTAMP :: u8 where "ID_TIMESTAMP \<equiv> 27"

text \<open>The switch of \<^verbatim>\<open>PacketGoThroughPluginCBs\<close> on the first byte of a packet.\<close>

definition plugin_event :: "u8 \<Rightarrow> packet \<Rightarrow> plugin_call option" where
  "plugin_event i p =
     (if i = ID_DISCONNECTION_NOTIFICATION then
        Some (OnClosedConnection (packet_address p) (packet_guid p) LCR_DISCONNECTION_NOTIFICATION)
      else if i = ID_CONNECTION_LOST then
        Some (OnClosedConnection (packet_address p) (packet_guid p) LCR_CONNECTION_LOST)
      else if i = ID_NEW_INCOMING_CONNECTION then Some (OnNewConnection (packet_address p) (packet_guid p) True)
      else if i = ID_CONNECTION_REQUEST_ACCEPTED then Some (OnNewConnection (packet_address p) (packet_guid p) False)
      else if i = ID_CONNECTION_ATTEMPT_FAILED then Some (OnFailedConnectionAttempt p CAFR_CONNECTION_ATTEMPT_FAILED)
      else if i = ID_WECLINOTPASS_SRVPUBKEY_WHENCONNECT then
        Some (OnFailedConnectionAttempt p CAFR_REMOTE_SYSTEM_REQUIRES_PUBLIC_KEY)
      else if i = ID_WECLI_SECURE_BUT_SRV_NO then
        Some (OnFailedConnectionAttempt p CAFR_OUR_SYSTEM_REQUIRES_SECURITY)
      else if i = ID_PUBLIC_KEY_MISMATCH then Some (OnFailedConnectionAttempt p CAFR_PUBLIC_KEY_MISMATCH)
      else if i = ID_ALREADY_CONNECTED then Some (OnFailedConnectionAttempt p CAFR_ALREADY_CONNECTED)
      else if i = ID_CANNOT_ACCEPT_INCOMING_CONNECTIONS then
        Some (OnFailedConnectionAttempt p CAFR_NO_FREE_INCOMING_CONNECTIONS)
      else if i = ID_CONNECTION_BANNED then Some (OnFailedConnectionAttempt p CAFR_CONNECTION_BANNED)
      else if i = ID_INVALID_PASSWORD then Some (OnFailedConnectionAttempt p CAFR_INVALID_PASSWORD)
      else if i = ID_INCOMPATIBLE_PROTOCOL_VERSION then Some (OnFailedConnectionAttempt p CAFR_INCOMPATIBLE_PROTOCOL)
      else if i = ID_YOU_CONNECT_TOO_OFTEN then Some (OnFailedConnectionAttempt p CAFR_IP_RECENTLY_CONNECTED)
      else None)"

text \<open>One of its two loops; the byte is read again for each plugin.\<close>

fun event_loop :: "nat list \<Rightarrow> packet \<Rightarrow> engine \<Rightarrow> engine res" where
  "event_loop [] p e = Inr e"
| "event_loop (i # is) p e =
     rbind (packet_id (app_of e) p) (\<lambda>b.
       event_loop is p (case plugin_event b p of None \<Rightarrow> e | Some c \<Rightarrow> call_plugin i c e))"

definition PacketGoThroughPluginCBs :: "packet \<Rightarrow> engine \<Rightarrow> engine res" where
  "PacketGoThroughPluginCBs p e = rbind (event_loop (pluginListTS e) p e) (event_loop (pluginListNTS e) p)"

section \<open>Packets\<close>

text \<open>\<^verbatim>\<open>reclaim_packet\<close> takes whatever pointer it is given.\<close>

definition reclaim_packet :: "packet option \<Rightarrow> engine \<Rightarrow> engine" where
  "reclaim_packet p e = e\<lparr>deAllocPacketQ := deAllocPacketQ e @ [p]\<rparr>"

text \<open>One of the two loops of \<^verbatim>\<open>PacketGoThroughPlugins\<close>; the result is the pointer as the loop leaves it.\<close>

fun offer_loop :: "plugin_methods \<Rightarrow> nat list \<Rightarrow> packet option \<Rightarrow> engine \<Rightarrow> packet option \<times> engine" where
  "offer_loop m [] p e = (p, e)"
| "offer_loop m (i # is) p e =
     (let pluginResult = OnRecvPacket_result m i p; e = call_plugin i (OnRecvPacket p) e
      in if pluginResult = PROCESSED_BY_ME_THEN_DEALLOC then (None, reclaim_packet p e)
         else if pluginResult = HOLD_ON_BY_ME_NOT_DEALLOC then (None, e)
         else offer_loop m is p e)"

definition PacketGoThroughPlugins :: "plugin_methods \<Rightarrow> packet \<Rightarrow> engine \<Rightarrow> packet option \<times> engine" where
  "PacketGoThroughPlugins m p e =
     (let (q, e) = offer_loop m (pluginListTS e) (Some p) e in offer_loop m (pluginListNTS e) q e)"

fun update_loop :: "nat list \<Rightarrow> engine \<Rightarrow> engine" where
  "update_loop [] e = e"
| "update_loop (i # is) e = update_loop is (call_plugin i Update e)"

definition UpdatePlugins :: "engine \<Rightarrow> engine" where
  "UpdatePlugins e = update_loop (pluginListNTS e) (update_loop (pluginListTS e) e)"

definition ReclaimAllCommands :: "engine \<Rightarrow> engine res" where
  "ReclaimAllCommands e =
     rbind (drain_queue list_pop length (deAllocCommandQ e)) (\<lambda>(cs, q).
       Inr (e\<lparr>deAllocCommandQ := q, reclaimed_commands := reclaimed_commands e @ cs\<rparr>))"

text \<open>\<^verbatim>\<open>AdjustTimestamp\<close> only looks at the first byte; what it is to do for a time stamp is left out in the code.\<close>

definition AdjustTimestamp :: "packet \<Rightarrow> engine \<Rightarrow> engine res" where
  "AdjustTimestamp p e = rbind (packet_id (app_of e) p) (\<lambda>b. if b = ID_TIMESTAMP then Inr e else Inr e)"

definition RunGetPacketCycleOnce :: "plugin_methods \<Rightarrow> engine \<Rightarrow> (packet option \<times> engine) res" where
  "RunGetPacketCycleOnce m e =
     rbind (ReclaimAllCommands e) (\<lambda>e.
     let e = UpdatePlugins e
     in case allocPacketQ (app_of e) of
          [] \<Rightarrow> Inr (None, e)
        | incomePacket # rest \<Rightarrow>
            let e = e\<lparr>app_of := (app_of e)\<lparr>allocPacketQ := rest\<rparr>\<rparr>
            in rbind (AdjustTimestamp incomePacket e) (\<lambda>e.
               rbind (PacketGoThroughPluginCBs incomePacket e) (\<lambda>e.
                 Inr (PacketGoThroughPlugins m incomePacket e))))"

definition fetch_packet :: "plugin_methods \<Rightarrow> engine \<Rightarrow> (packet option \<times> engine) res" where
  "fetch_packet m e = (if \<not> active (eps (app_of e)) then Inr (None, e) else RunGetPacketCycleOnce m e)"

section \<open>Commands of the user\<close>

definition run_cmd :: "cmd \<Rightarrow> engine \<Rightarrow> engine" where
  "run_cmd c e = e\<lparr>allocCommandQ := allocCommandQ e @ [c]\<rparr>"

text \<open>The two commands with arguments; \<open>raw\<close> is the object \<^verbatim>\<open>alloc_cmd\<close> takes from the pool, as it is found there.\<close>

definition post_ban :: "bool \<Rightarrow> cmd \<Rightarrow> string \<Rightarrow> u32 \<Rightarrow> engine \<Rightarrow> engine res" where
  "post_ban be raw IP milliseconds e =
     rbind (ban_remote_system be IP milliseconds (arrayparams raw)) (\<lambda>params.
       Inr (run_cmd (raw\<lparr>commandID := BCS_ADD_2_BANNED_LIST, cmd_data := None, arrayparams := params\<rparr>) e))"

definition Connect_cmd ::
  "world \<Rightarrow> cmd \<Rightarrow> u8 list \<Rightarrow> string \<Rightarrow> u16 \<Rightarrow> string \<Rightarrow> u8 \<Rightarrow> u8 list \<Rightarrow> u8 \<Rightarrow> u8 \<Rightarrow> u16 \<Rightarrow> u32 \<Rightarrow> u32 \<Rightarrow>
     engine \<Rightarrow> engine res" where
  "Connect_cmd w raw unset host port passwd passwdLength key localSocketIndex attemptTimes attemptIntervalMS timeout extra e =
     rbind (FromStringPort (w_inet_addr w) (w_resolve w) (big_endian w) host port
              (w_systemAddress (systemIdentifier raw))) (\<lambda>(ok, addr).
     rbind (Connect_pack (big_endian w) unset passwd passwdLength key localSocketIndex attemptTimes attemptIntervalMS
              timeout extra) (\<lambda>d.
       Inr (run_cmd (raw\<lparr>commandID := BCS_CONEECT, cmd_data := Some d,
                         systemIdentifier := (systemIdentifier raw)\<lparr>w_systemAddress := addr\<rparr>\<rparr>) e)))"

section \<open>The way of a packet\<close>

lemma app_of_call_plugin [simp]: "app_of (call_plugin i c e) = app_of e"
  by (simp add: call_plugin_def)

lemma event_loop_calls:
  assumes "packet_id (app_of e) p = Inr b"
  shows "event_loop is p e = Inr (e\<lparr>plugin_calls := plugin_calls e @
    (case plugin_event b p of None \<Rightarrow> [] | Some c \<Rightarrow> map (\<lambda>i. (i, c)) is)\<rparr>)"
  using assms
  by (induction "is" arbitrary: e) (auto simp: call_plugin_def split: option.splits)

text \<open>A plugin passes a packet on or not; \<open>asked\<close> are the plugins that get to see it.\<close>

abbreviation passes :: "plugin_methods \<Rightarrow> packet option \<Rightarrow> nat \<Rightarrow> bool" where
  "passes m p i \<equiv> OnRecvPacket_result m i p = PROCESSED_BY_OTHERS"

definition asked :: "plugin_methods \<Rightarrow> packet option \<Rightarrow> nat list \<Rightarrow> nat list" where
  "asked m p is = takeWhile (passes m p) is @ take 1 (dropWhile (passes m p) is)"

lemma asked_simps [simp]:
  "asked m p [] = []" "asked m p (i # is) = (if passes m p i then i # asked m p is else [i])"
  by (simp_all add: asked_def)

definition given_back :: "plugin_methods \<Rightarrow> packet option \<Rightarrow> nat list \<Rightarrow> packet option list" where
  "given_back m p is =
     (case dropWhile (passes m p) is of
        [] \<Rightarrow> [] | i # _ \<Rightarrow> if OnRecvPacket_result m i p = PROCESSED_BY_ME_THEN_DEALLOC then [p] else [])"

lemma offer_loop_result:
  "offer_loop m is p e =
     (if \<forall>i \<in> set is. passes m p i then p else None,
      e\<lparr>plugin_calls := plugin_calls e @ map (\<lambda>i. (i, OnRecvPacket p)) (asked m p is),
        deAllocPacketQ := deAllocPacketQ e @ given_back m p is\<rparr>)"
proof (induction "is" arbitrary: e)
  case (Cons i "is")
  then show ?case
    by (cases "OnRecvPacket_result m i p") (simp_all add: given_back_def reclaim_packet_def call_plugin_def Let_def)
qed (simp add: given_back_def)

lemma PacketGoThroughPlugins_result:
  "PacketGoThroughPlugins m p e =
     (let q = (if \<forall>i \<in> set (pluginListTS e). passes m (Some p) i then Some p else None)
      in (if \<forall>i \<in> set (pluginListNTS e). passes m q i then q else None,
          e\<lparr>plugin_calls := plugin_calls e @ map (\<lambda>i. (i, OnRecvPacket (Some p))) (asked m (Some p) (pluginListTS e))
              @ map (\<lambda>i. (i, OnRecvPacket q)) (asked m q (pluginListNTS e)),
            deAllocPacketQ := deAllocPacketQ e @ given_back m (Some p) (pluginListTS e) @ given_back m q (pluginListNTS e)\<rparr>))"
  by (simp add: PacketGoThroughPlugins_def offer_loop_result Let_def)

end
