(* ===== verification/Socket_Calls.thy ===== *)
theory Socket_Calls
  imports Offline_Messages
begin

text \<open>
  \<^verbatim>\<open>berkley_socket_t\<close> of \<^verbatim>\<open>src/network_socket_t.cpp\<close>, as it is compiled for Linux without IPv6. The operating
  system is the record \<open>kernel\<close>: it gives the result of each call as a function of the number of calls made before,
  so nothing is taken for granted of it. A loop that retries a call has \<open>fuel\<close> rounds.
\<close>

section \<open>The operating system\<close>

definition EMSGSIZE :: int where "EMSGSIZE = 90"

definition EWOULDBLOCK :: int where "EWOULDBLOCK = 11"

definition EAGAIN :: int where "EAGAIN = 11"

definition SOCKET_ERROR :: int where "SOCKET_ERROR = -1"

record kernel =
  k_calls :: nat
  k_sendto :: "nat \<Rightarrow> u8 list \<Rightarrow> network_address \<Rightarrow> int"
  k_recvfrom :: "nat \<Rightarrow> int \<times> u8 list \<times> u16 \<times> u32"
  k_errno :: "nat \<Rightarrow> int"
  k_socket :: "nat \<Rightarrow> int"
  k_option :: "nat \<Rightarrow> int"
  k_bind :: "nat \<Rightarrow> network_address \<Rightarrow> int"
  k_getsockname :: "nat \<Rightarrow> (u16 \<times> u32) option"
  k_time :: "nat \<Rightarrow> u64"
  k_ttl :: int

definition called :: "kernel \<Rightarrow> kernel" where
  "called K = K\<lparr>k_calls := k_calls K + 1\<rparr>"

section \<open>The socket\<close>

text \<open>
  A transceiver takes the place of the calls of the system. Of the binding parameters the ones that are read are
  kept.
\<close>

record transceiver =
  JackieINetSendTo :: "u8 list \<Rightarrow> network_address \<Rightarrow> int"
  JackieINetRecvFrom :: "int \<times> u8 list \<times> network_address"

record binding_params =
  bp_port :: u16
  hostAddress :: "string option"
  isNonBlocking :: bool

record berkley_socket =
  sock_boundAddress :: network_address
  binding :: binding_params
  jst :: "transceiver option"
  rns2Socket :: int

record send_params =
  sp_data :: "u8 list"
  sp_bytesWritten :: int
  receiverINetAddress :: network_address
  sp_ttl :: int

section \<open>Sending\<close>

text \<open>
  The part of \<^verbatim>\<open>SendWithoutVDP\<close> from the label on: the length and the error number. For an address that is not
  IPv4 no call is made.
\<close>

fun send_tries :: "nat \<Rightarrow> bool \<Rightarrow> send_params \<Rightarrow> kernel \<Rightarrow> (int \<times> int \<times> kernel) res" where
  "send_tries 0 nonBlocking sp K = Inl OutOfFuel"
| "send_tries (Suc fuel) nonBlocking sp K =
     (if sin_family (receiverINetAddress sp) = AF_INET then
        let len = k_sendto K (k_calls K) (sp_data sp) (receiverINetAddress sp); errno = k_errno K (k_calls K)
        in if len < 0 then
             if (nonBlocking \<and> errno = EWOULDBLOCK) \<or> errno \<noteq> EMSGSIZE
             then send_tries fuel nonBlocking sp (called K)
             else Inr (len, errno, called K)
           else Inr (len, 0, called K)
      else Inr (0, 0, K))"

definition SendWithoutVDP ::
  "nat \<Rightarrow> berkley_socket \<Rightarrow> send_params \<Rightarrow> kernel \<Rightarrow> (int \<times> send_params \<times> kernel) res" where
  "SendWithoutVDP fuel sock sp K =
     (let (oldTTL, K) =
        (if sp_ttl sp > 0 then
           if k_option K (k_calls K) \<noteq> -1 then (k_ttl K, (called (called K))\<lparr>k_ttl := sp_ttl sp\<rparr>) else (-1, called K)
         else (-1, K))
      in rbind (send_tries fuel (isNonBlocking (binding sock)) sp K) (\<lambda>(len, errno, K).
         if len < 0 then Inr (len, sp\<lparr>sp_bytesWritten := errno\<rparr>, K)
         else Inr (len, sp\<lparr>sp_bytesWritten := len\<rparr>,
                   if oldTTL \<noteq> -1 then (called K)\<lparr>k_ttl := oldTTL\<rparr> else K)))"

definition Socket_Send ::
  "nat \<Rightarrow> berkley_socket \<Rightarrow> send_params \<Rightarrow> kernel \<Rightarrow> (int \<times> send_params \<times> kernel) res" where
  "Socket_Send fuel sock sp K =
     rbind (rassert (sp_data sp \<noteq> [])) (\<lambda>_.
       case jst sock of
         Some t \<Rightarrow> Inr (JackieINetSendTo t (sp_data sp) (receiverINetAddress sp), sp, K)
       | None \<Rightarrow> SendWithoutVDP fuel sock sp K)"

section \<open>Receiving\<close>

text \<open>The bytes the system or the transceiver writes to the start of the buffer.\<close>

definition received_into :: "u8 list \<Rightarrow> u8 list \<Rightarrow> u8 list" where
  "received_into d buf = d @ drop (length d) buf"

fun RecvFromIPV4 :: "nat \<Rightarrow> bool \<Rightarrow> recv_params \<Rightarrow> kernel \<Rightarrow> (int \<times> recv_params \<times> kernel) res" where
  "RecvFromIPV4 0 nonBlocking rp K = Inl OutOfFuel"
| "RecvFromIPV4 (Suc fuel) nonBlocking rp K =
     (let (n, d, port, addr) = k_recvfrom K (k_calls K); errno = k_errno K (k_calls K);
          rp = rp\<lparr>bytesRead := n\<rparr>; K' = called K
      in rbind (rassert (n \<noteq> 0)) (\<lambda>_.
         if n < 0 then
           if (nonBlocking \<and> errno \<noteq> EAGAIN \<and> errno \<noteq> EWOULDBLOCK) \<or> \<not> nonBlocking then
             if errno = EMSGSIZE then Inr (n, rp\<lparr>bytesRead := EMSGSIZE\<rparr>, K')
             else RecvFromIPV4 fuel nonBlocking rp K'
           else Inr (n, rp, K')
         else Inr (n, rp\<lparr>rp_data := received_into d (rp_data rp), timeRead := k_time K (k_calls K'),
                         senderINetAddress := (senderINetAddress rp)\<lparr>sin_family := AF_INET, sin_port := port,
                                                                     s_addr := addr\<rparr>\<rparr>, called K')))"

text \<open>A transceiver fills the data and the sender; it does not get at \<^verbatim>\<open>bytesRead\<close>.\<close>

definition RecvFrom ::
  "nat \<Rightarrow> berkley_socket \<Rightarrow> recv_params \<Rightarrow> kernel \<Rightarrow> (int \<times> recv_params \<times> kernel) res" where
  "RecvFrom fuel sock rp K =
     (case jst sock of
        Some t \<Rightarrow>
          (case JackieINetRecvFrom t of
             (n, d, sender) \<Rightarrow>
               Inr (n, rp\<lparr>rp_data := received_into d (rp_data rp), senderINetAddress := sender\<rparr>, K))
      | None \<Rightarrow> RecvFromIPV4 fuel (isNonBlocking (binding sock)) rp K)"

section \<open>Binding\<close>

datatype socket_binding_result =
    JISBindResult_SUCCESS | JISBindResult_REQUIRES_NET_SUPPORT_IPV6_DEFINED | JISBindResult_FAILED_BIND_SOCKET
  | JISBindResult_FAILED_SEND_RECV_TEST

text \<open>One call with a number for its result.\<close>

definition option_call :: "kernel \<Rightarrow> int \<times> kernel" where
  "option_call K = (k_option K (k_calls K), called K)"

definition SetSocketOptions :: "kernel \<Rightarrow> kernel res" where
  "SetSocketOptions K =
     (let (rcv, K) = option_call K
      in rbind (rassert (rcv = 0)) (\<lambda>_.
         let (snd_buf, K) = option_call K
         in rbind (rassert (snd_buf = 0)) (\<lambda>_.
            let (_, K) = option_call K in Inr K)))"

text \<open>Only the last call counts; for a socket that is to block there is no other one.\<close>

definition SetNonBlockingSocket :: "bool \<Rightarrow> kernel \<Rightarrow> kernel res" where
  "SetNonBlockingSocket nonblocking K =
     (let K = (if nonblocking then called K else K); (r, K) = option_call K
      in rbind (rassert (r = 0)) (\<lambda>_. Inr K))"

definition SetBroadcastSocket :: "kernel \<Rightarrow> kernel res" where
  "SetBroadcastSocket K = (let (r, K) = option_call K in rbind (rassert (r = 0)) (\<lambda>_. Inr K))"

definition SetIPHdrIncl :: "kernel \<Rightarrow> kernel" where
  "SetIPHdrIncl K = snd (option_call K)"

definition GetSystemAddressViaJISSocketIPV4 ::
  "(string \<Rightarrow> u32) \<Rightarrow> bool \<Rightarrow> network_address \<Rightarrow> kernel \<Rightarrow> network_address \<times> kernel" where
  "GetSystemAddressViaJISSocketIPV4 inet_addr be systemAddressOut K =
     (case k_getsockname K (k_calls K) of
        None \<Rightarrow> (JACKIE_NULL_ADDRESS, called K)
      | Some (port, addr) \<Rightarrow>
          ((SetPortNetworkOrder be port systemAddressOut)\<lparr>s_addr := (if addr = 0 then inet_addr ''127.0.0.1'' else addr)\<rparr>,
           called K))"

definition BindSharedIPV4 ::
  "(string \<Rightarrow> u32) \<Rightarrow> bool \<Rightarrow> binding_params \<Rightarrow> berkley_socket \<Rightarrow> kernel \<Rightarrow>
     (socket_binding_result \<times> berkley_socket \<times> kernel) res" where
  "BindSharedIPV4 inet_addr be bp sock K =
     (let addr = (sock_boundAddress sock)\<lparr>sin_family := AF_INET, sin_port := htons be (bp_port bp), s_addr := 0\<rparr>;
          fd = k_socket K (k_calls K); K = called K;
          sock = sock\<lparr>sock_boundAddress := addr, rns2Socket := fd\<rparr>
      in if fd = SOCKET_ERROR then Inr (JISBindResult_FAILED_BIND_SOCKET, sock, K)
         else
           rbind (SetSocketOptions K) (\<lambda>K.
           rbind (SetNonBlockingSocket (isNonBlocking bp) K) (\<lambda>K.
           rbind (SetBroadcastSocket K) (\<lambda>K.
           let K = SetIPHdrIncl K;
               addr = addr\<lparr>s_addr := (case hostAddress bp of
                                      Some h \<Rightarrow> if h \<noteq> [] then inet_addr h else 0 | None \<Rightarrow> 0)\<rparr>;
               sock = sock\<lparr>sock_boundAddress := addr\<rparr>;
               bound = k_bind K (k_calls K) addr; K = called K
           in if bound = SOCKET_ERROR
              then Inr (JISBindResult_FAILED_BIND_SOCKET, sock, K)
              else let (addr, K) = GetSystemAddressViaJISSocketIPV4 inet_addr be addr K
                   in Inr (JISBindResult_SUCCESS, sock\<lparr>sock_boundAddress := addr\<rparr>, K)))))"

text \<open>
  \<^verbatim>\<open>BindShared\<close>: the test of the bound socket. The parameters are only stored after it, so the test runs with the
  ones the socket object had before; \<open>raw\<close> is the receive buffer on the stack.
\<close>

definition BindShared ::
  "nat \<Rightarrow> (string \<Rightarrow> u32) \<Rightarrow> bool \<Rightarrow> recv_params \<Rightarrow> binding_params \<Rightarrow> berkley_socket \<Rightarrow> kernel \<Rightarrow>
     (socket_binding_result \<times> berkley_socket \<times> kernel) res" where
  "BindShared fuel inet_addr be raw bp sock K =
     rbind (BindSharedIPV4 inet_addr be bp sock K) (\<lambda>(br, sock, K).
       if br \<noteq> JISBindResult_SUCCESS then Inr (br, sock, K)
       else
         rbind (Socket_Send fuel sock \<lparr>sp_data = replicate 128 0, sp_bytesWritten = 0,
                                       receiverINetAddress = sock_boundAddress sock, sp_ttl = 0\<rparr> K) (\<lambda>(_, sp, K).
         rbind (RecvFrom fuel sock raw K) (\<lambda>(rr, _, K).
           if rr \<le> 0 \<or> sp_bytesWritten sp \<noteq> rr then Inr (JISBindResult_FAILED_SEND_RECV_TEST, sock, K)
           else Inr (br, sock\<lparr>binding := bp\<rparr>, K))))"

text \<open>\<^verbatim>\<open>Bind\<close> tries again as long as the binding fails; \<open>tries\<close> bounds the rounds of this loop.\<close>

fun Bind ::
  "nat \<Rightarrow> nat \<Rightarrow> (string \<Rightarrow> u32) \<Rightarrow> bool \<Rightarrow> recv_params \<Rightarrow> binding_params \<Rightarrow> berkley_socket \<Rightarrow> kernel \<Rightarrow>
     (socket_binding_result \<times> berkley_socket \<times> kernel) res" where
  "Bind 0 fuel inet_addr be raw bp sock K = Inl OutOfFuel"
| "Bind (Suc tries) fuel inet_addr be raw bp sock K =
     rbind (BindShared fuel inet_addr be raw bp sock K) (\<lambda>(br, sock, K).
       if br = JISBindResult_FAILED_BIND_SOCKET then Bind tries fuel inet_addr be raw bp sock K
       else Inr (br, sock, K))"

definition IsPortInUse :: "(string \<Rightarrow> u32) \<Rightarrow> bool \<Rightarrow> u16 \<Rightarrow> string option \<Rightarrow> berkley_socket \<Rightarrow> kernel \<Rightarrow> (bool \<times> kernel) res" where
  "IsPortInUse inet_addr be port host fresh K =
     rbind (BindSharedIPV4 inet_addr be \<lparr>bp_port = port, hostAddress = host, isNonBlocking = False\<rparr> fresh K)
       (\<lambda>(br, _, K). Inr (br = JISBindResult_FAILED_BIND_SOCKET, K))"

section \<open>Sending ends when the system lets it\<close>

text \<open>The first call, from \<open>k\<close> on, that goes through or fails for the length.\<close>

abbreviation accepts :: "kernel \<Rightarrow> send_params \<Rightarrow> nat \<Rightarrow> bool" where
  "accepts K sp k \<equiv> k_sendto K k (sp_data sp) (receiverINetAddress sp) \<ge> 0 \<or> k_errno K k = EMSGSIZE"

lemma called_simps [simp]:
  "k_calls (called K) = k_calls K + 1" "k_sendto (called K) = k_sendto K" "k_errno (called K) = k_errno K"
  "k_recvfrom (called K) = k_recvfrom K" "k_option (called K) = k_option K" "k_bind (called K) = k_bind K"
  "k_socket (called K) = k_socket K" "k_getsockname (called K) = k_getsockname K" "k_ttl (called K) = k_ttl K"
  "k_time (called K) = k_time K"
  by (simp_all add: called_def)

lemma errnos: "EMSGSIZE \<noteq> EWOULDBLOCK" "EMSGSIZE \<noteq> EAGAIN" "EMSGSIZE > 0"
  by (simp_all add: EMSGSIZE_def EWOULDBLOCK_def EAGAIN_def)

lemma send_tries_first:
  assumes "sin_family (receiverINetAddress sp) = AF_INET"
  shows "\<lbrakk>\<forall>j < m. \<not> accepts K sp (k_calls K + j); accepts K sp (k_calls K + m); m < fuel\<rbrakk> \<Longrightarrow>
    send_tries fuel nb sp K =
      (let len = k_sendto K (k_calls K + m) (sp_data sp) (receiverINetAddress sp)
       in Inr (len, if len < 0 then EMSGSIZE else 0, K\<lparr>k_calls := k_calls K + m + 1\<rparr>))"
proof (induction m arbitrary: fuel K)
  case 0
  then obtain f where "fuel = Suc f" by (cases fuel) auto
  then show ?case using 0 assms errnos by (auto simp: Let_def called_def)
next
  case (Suc m)
  then obtain f where f: "fuel = Suc f" by (cases fuel) auto
  have n: "\<not> accepts K sp (k_calls K)" using Suc.prems(1) by (metis add.right_neutral zero_less_Suc)
  have "send_tries f nb sp (called K) =
      (let len = k_sendto (called K) (k_calls (called K) + m) (sp_data sp) (receiverINetAddress sp)
       in Inr (len, if len < 0 then EMSGSIZE else 0, (called K)\<lparr>k_calls := k_calls (called K) + m + 1\<rparr>))"
    by (rule Suc.IH) (use Suc.prems f in auto)
  then show ?case using n f assms by (auto simp: Let_def called_def)
qed

lemma send_tries_never:
  assumes "sin_family (receiverINetAddress sp) = AF_INET"
  shows "\<forall>j < fuel. \<not> accepts K sp (k_calls K + j) \<Longrightarrow> send_tries fuel nb sp K = Inl OutOfFuel"
proof (induction fuel arbitrary: K)
  case (Suc fuel)
  have n: "\<not> accepts K sp (k_calls K)" using Suc.prems by (metis add.right_neutral zero_less_Suc)
  have "send_tries fuel nb sp (called K) = Inl OutOfFuel"
    by (rule Suc.IH) (use Suc.prems in auto)
  then show ?case using n assms by (auto simp: Let_def)
qed simp

text \<open>What a send that ends reports.\<close>

lemma send_tries_outcome:
  "send_tries fuel nb sp K = Inr (len, errno, K') \<Longrightarrow>
   (if sin_family (receiverINetAddress sp) = AF_INET
    then (\<exists>k. len = k_sendto K k (sp_data sp) (receiverINetAddress sp)) else len = 0) \<and>
   (len < 0 \<longrightarrow> errno = EMSGSIZE)"
proof (induction fuel arbitrary: K)
  case (Suc fuel)
  show ?case
  proof (cases "sin_family (receiverINetAddress sp) = AF_INET \<and> \<not> accepts K sp (k_calls K)")
    case True
    then have "send_tries fuel nb sp (called K) = Inr (len, errno, K')" using Suc.prems by (auto simp: Let_def)
    then show ?thesis using Suc.IH by fastforce
  next
    case False
    then show ?thesis using Suc.prems errnos by (auto simp: Let_def split: if_splits)
  qed
qed simp

section \<open>Binding never fails\<close>

lemma Bind_not_failed: "Bind tries fuel ia be raw bp sock K = Inr (br, sock', K') \<Longrightarrow> br \<noteq> JISBindResult_FAILED_BIND_SOCKET"
  by (induction tries arbitrary: sock K) (auto simp: rbind_eq_Inr split: if_splits)

lemma BindShared_no_socket:
  "k_socket K (k_calls K) = SOCKET_ERROR \<Longrightarrow>
   BindShared fuel ia be raw bp sock K =
     Inr (JISBindResult_FAILED_BIND_SOCKET, sock\<lparr>sock_boundAddress := (sock_boundAddress sock)
       \<lparr>sin_family := AF_INET, sin_port := htons be (bp_port bp), s_addr := 0\<rparr>, rns2Socket := SOCKET_ERROR\<rparr>, called K)"
  by (simp add: BindShared_def BindSharedIPV4_def Let_def)

lemma Bind_no_socket:
  "\<forall>k. k_socket K k = SOCKET_ERROR \<Longrightarrow> Bind tries fuel ia be raw bp sock K = Inl OutOfFuel"
  by (induction tries arbitrary: sock K) (simp_all add: BindShared_no_socket)

end
