(* ===== verification/Network_Cycle.thy ===== *)
theory Network_Cycle
  imports Plugins Socket_Calls
begin

text \<open>
  The network thread and the receiving threads: \<^verbatim>\<open>ReclaimAllPackets\<close>, \<^verbatim>\<open>ProcessAllocCommandQ\<close>,
  \<^verbatim>\<open>ProcessAllocJISRecvParamsQ\<close>, \<^verbatim>\<open>RunNetworkUpdateCycleOnce\<close> and \<^verbatim>\<open>RunRecvCycleOnce\<close> of
  \<^verbatim>\<open>src/geco_application.cpp\<close> with the functions that give buffers and packets back.
\<close>

section \<open>Giving back\<close>

text \<open>The loop asserts of each pointer that it is not null. The packets do not own their data.\<close>

definition ReclaimAllPackets :: "engine \<Rightarrow> engine res" where
  "ReclaimAllPackets e =
     rbind (drain_queue list_pop length (deAllocPacketQ e)) (\<lambda>(ps, q).
     rbind (rassert (None \<notin> set ps)) (\<lambda>_.
       Inr (e\<lparr>deAllocPacketQ := q, reclaimed_packets := reclaimed_packets e @ map the ps\<rparr>)))"

definition ReclaimOneJISRecvParams :: "recv_buffer \<Rightarrow> nat \<Rightarrow> engine \<Rightarrow> engine res" where
  "ReclaimOneJISRecvParams s index e =
     rbind (get_at (deAllocRecvParamQ e) index) (\<lambda>q.
       Inr (e\<lparr>deAllocRecvParamQ := (deAllocRecvParamQ e)[index := q @ [s]]\<rparr>))"

definition ReclaimAllJISRecvParams :: "nat \<Rightarrow> engine \<Rightarrow> engine res" where
  "ReclaimAllJISRecvParams Index e =
     rbind (get_at (deAllocRecvParamQ e) Index) (\<lambda>q.
     rbind (drain_queue list_pop length q) (\<lambda>(bs, q).
       Inr (e\<lparr>deAllocRecvParamQ := (deAllocRecvParamQ e)[Index := q],
              reclaimed_buffers := reclaimed_buffers e @ map (Pair Index) bs\<rparr>)))"

section \<open>Commands\<close>

text \<open>
  One command, with the clock as it was read before. \<^verbatim>\<open>SendRightNow\<close> and \<^verbatim>\<open>CloseConnectionInternally\<close> do nothing
  yet, and the first returns true, so the data of a message is not freed. \<open>raw\<close> is a command as \<^verbatim>\<open>alloc_cmd\<close>
  takes it from the pool, \<open>key\<close> stands for nothing the network thread reads.
\<close>

definition run_command ::
  "world \<Rightarrow> cmd \<Rightarrow> cmd \<Rightarrow> u64 \<times> u32 \<times> engine \<Rightarrow> (u64 \<times> u32 \<times> engine) res" where
  "run_command w raw c = (\<lambda>(timeUS, timeMS, e).
     (case commandID c of
        BCS_SEND \<Rightarrow>
          (let (timeUS, timeMS) = (if timeUS = 0 then (time_us w, ucast (time_us w div 1000)) else (timeUS, timeMS))
           in if repStatus c \<noteq> NO_ACTION then
                rbind (GetRemoteSystem_wrapper (big_endian w) (systemIdentifier c) True True (eps (app_of e))) (\<lambda>remote.
                  case remote of
                    None \<Rightarrow> Inr (timeUS, timeMS, e)
                  | Some i \<Rightarrow>
                      rbind (get_at (remoteSystemList (eps (app_of e))) i) (\<lambda>r.
                        Inr (timeUS, timeMS, e\<lparr>app_of := (app_of e)\<lparr>eps := (eps (app_of e))\<lparr>remoteSystemList :=
                          (remoteSystemList (eps (app_of e)))[i := r\<lparr>connectMode := repStatus c\<rparr>]\<rparr>\<rparr>\<rparr>)))
              else Inr (timeUS, timeMS, e))
      | BCS_CHANGE_SYSTEM_ADDRESS \<Rightarrow>
          rbind (change_system_address (big_endian w) (systemIdentifier c) (eps (app_of e))) (\<lambda>t.
            Inr (timeUS, timeMS, e\<lparr>app_of := (app_of e)\<lparr>eps := t\<rparr>\<rparr>))
      | BCS_ADD_2_BANNED_LIST \<Rightarrow>
          rbind (unpack_ban (big_endian w) (arrayparams c)) (\<lambda>(IP, milliseconds).
          rbind (AddToBanList (ucast (time_ms w)) IP milliseconds (banList (app_of e))) (\<lambda>l.
            Inr (timeUS, timeMS, e\<lparr>app_of := (app_of e)\<lparr>banList := l\<rparr>\<rparr>)))
      | BCS_CONEECT \<Rightarrow>
          (case cmd_data c of
             None \<Rightarrow> Inl OutOfBounds
           | Some d \<Rightarrow>
               rbind (connect_unpack (big_endian w) d)
                 (\<lambda>(passwd, passwdLength, key, localSocketIndex, attemptTimes, attemptIntervalMS, timeout, extra).
               let addr = w_systemAddress (systemIdentifier c)
               in rbind (Connect_cmd w raw (map (fresh_memory w) [0..<length passwd + 22])
                      (ToString_IPV4 (w_inet_ntoa w) (big_endian w) True (CHR ''|'') addr)
                      (GetPortHostOrder (big_endian w) addr)
                      passwd passwdLength key localSocketIndex attemptTimes attemptIntervalMS timeout extra e) (\<lambda>e.
                    Inr (timeUS, timeMS, e))))
      | _ \<Rightarrow> Inr (timeUS, timeMS, e)))"

text \<open>The branch \<^verbatim>\<open>BCS_CONEECT\<close> moves the data pointer of the command to the last value it reads.\<close>

definition unpacked :: "cmd \<Rightarrow> cmd" where
  "unpacked c =
     (case cmd_data c of
        Some d \<Rightarrow>
          if commandID c = BCS_CONEECT then
            c\<lparr>cmd_data := Some (advance (case c_strlen (drop (snd d) (fst d)) of Inr n \<Rightarrow> n + 1 + 17 | Inl _ \<Rightarrow> 0) d)\<rparr>
          else c
      | None \<Rightarrow> c)"

text \<open>A round of the loop: the command and its way back to the user thread.\<close>

definition command_round ::
  "world \<Rightarrow> cmd \<Rightarrow> nat \<Rightarrow> cmd \<Rightarrow> u64 \<times> u32 \<times> engine \<Rightarrow> (u64 \<times> u32 \<times> engine) res" where
  "command_round w raw index c s =
     rbind (run_command w raw c s) (\<lambda>(timeUS, timeMS, e).
       Inr (timeUS, timeMS, e\<lparr>deAllocCommandQ := deAllocCommandQ e @ [unpacked c]\<rparr>))"

definition ProcessAllocCommandQ ::
  "world \<Rightarrow> cmd \<Rightarrow> u64 \<Rightarrow> u32 \<Rightarrow> engine \<Rightarrow> (u64 \<times> u32 \<times> engine) res" where
  "ProcessAllocCommandQ w raw timeUS timeMS e =
     each_popped (length (allocCommandQ e) + 1) 0 (\<lambda>(_, _, e). allocCommandQ e)
       (\<lambda>q (us, ms, e). (us, ms, e\<lparr>allocCommandQ := q\<rparr>)) (command_round w raw) (timeUS, timeMS, e)"

section \<open>Datagrams\<close>

text \<open>The queue of the socket \<open>outter\<close>.\<close>

abbreviation recvQ :: "nat \<Rightarrow> engine \<Rightarrow> recv_buffer list" where
  "recvQ outter e \<equiv> allocRecvParamQ e ! outter"

abbreviation set_recvQ :: "nat \<Rightarrow> recv_buffer list \<Rightarrow> engine \<Rightarrow> engine" where
  "set_recvQ outter q e \<equiv> e\<lparr>allocRecvParamQ := (allocRecvParamQ e)[outter := q]\<rparr>"

text \<open>A round of the inner loop. The buffer is given back to the queue with the number of the round.\<close>

definition recv_round :: "world \<Rightarrow> nat \<Rightarrow> recv_buffer \<Rightarrow> engine \<Rightarrow> engine res" where
  "recv_round w inner b e =
     rbind (ProcessOneRecvParam w (buffer_params b) (app_of e)) (\<lambda>a.
       ReclaimOneJISRecvParams b inner (e\<lparr>app_of := a\<rparr>))"

definition process_socket :: "world \<Rightarrow> nat \<Rightarrow> engine \<Rightarrow> engine res" where
  "process_socket w outter e =
     each_popped (length (recvQ outter e) + 1) 0 (recvQ outter) (set_recvQ outter) (recv_round w) e"

text \<open>The outer loop, over the sockets from \<open>outter\<close> on.\<close>

fun process_sockets :: "world \<Rightarrow> nat \<Rightarrow> nat \<Rightarrow> engine \<Rightarrow> engine res" where
  "process_sockets w 0 outter e = Inr e"
| "process_sockets w (Suc n) outter e = rbind (process_socket w outter e) (process_sockets w n (outter + 1))"

definition ProcessAllocJISRecvParamsQ :: "world \<Rightarrow> engine \<Rightarrow> engine res" where
  "ProcessAllocJISRecvParamsQ w e = process_sockets w (length (allocRecvParamQ e)) 0 e"

section \<open>The cycles of the threads\<close>

text \<open>\<open>addr\<close> is the address object that \<^verbatim>\<open>ProcessConnectionRequestCancelQ\<close> never sets.\<close>

definition RunNetworkUpdateCycleOnce :: "world \<Rightarrow> cmd \<Rightarrow> network_address \<Rightarrow> engine \<Rightarrow> engine res" where
  "RunNetworkUpdateCycleOnce w raw addr e =
     rbind (ReclaimAllPackets e) (\<lambda>e.
     rbind (ProcessAllocCommandQ w raw 0 0 e) (\<lambda>(timeUS, timeMS, e).
     rbind (ProcessAllocJISRecvParamsQ w e) (\<lambda>e.
     rbind (ProcessConnectionRequestCancelQ addr (app_of e)) (\<lambda>a.
     rbind (ProcessConnectionRequestQ w timeUS timeMS a) (\<lambda>(_, _, a).
       Inr (e\<lparr>app_of := a\<rparr>))))))"

text \<open>
  A receiving thread. A buffer is taken from the pool of the socket, with the contents \<open>raw\<close>; the socket in it is
  set to the one of the thread. Neither the handler of the application nor the wake-up of the network thread is in
  the model.
\<close>

definition AllocJISRecvParams :: "recv_params \<Rightarrow> nat \<Rightarrow> engine \<Rightarrow> (recv_buffer \<times> engine) res" where
  "AllocJISRecvParams raw Index e =
     rbind (get_at (allocRecvParamQ e) Index) (\<lambda>_.
       Inr (\<lparr>buffer_number = buffers_taken e, buffer_pool = Index, buffer_params = raw\<lparr>localBoundSocket := Index\<rparr>\<rparr>,
            e\<lparr>buffers_taken := buffers_taken e + 1\<rparr>))"

definition RunRecvCycleOnce ::
  "nat \<Rightarrow> berkley_socket \<Rightarrow> recv_params \<Rightarrow> nat \<Rightarrow> kernel \<Rightarrow> engine \<Rightarrow> (kernel \<times> engine) res" where
  "RunRecvCycleOnce fuel sock raw index K e =
     rbind (ReclaimAllJISRecvParams index e) (\<lambda>e.
     rbind (AllocJISRecvParams raw index e) (\<lambda>(b, e).
     rbind (RecvFrom fuel sock (buffer_params b) K) (\<lambda>(result, rp, K).
       if result > 0 then
         Inr (K, set_recvQ index (recvQ index e @ [b\<lparr>buffer_params := rp\<rparr>]) e)
       else Inr (K, e\<lparr>reclaimed_buffers := reclaimed_buffers e @ [(index, b\<lparr>buffer_params := rp\<rparr>)]\<rparr>))))"

end
