(* ===== verification/App_Sound.thy ===== *)
theory App_Sound
  imports Network_Cycle Request_Rounds Server_Slots
begin

text \<open>
  What every operation keeps of the state of the application: the queues of requests and of cancellations and the
  ban list are sound arrays, and the number of plugins is the one of the list. Each lemma says of one operation that
  the state it returns, if it returns one, is sound again. A queue of \<^verbatim>\<open>2 ^ 30\<close> pointers, which would not fit
  in the 32-bit sizes when it is doubled, is excluded where something is added.
\<close>

section \<open>Sound states\<close>

definition sound :: "nat \<Rightarrow> app \<Rightarrow> bool" where
  "sound n a \<longleftrightarrow> q_ok (connReqQ a) \<and> q_ok (connReqCancelQ a) \<and> l_ok (banList a) \<and> pluginListNTS_Size a = n"

abbreviation keeps_sound :: "nat \<Rightarrow> app res \<Rightarrow> bool" where
  "keeps_sound n \<equiv> good (sound n)"

lemma sound_updates [simp]:
  "sound n (eps_update f a) = sound n a" "sound n (connReqQLock_update f1 a) = sound n a"
  "sound n (connReqCancelQLock_update f1 a) = sound n a" "sound n (allocPacketQ_update f2 a) = sound n a"
  "sound n (sent_update f3 a) = sound n a" "sound n (calls_update f4 a) = sound n a"
  "sound n (msgid_update f5 a) = sound n a" "sound n (isUnconnectedRecvPrrams_update f6 a) = sound n a"
  by (simp_all add: sound_def)

lemma sound_with [simp]:
  "sound n a \<Longrightarrow> sound n (a\<lparr>connReqQ := q\<rparr>) \<longleftrightarrow> q_ok q"
  "sound n a \<Longrightarrow> sound n (a\<lparr>connReqCancelQ := c\<rparr>) \<longleftrightarrow> q_ok c"
  "sound n a \<Longrightarrow> sound n (a\<lparr>banList := l\<rparr>) \<longleftrightarrow> l_ok l"
  by (auto simp: sound_def)

lemma sound_parts:
  "sound n a \<Longrightarrow> q_ok (connReqQ a)" "sound n a \<Longrightarrow> q_ok (connReqCancelQ a)" "sound n a \<Longrightarrow> l_ok (banList a)"
  by (simp_all add: sound_def)

lemma sound_plugins [simp]:
  "sound n (plugins_receive a) = sound n a" "sound n (plugins_send a) = sound n a"
  "sound n (push_packet p a) = sound n a" "sound n (answer_with w rp d a) = sound n a"
  "sound n (answer_checked w rp d a) = sound n a" "sound n (snd (Send w addr d a)) = sound n a"
  by (simp_all add: plugins_receive_def plugins_send_def push_packet_def answer_with_def answer_checked_def Send_def)

lemma plugins_keep_queues [simp]:
  "connReqQ (plugins_receive a) = connReqQ a" "connReqQ (push_packet p a) = connReqQ a"
  by (simp_all add: plugins_receive_def push_packet_def)

lemma test_offline_sound: "sound n a \<Longrightarrow> keeps_sound n (test_offline c off rp a)"
  by (auto simp: test_offline_def intro: good_rbind)

section \<open>The server\<close>

lemma send_message_sound: "sound n a \<Longrightarrow> keeps_sound n (send_message w rp ws a)"
  by (auto simp: send_message_def intro: good_rbind)

lemma OnConnectionRequest1_sound:
  assumes "sound n a"
  shows "keeps_sound n (OnConnectionRequest1 w rp a)"
  unfolding OnConnectionRequest1_def
  by (rule good_then [OF test_offline_sound [OF assms]]) (auto simp: Let_def intro!: good_rbind)

lemma secure_new_client_sound:
  "sound n a \<Longrightarrow> good (\<lambda>(_, a). sound n a) (secure_new_client w rp c free_rs a)"
  by (auto simp: secure_new_client_def intro!: good_rbind split: option.split)

lemma accept_client_sound:
  assumes "sound n a"
  shows "keeps_sound n (accept_client w rp required c addr mtu gd a)"
proof -
  have answered: "keeps_sound n
      (if required then rbind (secure_new_client w rp c free_rs a) (\<lambda>(ans, a).
          case ans of None \<Rightarrow> Inr a | Some ans \<Rightarrow> send_message w rp (ws @ [write_aligned_bytes ans k]) a)
       else send_message w rp ws a)" if "sound n a" for a free_rs ws k
    using that by (auto intro!: good_then [OF secure_new_client_sound] send_message_sound split: option.split)
  have told: "keeps_sound n (if floods then send_message w rp ws a else Inr a)" if "sound n a" for floods ws a
    using that by (simp add: send_message_sound)
  show ?thesis unfolding accept_client_def Let_def
    by (rule good_rbind, rule good_rbind) (use assms in \<open>auto intro: good_then [OF told answered]\<close>)
qed

lemma OnConnectionRequest2_sound:
  assumes "sound n a"
  shows "keeps_sound n (OnConnectionRequest2 w rp a)"
  unfolding OnConnectionRequest2_def answer_request2_def
  by (rule good_then [OF test_offline_sound [OF assms]])
    (auto simp: Let_def intro!: good_rbind send_message_sound accept_client_sound
       split: option.split request2_outcome.split prod.split)

section \<open>The client\<close>

lemma removed_ok: "q_ok q \<Longrightarrow> i < Queue_Size q \<Longrightarrow> good q_ok (remove_at i q)"
  using remove_at_ok by (fastforce simp: good_def)

lemma stored_ok: "q_ok q \<Longrightarrow> good q_ok (store_at i x q)"
  by (auto simp: store_at_def put_at_def q_ok_def)

lemma find_request_less:
  assumes "q_ok q" and "find_request p (Queue_Size q) 0 q = Inr (Some i)"
  shows "i < Queue_Size q"
  using assms find_request_ok [OF assms(1), of 0 "Queue_Size q" p] by (auto simp: find_Some_iff)

lemma remove_found_ok:
  assumes "q_ok q" and "find_request p (Queue_Size q) 0 q = Inr found"
  shows "good q_ok (case found of Some i \<Rightarrow> remove_at i q | None \<Rightarrow> Inr q)"
  using assms by (auto split: option.split intro: removed_ok find_request_less)

lemma remove_requests_ok: "q_ok q \<Longrightarrow> good q_ok (remove_requests n addr k q)"
proof (induction n arbitrary: k q)
  case (Suc n)
  show ?case
  proof (cases "k < Queue_Size q")
    case True
    then have "good q_ok (if c then remove_at k q else Inr q)" for c
      using Suc.prems by (simp add: removed_ok)
    then have "good q_ok (rbind (if c then remove_at k q else Inr q) (remove_requests n addr (k + 1)))" for c
      by (rule good_then) (rule Suc.IH)
    then show ?thesis
      using True by (simp add: good_rbind)
  qed (use Suc.prems in simp)
qed simp

lemma failed_attempt_sound:
  assumes "sound n a"
  shows "keeps_sound n (failed_attempt w rp gd a)"
  unfolding failed_attempt_def Let_def
  by (rule good_rbind, rule good_then [where Q = q_ok])
    (use assms in \<open>auto simp: sound_parts split: option.split intro!: removed_ok find_request_less dest: sound_parts(1)\<close>)

lemma OnConnectionFailed_sound:
  assumes "sound n a"
  shows "keeps_sound n (OnConnectionFailed w rp a)"
  unfolding OnConnectionFailed_def
  by (rule good_then [OF test_offline_sound [OF assms]])
    (auto simp: Let_def intro!: good_rbind failed_attempt_sound)

lemma send_each_sound: "sound n a \<Longrightarrow> good (\<lambda>(_, _, a). sound n a) (send_each is used p a)"
  by (induction "is" arbitrary: used p a) (auto simp: Let_def intro!: good_rbind)

lemma SendImmediate_sound:
  "sound n a \<Longrightarrow> good (\<lambda>(_, _, a). sound n a) (SendImmediate be p a)"
  unfolding SendImmediate_def Let_def
  by (auto simp del: send_each.simps intro!: good_rbind send_each_sound split: option.split list.split)

lemma request_connection_sound:
  assumes "sound n a"
  shows "keeps_sound n (request_connection w rp gd secure ident place r a)"
  unfolding request_connection_def Let_def
  using assms by (auto intro!: good_seq good_then [OF SendImmediate_sound])

lemma connect_to_server_sound:
  assumes "sound n a"
  shows "good (\<lambda>(_, a). sound n a) (connect_to_server w rp answer_fields r a)"
proof -
  have place: "good (\<lambda>(_, _, a). sound n a) (place_for_server w rp mtu ours gd r a)" for mtu ours gd
    unfolding place_for_server_def using assms by (auto intro!: good_rbind split: option.split)
  have "sound n (no_connection w gd r a)" "sound n (wrong_answer w rp r a)" if "sound n a" for gd a
    using that by (simp_all add: no_connection_def wrong_answer_def Let_def)
  then show ?thesis unfolding connect_to_server_def Let_def
    by (auto intro!: good_then [OF place] good_then [OF request_connection_sound] split: option.split prod.split)
qed

lemma OnConnectionReply2_sound:
  assumes "sound n a"
  shows "keeps_sound n (OnConnectionReply2 w rp a)"
proof -
  have finished: "keeps_sound n (rbind (connect_to_server w rp answer_fields r a) (\<lambda>(returned, a).
      if returned then Inr a else
        rbind (remove_requests (Queue_Size (connReqQ a)) sender 0 (connReqQ a)) (\<lambda>q. Inr (a\<lparr>connReqQ := q\<rparr>))))"
    if "sound n a" for answer_fields r a sender
    by (rule good_then [OF connect_to_server_sound [OF that]])
      (auto intro!: good_then [OF remove_requests_ok] simp: sound_parts)
  show ?thesis unfolding OnConnectionReply2_def Let_def
    by (rule good_then [OF test_offline_sound [OF assms]])
      (auto intro!: good_rbind finished split: option.split)
qed

lemma answer_reply1_sound:
  assumes "sound n a"
  shows "good (\<lambda>(_, _, a). sound n a) (answer_reply1 w rp answer_fields index r reader a)"
proof -
  have rest: "good (\<lambda>(_, _, a). sound n a) (rbind (finish_request2 w rp r out reader a)
      (\<lambda>(reader, a). Inr (b, reader, a)))" if "sound n a" for out r reader a b
    using that by (auto simp: finish_request2_def rbind_assoc case_prod_beta intro!: good_rbind)
  show ?thesis unfolding answer_reply1_def Let_def
    using assms by (auto intro!: good_seq good_then [OF stored_ok] rest split: option.split prod.split simp: sound_parts)
qed

lemma reply1_rounds_sound: "sound n a \<Longrightarrow> keeps_sound n (reply1_rounds k w rp answer_fields index reader a)"
proof (induction k arbitrary: index reader a)
  case (Suc k)
  then show ?case by (auto intro!: good_seq good_then [OF answer_reply1_sound])
qed simp

lemma OnConnectionReply1_sound:
  assumes "sound n a"
  shows "keeps_sound n (OnConnectionReply1 w rp a)"
  unfolding OnConnectionReply1_def Let_def
  by (rule good_then [OF test_offline_sound [OF assms]]) (auto intro!: good_rbind reply1_rounds_sound split: prod.split)

section \<open>Datagrams, requests and bans\<close>

lemma only_plugins_sound: "sound n a \<Longrightarrow> keeps_sound n (only_plugins c off rp a)"
  unfolding only_plugins_def by (rule good_then [OF test_offline_sound]) auto

lemma IsOfflineRecvParams_sound: "sound n a \<Longrightarrow> keeps_sound n (IsOfflineRecvParams w rp a)"
  unfolding IsOfflineRecvParams_def Let_def
  by (auto intro!: good_rbind only_plugins_sound OnConnectionReply1_sound OnConnectionReply2_sound
      OnConnectionRequest1_sound OnConnectionRequest2_sound OnConnectionFailed_sound)

lemma ban_loop_ok: "l_ok l \<Longrightarrow> good (\<lambda>(_, l). l_ok l) (ban_loop k index clock IP l)"
proof (induction k arbitrary: index l)
  case (Suc k)
  have removed: "good l_ok (RemoveAtIndexFast index l)" if "index < list_size l"
    using RemoveAtIndexFast_ok [OF Suc.prems that] by (auto simp: good_def)
  show ?case using Suc by (auto intro!: good_seq good_then [OF removed])
qed simp

lemma IsBanned_ok: "l_ok l \<Longrightarrow> good (\<lambda>(_, l). l_ok l) (IsBanned ntoa be clock addr l)"
  by (auto simp: IsBanned_def Let_def ban_loop_ok simp del: ban_loop.simps)

lemma ProcessOneRecvParam_sound:
  assumes "sound n a"
  shows "keeps_sound n (ProcessOneRecvParam w rp a)"
proof -
  have rest: "keeps_sound n (rbind (IsOfflineRecvParams w rp a) (\<lambda>a.
      if \<not> isUnconnectedRecvPrrams a then
        rbind (GetRemoteSystem_address (big_endian w) (senderINetAddress rp) True True (eps a)) (\<lambda>remote.
          case remote of
            Some i \<Rightarrow> Inr (a\<lparr>calls := calls a @ [ProcessOneConnectedRecvParams i]\<rparr>)
          | None \<Rightarrow> Inr a)
      else Inr a))" if "sound n a" for a
    by (rule good_then [OF IsOfflineRecvParams_sound [OF that]]) (auto intro!: good_rbind split: option.split)
  show ?thesis unfolding ProcessOneRecvParam_def Let_def answer_banned_def
    by (rule good_then [OF IsBanned_ok]) (use assms in \<open>auto intro!: good_rbind rest simp: sound_parts\<close>)
qed

lemma AddToBanList_sound:
  assumes "l_ok l" and "list_size l < 2 ^ 30"
  shows "good l_ok (AddToBanList time IP ms l)"
proof (cases "IP = [] \<or> length IP > 32")
  case True
  then show ?thesis using assms by (auto simp: AddToBanList_def)
next
  case False
  then show ?thesis using AddToBanList_ok [OF assms, of IP time ms] by (auto simp: good_def)
qed

lemma cancel_rounds_sound: "sound n a \<Longrightarrow> keeps_sound n (cancel_rounds k addr a)"
proof (induction k arbitrary: a)
  case (Suc k)
  have "keeps_sound n (rbind (case found of Some i \<Rightarrow> remove_at i (connReqQ a) | None \<Rightarrow> Inr (connReqQ a))
      (\<lambda>q. cancel_rounds k addr (a\<lparr>connReqQ := q\<rparr>)))"
    if "find_request (\<lambda>r. address_eq (receiverAddr r) addr) (Queue_Size (connReqQ a)) 0 (connReqQ a) = Inr found" for found
    by (rule good_then [OF remove_found_ok [OF sound_parts(1) [OF Suc.prems] that]]) (simp add: Suc)
  then show ?case by (simp add: Let_def good_rbind cong: option.case_cong)
qed simp

lemma ProcessConnectionRequestCancelQ_sound: "sound n a \<Longrightarrow> keeps_sound n (ProcessConnectionRequestCancelQ addr a)"
  by (auto simp: ProcessConnectionRequestCancelQ_def Let_def intro!: good_then [OF cancel_rounds_sound])

lemma ProcessConnectionRequestQ_sound:
  assumes "sound n a"
  shows "good (\<lambda>(_, _, a). sound n a) (ProcessConnectionRequestQ w us ms a)"
proof -
  have rounds: "keeps_sound n (request_rounds k w t index a)" if "sound n a" for k t index a
    using that
  proof (induction k arbitrary: index a)
    case (Suc k)
    have tried: "keeps_sound n (try_request w t index r a)" for r
      unfolding try_request_def Let_def using Suc.prems
      by (auto simp: Send_def sound_parts intro!: good_seq good_then [OF stored_ok])
    have given: "keeps_sound n (give_up w index r a)" if "index < Queue_Size (connReqQ a)" for r
      unfolding give_up_def Let_def using Suc.prems that
      by (auto simp: sound_parts intro!: good_then [OF removed_ok])
    have round: "keeps_sound n (request_round w t index a)" if "index < Queue_Size (connReqQ a)"
      unfolding request_round_def using Suc.prems that
      by (auto intro!: good_rbind dest: goodD [OF tried] goodD [OF given] split: if_splits)
    show ?case using Suc.prems by (auto intro: good_then [OF round Suc.IH])
  qed simp
  show ?thesis unfolding ProcessConnectionRequestQ_def Let_def
    using assms by (auto intro!: good_then [OF rounds])
qed

section \<open>The user\<close>

lemma Connect_sound:
  assumes "sound n a" and "Queue_Size (connReqQ a) + 1 < 2 ^ 30"
    and run: "Connect ia rs be ch unset raw time socks host port pw pl key si k iv t x a = Inr (res, a')"
  shows "sound n a'"
proof -
  have eff: "connect_effect a res a'" using Connect_effect [OF sound_parts(1) [OF assms(1)] assms(2) run] .
  then have "a' = a\<lparr>connReqQ := connReqQ a', connReqQLock := connReqQLock a'\<rparr>" "q_ok (connReqQ a')"
    unfolding connect_effect_def by - (elim conjE, assumption)+
  then show ?thesis using assms(1) by (metis sound_updates(2) sound_with(1))
qed

lemma CancelConnectionRequest_sound:
  assumes "sound n a" and "Queue_Size (connReqCancelQ a) + 1 < 2 ^ 30"
  shows "keeps_sound n (CancelConnectionRequest target a)"
proof -
  obtain q where "PushTail 8 target (connReqCancelQ a) = Inr q" "q_ok q"
    using PushTail_ok [of "connReqCancelQ a" 8 target] assms by (auto simp: sound_parts)
  then show ?thesis using assms(1) by (simp add: CancelConnectionRequest_def Let_def)
qed

end
