(* ===== verification/Network_Steps.thy ===== *)
theory Network_Steps
  imports App_Sound
begin

text \<open>
  The engine as a system of steps. A step is a call of the user, a whole cycle of the network thread or a whole
  cycle of a receiving thread; the threads meet in the queues only, apart from the queues of requests, which have
  locks. The invariants are proved of one step and hold in every state that is reached from a started engine.
\<close>

section \<open>Steps\<close>

text \<open>After the start with \<open>k\<close> sockets: nothing is queued and no plugin is set.\<close>

definition start_engine :: "nat \<Rightarrow> app \<Rightarrow> engine" where
  "start_engine k a =
     \<lparr>app_of = a\<lparr>pluginListNTS_Size := 0\<rparr>, pluginListTS = [], pluginListNTS = [], plugin_calls = [],
      allocCommandQ = [], deAllocCommandQ = [], reclaimed_commands = [], deAllocPacketQ = [], reclaimed_packets = [],
      allocRecvParamQ = replicate k [], deAllocRecvParamQ = replicate k [], reclaimed_buffers = [],
      buffers_taken = 0\<rparr>"

inductive engine_step :: "plugin_methods \<Rightarrow> engine \<Rightarrow> engine \<Rightarrow> bool" for m where
  adds_plugin: "engine_step m e (set_plugin m plugin e)"
| connects:
    "Connect inet_addr resolve be ch unset raw time socks host port pw pl key si n iv t x (app_of e) = Inr (res, a) \<Longrightarrow>
     Queue_Size (connReqQ (app_of e)) + 1 < 2 ^ 30 \<Longrightarrow> engine_step m e (e\<lparr>app_of := a\<rparr>)"
| cancels:
    "CancelConnectionRequest target (app_of e) = Inr a \<Longrightarrow>
     Queue_Size (connReqCancelQ (app_of e)) + 1 < 2 ^ 30 \<Longrightarrow> engine_step m e (e\<lparr>app_of := a\<rparr>)"
| posts: "engine_step m e (run_cmd c e)"
| fetches: "fetch_packet m e = Inr (p, e') \<Longrightarrow> engine_step m e e'"
| gives_back: "engine_step m e (reclaim_packet p e)"
| receives: "RunRecvCycleOnce fuel sock raw index K e = Inr (K', e') \<Longrightarrow> engine_step m e e'"
| network:
    "RunNetworkUpdateCycleOnce w raw addr e = Inr e' \<Longrightarrow>
     list_size (banList (app_of e)) + length (allocCommandQ e) < 2 ^ 30 \<Longrightarrow> engine_step m e e'"

abbreviation engine_steps :: "plugin_methods \<Rightarrow> engine \<Rightarrow> engine \<Rightarrow> bool" where
  "engine_steps m \<equiv> (engine_step m)\<^sup>*\<^sup>*"

section \<open>The state stays well formed\<close>

definition engine_ok :: "nat \<Rightarrow> engine \<Rightarrow> bool" where
  "engine_ok k e \<longleftrightarrow>
     sound (length (pluginListNTS e)) (app_of e) \<and> distinct (pluginListTS e) \<and> distinct (pluginListNTS e) \<and>
     length (allocRecvParamQ e) = k \<and> length (deAllocRecvParamQ e) = k"

lemma engine_ok_updates [simp]:
  "engine_ok k (plugin_calls_update f1 e) = engine_ok k e" "engine_ok k (allocCommandQ_update f2 e) = engine_ok k e"
  "engine_ok k (deAllocCommandQ_update f2 e) = engine_ok k e" "engine_ok k (reclaimed_commands_update f3 e) = engine_ok k e"
  "engine_ok k (deAllocPacketQ_update f4 e) = engine_ok k e" "engine_ok k (reclaimed_packets_update f5 e) = engine_ok k e"
  "engine_ok k (reclaimed_buffers_update f6 e) = engine_ok k e" "engine_ok k (buffers_taken_update f7 e) = engine_ok k e"
  "engine_ok k (e\<lparr>allocRecvParamQ := (allocRecvParamQ e)[i := q]\<rparr>) = engine_ok k e"
  "engine_ok k (e\<lparr>deAllocRecvParamQ := (deAllocRecvParamQ e)[i := q]\<rparr>) = engine_ok k e"
  by (simp_all add: engine_ok_def)

lemma engine_ok_app:
  "engine_ok k e \<Longrightarrow> engine_ok k (e\<lparr>app_of := a\<rparr>) \<longleftrightarrow> sound (length (pluginListNTS e)) a"
  by (simp add: engine_ok_def)

lemma engine_ok_sound: "engine_ok k e \<Longrightarrow> sound (length (pluginListNTS e)) (app_of e)"
  by (simp add: engine_ok_def)

text \<open>An operation of the application, put back into the engine.\<close>

lemma engine_ok_then:
  assumes "engine_ok k e" and "keeps_sound (length (pluginListNTS e)) op"
    and "\<And>a. engine_ok k (e\<lparr>app_of := a\<rparr>) \<Longrightarrow> good P (f a)"
  shows "good P (rbind op f)"
  by (rule good_then [OF assms(2)]) (rule assms(3), simp add: engine_ok_app [OF assms(1)])

lemma set_plugin_ok: "engine_ok k e \<Longrightarrow> engine_ok k (set_plugin m plugin e)"
  by (auto simp: set_plugin_def engine_ok_def sound_def call_plugin_def Let_def)

lemma call_plugin_ok [simp]: "engine_ok k (call_plugin i c e) = engine_ok k e"
  by (simp add: call_plugin_def)

lemma update_loop_ok [simp]: "engine_ok k (update_loop is e) = engine_ok k e"
  by (induction "is" arbitrary: e) simp_all

lemma event_loop_ok: "engine_ok k e \<Longrightarrow> good (engine_ok k) (event_loop is p e)"
  by (induction "is" arbitrary: e) (auto intro!: good_rbind split: option.split)

lemma PacketGoThroughPlugins_ok: "engine_ok k e \<Longrightarrow> engine_ok k (snd (PacketGoThroughPlugins m p e))"
  by (simp add: PacketGoThroughPlugins_result Let_def)

lemma fetch_packet_ok:
  assumes "engine_ok k e"
  shows "good (\<lambda>(_, e). engine_ok k e) (fetch_packet m e)"
proof -
  have shown: "good (\<lambda>(_, e). engine_ok k e)
      (rbind (PacketGoThroughPluginCBs p e) (\<lambda>e. Inr (PacketGoThroughPlugins m p e)))" if "engine_ok k e" for p e
  proof (rule good_then)
    show "good (engine_ok k) (PacketGoThroughPluginCBs p e)"
      unfolding PacketGoThroughPluginCBs_def by (rule good_then; rule event_loop_ok) (use that in simp_all)
  qed (use PacketGoThroughPlugins_ok [of k _ m p] in \<open>auto simp: case_prod_beta\<close>)
  have sound': "sound n (a\<lparr>allocPacketQ := q\<rparr>) = sound n a" for n a q by simp
  have reclaim: "good (engine_ok k) (ReclaimAllCommands e)"
    using assms by (auto simp: ReclaimAllCommands_def intro!: good_rbind)
  have cycle: "good (\<lambda>(_, e). engine_ok k e) (RunGetPacketCycleOnce m e)"
    unfolding RunGetPacketCycleOnce_def Let_def
    by (rule good_then [OF reclaim])
      (auto simp: UpdatePlugins_def AdjustTimestamp_def rbind_assoc engine_ok_app engine_ok_sound
         split: list.split intro!: good_rbind shown)
  show ?thesis using assms cycle by (simp add: fetch_packet_def)
qed

section \<open>The network thread\<close>

text \<open>While there is room on the ban list for each command that waits.\<close>

definition ban_room :: "engine \<Rightarrow> bool" where
  "ban_room e \<longleftrightarrow> list_size (banList (app_of e)) + length (allocCommandQ e) < 2 ^ 30"

lemma AddToBanList_size:
  assumes "l_ok l" and "list_size l < 2 ^ 30"
  shows "good (\<lambda>l'. l_ok l' \<and> list_size l' \<le> list_size l + 1) (AddToBanList time IP ms l)"
proof (cases "IP = [] \<or> length IP > 32")
  case True
  then show ?thesis using assms by (auto simp: AddToBanList_def)
next
  case False
  then obtain l' where l': "AddToBanList time IP ms l = Inr l'" "l_ok l'"
    "map ban_IP (list_elems l') = map ban_IP (list_elems l)
       @ (if IP \<in> set (map ban_IP (list_elems l)) then [] else [IP])"
    using AddToBanList_ok [OF assms, of IP time ms] by auto
  have "length (map ban_IP (list_elems l')) \<le> length (list_elems l) + 1" by (subst l'(3)) simp
  then show ?thesis using l'(1,2) assms(1) by simp
qed

lemma Connect_cmd_posts:
  "good (\<lambda>e'. \<exists>c. e' = run_cmd c e) (Connect_cmd w raw unset host port pw pl key si n iv t x e)"
  by (auto simp: Connect_cmd_def rbind_assoc case_prod_beta intro!: good_rbind)

lemma command_round_ok:
  assumes ok: "engine_ok k e" and room: "list_size (banList (app_of e)) + length (allocCommandQ e) + 1 < 2 ^ 30"
  shows "good (\<lambda>(_, _, e). engine_ok k e \<and> ban_room e) (command_round w raw index c (us, ms, e))"
proof -
  have "good (\<lambda>(_, _, e). engine_ok k e \<and> ban_room e) (run_command w raw c (us, ms, e))"
  proof (cases "commandID c")
    case BCS_ADD_2_BANNED_LIST
    have banned: "good (\<lambda>(_, _, e). engine_ok k e \<and> ban_room e) (rbind (AddToBanList (ucast (time_ms w)) IP t (banList (app_of e)))
        (\<lambda>l. Inr (us, ms, e\<lparr>app_of := (app_of e)\<lparr>banList := l\<rparr>\<rparr>)))" for IP t
      by (rule good_then [OF AddToBanList_size])
        (use ok room sound_parts(3) [OF engine_ok_sound [OF ok]] in
          \<open>auto simp: engine_ok_app [OF ok] engine_ok_sound ban_room_def\<close>)
    then show ?thesis using BCS_ADD_2_BANNED_LIST by (auto simp: run_command_def intro!: good_rbind banned)
  next
    case BCS_SEND
    then show ?thesis using ok room
      by (auto simp: run_command_def engine_ok_app engine_ok_sound ban_room_def Let_def intro!: good_rbind split: option.split)
  next
    case BCS_CONEECT
    then show ?thesis using ok room
      by (auto simp: run_command_def run_cmd_def ban_room_def Let_def
          intro!: good_seq good_then [OF Connect_cmd_posts] split: option.split prod.split)
  next
    case BCS_CHANGE_SYSTEM_ADDRESS
    then show ?thesis using ok room
      by (auto simp: run_command_def engine_ok_app engine_ok_sound ban_room_def intro!: good_rbind)
  qed (use ok room in \<open>auto simp: run_command_def ban_room_def\<close>)
  then show ?thesis
    unfolding command_round_def by (rule good_then) (auto simp: ban_room_def)
qed

lemma ProcessAllocCommandQ_ok:
  assumes "engine_ok k e" and "ban_room e"
  shows "good (\<lambda>(_, _, e). engine_ok k e \<and> ban_room e) (ProcessAllocCommandQ w raw us ms e)"
  unfolding ProcessAllocCommandQ_def
proof (rule each_popped_good)
  fix index c cs and s :: "u64 \<times> u32 \<times> engine"
  obtain us ms e where s: "s = (us, ms, e)" by (cases s)
  assume "case s of (_, _, e) \<Rightarrow> engine_ok k e \<and> ban_room e" and "(case s of (_, _, e) \<Rightarrow> allocCommandQ e) = c # cs"
  then have "engine_ok k e" "list_size (banList (app_of e)) + length cs + 1 < 2 ^ 30"
    by (simp_all add: s ban_room_def)
  then show "good (\<lambda>(_, _, e). engine_ok k e \<and> ban_room e)
      (command_round w raw index c (case s of (us, ms, e) \<Rightarrow> (us, ms, e\<lparr>allocCommandQ := cs\<rparr>)))"
    by (simp add: s command_round_ok)
qed (use assms in simp)

lemma recv_round_ok:
  assumes "engine_ok k e"
  shows "good (engine_ok k) (recv_round w inner b e)"
  unfolding recv_round_def ReclaimOneJISRecvParams_def
  by (rule engine_ok_then [OF assms ProcessOneRecvParam_sound [OF engine_ok_sound [OF assms]]]) (auto simp: engine_ok_def intro!: good_rbind)

lemma process_sockets_good:
  assumes round: "\<And>e outter inner b bs. P e \<Longrightarrow> recvQ outter e = b # bs \<Longrightarrow> outter < length (allocRecvParamQ e) \<Longrightarrow>
      good P (recv_round w inner b (set_recvQ outter bs e))"
    and len: "\<And>e. P e \<Longrightarrow> length (allocRecvParamQ e) = k"
  shows "P e \<Longrightarrow> outter + n = k \<Longrightarrow> good P (process_sockets w n outter e)"
proof (induction n arbitrary: outter e)
  case (Suc n)
  have "good P (process_socket w outter e)"
    unfolding process_socket_def
    by (rule each_popped_good) (use Suc.prems len round in auto)
  then show ?case
    by (simp, elim good_then) (use Suc.prems(2) in \<open>auto intro: Suc.IH\<close>)
qed simp

lemma ProcessAllocJISRecvParamsQ_ok: "engine_ok k e \<Longrightarrow> good (engine_ok k) (ProcessAllocJISRecvParamsQ w e)"
  unfolding ProcessAllocJISRecvParamsQ_def
  by (rule process_sockets_good [where k = k]) (auto simp: engine_ok_def intro!: recv_round_ok)

lemma network_ok:
  assumes "engine_ok k e" and "ban_room e"
  shows "good (engine_ok k) (RunNetworkUpdateCycleOnce w raw addr e)"
  unfolding RunNetworkUpdateCycleOnce_def
proof (rule good_then)
  show "good (\<lambda>e. engine_ok k e \<and> ban_room e) (ReclaimAllPackets e)"
    using assms by (auto simp: ReclaimAllPackets_def ban_room_def intro!: good_rbind)
next
  fix e assume "engine_ok k e \<and> ban_room e"
  then show "good (engine_ok k) (rbind (ProcessAllocCommandQ w raw 0 0 e) (\<lambda>(timeUS, timeMS, e).
      rbind (ProcessAllocJISRecvParamsQ w e) (\<lambda>e. rbind (ProcessConnectionRequestCancelQ addr (app_of e)) (\<lambda>a.
      rbind (ProcessConnectionRequestQ w timeUS timeMS a) (\<lambda>(_, _, a). Inr (e\<lparr>app_of := a\<rparr>))))))"
    by (auto simp: engine_ok_app intro!: good_then [OF ProcessAllocCommandQ_ok] good_then [OF ProcessAllocJISRecvParamsQ_ok]
        good_then [OF ProcessConnectionRequestCancelQ_sound [OF engine_ok_sound]]
        good_then [OF ProcessConnectionRequestQ_sound])
qed

section \<open>Every step\<close>

lemma receives_ok: "engine_ok k e \<Longrightarrow> good (\<lambda>(_, e). engine_ok k e) (RunRecvCycleOnce fuel sock raw index K e)"
  by (auto simp: RunRecvCycleOnce_def ReclaimAllJISRecvParams_def AllocJISRecvParams_def rbind_assoc
      engine_ok_def intro!: good_rbind)

lemma engine_step_ok:
  assumes "engine_step m e e'" and ok: "engine_ok k e"
  shows "engine_ok k e'"
  using assms(1)
proof cases
  case connects
  then show ?thesis using Connect_sound [OF engine_ok_sound [OF ok]] by (simp add: engine_ok_app [OF ok])
next
  case cancels
  then show ?thesis using goodD [OF CancelConnectionRequest_sound [OF engine_ok_sound [OF ok]]]
    by (simp add: engine_ok_app [OF ok])
next
  case (fetches p)
  then show ?thesis using goodD [OF fetch_packet_ok [OF ok]] by auto
next
  case (receives fuel sock raw index K K')
  then show ?thesis using goodD [OF receives_ok [OF ok]] by auto
next
  case (network w raw addr)
  then show ?thesis using goodD [OF network_ok [OF ok]] by (simp add: ban_room_def)
qed (use ok in \<open>simp_all add: set_plugin_ok run_cmd_def reclaim_packet_def\<close>)

lemma start_engine_ok: "sound n a \<Longrightarrow> engine_ok k (start_engine k a)"
  by (simp add: engine_ok_def start_engine_def sound_def)

lemma engine_steps_ok: "engine_steps m e e' \<Longrightarrow> engine_ok k e \<Longrightarrow> engine_ok k e'"
  by (induction rule: rtranclp_induct) (auto intro: engine_step_ok)

section \<open>No receive buffer is lost\<close>

text \<open>
  Every buffer taken from a pool is at exactly one place: waiting for the network thread, on its way back, or back in a
  pool. One that waits came through its own socket.
\<close>

definition all_buffers :: "engine \<Rightarrow> recv_buffer list" where
  "all_buffers e = concat (allocRecvParamQ e) @ concat (deAllocRecvParamQ e) @ map snd (reclaimed_buffers e)"

definition buffers_ok :: "engine \<Rightarrow> bool" where
  "buffers_ok e \<longleftrightarrow>
     mset (map buffer_number (all_buffers e)) = mset [0..<buffers_taken e] \<and>
     (\<forall>i < length (allocRecvParamQ e). \<forall>b \<in> set (recvQ i e).
        buffer_pool b = i \<and> localBoundSocket (buffer_params b) = i)"

lemma buffers_ok_updates [simp]:
  "buffers_ok (app_of_update f0 e) = buffers_ok e" "buffers_ok (pluginListTS_update g1 e) = buffers_ok e"
  "buffers_ok (pluginListNTS_update g1 e) = buffers_ok e"
  "buffers_ok (plugin_calls_update f1 e) = buffers_ok e" "buffers_ok (allocCommandQ_update f2 e) = buffers_ok e"
  "buffers_ok (deAllocCommandQ_update f2 e) = buffers_ok e" "buffers_ok (reclaimed_commands_update f3 e) = buffers_ok e"
  "buffers_ok (deAllocPacketQ_update f4 e) = buffers_ok e" "buffers_ok (reclaimed_packets_update f5 e) = buffers_ok e"
  by (simp_all add: buffers_ok_def all_buffers_def)

lemma mset_concat_update:
  "i < length xss \<Longrightarrow> mset (concat (xss[i := ys])) + mset (xss ! i) = mset (concat xss) + mset ys"
proof (induction xss arbitrary: i)
  case (Cons xs xss)
  then show ?case by (cases i) auto
qed simp

lemma buffers_set_plugin [simp]: "buffers_ok (set_plugin m plugin e) = buffers_ok e"
  by (simp add: set_plugin_def call_plugin_def Let_def)

lemma buffers_call_plugin [simp]: "buffers_ok (call_plugin i c e) = buffers_ok e"
  by (simp add: call_plugin_def)

lemma buffers_update_loop [simp]: "buffers_ok (update_loop is e) = buffers_ok e"
  by (induction "is" arbitrary: e) simp_all

lemma buffers_event_loop: "buffers_ok e \<Longrightarrow> good buffers_ok (event_loop is p e)"
  by (induction "is" arbitrary: e) (auto intro!: good_rbind split: option.split)

lemma buffers_fetch_packet:
  assumes "buffers_ok e"
  shows "good (\<lambda>(_, e). buffers_ok e) (fetch_packet m e)"
proof -
  have shown: "good (\<lambda>(_, e). buffers_ok e)
      (rbind (PacketGoThroughPluginCBs p e) (\<lambda>e. Inr (PacketGoThroughPlugins m p e)))" if "buffers_ok e" for p e
  proof (rule good_then)
    show "good buffers_ok (PacketGoThroughPluginCBs p e)"
      unfolding PacketGoThroughPluginCBs_def by (rule good_then; rule buffers_event_loop) (use that in simp_all)
  qed (simp add: PacketGoThroughPlugins_result Let_def)
  have reclaim: "good buffers_ok (ReclaimAllCommands e)"
    using assms by (auto simp: ReclaimAllCommands_def intro!: good_rbind)
  have "good (\<lambda>(_, e). buffers_ok e) (RunGetPacketCycleOnce m e)"
    unfolding RunGetPacketCycleOnce_def Let_def
    by (rule good_then [OF reclaim])
      (auto simp: UpdatePlugins_def AdjustTimestamp_def rbind_assoc split: list.split intro!: good_rbind shown)
  then show ?thesis using assms by (simp add: fetch_packet_def)
qed

lemma buffers_command_round:
  assumes "buffers_ok e"
  shows "good (\<lambda>(_, _, e). buffers_ok e) (command_round w raw index c (us, ms, e))"
proof -
  have "good (\<lambda>(_, _, e). buffers_ok e) (run_command w raw c (us, ms, e))"
    using assms by (cases "commandID c")
      (auto simp: run_command_def run_cmd_def Let_def intro!: good_seq good_then [OF Connect_cmd_posts]
        split: option.split prod.split)
  then show ?thesis unfolding command_round_def by (rule good_then) auto
qed

lemma recv_round_result:
  assumes "recv_round w inner b e = Inr e'"
  shows "\<exists>a. ProcessOneRecvParam w (buffer_params b) (app_of e) = Inr a \<and> inner < length (deAllocRecvParamQ e) \<and>
    e' = e\<lparr>app_of := a, deAllocRecvParamQ := (deAllocRecvParamQ e)[inner := deAllocRecvParamQ e ! inner @ [b]]\<rparr>"
  using assms by (auto simp: recv_round_def ReclaimOneJISRecvParams_def rbind_eq_Inr get_at_def split: if_splits)

lemma buffers_recv_round:
  assumes "buffers_ok e" and q: "recvQ outter e = b # bs" and outter: "outter < length (allocRecvParamQ e)"
  shows "good (\<lambda>e'. buffers_ok e' \<and> length (allocRecvParamQ e') = length (allocRecvParamQ e))
    (recv_round w inner b (set_recvQ outter bs e))"
proof (rule goodI)
  fix e' assume "recv_round w inner b (set_recvQ outter bs e) = Inr e'"
  then obtain a where inner: "inner < length (deAllocRecvParamQ e)"
    and e': "e' = e\<lparr>allocRecvParamQ := (allocRecvParamQ e)[outter := bs], app_of := a,
      deAllocRecvParamQ := (deAllocRecvParamQ e)[inner := deAllocRecvParamQ e ! inner @ [b]]\<rparr>"
    by (auto dest!: recv_round_result)
  have one: "mset (concat (allocRecvParamQ e)) = add_mset b (mset (concat ((allocRecvParamQ e)[outter := bs])))"
    using mset_concat_update [OF outter, of bs] q by simp
  have two: "mset (concat ((deAllocRecvParamQ e)[inner := deAllocRecvParamQ e ! inner @ [b]]))
      = add_mset b (mset (concat (deAllocRecvParamQ e)))"
    using mset_concat_update [OF inner, of "deAllocRecvParamQ e ! inner @ [b]"] by simp
  have waiting: "\<forall>i < length (allocRecvParamQ e). \<forall>x \<in> set ((allocRecvParamQ e)[outter := bs] ! i).
      buffer_pool x = i \<and> localBoundSocket (buffer_params x) = i"
  proof (intro allI impI ballI)
    fix i x assume i: "i < length (allocRecvParamQ e)" and x: "x \<in> set ((allocRecvParamQ e)[outter := bs] ! i)"
    have "x \<in> set (recvQ i e)" using i x q by (cases "i = outter") simp_all
    then show "buffer_pool x = i \<and> localBoundSocket (buffer_params x) = i"
      using assms(1) i unfolding buffers_ok_def by blast
  qed
  have "mset (all_buffers e') = mset (all_buffers e)"
    using two unfolding e' all_buffers_def by (simp add: one del: mset_concat)
  then have "mset (map buffer_number (all_buffers e')) = mset [0..<buffers_taken e']"
    using assms(1) unfolding buffers_ok_def mset_map e' by simp
  then show "buffers_ok e' \<and> length (allocRecvParamQ e') = length (allocRecvParamQ e)"
    using waiting e' by (simp add: buffers_ok_def)
qed

lemma buffers_network:
  assumes "buffers_ok e"
  shows "good buffers_ok (RunNetworkUpdateCycleOnce w raw addr e)"
proof -
  have commands: "good (\<lambda>(_, _, e). buffers_ok e) (ProcessAllocCommandQ w raw us ms e)" if "buffers_ok e" for us ms e
    unfolding ProcessAllocCommandQ_def
    by (rule each_popped_good) (use that in \<open>auto intro!: buffers_command_round\<close>)
  have packets: "good buffers_ok (ReclaimAllPackets e)"
    using assms by (auto simp: ReclaimAllPackets_def intro!: good_rbind)
  have datagrams: "good buffers_ok (ProcessAllocJISRecvParamsQ w e)" if "buffers_ok e" for e
  proof -
    have "good (\<lambda>e'. buffers_ok e' \<and> length (allocRecvParamQ e') = length (allocRecvParamQ e))
        (process_sockets w (length (allocRecvParamQ e)) 0 e)"
      by (rule process_sockets_good [where k = "length (allocRecvParamQ e)"])
        (use that in \<open>auto simp: good_def dest: goodD [OF buffers_recv_round]\<close>)
    then show ?thesis by (auto simp: ProcessAllocJISRecvParamsQ_def good_def)
  qed
  show ?thesis unfolding RunNetworkUpdateCycleOnce_def
    by (rule good_then [OF packets]) (auto intro!: good_seq good_then [OF commands] good_then [OF datagrams])
qed

lemma RecvFrom_socket:
  "good (\<lambda>(_, rp', _). localBoundSocket rp' = localBoundSocket rp) (RecvFrom fuel sock rp K)"
proof -
  have "good (\<lambda>(_, rp', _). localBoundSocket rp' = localBoundSocket rp) (RecvFromIPV4 fuel nb rp K)" for nb rp K
  proof (induction fuel arbitrary: rp K)
    case (Suc fuel)
    have "good (\<lambda>(_, rp', _). localBoundSocket rp' = localBoundSocket rp) (RecvFromIPV4 fuel nb (rp\<lparr>bytesRead := n\<rparr>) K)" for n K
      using Suc [of "rp\<lparr>bytesRead := n\<rparr>" K] by simp
    then show ?case by (auto simp: Let_def split: prod.split intro!: good_rbind)
  qed simp
  then show ?thesis by (auto simp: RecvFrom_def split: option.split prod.split)
qed

text \<open>A cycle of a receiving thread in one piece: half of the buffers given back go to the pool, one is taken.\<close>

definition after_receive :: "nat \<Rightarrow> int \<Rightarrow> recv_params \<Rightarrow> engine \<Rightarrow> engine" where
  "after_receive index n rp e =
     (let d = deAllocRecvParamQ e ! index; b = \<lparr>buffer_number = buffers_taken e, buffer_pool = index, buffer_params = rp\<rparr>;
          e = e\<lparr>deAllocRecvParamQ := (deAllocRecvParamQ e)[index := second_half d],
                reclaimed_buffers := reclaimed_buffers e @ map (Pair index) (first_half d), buffers_taken := buffers_taken e + 1\<rparr>
      in if n > 0 then set_recvQ index (recvQ index e @ [b]) e
         else e\<lparr>reclaimed_buffers := reclaimed_buffers e @ [(index, b)]\<rparr>)"

lemma RunRecvCycleOnce_result:
  assumes "index < length (deAllocRecvParamQ e)" and "index < length (allocRecvParamQ e)"
  shows "RunRecvCycleOnce fuel sock raw index K e =
     rbind (RecvFrom fuel sock (raw\<lparr>localBoundSocket := index\<rparr>) K)
       (\<lambda>(n, rp, K'). Inr (K', after_receive index n rp e))"
  using assms
  by (cases "RecvFrom fuel sock (raw\<lparr>localBoundSocket := index\<rparr>) K")
    (simp_all add: RunRecvCycleOnce_def ReclaimAllJISRecvParams_def AllocJISRecvParams_def drain_list Let_def
       after_receive_def case_prod_beta)

lemma RunRecvCycleOnce_bounds:
  assumes "RunRecvCycleOnce fuel sock raw index K e = Inr r"
  shows "index < length (deAllocRecvParamQ e)" "index < length (allocRecvParamQ e)"
  using assms
  by (auto simp: RunRecvCycleOnce_def ReclaimAllJISRecvParams_def AllocJISRecvParams_def rbind_eq_Inr get_at_def drain_list
      split: if_splits)

lemma buffers_receives:
  assumes ok: "buffers_ok e"
  shows "good (\<lambda>(_, e). buffers_ok e) (RunRecvCycleOnce fuel sock raw index K e)"
proof (rule goodI)
  fix r assume run: "RunRecvCycleOnce fuel sock raw index K e = Inr r"
  note i = RunRecvCycleOnce_bounds(2,1) [OF run]
  obtain n rp K' where got: "RecvFrom fuel sock (raw\<lparr>localBoundSocket := index\<rparr>) K = Inr (n, rp, K')"
    and r: "r = (K', after_receive index n rp e)"
    using run unfolding RunRecvCycleOnce_result [OF i(2,1)] by (auto simp: rbind_eq_Inr)
  have socket: "localBoundSocket rp = index" using goodD [OF RecvFrom_socket got] by simp
  let ?d = "deAllocRecvParamQ e ! index"
  define b where "b = \<lparr>buffer_number = buffers_taken e, buffer_pool = index, buffer_params = rp\<rparr>"
  have halves: "mset (first_half ?d) + mset (second_half ?d) = mset ?d" by (metis append_take_drop_id mset_append)
  have cancel: "C2 + D = C + S \<Longrightarrow> H + S = D \<Longrightarrow> C2 + H = C" for C C2 D H S :: "recv_buffer multiset"
    by (auto simp flip: add.assoc)
  have one: "mset (concat ((deAllocRecvParamQ e)[index := second_half ?d])) + mset (first_half ?d)
      = mset (concat (deAllocRecvParamQ e))"
    by (rule cancel [OF mset_concat_update [OF i(2)] halves])
  have two: "mset (concat ((allocRecvParamQ e)[index := recvQ index e @ [b]])) = add_mset b (mset (concat (allocRecvParamQ e)))"
    using mset_concat_update [OF i(1), of "recvQ index e @ [b]"] by simp
  let ?e = "after_receive index n rp e"
  have moved: "D2 + H = D \<Longrightarrow> X + (D2 + (R + H)) = X + (D + R)" for X D D2 H R :: "recv_buffer multiset"
    by (auto simp: ac_simps)
  let ?A = "concat (if n > 0 then (allocRecvParamQ e)[index := recvQ index e @ [b]] else allocRecvParamQ e)"
  let ?B = "if n > 0 then [] else [b]"
  have "all_buffers ?e = ?A @ concat ((deAllocRecvParamQ e)[index := second_half ?d])
      @ (map snd (reclaimed_buffers e) @ first_half ?d) @ ?B"
    by (simp add: all_buffers_def after_receive_def Let_def b_def [symmetric] comp_def)
  then have "mset (all_buffers ?e) = mset ?A + (mset (concat ((deAllocRecvParamQ e)[index := second_half ?d]))
      + (mset (map snd (reclaimed_buffers e)) + mset (first_half ?d))) + mset ?B"
    by (simp only: mset_append add.assoc)
  also have "\<dots> = mset ?A + (mset (concat (deAllocRecvParamQ e)) + mset (map snd (reclaimed_buffers e))) + mset ?B"
    by (simp only: moved [OF one])
  also have "\<dots> = add_mset b (mset (all_buffers e))" unfolding all_buffers_def
    using two by (cases "n > 0") (simp_all del: mset_concat)
  finally have "mset (all_buffers ?e) = add_mset b (mset (all_buffers e))" .
  moreover have "mset (map buffer_number (all_buffers e)) = mset [0..<buffers_taken e]"
    "\<forall>i < length (allocRecvParamQ e). \<forall>b \<in> set (recvQ i e). buffer_pool b = i \<and> localBoundSocket (buffer_params b) = i"
    using ok unfolding buffers_ok_def by blast+
  moreover have "buffers_taken ?e = Suc (buffers_taken e)" by (simp add: after_receive_def Let_def)
  ultimately have "mset (map buffer_number (all_buffers ?e)) = mset [0..<buffers_taken ?e]"
    by (simp add: b_def)
  moreover have "\<forall>i < length (allocRecvParamQ ?e). \<forall>b \<in> set (recvQ i ?e). buffer_pool b = i \<and> localBoundSocket (buffer_params b) = i"
    using ok socket i(1) unfolding buffers_ok_def after_receive_def Let_def by (simp add: nth_list_update)
  ultimately show "case r of (_, e) \<Rightarrow> buffers_ok e" unfolding r buffers_ok_def by simp
qed

lemma buffers_step:
  assumes "engine_step m e e'" and ok: "buffers_ok e"
  shows "buffers_ok e'"
  using assms(1)
proof cases
  case (fetches p)
  then show ?thesis using goodD [OF buffers_fetch_packet [OF ok]] by auto
next
  case (receives fuel sock raw index K K')
  then show ?thesis using goodD [OF buffers_receives [OF ok]] by auto
next
  case (network w raw addr)
  then show ?thesis using goodD [OF buffers_network [OF ok]] by simp
qed (use ok in \<open>simp_all add: run_cmd_def reclaim_packet_def\<close>)

lemma start_buffers_ok: "buffers_ok (start_engine k a)"
  by (simp add: buffers_ok_def all_buffers_def start_engine_def)

lemma engine_steps_buffers: "engine_steps m e e' \<Longrightarrow> buffers_ok e \<Longrightarrow> buffers_ok e'"
  by (induction rule: rtranclp_induct) (auto intro: buffers_step)

end
