(* ===== verification/Cycle_Facts.thy ===== *)
theory Cycle_Facts
  imports Network_Steps
begin

text \<open>
  What a cycle of the network thread does with the datagrams that wait, and what becomes of the commands and
  packets it takes.
\<close>

section \<open>Working off the datagrams\<close>

text \<open>The datagrams in the buffers \<open>bs\<close> handled one after the other, and the buffers put into the queues from \<open>j\<close> on.\<close>

fun handle_all :: "world \<Rightarrow> recv_buffer list \<Rightarrow> app \<Rightarrow> app res" where
  "handle_all w [] a = Inr a"
| "handle_all w (b # bs) a = rbind (ProcessOneRecvParam w (buffer_params b) a) (handle_all w bs)"

fun hand_out :: "nat \<Rightarrow> recv_buffer list \<Rightarrow> recv_buffer list list \<Rightarrow> recv_buffer list list" where
  "hand_out j [] d = d"
| "hand_out j (b # bs) d = hand_out (Suc j) bs (d[j := d ! j @ [b]])"

lemma length_hand_out [simp]: "length (hand_out j bs d) = length d"
  by (induction j bs d rule: hand_out.induct) simp_all

lemma handle_all_append: "handle_all w (xs @ ys) a = rbind (handle_all w xs a) (handle_all w ys)"
  by (induction xs arbitrary: a) (simp_all add: rbind_assoc cong: rbind_cong)

text \<open>
  The loop over a queue from round \<open>j\<close> on. It takes half of what waits, rounded up; round \<open>j\<close> gives its buffer to the
  queue \<open>j\<close>, and when there is no such queue it runs out of the array after it has handled the datagram.
\<close>

lemma rounds_of_queue:
  assumes "i < length (allocRecvParamQ e)" and "recvQ i e = bs" and "length bs - j < fuel" and "j \<le> length (deAllocRecvParamQ e)"
  shows "each_popped fuel j (recvQ i) (set_recvQ i) (recv_round w) e =
    (let h = (length bs - j + 1) div 2; k = length (deAllocRecvParamQ e)
     in if j + h \<le> k
        then rbind (handle_all w (take h bs) (app_of e)) (\<lambda>a. Inr (e\<lparr>app_of := a,
               allocRecvParamQ := (allocRecvParamQ e)[i := drop h bs],
               deAllocRecvParamQ := hand_out j (take h bs) (deAllocRecvParamQ e)\<rparr>))
        else rbind (handle_all w (take (k - j + 1) bs) (app_of e)) (\<lambda>_. Inl OutOfBounds))"
  using assms
proof (induction fuel arbitrary: j bs e)
  case (Suc fuel)
  let ?k = "length (deAllocRecvParamQ e)"
  show ?case
  proof (cases "j < length bs")
    case False
    have "set_recvQ i bs e = e" using Suc.prems(2) by (metis engine.surjective engine.update_convs(10) list_update_id)
    then show ?thesis using Suc.prems(2,4) False by simp
  next
    case True
    then obtain b rest where bs: "bs = b # rest" by (cases bs) auto
    define h where "h = (length rest - Suc j + 1) div 2"
    have fuel: "length rest - Suc j < fuel" using True Suc.prems(3) by (simp add: bs)
    have h: "(length bs - j + 1) div 2 = Suc h"
    proof (cases "length rest \<le> j")
      case True
      then have "length rest = j" using \<open>j < length bs\<close> bs by simp
      then show ?thesis by (simp add: h_def bs)
    next
      case False
      then have "length bs - j + 1 = (length rest - Suc j + 1) + 2" using bs by simp
      then show ?thesis unfolding h_def by simp
    qed
    show ?thesis
    proof (cases "ProcessOneRecvParam w (buffer_params b) (app_of e)")
      case (Inl f)
      then show ?thesis using True Suc.prems(2) h by (simp add: bs recv_round_def Let_def)
    next
      case (Inr a)
      show ?thesis
      proof (cases "j < ?k")
        case False
        then show ?thesis using True Suc.prems(2,4) h Inr
          by (simp add: bs recv_round_def ReclaimOneJISRecvParams_def get_at_def Let_def)
      next
        case k: True
        let ?e = "e\<lparr>allocRecvParamQ := (allocRecvParamQ e)[i := rest], app_of := a,
          deAllocRecvParamQ := (deAllocRecvParamQ e)[j := deAllocRecvParamQ e ! j @ [b]]\<rparr>"
        have round: "recv_round w j b (set_recvQ i rest e) = Inr ?e"
          using Inr k by (simp add: recv_round_def ReclaimOneJISRecvParams_def get_at_def)
        have "each_popped fuel (Suc j) (recvQ i) (set_recvQ i) (recv_round w) ?e =
          (if Suc j + h \<le> ?k
            then rbind (handle_all w (take h rest) a) (\<lambda>a. Inr (?e\<lparr>app_of := a,
                   allocRecvParamQ := (allocRecvParamQ ?e)[i := drop h rest],
                   deAllocRecvParamQ := hand_out (Suc j) (take h rest) (deAllocRecvParamQ ?e)\<rparr>))
            else rbind (handle_all w (take (?k - Suc j + 1) rest) a) (\<lambda>_. Inl OutOfBounds))"
          unfolding h_def using Suc.IH [of ?e rest "Suc j"] Suc.prems(1) k fuel by (simp add: Let_def)
        moreover have "?k - j = Suc (?k - Suc j)" using k by simp
        ultimately show ?thesis
          using True Suc.prems(2) h Inr round by (simp add: bs Let_def)
      qed
    qed
  qed
qed simp

lemma process_socket_result:
  assumes "i < length (allocRecvParamQ e)"
  shows "process_socket w i e =
    (if length (recvQ i e) \<le> 2 * length (deAllocRecvParamQ e)
     then rbind (handle_all w (first_half (recvQ i e)) (app_of e)) (\<lambda>a. Inr (e\<lparr>app_of := a,
            allocRecvParamQ := (allocRecvParamQ e)[i := second_half (recvQ i e)],
            deAllocRecvParamQ := hand_out 0 (first_half (recvQ i e)) (deAllocRecvParamQ e)\<rparr>))
     else rbind (handle_all w (take (length (deAllocRecvParamQ e) + 1) (recvQ i e)) (app_of e)) (\<lambda>_. Inl OutOfBounds))"
proof -
  have "(length (recvQ i e) + 1) div 2 \<le> length (deAllocRecvParamQ e) \<longleftrightarrow> length (recvQ i e) \<le> 2 * length (deAllocRecvParamQ e)"
    by linarith
  then show ?thesis unfolding process_socket_def
    using rounds_of_queue [OF assms refl, of 0 "length (recvQ i e) + 1" w] by (simp add: Let_def)
qed

text \<open>Sockets that have not too many datagrams are worked off, and those behind them are as before.\<close>

lemma process_sockets_result:
  "m + n \<le> length (allocRecvParamQ e) \<Longrightarrow>
   \<forall>j. m \<le> j \<and> j < m + n \<longrightarrow> length (recvQ j e) \<le> 2 * length (deAllocRecvParamQ e) \<Longrightarrow>
   handle_all w (concat (map (\<lambda>j. first_half (recvQ j e)) [m..<m + n])) (app_of e) = Inr a \<Longrightarrow>
   \<exists>e'. process_sockets w n m e = Inr e' \<and> app_of e' = a \<and> length (allocRecvParamQ e') = length (allocRecvParamQ e) \<and>
     length (deAllocRecvParamQ e') = length (deAllocRecvParamQ e) \<and> (\<forall>j \<ge> m + n. recvQ j e' = recvQ j e)"
proof (induction n arbitrary: m e)
  case (Suc n)
  have up: "[m..<m + Suc n] = m # [Suc m..<Suc m + n]" by (simp add: upt_conv_Cons del: upt_Suc)
  obtain a1 where a1: "handle_all w (first_half (recvQ m e)) (app_of e) = Inr a1"
    and rest: "handle_all w (concat (map (\<lambda>j. first_half (recvQ j e)) [Suc m..<Suc m + n])) a1 = Inr a"
    using Suc.prems(3) unfolding up by (auto simp: handle_all_append rbind_eq_Inr)
  define e1 where "e1 = e\<lparr>app_of := a1, allocRecvParamQ := (allocRecvParamQ e)[m := second_half (recvQ m e)],
    deAllocRecvParamQ := hand_out 0 (first_half (recvQ m e)) (deAllocRecvParamQ e)\<rparr>"
  have run: "process_socket w m e = Inr e1"
    using process_socket_result [of m e w] Suc.prems(1,2) a1 by (simp add: e1_def)
  have app1: "app_of e1 = a1" by (simp add: e1_def)
  have same: "recvQ j e1 = recvQ j e" if "Suc m \<le> j" for j using that by (simp add: e1_def)
  have "map (\<lambda>j. first_half (recvQ j e1)) [Suc m..<Suc m + n] = map (\<lambda>j. first_half (recvQ j e)) [Suc m..<Suc m + n]"
    by (rule map_cong [OF refl]) (use same in auto)
  then have "handle_all w (concat (map (\<lambda>j. first_half (recvQ j e1)) [Suc m..<Suc m + n])) (app_of e1) = Inr a"
    using rest app1 by (simp only:)
  moreover have "\<forall>j. Suc m \<le> j \<and> j < Suc m + n \<longrightarrow> length (recvQ j e1) \<le> 2 * length (deAllocRecvParamQ e1)"
    using Suc.prems(2) same by (auto simp: e1_def)
  moreover have "Suc m + n \<le> length (allocRecvParamQ e1)" using Suc.prems(1) by (simp add: e1_def)
  ultimately obtain e' where e': "process_sockets w n (Suc m) e1 = Inr e'" "app_of e' = a"
    "length (allocRecvParamQ e') = length (allocRecvParamQ e1)" "length (deAllocRecvParamQ e') = length (deAllocRecvParamQ e1)"
    "\<forall>j \<ge> Suc m + n. recvQ j e' = recvQ j e1"
    using Suc.IH [of "Suc m" e1] by blast
  then show ?case using run same by (auto simp: e1_def)
qed auto

section \<open>One datagram\<close>

lemma process_socket_empty: "recvQ outter e = [] \<Longrightarrow> process_socket w outter e = Inr e"
  by (simp add: process_socket_def)

lemma process_sockets_empty:
  "\<forall>j. outter \<le> j \<and> j < outter + n \<longrightarrow> recvQ j e = [] \<Longrightarrow> process_sockets w n outter e = Inr e"
  by (induction n arbitrary: outter) (auto simp: process_socket_empty)

lemma process_sockets_add:
  "process_sockets w (k + n) outter e = rbind (process_sockets w k outter e) (process_sockets w n (outter + k))"
proof (induction k arbitrary: outter e)
  case (Suc k)
  then show ?case by (auto simp: rbind_assoc intro: rbind_cong)
qed simp

lemma process_socket_one:
  assumes "recvQ i e = [b]" and "i < length (allocRecvParamQ e)" and "0 < length (deAllocRecvParamQ e)"
  shows "process_socket w i e = rbind (ProcessOneRecvParam w (buffer_params b) (app_of e)) (\<lambda>a.
    Inr (e\<lparr>app_of := a, allocRecvParamQ := (allocRecvParamQ e)[i := []],
           deAllocRecvParamQ := (deAllocRecvParamQ e)[0 := deAllocRecvParamQ e ! 0 @ [b]]\<rparr>))"
  using assms
  by (cases "ProcessOneRecvParam w (buffer_params b) (app_of e)")
    (simp_all add: process_socket_def recv_round_def ReclaimOneJISRecvParams_def)

text \<open>When one datagram waits, its buffer is given back to the queue of the first socket.\<close>

lemma ProcessAllocJISRecvParamsQ_one:
  assumes i: "recvQ i e = [b]" "i < length (allocRecvParamQ e)" and d: "0 < length (deAllocRecvParamQ e)"
    and others: "\<forall>j < length (allocRecvParamQ e). j \<noteq> i \<longrightarrow> recvQ j e = []"
  shows "ProcessAllocJISRecvParamsQ w e = rbind (ProcessOneRecvParam w (buffer_params b) (app_of e)) (\<lambda>a.
    Inr (e\<lparr>app_of := a, allocRecvParamQ := (allocRecvParamQ e)[i := []],
           deAllocRecvParamQ := (deAllocRecvParamQ e)[0 := deAllocRecvParamQ e ! 0 @ [b]]\<rparr>))"
proof -
  define n where "n = length (allocRecvParamQ e) - Suc i"
  have n: "length (allocRecvParamQ e) = i + Suc n" using i(2) by (simp add: n_def)
  have before: "process_sockets w i 0 e = Inr e"
    by (rule process_sockets_empty) (use others i(2) in auto)
  have after: "process_sockets w n (Suc i) e' = Inr e'" if "allocRecvParamQ e' = (allocRecvParamQ e)[i := []]" for e'
    by (rule process_sockets_empty) (use others n that in auto)
  show ?thesis
    unfolding ProcessAllocJISRecvParamsQ_def n process_sockets_add before
    using process_socket_one [OF i d]
    by (cases "ProcessOneRecvParam w (buffer_params b) (app_of e)") (simp_all add: after)
qed

text \<open>A datagram the system delivers into the buffer \<open>raw\<close> of the socket \<open>i\<close>.\<close>

definition delivered :: "nat \<Rightarrow> u8 list \<Rightarrow> u16 \<Rightarrow> u32 \<Rightarrow> u64 \<Rightarrow> recv_params \<Rightarrow> recv_params" where
  "delivered i d port addr time raw =
     raw\<lparr>localBoundSocket := i, bytesRead := int (length d), rp_data := received_into d (rp_data raw), timeRead := time,
         senderINetAddress := (senderINetAddress raw)\<lparr>sin_family := AF_INET, sin_port := port, s_addr := addr\<rparr>\<rparr>"

lemma RecvFrom_delivers:
  assumes "jst sock = None" and "k_recvfrom K (k_calls K) = (int (length d), d, port, addr)" and "d \<noteq> []"
  shows "RecvFrom (Suc fuel) sock (raw\<lparr>localBoundSocket := i\<rparr>) K =
    Inr (int (length d), delivered i d port addr (k_time K (k_calls K + 1)) raw, called (called K))"
  using assms by (simp add: RecvFrom_def delivered_def Let_def)

section \<open>Packets\<close>

definition heard :: "u8 \<Rightarrow> packet \<Rightarrow> engine \<Rightarrow> (nat \<times> plugin_call) list" where
  "heard b p e = (case plugin_event b p of None \<Rightarrow> [] | Some c \<Rightarrow> map (\<lambda>i. (i, c)) (pluginListTS e @ pluginListNTS e))"

lemma PacketGoThroughPluginCBs_calls:
  assumes "packet_id (app_of e) p = Inr b"
  shows "PacketGoThroughPluginCBs p e = Inr (e\<lparr>plugin_calls := plugin_calls e @ heard b p e\<rparr>)"
  using assms by (cases "plugin_event b p") (simp_all add: PacketGoThroughPluginCBs_def event_loop_calls heard_def)

lemma update_loop_calls: "update_loop is e = e\<lparr>plugin_calls := plugin_calls e @ map (\<lambda>i. (i, Update)) is\<rparr>"
  by (induction "is" arbitrary: e) (simp_all add: call_plugin_def)

end
