(* ===== verification/Cycle_Properties.thy ===== *)
theory Cycle_Properties
  imports Cycle_Facts Handshake_Properties
begin

text \<open>
  Properties of the threads together: what holds after any sequence of their steps, what becomes of datagrams,
  packets, bans and buffers on their way through the queues, and of the calls of the operating system.
\<close>

section \<open>A machine to run the threads on\<close>

definition test_plugins :: plugin_methods where
  "test_plugins = \<lparr>UsesReliabilityLayer = (\<lambda>i. i > 5), OnRecvPacket_result = (\<lambda>_ _. PROCESSED_BY_OTHERS)\<rparr>"

text \<open>The system hands out the datagram \<open>[1, 2]\<close> at every call.\<close>

definition test_kernel :: kernel where
  "test_kernel =
     \<lparr>k_calls = 0, k_sendto = (\<lambda>_ d _. int (length d)), k_recvfrom = (\<lambda>_. (2, [1, 2], 5, 5)), k_errno = (\<lambda>_. 0),
      k_socket = (\<lambda>_. SOCKET_ERROR), k_option = (\<lambda>_. 0), k_bind = (\<lambda>_ _. 0), k_getsockname = (\<lambda>_. None),
      k_time = (\<lambda>_. 0), k_ttl = 0\<rparr>"

definition test_socket :: berkley_socket where
  "test_socket = \<lparr>sock_boundAddress = far, binding = \<lparr>bp_port = 5, hostAddress = None, isNonBlocking = False\<rparr>,
     jst = None, rns2Socket = 3\<rparr>"

definition test_buffer :: recv_params where
  "test_buffer = arrived []"

definition idle_command :: cmd where
  "idle_command = \<lparr>commandID = BCS_DO_NOTHING, systemIdentifier = raw_wrapper test_world, cmd_data = None,
       repStatus = NO_ACTION, arrayparams = replicate arrayparams_size 0\<rparr>"

definition idle_engine :: "nat \<Rightarrow> engine" where
  "idle_engine k = start_engine k (test_app 1)"

lemma test_app_sound: "sound 1 (test_app x)"
  by (simp add: sound_def test_app_def two_requests_ok)

lemma idle_engine_sel [simp]:
  "allocRecvParamQ (idle_engine k) = replicate k []" "deAllocRecvParamQ (idle_engine k) = replicate k []"
  "pluginListNTS (idle_engine k) = []" "pluginListTS (idle_engine k) = []"
  by (simp_all add: idle_engine_def start_engine_def)

text \<open>A step of the receiving thread of the one socket of the machine.\<close>

definition one_received :: "engine \<Rightarrow> engine" where
  "one_received e = after_receive 0 2 (delivered 0 [1, 2] 5 5 0 test_buffer) e"

lemma receive_step:
  assumes "length (allocRecvParamQ e) = 1" and "length (deAllocRecvParamQ e) = 1"
  shows "engine_step m e (one_received e)"
proof -
  have "RecvFrom (Suc 0) test_socket (test_buffer\<lparr>localBoundSocket := 0\<rparr>) test_kernel =
      Inr (2, delivered 0 [1, 2] 5 5 0 test_buffer, called (called test_kernel))"
    using RecvFrom_delivers [of test_socket test_kernel "[1, 2]" 5 5 0 0 test_buffer]
    by (simp add: test_socket_def test_kernel_def)
  then have "RunRecvCycleOnce (Suc 0) test_socket test_buffer 0 test_kernel e = Inr (called (called test_kernel), one_received e)"
    using assms by (simp add: RunRecvCycleOnce_result one_received_def del: RecvFrom_def)
  then show ?thesis by (rule engine_step.receives)
qed

lemma one_received_sel [simp]:
  "length (allocRecvParamQ (one_received e)) = length (allocRecvParamQ e)"
  "length (deAllocRecvParamQ (one_received e)) = length (deAllocRecvParamQ e)"
  "0 < length (allocRecvParamQ e) \<Longrightarrow> length (recvQ 0 (one_received e)) = length (recvQ 0 e) + 1"
  by (simp_all add: one_received_def after_receive_def Let_def)

definition three_waiting :: engine where
  "three_waiting = one_received (one_received (one_received (idle_engine 1)))"

lemma three_waiting_reached: "engine_steps m (start_engine 1 (test_app 1)) three_waiting"
proof -
  have "engine_steps m (idle_engine 1) (one_received (idle_engine 1))"
    by (intro r_into_rtranclp receive_step) simp_all
  moreover have "engine_steps m (one_received (idle_engine 1)) (one_received (one_received (idle_engine 1)))"
    by (intro r_into_rtranclp receive_step) simp_all
  moreover have "engine_steps m (one_received (one_received (idle_engine 1))) three_waiting"
    unfolding three_waiting_def by (intro r_into_rtranclp receive_step) simp_all
  ultimately show ?thesis unfolding idle_engine_def by (meson rtranclp_trans)
qed

lemma three_waiting_length: "length (recvQ 0 three_waiting) = 3"
  by (simp add: three_waiting_def)

section \<open>After any sequence of steps\<close>

text \<open>
  C2: After any sequence of calls of the user and cycles of the threads that ends without a failed assertion, the
  queues of requests and cancellations and the ban list are sound, no plugin is attached twice, the application
  knows how many plugins there are, and each socket has its two queues of buffers.
\<close>

theorem engine_well_formed:
  assumes "engine_steps m (start_engine k a) e" and "sound n a"
  shows "engine_ok k e"
  using engine_steps_ok [OF assms(1)] start_engine_ok [OF assms(2)] by blast

theorem engine_well_formed_witness: "engine_ok 1 three_waiting \<and> length (recvQ 0 three_waiting) = 3"
  using engine_well_formed [OF three_waiting_reached test_app_sound] three_waiting_length by simp

text \<open>
  C8: No receive buffer gets lost or is given back twice: after any sequence of steps each buffer that was ever taken
  from a pool is exactly once in the queues of the datagrams that wait, the queues of the buffers on their way back, or
  the list of those given back. A buffer that waits for the network thread came through the socket in whose queue it is.
\<close>

theorem no_buffer_lost:
  assumes "engine_steps m (start_engine k a) e"
  shows "mset (map buffer_number (concat (allocRecvParamQ e) @ concat (deAllocRecvParamQ e) @ map snd (reclaimed_buffers e)))
      = mset [0..<buffers_taken e]
    \<and> (\<forall>i < length (allocRecvParamQ e). \<forall>b \<in> set (recvQ i e). localBoundSocket (buffer_params b) = i)"
  using engine_steps_buffers [OF assms start_buffers_ok] unfolding buffers_ok_def all_buffers_def by blast

lemma one_received_taken: "buffers_taken (one_received e) = Suc (buffers_taken e)"
  by (simp add: one_received_def after_receive_def Let_def)

theorem no_buffer_lost_witness:
  "mset (map buffer_number (concat (allocRecvParamQ three_waiting) @ concat (deAllocRecvParamQ three_waiting)
     @ map snd (reclaimed_buffers three_waiting))) = {#0, 1, 2#}"
proof -
  have "buffers_taken three_waiting = 3"
    by (simp add: three_waiting_def one_received_taken idle_engine_def start_engine_def)
  then show ?thesis using no_buffer_lost [OF three_waiting_reached] by (simp add: numeral_3_eq_3)
qed

text \<open>
  C21: When more than two datagrams for each of the \<open>k\<close> sockets wait at one socket, the network thread runs out of the
  array of queues, because it gives each buffer back to the queue with the number of its round: if the handlers get
  through the first half of what waits at the sockets before and through \<open>k + 1\<close> datagrams of this one, the cycle ends
  with an access behind the array, and with nothing else. With one socket three datagrams are enough.
\<close>

theorem too_many_datagrams:
  assumes "engine_steps m (start_engine k a) e" and "sound n a" and "i < k" and "2 * k < length (recvQ i e)"
    and "\<forall>j < i. length (recvQ j e) \<le> 2 * k"
    and "handle_all w (concat (map (\<lambda>j. first_half (recvQ j e)) [0..<i]) @ take (k + 1) (recvQ i e)) (app_of e) = Inr a'"
  shows "ProcessAllocJISRecvParamsQ w e = Inl OutOfBounds"
proof -
  have "engine_ok k e" using engine_steps_ok [OF assms(1)] start_engine_ok [OF assms(2)] by blast
  then have k: "length (allocRecvParamQ e) = k" "length (deAllocRecvParamQ e) = k" by (simp_all add: engine_ok_def)
  obtain a1 where a1: "handle_all w (concat (map (\<lambda>j. first_half (recvQ j e)) [0..<0 + i])) (app_of e) = Inr a1"
    and a2: "handle_all w (take (k + 1) (recvQ i e)) a1 = Inr a'"
    using assms(6) unfolding handle_all_append rbind_eq_Inr by auto
  obtain e1 where e1: "process_sockets w i 0 e = Inr e1" "app_of e1 = a1" "length (allocRecvParamQ e1) = k"
    "length (deAllocRecvParamQ e1) = k" "recvQ i e1 = recvQ i e"
    using process_sockets_result [OF _ _ a1] k assms(3,5) by auto
  have stop: "process_socket w i e1 = Inl OutOfBounds"
    using process_socket_result [of i e1 w] e1 a2 assms(3,4) by simp
  have "length (allocRecvParamQ e) = i + Suc (k - Suc i)" using k assms(3) by simp
  then show ?thesis unfolding ProcessAllocJISRecvParamsQ_def by (simp only: process_sockets_add e1(1)) (simp add: stop)
qed

lemma port_five: "sin_port a = 5 \<Longrightarrow> GetPortHostOrder False a \<noteq> 0"
  by (simp add: GetPortHostOrder_def ntohs_def) code_simp

text \<open>The datagram of the machine is a short one, which the handlers take without doing anything.\<close>

lemma short_datagram_handled:
  assumes "list_size (banList x) = 0"
  shows "ProcessOneRecvParam test_world (delivered i [1, 2] 5 5 t test_buffer) x = Inr (x\<lparr>isUnconnectedRecvPrrams := True\<rparr>)"
  using assms by (simp add: ProcessOneRecvParam_def IsBanned_def IsOfflineRecvParams_def delivered_def port_five Let_def)

lemma idle_engine_bans: "list_size (banList (app_of (idle_engine k))) = 0"
  by (simp add: idle_engine_def start_engine_def test_app_def list_new_def)

lemma one_received_app [simp]: "app_of (one_received e) = app_of e"
  by (simp add: one_received_def after_receive_def Let_def)

lemma one_received_queue:
  "0 < length (allocRecvParamQ e) \<Longrightarrow> recvQ 0 (one_received e) = recvQ 0 e
     @ [\<lparr>buffer_number = buffers_taken e, buffer_pool = 0, buffer_params = delivered 0 [1, 2] 5 5 0 test_buffer\<rparr>]"
  by (simp add: one_received_def after_receive_def Let_def)

theorem too_many_datagrams_witness: "ProcessAllocJISRecvParamsQ test_world three_waiting = Inl OutOfBounds"
proof -
  have "\<exists>a. handle_all test_world (take (1 + 1) (recvQ 0 three_waiting)) (app_of three_waiting) = Inr a"
    by (simp add: three_waiting_def one_received_queue short_datagram_handled idle_engine_bans)
  then obtain a where "handle_all test_world (concat (map (\<lambda>j. first_half (recvQ j three_waiting)) [0..<0])
      @ take (1 + 1) (recvQ 0 three_waiting)) (app_of three_waiting) = Inr a" by auto
  then show ?thesis
    by (rule too_many_datagrams [OF three_waiting_reached test_app_sound, of 0, rotated -1]) (simp_all add: three_waiting_length)
qed

section \<open>The way of a datagram\<close>

text \<open>
  C10: When no datagram waits at any socket and no buffer is on its way back, a datagram the system delivers to a
  socket is next handled as it was received, with the number of its socket, and with nothing else: the cycle ends as
  the handler does, and its buffer goes to the queue of the first socket, whatever socket it came from.
\<close>

theorem datagram_handled:
  assumes sock: "jst sock = None" and got: "k_recvfrom K (k_calls K) = (int (length d), d, port, addr)" and d: "d \<noteq> []"
    and idle: "allocRecvParamQ e = replicate k []" "deAllocRecvParamQ e = replicate k []" and i: "i < k"
  shows "rbind (RunRecvCycleOnce (Suc fuel) sock raw i K e) (\<lambda>(K', e). ProcessAllocJISRecvParamsQ w e) =
    (let rp = delivered i d port addr (k_time K (k_calls K + 1)) raw
     in rbind (ProcessOneRecvParam w rp (app_of e)) (\<lambda>a.
          Inr (e\<lparr>app_of := a, buffers_taken := buffers_taken e + 1,
            deAllocRecvParamQ := (replicate k [])[0 :=
              [\<lparr>buffer_number = buffers_taken e, buffer_pool = i, buffer_params = rp\<rparr>]]\<rparr>)))"
proof -
  define rp where "rp = delivered i d port addr (k_time K (k_calls K + 1)) raw"
  define b where "b = \<lparr>buffer_number = buffers_taken e, buffer_pool = i, buffer_params = rp\<rparr>"
  define e1 where "e1 = after_receive i (int (length d)) rp e"
  have e1: "e1 = e\<lparr>buffers_taken := buffers_taken e + 1, allocRecvParamQ := (replicate k [])[i := [b]]\<rparr>"
  proof -
    have "(replicate k ([] :: recv_buffer list))[i := []] = replicate k []"
      using i by (metis list_update_id nth_replicate)
    then show ?thesis using idle i d by (cases e) (simp add: after_receive_def Let_def b_def e1_def)
  qed
  have run: "RunRecvCycleOnce (Suc fuel) sock raw i K e = Inr (called (called K), e1)"
    using idle i by (simp add: RunRecvCycleOnce_result RecvFrom_delivers [OF sock got d] e1_def rp_def)
  have one: "ProcessAllocJISRecvParamsQ w e1 = rbind (ProcessOneRecvParam w rp (app_of e)) (\<lambda>a.
      Inr (e1\<lparr>app_of := a, allocRecvParamQ := (replicate k [])[i := [b], i := []],
             deAllocRecvParamQ := (replicate k [])[0 := replicate k [] ! 0 @ [b]]\<rparr>))"
    using ProcessAllocJISRecvParamsQ_one [of e1 i b w] idle i unfolding e1 by (simp add: b_def)
  have "(replicate k ([] :: recv_buffer list))[i := [b], i := []] = allocRecvParamQ e"
    using i idle(1) by (metis list_update_id list_update_overwrite nth_replicate)
  moreover have "replicate k ([] :: recv_buffer list) ! 0 @ [b] = [b]" using i by simp
  ultimately have "ProcessAllocJISRecvParamsQ w e1 = rbind (ProcessOneRecvParam w rp (app_of e)) (\<lambda>a.
      Inr (e\<lparr>app_of := a, buffers_taken := buffers_taken e + 1, deAllocRecvParamQ := (replicate k [])[0 := [b]]\<rparr>))"
    unfolding one unfolding e1 by (cases e) simp
  then show ?thesis unfolding run by (simp add: b_def rp_def Let_def)
qed

theorem datagram_handled_witness:
  "\<exists>e'. rbind (RunRecvCycleOnce (Suc 0) test_socket test_buffer 1 test_kernel (idle_engine 2))
       (\<lambda>(K', e). ProcessAllocJISRecvParamsQ test_world e) = Inr e' \<and> map length (deAllocRecvParamQ e') = [1, 0]"
proof -
  have s: "jst test_socket = None" "k_recvfrom test_kernel (k_calls test_kernel) = (int (length [1, 2 :: u8]), [1, 2], 5, 5)"
    by (simp_all add: test_socket_def test_kernel_def)
  have idle: "allocRecvParamQ (idle_engine 2) = replicate 2 []" "deAllocRecvParamQ (idle_engine 2) = replicate 2 []" "1 < (2 :: nat)"
    by simp_all
  have d: "[1, 2 :: u8] \<noteq> []" by simp
  show ?thesis
    unfolding datagram_handled [OF s d idle, where fuel = 0 and raw = test_buffer and w = test_world]
    by (simp add: short_datagram_handled idle_engine_bans Let_def numeral_2_eq_2)
qed

text \<open>
  The system reports an empty datagram as zero bytes, which the receiving thread takes for impossible: anyone who
  can send such a datagram to a bound socket stops the receiving thread at an assertion.
\<close>

lemma empty_datagram_stops:
  assumes "jst sock = None" and "k_recvfrom K (k_calls K) = (0, [], port, addr)"
    and "i < length (allocRecvParamQ e)" and "length (deAllocRecvParamQ e) = length (allocRecvParamQ e)"
  shows "RunRecvCycleOnce (Suc fuel) sock raw i K e = Inl AssertFailed"
  using assms by (simp add: RunRecvCycleOnce_result RecvFrom_def Let_def)

section \<open>The way of a packet\<close>

text \<open>
  C9: The next packet for the user is shown to the plugins in their order, those of the user thread first: each is
  updated, hears of the event the packet stands for, and is asked for the packet as long as all before passed it on.
  The user gets the packet exactly when all plugins pass it on.
\<close>

theorem packet_shown:
  assumes "active (eps (app_of e))" and "allocPacketQ (app_of e) = p # rest" and "packet_id (app_of e) p = Inr b"
  shows "\<exists>e' q. fetch_packet m e = Inr (if \<forall>i \<in> set (pluginListTS e @ pluginListNTS e). passes m (Some p) i
                                        then Some p else None, e') \<and>
    allocPacketQ (app_of e') = rest \<and>
    plugin_calls e' = plugin_calls e @ map (\<lambda>i. (i, Update)) (pluginListTS e @ pluginListNTS e) @ heard b p e
      @ map (\<lambda>i. (i, OnRecvPacket (Some p))) (asked m (Some p) (pluginListTS e))
      @ map (\<lambda>i. (i, OnRecvPacket q)) (asked m q (pluginListNTS e)) \<and>
    q = (if \<forall>i \<in> set (pluginListTS e). passes m (Some p) i then Some p else None)"
proof -
  let ?q = "if \<forall>i \<in> set (pluginListTS e). passes m (Some p) i then Some p else None"
  define e1 where "e1 = e\<lparr>deAllocCommandQ := second_half (deAllocCommandQ e),
    reclaimed_commands := reclaimed_commands e @ first_half (deAllocCommandQ e)\<rparr>"
  define e2 where "e2 = e1\<lparr>plugin_calls := plugin_calls e @ map (\<lambda>i. (i, Update)) (pluginListTS e @ pluginListNTS e),
    app_of := (app_of e)\<lparr>allocPacketQ := rest\<rparr>\<rparr>"
  have id: "packet_id (app_of e2) p = Inr b"
    using assms(3) by (simp add: e2_def packet_id_def split: packet_pointer.splits)
  have upd: "UpdatePlugins e1 = e1\<lparr>plugin_calls := plugin_calls e @ map (\<lambda>i. (i, Update)) (pluginListTS e @ pluginListNTS e)\<rparr>"
    by (simp add: UpdatePlugins_def update_loop_calls e1_def)
  have "fetch_packet m e = Inr (PacketGoThroughPlugins m p (e2\<lparr>plugin_calls := plugin_calls e2 @ heard b p e2\<rparr>))"
    using assms(1,2) PacketGoThroughPluginCBs_calls [OF id] id upd
    by (simp add: fetch_packet_def RunGetPacketCycleOnce_def ReclaimAllCommands_def drain_list AdjustTimestamp_def
        e2_def e1_def Let_def)
  then show ?thesis
    by (intro exI [of _ "snd (PacketGoThroughPlugins m p (e2\<lparr>plugin_calls := plugin_calls e2 @ heard b p e2\<rparr>))"] exI [of _ ?q])
      (auto simp: PacketGoThroughPlugins_result Let_def e2_def e1_def heard_def split: option.split)
qed

theorem packet_shown_witness:
  "\<exists>e' q. fetch_packet test_plugins ((idle_engine 1)\<lparr>pluginListTS := [3],
       app_of := (app_of (idle_engine 1))\<lparr>allocPacketQ := [AllocPacket test_world MemberMsgid]\<rparr>\<rparr>)
     = Inr (Some (AllocPacket test_world MemberMsgid), e') \<and> plugin_calls e' = [(3, Update), (3, OnRecvPacket q)]"
  using packet_shown [of "(idle_engine 1)\<lparr>pluginListTS := [3],
       app_of := (app_of (idle_engine 1))\<lparr>allocPacketQ := [AllocPacket test_world MemberMsgid]\<rparr>\<rparr>"
     "AllocPacket test_world MemberMsgid" "[]" 0 test_plugins]
  by (auto simp: active_def idle_engine_def start_engine_def test_app_def test_endpoints_def packet_id_def AllocPacket_def
      test_plugins_def heard_def plugin_event_def)

text \<open>
  C33: A plugin of the user thread that keeps a packet does not end its way: the plugins after it are offered a null
  pointer. If one of them says that it has processed it, the null pointer goes to the queue of the packets to be
  freed, and the network thread stops at an assertion.
\<close>

theorem null_packet_offered:
  assumes ts: "pluginListTS e = i # is" "OnRecvPacket_result m i (Some p) = HOLD_ON_BY_ME_NOT_DEALLOC"
    and nts: "pluginListNTS e = j # js" "OnRecvPacket_result m j None = PROCESSED_BY_ME_THEN_DEALLOC"
    and empty: "deAllocPacketQ e = []"
  shows "plugin_calls (snd (PacketGoThroughPlugins m p e)) = plugin_calls e @ [(i, OnRecvPacket (Some p)), (j, OnRecvPacket None)]
    \<and> RunNetworkUpdateCycleOnce w raw addr (snd (PacketGoThroughPlugins m p e)) = Inl AssertFailed"
  using assms
  by (simp add: PacketGoThroughPlugins_result Let_def given_back_def RunNetworkUpdateCycleOnce_def ReclaimAllPackets_def
      drain_list)

theorem null_packet_offered_witness:
  "RunNetworkUpdateCycleOnce test_world idle_command far (snd (PacketGoThroughPlugins
      (test_plugins\<lparr>OnRecvPacket_result := (\<lambda>i p. if p = None then PROCESSED_BY_ME_THEN_DEALLOC else HOLD_ON_BY_ME_NOT_DEALLOC)\<rparr>)
      (AllocPacket test_world MemberMsgid) ((idle_engine 1)\<lparr>pluginListTS := [3], pluginListNTS := [7]\<rparr>)))
   = Inl AssertFailed"
  using null_packet_offered [of "(idle_engine 1)\<lparr>pluginListTS := [3], pluginListNTS := [7]\<rparr>" 3 "[]"
      "test_plugins\<lparr>OnRecvPacket_result := (\<lambda>i p. if p = None then PROCESSED_BY_ME_THEN_DEALLOC else HOLD_ON_BY_ME_NOT_DEALLOC)\<rparr>"
      "AllocPacket test_world MemberMsgid" 7 "[]" test_world idle_command far]
  by (simp add: idle_engine_def start_engine_def)

section \<open>The way of a ban\<close>

lemma ban_appended:
  assumes ok: "l_ok l" "list_size l < 2 ^ 30" and IP: "IP \<noteq> []" "length IP \<le> 32" and new: "IP \<notin> set (map ban_IP (list_elems l))"
  shows "\<exists>l' b. AddToBanList time IP 0 l = Inr l' \<and> l_ok l' \<and> list_elems l' = list_elems l @ [b] \<and> ban_IP b = IP \<and> ban_timeout b = 0"
proof -
  have "find (\<lambda>j. ban_IP (list_elems l ! j) = IP) [0..<list_size l] = None"
    unfolding find_None_iff
  proof
    assume "\<exists>j. j \<in> set [0..<list_size l] \<and> ban_IP (list_elems l ! j) = IP"
    then obtain j where "j < list_size l" "ban_IP (list_elems l ! j) = IP" by auto
    then show False using new ok(1) by (metis imageI length_list_elems list.set_map nth_mem)
  qed
  then show ?thesis
    using InsertAtLast_ok [OF ok(1), of 32] ok(2) IP ban_find_ok [OF ok(1), of 0 "list_size l" IP]
    by (fastforce simp: AddToBanList_def Let_def)
qed

text \<open>
  C11: A permanent ban of a text of 1 to 32 characters the user posts while no other command waits is carried through
  the command queue and put behind the bans there are, which are permanent too and of other texts. The address with that
  text is then found banned exactly if the number of the bans before was even, or one of those at the places 0, 2, 4 and
  so on matches the address, because the loop over the bans skips every second one. With an even number a datagram from
  it is answered with the message that the sender is banned, and goes no further.
\<close>

theorem posted_ban_works:
  assumes ban: "post_ban (big_endian w) raw IP 0 e = Inr e1" "length (arrayparams raw) = arrayparams_size"
    and IP: "IP \<noteq> []" "length IP \<le> 32" "CHR 0x00 \<notin> set IP" "hd IP \<noteq> CHR '' ''"
    and waiting: "allocCommandQ e = []"
    and bans: "l_ok (banList (app_of e))" "list_size (banList (app_of e)) < 2 ^ 30"
      "\<forall>b \<in> set (list_elems (banList (app_of e))). ban_timeout b = 0 \<and> ban_IP b \<noteq> IP"
    and sender: "ToString_IPV4 (w_inet_ntoa w) (big_endian w) False (CHR ''|'') (senderINetAddress rp) = IP"
  shows "\<exists>us ms e2. ProcessAllocCommandQ w raw' us0 ms0 e1 = Inr (us, ms, e2) \<and> allocCommandQ e2 = [] \<and>
    map ban_IP (list_elems (banList (app_of e2))) = map ban_IP (list_elems (banList (app_of e))) @ [IP] \<and>
    IsBanned (w_inet_ntoa w) (big_endian w) (\<lambda>_. time_ms w) (senderINetAddress rp) (banList (app_of e2)) =
      Inr (even (list_size (banList (app_of e))) \<or>
           (\<exists>k. 2 * k < list_size (banList (app_of e)) \<and> ip_match (ban_IP (list_elems (banList (app_of e)) ! (2 * k))) IP),
         banList (app_of e2)) \<and>
    (even (list_size (banList (app_of e))) \<longrightarrow> ProcessOneRecvParam w rp (app_of e2) = answer_banned w rp (app_of e2))"
proof -
  let ?l = "banList (app_of e)"
  obtain params where params: "ban_remote_system (big_endian w) IP 0 (arrayparams raw) = Inr params"
    "unpack_ban (big_endian w) params = Inr (IP, 0)"
    using ban_command_round_trip [OF ban(2), of IP "big_endian w" 0] IP(2,3) by (auto simp: rbind_eq_Inr)
  define c where "c = raw\<lparr>commandID := BCS_ADD_2_BANNED_LIST, cmd_data := None, arrayparams := params\<rparr>"
  have e1: "e1 = e\<lparr>allocCommandQ := [c]\<rparr>"
    using ban(1) params(1) waiting by (simp add: post_ban_def run_cmd_def c_def)
  obtain l b where l: "AddToBanList (ucast (time_ms w)) IP 0 ?l = Inr l" "l_ok l" "list_elems l = list_elems ?l @ [b]"
    "ban_IP b = IP" "ban_timeout b = 0"
    using ban_appended [OF bans(1,2) IP(1,2)] bans(3) by fastforce
  define e2 where "e2 = e\<lparr>allocCommandQ := [], app_of := (app_of e)\<lparr>banList := l\<rparr>, deAllocCommandQ := deAllocCommandQ e @ [c]\<rparr>"
  have run: "ProcessAllocCommandQ w raw' us0 ms0 e1 = Inr (us0, ms0, e2)"
    using l(1) params(2) unfolding e1
    by (simp add: ProcessAllocCommandQ_def command_round_def run_command_def c_def e2_def unpacked_def)
  have size: "list_size l = list_size ?l + 1" using l(2,3) bans(1) by (metis length_list_elems length_append_singleton Suc_eq_plus1)
  have self: "ip_match IP IP" by (simp add: ip_match_iff)
  have at: "list_elems l ! k = (if k = list_size ?l then b else list_elems ?l ! k)" if "k < list_size l" for k
    using that l(3) bans(1) size by (simp add: nth_append)
  have found: "(\<exists>k. 0 + 2 * k < list_size l \<and> ip_match (ban_IP (list_elems l ! (0 + 2 * k))) IP) \<longleftrightarrow>
      even (list_size ?l) \<or> (\<exists>k. 2 * k < list_size ?l \<and> ip_match (ban_IP (list_elems ?l ! (2 * k))) IP)" (is "?f \<longleftrightarrow> ?g")
  proof
    assume ?f
    then obtain k where k: "2 * k < list_size l" "ip_match (ban_IP (list_elems l ! (2 * k))) IP" by auto
    show ?g
    proof (cases "2 * k = list_size ?l")
      case True
      then show ?g by (metis dvd_triv_left)
    next
      case False
      then show ?g using at [OF k(1)] k size by (intro disjI2 exI [of _ k]) simp
    qed
  next
    assume ?g
    then show ?f
    proof
      assume "even (list_size ?l)"
      then obtain k where k: "list_size ?l = 2 * k" by (rule evenE)
      then show ?f using at [of "2 * k"] size l(4) self by (intro exI [of _ k]) simp
    next
      assume "\<exists>k. 2 * k < list_size ?l \<and> ip_match (ban_IP (list_elems ?l ! (2 * k))) IP"
      then obtain k where k: "2 * k < list_size ?l" "ip_match (ban_IP (list_elems ?l ! (2 * k))) IP" by blast
      then show ?f using at [of "2 * k"] size by (intro exI [of _ k]) simp
    qed
  qed
  have "ban_loop (list_size l + 1) 0 (\<lambda>_. time_ms w) IP l
      = Inr (\<exists>k. 0 + 2 * k < list_size l \<and> ip_match (ban_IP (list_elems l ! (0 + 2 * k))) IP, l)"
    by (rule ban_loop_plain [OF l(2)]) (use l(3,5) bans(3) in auto)
  then have banned: "IsBanned (w_inet_ntoa w) (big_endian w) (\<lambda>_. time_ms w) (senderINetAddress rp) l =
      Inr (even (list_size ?l) \<or> (\<exists>k. 2 * k < list_size ?l \<and> ip_match (ban_IP (list_elems ?l ! (2 * k))) IP), l)"
    using sender IP size unfolding found by (simp add: IsBanned_def Let_def del: ban_loop.simps)
  then have "even (list_size ?l) \<longrightarrow> ProcessOneRecvParam w rp (app_of e2) = answer_banned w rp (app_of e2)"
    by (simp add: ProcessOneRecvParam_def e2_def Let_def)
  then show ?thesis using run banned l(3,4) by (auto simp: e2_def)
qed

theorem posted_ban_works_witness:
  "\<exists>e1 us ms e2. post_ban False idle_command ''1.2.3.4'' 0 (idle_engine 1) = Inr e1 \<and>
     ProcessAllocCommandQ test_world idle_command 0 0 e1 = Inr (us, ms, e2) \<and>
     ProcessOneRecvParam test_world (arrived [5]) (app_of e2) = answer_banned test_world (arrived [5]) (app_of e2)"
proof -
  obtain e1 where e1: "post_ban (big_endian test_world) idle_command ''1.2.3.4'' 0 (idle_engine 1) = Inr e1"
    using ban_command_round_trip [of "arrayparams idle_command" "''1.2.3.4''" False 0]
    by (auto simp: post_ban_def rbind_eq_Inr idle_command_def)
  have sender: "ToString_IPV4 (w_inet_ntoa test_world) (big_endian test_world) False CHR ''|''
      (senderINetAddress (arrived [5])) = ''1.2.3.4''"
    by (simp add: ToString_IPV4_def arrived_def test_world_def address_eq_def EqualsExcludingPort_def
        JACKIE_NULL_ADDRESS_def address_default_def)
  have l: "l_ok (banList (app_of (idle_engine 1)))" "list_size (banList (app_of (idle_engine 1))) = 0"
    "list_elems (banList (app_of (idle_engine 1))) = []" "allocCommandQ (idle_engine 1) = []"
    by (simp_all add: idle_engine_def start_engine_def test_app_def idle_engine_bans [unfolded idle_engine_def start_engine_def test_app_def, simplified])
  have c: "length (arrayparams idle_command) = arrayparams_size" by (simp add: idle_command_def)
  show ?thesis
    using posted_ban_works [OF e1 c _ _ _ _ l(4,1) _ _ sender, of idle_command 0 0] e1 l(2,3) by auto
qed

section \<open>The operating system\<close>

text \<open>
  C22: A message to an IPv4 address is sent again and again until the system accepts it or says that it is too long:
  sending returns exactly if one of the tries does one or the other.
\<close>

theorem send_returns_iff:
  assumes "sin_family (receiverINetAddress sp) = AF_INET" and "sp_data sp \<noteq> []" and "jst sock = None" and "sp_ttl sp = 0"
  shows "(\<exists>fuel r. Socket_Send fuel sock sp K = Inr r) \<longleftrightarrow> (\<exists>m. accepts K sp (k_calls K + m))"
proof
  assume "\<exists>fuel r. Socket_Send fuel sock sp K = Inr r"
  then obtain fuel r where "Socket_Send fuel sock sp K = Inr r" by blast
  then obtain r' where "send_tries fuel (isNonBlocking (binding sock)) sp K = Inr r'"
    using assms by (auto simp: Socket_Send_def SendWithoutVDP_def rbind_eq_Inr)
  then show "\<exists>m. accepts K sp (k_calls K + m)"
    using send_tries_never [OF assms(1), of fuel K "isNonBlocking (binding sock)"] by (metis sum.distinct(1))
next
  assume ex: "\<exists>m. accepts K sp (k_calls K + m)"
  define m where "m = (LEAST m. accepts K sp (k_calls K + m))"
  have m: "accepts K sp (k_calls K + m)" unfolding m_def by (rule LeastI_ex [OF ex])
  have "\<forall>j < m. \<not> accepts K sp (k_calls K + j)" unfolding m_def using not_less_Least by blast
  then obtain r where "send_tries (Suc m) (isNonBlocking (binding sock)) sp K = Inr r"
    using send_tries_first [OF assms(1) _ m, of "Suc m"] by (metis lessI)
  then have "\<exists>r. Socket_Send (Suc m) sock sp K = Inr r"
    using assms by (cases r) (auto simp: Socket_Send_def SendWithoutVDP_def)
  then show "\<exists>fuel r. Socket_Send fuel sock sp K = Inr r" by blast
qed

theorem send_returns_iff_witness:
  "\<exists>fuel r. Socket_Send fuel test_socket \<lparr>sp_data = [1], sp_bytesWritten = 0, receiverINetAddress = far, sp_ttl = 0\<rparr>
     test_kernel = Inr r"
  using send_returns_iff [of "\<lparr>sp_data = [1], sp_bytesWritten = 0, receiverINetAddress = far, sp_ttl = 0\<rparr>" test_socket test_kernel]
  by (simp add: test_socket_def test_kernel_def)

text \<open>
  A datagram that is too long for the network is not noticed. The loop of the requests looks for the error 10040,
  which only Windows knows; what the socket reports here is never that, so the next request is as long again.
\<close>

lemma too_long_not_noticed:
  assumes "jst sock = None" and "Socket_Send fuel sock sp K = Inr (len, sp', K')" and "t1 - t0 \<le> (100 :: u64)"
  shows "(len < 0 \<longrightarrow> sp_bytesWritten sp' = EMSGSIZE)
    \<and> after_send timeMS i \<lparr>so_result = len, so_bytesWritten = sp_bytesWritten sp', so_start = t0, so_end = t1\<rparr> r = r"
proof -
  obtain K1 K2 errno where "send_tries fuel (isNonBlocking (binding sock)) sp K1 = Inr (len, errno, K2)"
    and "len < 0 \<Longrightarrow> sp_bytesWritten sp' = errno"
    using assms(1,2)
    by (auto simp: Socket_Send_def SendWithoutVDP_def rbind_eq_Inr Let_def split: prod.splits if_splits)
  then have b: "len < 0 \<Longrightarrow> sp_bytesWritten sp' = EMSGSIZE" using send_tries_outcome by fastforce
  then show ?thesis using assms(3) by (auto simp: after_send_def Let_def EMSGSIZE_def)
qed

text \<open>
  Binding never reports that it failed: as long as no socket can be made or bound, it tries again, so with a
  system that never gives a socket it does not return, and the start of an engine on a port in use hangs.
\<close>

lemma bind_waits:
  "(\<forall>sock' K'. Bind tries fuel ia be raw bp sock K \<noteq> Inr (JISBindResult_FAILED_BIND_SOCKET, sock', K'))
   \<and> Bind tries fuel ia be raw bp sock (K\<lparr>k_socket := (\<lambda>_. SOCKET_ERROR)\<rparr>) = Inl OutOfFuel"
  using Bind_not_failed Bind_no_socket [of "K\<lparr>k_socket := (\<lambda>_. SOCKET_ERROR)\<rparr>"] by simp blast

end
