(* ===== verification/Startup.thy ===== *)
theory Startup
  imports Network_Steps Mersenne_Twister
begin

text \<open>
  \<^verbatim>\<open>startup\<close> of \<^verbatim>\<open>src/geco_application.cpp\<close> with what it calls: the guid from the clock, the local addresses, the
  sockets, the table of end points, the plugins and the threads. The socket objects are on a heap here, as what
  \<^verbatim>\<open>DeallocBindedSockets\<close> deletes matters; deleting an object twice is a fault (\<open>OutOfBounds\<close>).
\<close>

section \<open>Parameters of a start\<close>

datatype startup_result =
    START_SUCCEED | ALREADY_STARTED | INVALID_JACKIE_LOCAL_SOCKET | INVALID_MAX_CONNECTIONS | SOCKET_FAMILY_NOT_SUPPORTED
  | SOCKET_PORT_ALREADY_IN_USE | SOCKET_FAILED_TO_BIND | SOCKET_FAILED_TEST_SEND_RECV | PORT_CANNOT_BE_ZERO
  | FAILED_TO_CREATE_NETWORK_UPDATE_THREAD | FAILED_TO_CREATE_RECV_THREAD | COULD_NOT_GENERATE_GUID
  | STARTUP_OTHER_FAILURE

record socket_binding_params =
  sb_port :: u16
  sb_hostAddress :: string
  socketFamily :: u16
  blockingSocket :: bool

definition USE_BLOBKING_SOCKET :: bool where "USE_BLOBKING_SOCKET = False"

text \<open>The constructors. The second one copies the host into its 65 bytes and then ends the text before its start.\<close>

definition binding_params_default :: socket_binding_params where
  "binding_params_default =
     \<lparr>sb_port = 0, sb_hostAddress = [], socketFamily = AF_INET, blockingSocket = USE_BLOBKING_SOCKET\<rparr>"

definition binding_params_of :: "string option \<Rightarrow> u16 \<Rightarrow> socket_binding_params res" where
  "binding_params_of host port =
     rbind (case host of Some h \<Rightarrow> if length h < 65 then Inr h else Inl OutOfBounds | None \<Rightarrow> Inr []) (\<lambda>h.
       Inr \<lparr>sb_port = port, sb_hostAddress = take 0 h, socketFamily = AF_INET, blockingSocket = USE_BLOBKING_SOCKET\<rparr>)"

section \<open>The guid\<close>

text \<open>
  The randomness of a guid: the last bits of sixteen short sleeps, each between two readings of the clock, over the
  bytes four to seven of the time. \<open>clock k\<close> is what the reading \<open>k\<close> gives.
\<close>

definition sleep_diff :: "(nat \<Rightarrow> u64) \<Rightarrow> nat \<Rightarrow> nat \<Rightarrow> u64" where
  "sleep_diff clock j index = clock (2 + 2 * (4 * j + index)) - clock (1 + 2 * (4 * j + index))"

unbundle bit_operations_syntax

fun diff_byte :: "(nat \<Rightarrow> u64) \<Rightarrow> nat \<Rightarrow> nat list \<Rightarrow> u8 \<Rightarrow> u8" where
  "diff_byte clock j [] diffByte = diffByte"
| "diff_byte clock j (index # is) diffByte =
     (let diff = sleep_diff clock j index;
          diffByte = diffByte XOR ucast (push_bit (index * 2) (diff AND 15));
          diffByte = (if index = 3 then diffByte XOR ucast (drop_bit 2 (diff AND 15)) else diffByte)
      in diff_byte clock j is diffByte)"

fun random_bytes :: "(nat \<Rightarrow> u64) \<Rightarrow> nat list \<Rightarrow> u8 list \<Rightarrow> u8 list" where
  "random_bytes clock [] bs = bs"
| "random_bytes clock (j # js) bs =
     random_bytes clock js (bs[4 + j := (bs ! (4 + j)) XOR diff_byte clock j [0, 1, 2, 3] 0])"

definition CreateUniqueRandness :: "bool \<Rightarrow> (nat \<Rightarrow> u64) \<Rightarrow> u64" where
  "CreateUniqueRandness be clock = mem_word be (random_bytes clock [0, 1, 2, 3] (mem_bytes be (clock 0)))"

section \<open>The engine before and after its start\<close>

text \<open>
  A node: the engine, the pointers to its sockets, the socket objects by their number and the number of the next
  one, the number each socket has for the user, and the two random generators.
\<close>

record node =
  node_engine :: engine
  bindedSockets :: "nat list"
  socket_object :: "nat \<Rightarrow> berkley_socket option"
  next_object :: nat
  socket_user_index :: "nat \<Rightarrow> u32"
  maxIncomingConnections :: nat
  rnr :: mt
  glob_mt :: mt

text \<open>
  The surroundings of a start. \<open>st_tries\<close> and \<open>st_fuel\<close> bound the loops of the sockets; \<open>st_socket\<close> is a new
  socket object, and \<open>st_recv_thread\<close> and \<open>st_network_thread\<close> are whether the threads can be made.
\<close>

record start_world =
  st_tries :: nat
  st_fuel :: nat
  st_inet_addr :: "string \<Rightarrow> u32"
  st_be :: bool
  st_hosts :: "u32 list option"
  st_clock :: "nat \<Rightarrow> u64"
  st_socket :: berkley_socket
  st_buffer :: recv_params
  st_remote :: "nat \<Rightarrow> remote_system"
  st_recv_thread :: "nat \<Rightarrow> bool"
  st_network_thread :: bool

abbreviation node_eps :: "node \<Rightarrow> endpoints" where
  "node_eps n \<equiv> eps (app_of (node_engine n))"

abbreviation set_eps :: "endpoints \<Rightarrow> node \<Rightarrow> node" where
  "set_eps t n \<equiv> n\<lparr>node_engine := (node_engine n)\<lparr>app_of := (app_of (node_engine n))\<lparr>eps := t\<rparr>\<rparr>\<rparr>"

definition GenerateGUID :: "start_world \<Rightarrow> node \<Rightarrow> node" where
  "GenerateGUID W n =
     set_eps ((node_eps n)\<lparr>myGuid := (myGuid (node_eps n))\<lparr>g := CreateUniqueRandness (st_be W) (st_clock W)\<rparr>\<rparr>) n"

section \<open>Sockets\<close>

definition AllocJIS :: "start_world \<Rightarrow> node \<Rightarrow> nat \<times> node" where
  "AllocJIS W n =
     (next_object n,
      n\<lparr>socket_object := (socket_object n)(next_object n \<mapsto> (st_socket W)\<lparr>jst := None, rns2Socket := -1\<rparr>),
        next_object := next_object n + 1\<rparr>)"

definition DeallocJIS :: "nat \<Rightarrow> node \<Rightarrow> node res" where
  "DeallocJIS i n =
     (case socket_object n i of
        None \<Rightarrow> Inl OutOfBounds
      | Some _ \<Rightarrow> Inr (n\<lparr>socket_object := (socket_object n)(i := None)\<rparr>))"

fun dealloc_loop :: "nat list \<Rightarrow> node \<Rightarrow> node res" where
  "dealloc_loop [] n = Inr n"
| "dealloc_loop (i # is) n = rbind (DeallocJIS i n) (dealloc_loop is)"

text \<open>\<^verbatim>\<open>DeallocBindedSockets\<close> leaves the pointers in the list.\<close>

definition DeallocBindedSockets :: "node \<Rightarrow> node res" where
  "DeallocBindedSockets n = dealloc_loop (bindedSockets n) n"

definition binding_of :: "socket_binding_params \<Rightarrow> binding_params" where
  "binding_of p = \<lparr>bp_port = sb_port p, hostAddress = Some (sb_hostAddress p), isNonBlocking = blockingSocket p\<rparr>"

definition fail_with :: "startup_result \<Rightarrow> kernel \<Rightarrow> node \<Rightarrow> (startup_result option \<times> kernel \<times> node) res" where
  "fail_with r K n = rbind (DeallocBindedSockets n) (\<lambda>n. Inr (Some r, K, n))"

text \<open>The loop over the sockets to bind, from the number \<open>index\<close> on: the result is why the start ends here, if it does.\<close>

fun bind_sockets :: "start_world \<Rightarrow> nat \<Rightarrow> socket_binding_params list \<Rightarrow> kernel \<Rightarrow> node \<Rightarrow>
    (startup_result option \<times> kernel \<times> node) res" where
  "bind_sockets W index [] K n = Inr (None, K, n)"
| "bind_sockets W index (p # ps) K n =
     (let (sock, n) = AllocJIS W n; n = n\<lparr>bindedSockets := bindedSockets n @ [sock]\<rparr>
      in rbind (Bind (st_tries W) (st_fuel W) (st_inet_addr W) (st_be W) (st_buffer W) (binding_of p)
                  (the (socket_object n sock)) K) (\<lambda>(bindResult, s, K).
         let n = n\<lparr>socket_object := (socket_object n)(sock \<mapsto> s)\<rparr>
         in if socketFamily p \<noteq> AF_INET \<or> bindResult = JISBindResult_REQUIRES_NET_SUPPORT_IPV6_DEFINED then
              rbind (DeallocJIS sock n) (fail_with SOCKET_FAMILY_NOT_SUPPORTED K)
            else if bindResult = JISBindResult_FAILED_BIND_SOCKET then fail_with SOCKET_PORT_ALREADY_IN_USE K n
            else if bindResult = JISBindResult_FAILED_SEND_RECV_TEST then fail_with SOCKET_FAILED_TEST_SEND_RECV K n
            else bind_sockets W (index + 1) ps K
                   (n\<lparr>socket_user_index := (socket_user_index n)(sock := of_nat index)\<rparr>)))"

section \<open>The start\<close>

text \<open>The port of the first socket for the local addresses, up to the first null one.\<close>

fun assign_port :: "bool \<Rightarrow> u16 \<Rightarrow> network_address list \<Rightarrow> network_address list" where
  "assign_port be port [] = []"
| "assign_port be port (a # as) = (if is_null a then a # as else SetPortHostOrder be port a # assign_port be port as)"

definition assign_ports :: "start_world \<Rightarrow> node \<Rightarrow> node res" where
  "assign_ports W n =
     rbind (get_at (bindedSockets n) 0) (\<lambda>i.
       case socket_object n i of
         None \<Rightarrow> Inl OutOfBounds
       | Some s \<Rightarrow>
           Inr (set_eps ((node_eps n)\<lparr>localIPAddrs :=
             assign_port (st_be W) (GetPortHostOrder (st_be W) (sock_boundAddress s)) (localIPAddrs (node_eps n))\<rparr>) n))"

text \<open>A guid that is not there yet; the second step replaces the null guid by a random number.\<close>

definition ensure_guid :: "start_world \<Rightarrow> node \<Rightarrow> node res" where
  "ensure_guid W n =
     (let x = g (myGuid (node_eps n))
      in if is_null_guid (myGuid (node_eps n)) then
           rbind (SeedMT (ucast (drop_bit 32 x XOR x)) (rnr n)) (\<lambda>r.
           rbind (RandomMT (glob_mt n) r) (\<lambda>(y, gl, r).
             Inr (set_eps ((node_eps n)\<lparr>myGuid := (myGuid (node_eps n))\<lparr>g := ucast y\<rparr>\<rparr>) (n\<lparr>rnr := r, glob_mt := gl\<rparr>))))
         else Inr n)"

text \<open>The pools and queues of the sockets, the table of end points and the limit of the connections.\<close>

definition setup_node :: "start_world \<Rightarrow> nat \<Rightarrow> node \<Rightarrow> node" where
  "setup_node W maxConn n =
     (let k = length (bindedSockets n);
          e = (node_engine n)\<lparr>allocRecvParamQ := replicate k [], deAllocRecvParamQ := replicate k [],
                              reclaimed_buffers := [], buffers_taken := 0\<rparr>;
          t = eps (app_of e)
      in n\<lparr>maxIncomingConnections :=
             (if maxConnections t = 0 \<and> maxIncomingConnections n > maxConn then maxConn else maxIncomingConnections n),
           node_engine := e\<lparr>app_of := (app_of e)\<lparr>eps := setup_connections maxConn (st_remote W) t\<rparr>\<rparr>\<rparr>)"

fun on_startup :: "nat list \<Rightarrow> engine \<Rightarrow> engine" where
  "on_startup [] e = e"
| "on_startup (i # is) e = on_startup is (call_plugin i OnStartup e)"

text \<open>The receiving threads, in order, and then the network thread. \<^verbatim>\<open>End\<close> does nothing.\<close>

definition create_threads :: "start_world \<Rightarrow> nat \<Rightarrow> startup_result" where
  "create_threads W k =
     (if \<not> (\<forall>i < k. st_recv_thread W i) then FAILED_TO_CREATE_RECV_THREAD
      else if \<not> st_network_thread W then FAILED_TO_CREATE_NETWORK_UPDATE_THREAD else START_SUCCEED)"

definition run_node :: "node \<Rightarrow> node" where
  "run_node n =
     (let e = on_startup (pluginListNTS (node_engine n)) (on_startup (pluginListTS (node_engine n)) (node_engine n))
      in n\<lparr>node_engine := e\<lparr>app_of := (app_of e)\<lparr>eps := (eps (app_of e))\<lparr>firstExternalID := JACKIE_NULL_ADDRESS,
             endThreads := False\<rparr>\<rparr>\<rparr>\<rparr>)"

definition start_sockets ::
  "start_world \<Rightarrow> socket_binding_params list \<Rightarrow> nat \<Rightarrow> kernel \<Rightarrow> node \<Rightarrow> (startup_result \<times> kernel \<times> node) res" where
  "start_sockets W binds maxConn K n =
     rbind (DeallocBindedSockets n) (\<lambda>n.
     rbind (bind_sockets W 0 binds K n) (\<lambda>(failed, K, n).
       case failed of
         Some r \<Rightarrow> Inr (r, K, n)
       | None \<Rightarrow>
           rbind (rassert (length (bindedSockets n) = length binds)) (\<lambda>_.
           rbind (assign_ports W n) (\<lambda>n.
             Inr (create_threads W (length binds), K, run_node (setup_node W maxConn n))))))"

text \<open>\<open>binds\<close> is the array of the parameters with as many elements as are announced, \<open>None\<close> a null pointer.\<close>

definition startup ::
  "start_world \<Rightarrow> socket_binding_params list option \<Rightarrow> nat \<Rightarrow> kernel \<Rightarrow> node \<Rightarrow> (startup_result \<times> kernel \<times> node) res" where
  "startup W binds maxConn K n =
     (if active (node_eps n) then Inr (ALREADY_STARTED, K, n)
      else
        let n = (if g (myGuid (node_eps n)) = 0 then GenerateGUID W n else n)
        in if g (myGuid (node_eps n)) = 0 then Inr (COULD_NOT_GENERATE_GUID, K, n)
           else
             rbind (ensure_guid W n) (\<lambda>n.
             rbind (InitIPAddress (st_hosts W) (node_eps n)) (\<lambda>t.
             let n = set_eps t n
             in rbind (rassert (binds \<noteq> None \<and> binds \<noteq> Some [])) (\<lambda>_.
                rbind (rassert (maxConn > 0)) (\<lambda>_. start_sockets W (the binds) maxConn K n)))))"

section \<open>Deleted sockets\<close>

lemma dealloc_loop_gone:
  "dealloc_loop is n = Inr n' \<Longrightarrow>
   socket_object n' = (\<lambda>i. if i \<in> set is then None else socket_object n i) \<and> (\<forall>i \<in> set is. socket_object n i \<noteq> None)
   \<and> n' = n\<lparr>socket_object := socket_object n'\<rparr>"
proof (induction "is" arbitrary: n)
  case (Cons i "is")
  then obtain s where s: "socket_object n i = Some s"
    "dealloc_loop is (n\<lparr>socket_object := (socket_object n)(i := None)\<rparr>) = Inr n'"
    by (auto simp: DeallocJIS_def rbind_eq_Inr split: option.splits)
  then show ?case using Cons.IH [OF s(2)] by (auto split: if_splits)
qed simp

lemma DeallocBindedSockets_gone:
  assumes "DeallocBindedSockets n = Inr n'"
  shows "node_engine n' = node_engine n" "bindedSockets n' = bindedSockets n"
    "\<forall>i \<in> set (bindedSockets n). socket_object n i \<noteq> None" "\<forall>i \<in> set (bindedSockets n). socket_object n' i = None"
proof -
  have gone: "socket_object n' = (\<lambda>i. if i \<in> set (bindedSockets n) then None else socket_object n i)"
    "\<forall>i \<in> set (bindedSockets n). socket_object n i \<noteq> None" "n' = n\<lparr>socket_object := socket_object n'\<rparr>"
    using dealloc_loop_gone [OF assms [unfolded DeallocBindedSockets_def]] by blast+
  show "node_engine n' = node_engine n" "bindedSockets n' = bindedSockets n" by (subst gone(3), simp)+
  show "\<forall>i \<in> set (bindedSockets n). socket_object n i \<noteq> None" "\<forall>i \<in> set (bindedSockets n). socket_object n' i = None"
    using gone(1,2) by simp_all
qed

text \<open>A start that goes wrong at a socket leaves a list of pointers to deleted objects.\<close>

lemma bind_sockets_result:
  "bind_sockets W index ps K n = Inr (failed, K', n') \<Longrightarrow>
   node_engine n' = node_engine n \<and> failed \<in> {None, Some SOCKET_FAILED_TEST_SEND_RECV} \<and>
   (failed \<noteq> None \<longrightarrow> bindedSockets n' \<noteq> [] \<and> (\<forall>i \<in> set (bindedSockets n'). socket_object n' i = None))"
proof (induction ps arbitrary: index K n)
  case (Cons p ps)
  define m where "m = snd (AllocJIS W n)"
  have alloc: "AllocJIS W n = (next_object n, m)" by (simp add: m_def AllocJIS_def)
  define n1 where "n1 = m\<lparr>bindedSockets := bindedSockets m @ [next_object n]\<rparr>"
  have n1: "bindedSockets n1 = bindedSockets n @ [next_object n]" "node_engine n1 = node_engine n"
    by (simp_all add: n1_def m_def AllocJIS_def)
  note step = Cons.prems [unfolded bind_sockets.simps alloc Let_def prod.case, folded n1_def]
  obtain br s K1 where bind: "Bind (st_tries W) (st_fuel W) (st_inet_addr W) (st_be W) (st_buffer W) (binding_of p)
      (the (socket_object n1 (next_object n))) K = Inr (br, s, K1)"
    using step by (auto simp: rbind_eq_Inr)
  define n2 where "n2 = n1\<lparr>socket_object := (socket_object n1)(next_object n \<mapsto> s)\<rparr>"
  have n2: "bindedSockets n2 = bindedSockets n @ [next_object n]" "node_engine n2 = node_engine n"
    by (simp_all add: n2_def n1)
  define n3 where "n3 = n2\<lparr>socket_user_index := (socket_user_index n2)(next_object n := of_nat index)\<rparr>"
  have rest: "(if socketFamily p \<noteq> AF_INET \<or> br = JISBindResult_REQUIRES_NET_SUPPORT_IPV6_DEFINED then
              rbind (DeallocJIS (next_object n) n2) (fail_with SOCKET_FAMILY_NOT_SUPPORTED K1)
            else if br = JISBindResult_FAILED_BIND_SOCKET then fail_with SOCKET_PORT_ALREADY_IN_USE K1 n2
            else if br = JISBindResult_FAILED_SEND_RECV_TEST then fail_with SOCKET_FAILED_TEST_SEND_RECV K1 n2
            else bind_sockets W (index + 1) ps K1 n3) = Inr (failed, K', n')"
    using step unfolding bind rbind_Inr prod.case n3_def n2_def .
  have freed: "rbind (DeallocJIS (next_object n) n2) (fail_with r K1) \<noteq> Inr (failed, K', n')" for r
  proof
    assume "rbind (DeallocJIS (next_object n) n2) (fail_with r K1) = Inr (failed, K', n')"
    then obtain n4 n5 where n4: "DeallocJIS (next_object n) n2 = Inr n4" "DeallocBindedSockets n4 = Inr n5"
      by (auto simp: rbind_eq_Inr fail_with_def)
    have "socket_object n4 (next_object n) = None" "bindedSockets n4 = bindedSockets n2"
      using n4(1) by (auto simp: DeallocJIS_def split: option.splits)
    then show False using DeallocBindedSockets_gone(3) [OF n4(2)] n2(1) by simp
  qed
  have br: "br \<noteq> JISBindResult_FAILED_BIND_SOCKET" by (rule Bind_not_failed [OF bind])
  show ?case
  proof (cases "socketFamily p = AF_INET \<and> br \<noteq> JISBindResult_REQUIRES_NET_SUPPORT_IPV6_DEFINED")
    case good: True
    show ?thesis
    proof (cases "br = JISBindResult_FAILED_SEND_RECV_TEST")
      case True
      then have "fail_with SOCKET_FAILED_TEST_SEND_RECV K1 n2 = Inr (failed, K', n')" using rest good by simp
      then have "DeallocBindedSockets n2 = Inr n'" "failed = Some SOCKET_FAILED_TEST_SEND_RECV"
        by (auto simp: fail_with_def rbind_eq_Inr)
      then show ?thesis using DeallocBindedSockets_gone [of n2 n'] n2 by simp
    next
      case False
      then have "bind_sockets W (index + 1) ps K1 n3 = Inr (failed, K', n')" using rest good br by simp
      then show ?thesis using Cons.IH [of "index + 1" K1 n3] n2 by (simp add: n3_def)
    qed
  next
    case False
    then show ?thesis using rest freed by auto
  qed
qed simp

section \<open>What a start changes\<close>

text \<open>Up to the set-up only fields of the end points change that the table does not depend on.\<close>

definition only_eps :: "node \<Rightarrow> node \<Rightarrow> bool" where
  "only_eps n n' \<longleftrightarrow>
     (\<exists>t. node_engine n' = (node_engine n)\<lparr>app_of := (app_of (node_engine n))\<lparr>eps := t\<rparr>\<rparr> \<and>
        maxConnections t = maxConnections (node_eps n) \<and> activeSystemListSize t = activeSystemListSize (node_eps n))"

lemma only_eps_engine: "node_engine n' = node_engine n \<Longrightarrow> only_eps n n'"
  unfolding only_eps_def by (intro exI [of _ "node_eps n"]) simp

lemma only_eps_trans: "only_eps n n' \<Longrightarrow> only_eps n' n'' \<Longrightarrow> only_eps n n''"
  by (auto simp: only_eps_def)

lemma only_eps_set:
  "maxConnections t = maxConnections (node_eps n) \<Longrightarrow> activeSystemListSize t = activeSystemListSize (node_eps n) \<Longrightarrow>
   only_eps n (set_eps t n)"
  by (auto simp: only_eps_def)

lemma ensure_guid_eps: "ensure_guid W n = Inr n' \<Longrightarrow> only_eps n n'"
  by (auto simp: ensure_guid_def Let_def rbind_eq_Inr intro: only_eps_engine split: if_splits) (auto simp: only_eps_def)

lemma assign_ports_eps: "assign_ports W n = Inr n' \<Longrightarrow> only_eps n n'"
  by (auto simp: assign_ports_def rbind_eq_Inr only_eps_set split: option.splits)

lemma on_startup_calls: "on_startup is e = e\<lparr>plugin_calls := plugin_calls e @ map (\<lambda>i. (i, OnStartup)) is\<rparr>"
  by (induction "is" arbitrary: e) (simp_all add: call_plugin_def)

text \<open>A table of \<open>m\<close> places of which none is taken: nobody is active, and no address leads to a place.\<close>

definition nobody_known :: "nat \<Rightarrow> endpoints \<Rightarrow> bool" where
  "nobody_known m t \<longleftrightarrow> maxConnections t = m \<and> length (remoteSystemList t) = m \<and> activeSystemListSize t = 0 \<and>
     (\<forall>r \<in> set (remoteSystemList t). \<not> isActive r \<and> systemAddress r = JACKIE_NULL_ADDRESS) \<and>
     (\<forall>chain \<in> set (remoteSystemLookup t). chain = [])"

lemma setup_nobody_known:
  assumes "maxConnections t = 0" and "activeSystemListSize t = 0"
  shows "nobody_known m (setup_connections m raw t)"
  using assms by (simp add: nobody_known_def setup_connections_def endpoint_init_def)

lemma run_node_ready:
  assumes ok: "engine_ok k0 (node_engine n)" and t: "maxConnections (node_eps n) = 0" "activeSystemListSize (node_eps n) = 0"
    and m: "0 < maxConn" "8 * maxConn < 2 ^ 32"
  shows "engine_ok (length (bindedSockets n)) (node_engine (run_node (setup_node W maxConn n)))"
    "buffers_ok (node_engine (run_node (setup_node W maxConn n)))" "all_buffers (node_engine (run_node (setup_node W maxConn n))) = []"
    "endpoints_ok be (node_eps (run_node (setup_node W maxConn n)))" "nobody_known maxConn (node_eps (run_node (setup_node W maxConn n)))"
    "active (node_eps (run_node (setup_node W maxConn n)))"
proof -
  let ?t = "(node_eps n)\<lparr>firstExternalID := JACKIE_NULL_ADDRESS, endThreads := False\<rparr>"
  have "node_eps (run_node (setup_node W maxConn n)) = setup_connections maxConn (st_remote W) ?t"
    by (simp add: run_node_def setup_node_def on_startup_calls Let_def setup_connections_def)
  then show "endpoints_ok be (node_eps (run_node (setup_node W maxConn n)))"
    "nobody_known maxConn (node_eps (run_node (setup_node W maxConn n)))" "active (node_eps (run_node (setup_node W maxConn n)))"
    using setup_endpoints_ok [of ?t maxConn be "st_remote W"] setup_nobody_known [of ?t maxConn "st_remote W"] t m
    by (simp_all add: active_def setup_connections_def)
  show "engine_ok (length (bindedSockets n)) (node_engine (run_node (setup_node W maxConn n)))"
    using ok by (simp add: run_node_def setup_node_def on_startup_calls Let_def engine_ok_def)
  show "buffers_ok (node_engine (run_node (setup_node W maxConn n)))"
    by (simp add: run_node_def setup_node_def on_startup_calls Let_def) (simp add: buffers_ok_def all_buffers_def)
  show "all_buffers (node_engine (run_node (setup_node W maxConn n))) = []"
    by (simp add: run_node_def setup_node_def on_startup_calls Let_def all_buffers_def)
qed

lemma start_sockets_eps:
  assumes "start_sockets W binds maxConn K n = Inr (START_SUCCEED, K', n')"
  shows "\<exists>n1. only_eps n n1 \<and> length (bindedSockets n1) = length binds \<and> n' = run_node (setup_node W maxConn n1)"
proof -
  obtain n1 K1 n2 failed where n1: "DeallocBindedSockets n = Inr n1" "bind_sockets W 0 binds K n1 = Inr (failed, K1, n2)"
    and rest: "(case failed of Some r \<Rightarrow> Inr (r, K1, n2) | None \<Rightarrow>
        rbind (rassert (length (bindedSockets n2) = length binds)) (\<lambda>_. rbind (assign_ports W n2) (\<lambda>n.
             Inr (create_threads W (length binds), K1, run_node (setup_node W maxConn n))))) = Inr (START_SUCCEED, K', n')"
    using assms by (auto simp: start_sockets_def rbind_eq_Inr)
  have failed: "failed = None" using bind_sockets_result [OF n1(2)] rest by auto
  then obtain n3 where n3: "length (bindedSockets n2) = length binds" "assign_ports W n2 = Inr n3"
    "n' = run_node (setup_node W maxConn n3)"
    using rest by (auto simp: rbind_eq_Inr)
  have "only_eps n n1" using DeallocBindedSockets_gone(1) [OF n1(1)] by (rule only_eps_engine)
  moreover have "only_eps n1 n2" using bind_sockets_result [OF n1(2)] by (intro only_eps_engine) blast
  moreover have "only_eps n2 n3" by (rule assign_ports_eps [OF n3(2)])
  moreover have "bindedSockets n3 = bindedSockets n2"
    using n3(2) by (auto simp: assign_ports_def rbind_eq_Inr split: option.splits)
  ultimately show ?thesis using n3(1,3) by (metis only_eps_trans)
qed

lemma startup_steps:
  assumes "startup W binds maxConn K n = Inr (r, K', n')" and "r \<notin> {ALREADY_STARTED, COULD_NOT_GENERATE_GUID}"
  shows "\<exists>n1 t bs. only_eps n n1 \<and> InitIPAddress (st_hosts W) (node_eps n1) = Inr t \<and> bindedSockets n1 = bindedSockets n \<and>
    socket_object n1 = socket_object n \<and> binds = Some bs \<and> bs \<noteq> [] \<and> 0 < maxConn \<and>
    start_sockets W bs maxConn K (set_eps t n1) = Inr (r, K', n')"
proof -
  define n0 where "n0 = (if g (myGuid (node_eps n)) = 0 then GenerateGUID W n else n)"
  have n0: "only_eps n n0" "bindedSockets n0 = bindedSockets n" "socket_object n0 = socket_object n"
    by (auto simp: n0_def GenerateGUID_def only_eps_set intro: only_eps_engine)
  obtain n1 t where n1: "ensure_guid W n0 = Inr n1" "InitIPAddress (st_hosts W) (node_eps n1) = Inr t"
    and bs: "binds \<noteq> None \<and> binds \<noteq> Some []" "0 < maxConn"
    and run: "start_sockets W (the binds) maxConn K (set_eps t n1) = Inr (r, K', n')"
    using assms unfolding startup_def Let_def n0_def [symmetric]
    by (auto simp: rbind_eq_Inr split: if_splits)
  have "only_eps n n1" using only_eps_trans [OF n0(1) ensure_guid_eps [OF n1(1)]] .
  moreover have "bindedSockets n1 = bindedSockets n0 \<and> socket_object n1 = socket_object n0"
    using n1(1) by (auto simp: ensure_guid_def Let_def rbind_eq_Inr split: if_splits)
  ultimately show ?thesis using n0 n1(2) bs run by auto
qed

lemma InitIPAddress_table:
  "InitIPAddress hosts t = Inr t' \<Longrightarrow> maxConnections t' = maxConnections t \<and> activeSystemListSize t' = activeSystemListSize t"
  by (auto simp: InitIPAddress_def rbind_eq_Inr)

text \<open>A start that fails on the way leaves the engine inactive and its sockets deleted, or active.\<close>

lemma failed_start:
  assumes "startup W binds maxConn K n = Inr (r, K', n')"
    and "r \<notin> {ALREADY_STARTED, COULD_NOT_GENERATE_GUID, START_SUCCEED}"
  shows "active (node_eps n') \<or> (bindedSockets n' \<noteq> [] \<and> (\<forall>i \<in> set (bindedSockets n'). socket_object n' i = None))"
proof -
  obtain n1 bs where run: "start_sockets W bs maxConn K n1 = Inr (r, K', n')"
    using startup_steps [OF assms(1)] assms(2) by blast
  obtain n2 K1 n3 failed where n2: "DeallocBindedSockets n1 = Inr n2" "bind_sockets W 0 bs K n2 = Inr (failed, K1, n3)"
    and rest: "(case failed of Some r \<Rightarrow> Inr (r, K1, n3) | None \<Rightarrow>
        rbind (rassert (length (bindedSockets n3) = length bs)) (\<lambda>_. rbind (assign_ports W n3) (\<lambda>n.
             Inr (create_threads W (length bs), K1, run_node (setup_node W maxConn n))))) = Inr (r, K', n')"
    using run by (auto simp: start_sockets_def rbind_eq_Inr)
  show ?thesis
  proof (cases failed)
    case None
    then show ?thesis using rest by (auto simp: rbind_eq_Inr run_node_def active_def Let_def)
  next
    case (Some x)
    then show ?thesis using rest bind_sockets_result [OF n2(2)] by auto
  qed
qed

lemma start_over_deleted:
  assumes "bindedSockets n \<noteq> []" and "\<forall>i \<in> set (bindedSockets n). socket_object n i = None"
    and "r \<notin> {ALREADY_STARTED, COULD_NOT_GENERATE_GUID}"
  shows "startup W binds maxConn K n \<noteq> Inr (r, K', n')"
proof
  assume "startup W binds maxConn K n = Inr (r, K', n')"
  then obtain n1 t bs where n1: "bindedSockets n1 = bindedSockets n" "socket_object n1 = socket_object n"
    and run: "start_sockets W bs maxConn K (set_eps t n1) = Inr (r, K', n')"
    using startup_steps [of W binds maxConn K n r K' n'] assms(3) by blast
  then obtain n2 where "DeallocBindedSockets (set_eps t n1) = Inr n2" by (auto simp: start_sockets_def rbind_eq_Inr)
  then show False using DeallocBindedSockets_gone(3) n1 assms(1,2) by (cases "bindedSockets n") fastforce+
qed

section \<open>The list of sockets\<close>

text \<open>Each round of the loop adds a socket to the list, and nothing takes one out.\<close>

lemma bind_sockets_listed:
  "bind_sockets W index ps K n = Inr (failed, K', n') \<Longrightarrow>
   length (bindedSockets n) \<le> length (bindedSockets n') \<and> (ps \<noteq> [] \<longrightarrow> bindedSockets n' \<noteq> []) \<and>
   (failed = None \<longrightarrow> length (bindedSockets n') = length (bindedSockets n) + length ps)"
proof (induction ps arbitrary: index K n)
  case (Cons p ps)
  have listed: "fail_with r K m = Inr (x, K2, m') \<Longrightarrow> bindedSockets m' = bindedSockets m \<and> x \<noteq> None" for r K m x K2 m'
    using DeallocBindedSockets_gone(2) by (auto simp: fail_with_def rbind_eq_Inr)
  have freed: "DeallocJIS i m = Inr m' \<Longrightarrow> bindedSockets m' = bindedSockets m" for i m m'
    by (auto simp: DeallocJIS_def split: option.splits)
  show ?case
    using Cons.prems by (auto simp: AllocJIS_def Let_def rbind_eq_Inr split: if_splits dest!: listed freed Cons.IH)
qed simp

text \<open>A start that got as far as the sockets leaves some in the list; a start that succeeds found none.\<close>

lemma start_lists_sockets:
  assumes "startup W binds maxConn K n = Inr (r, K', n')" and "r \<notin> {ALREADY_STARTED, COULD_NOT_GENERATE_GUID}"
  shows "bindedSockets n' \<noteq> []" and "r = START_SUCCEED \<Longrightarrow> bindedSockets n = []"
proof -
  obtain n0 t bs where n0: "bindedSockets n0 = bindedSockets n" "bs \<noteq> []"
    and run0: "start_sockets W bs maxConn K (set_eps t n0) = Inr (r, K', n')"
    using startup_steps [OF assms] by auto
  define n1 where "n1 = set_eps t n0"
  have n1: "bindedSockets n1 = bindedSockets n" "bs \<noteq> []" using n0 by (simp_all add: n1_def)
  note run = run0 [folded n1_def]
  obtain n2 K1 n3 failed where n2: "DeallocBindedSockets n1 = Inr n2" "bind_sockets W 0 bs K n2 = Inr (failed, K1, n3)"
    and rest: "(case failed of Some r \<Rightarrow> Inr (r, K1, n3) | None \<Rightarrow>
        rbind (rassert (length (bindedSockets n3) = length bs)) (\<lambda>_. rbind (assign_ports W n3) (\<lambda>n.
             Inr (create_threads W (length bs), K1, run_node (setup_node W maxConn n))))) = Inr (r, K', n')"
    using run by (auto simp: start_sockets_def rbind_eq_Inr)
  have same: "bindedSockets n2 = bindedSockets n" using DeallocBindedSockets_gone(2) [OF n2(1)] n1(1) by simp
  note listed = bind_sockets_listed [OF n2(2)]
  have "bindedSockets n' = bindedSockets n3"
    using rest by (auto simp: rbind_eq_Inr assign_ports_def run_node_def setup_node_def Let_def split: option.splits)
  then show "bindedSockets n' \<noteq> []" using listed n1(2) by simp
  show "bindedSockets n = []" if "r = START_SUCCEED"
  proof (cases failed)
    case None
    then have "length (bindedSockets n3) = length bs" using rest by (auto simp: rbind_eq_Inr)
    then show ?thesis using listed None same by simp
  next
    case (Some x)
    then show ?thesis using rest bind_sockets_result [OF n2(2)] that by auto
  qed
qed

end
