(* ===== verification/Startup_Properties.thy ===== *)
theory Startup_Properties
  imports Startup Cycle_Properties
begin

text \<open>Properties of the start of the engine.\<close>

section \<open>A machine to start on\<close>

text \<open>The system gives every socket, and the self-test of a socket gets back what it sends.\<close>

definition starting_kernel :: kernel where
  "starting_kernel =
     \<lparr>k_calls = 0, k_sendto = (\<lambda>_ d _. int (length d)), k_recvfrom = (\<lambda>_. (128, replicate 128 0, 5, 5)), k_errno = (\<lambda>_. 0),
      k_socket = (\<lambda>_. 3), k_option = (\<lambda>_. 0), k_bind = (\<lambda>_ _. 0), k_getsockname = (\<lambda>_. Some (5, 5)), k_time = (\<lambda>_. 0),
      k_ttl = 0\<rparr>"

definition starting_world :: start_world where
  "starting_world =
     \<lparr>st_tries = 1, st_fuel = 1, st_inet_addr = (\<lambda>_. 5), st_be = False, st_hosts = None, st_clock = of_nat,
      st_socket = test_socket, st_buffer = test_buffer, st_remote = (\<lambda>_. undefined), st_recv_thread = (\<lambda>_. True),
      st_network_thread = True\<rparr>"

definition stopped_node :: node where
  "stopped_node =
     \<lparr>node_engine = (idle_engine 0)\<lparr>app_of := (app_of (idle_engine 0))\<lparr>eps := (test_endpoints 1)\<lparr>endThreads := True,
        localIPAddrs := replicate MAX_COUNT_LOCAL_IP_ADDR JACKIE_NULL_ADDRESS\<rparr>\<rparr>\<rparr>,
      bindedSockets = [], socket_object = Map.empty, next_object = 0, socket_user_index = (\<lambda>_. 0),
      maxIncomingConnections = 0, rnr = \<lparr>mt_state = [], mt_next = 0, mt_left = -1\<rparr>,
      glob_mt = \<lparr>mt_state = [], mt_next = 0, mt_left = -1\<rparr>\<rparr>"

lemma starting_world_sel [simp]:
  "st_tries starting_world = Suc 0" "st_fuel starting_world = Suc 0" "st_inet_addr starting_world = (\<lambda>_. 5)"
  "st_be starting_world = False" "st_hosts starting_world = None" "st_socket starting_world = test_socket"
  "st_buffer starting_world = test_buffer" "st_recv_thread starting_world = (\<lambda>_. True)" "st_network_thread starting_world"
  by (simp_all add: starting_world_def)

lemma stopped_node_sel [simp]:
  "bindedSockets stopped_node = []" "socket_object stopped_node = Map.empty" "next_object stopped_node = 0"
  "maxConnections (node_eps stopped_node) = 0" "activeSystemListSize (node_eps stopped_node) = 0"
  "endThreads (node_eps stopped_node)" "myGuid (node_eps stopped_node) = guid_of 1"
  "localIPAddrs (node_eps stopped_node) = replicate MAX_COUNT_LOCAL_IP_ADDR JACKIE_NULL_ADDRESS"
  by (simp_all add: stopped_node_def test_endpoints_def)

lemma stopped_node_ok: "engine_ok 0 (node_engine stopped_node)"
proof -
  have "engine_ok 0 (idle_engine 0)" unfolding idle_engine_def by (rule start_engine_ok [OF test_app_sound])
  then show ?thesis using engine_ok_sound [of 0 "idle_engine 0"] by (simp add: stopped_node_def engine_ok_app)
qed

lemma binds_one:
  assumes "jst s = None" and "n > 0"
  shows "\<exists>s' K'. Bind (Suc 0) (Suc 0) (\<lambda>_. 5) False test_buffer (binding_of binding_params_default) s
      (starting_kernel\<lparr>k_recvfrom := (\<lambda>_. (n, d, 5, 5))\<rparr>)
    = Inr (if n = 128 then JISBindResult_SUCCESS else JISBindResult_FAILED_SEND_RECV_TEST, s', K')"
  using assms
  by (simp add: BindShared_def BindSharedIPV4_def SetSocketOptions_def SetNonBlockingSocket_def SetBroadcastSocket_def
      SetIPHdrIncl_def option_call_def GetSystemAddressViaJISSocketIPV4_def Socket_Send_def SendWithoutVDP_def RecvFrom_def
      binding_of_def binding_params_default_def starting_kernel_def SOCKET_ERROR_def SetPortNetworkOrder_def
      USE_BLOBKING_SOCKET_def Let_def)

lemma starts:
  assumes "n > 0"
  shows "\<exists>K' n'. startup starting_world (Some [binding_params_default]) 2
      (starting_kernel\<lparr>k_recvfrom := (\<lambda>_. (n, d, 5, 5))\<rparr>) stopped_node
    = Inr (if n = 128 then START_SUCCEED else SOCKET_FAILED_TEST_SEND_RECV, K', n')"
proof -
  have init: "InitIPAddress None t = Inr t" if "localIPAddrs t = replicate MAX_COUNT_LOCAL_IP_ADDR JACKIE_NULL_ADDRESS" for t
    using that by (simp add: InitIPAddress_def GetMyIPBerkleyV4_def MAX_COUNT_LOCAL_IP_ADDR_def JACKIE_NULL_ADDRESS_def
        address_default_def address_eq_def EqualsExcludingPort_def sort_loop.simps [of 9, simplified])
  obtain s' K' where b: "Bind (Suc 0) (Suc 0) (\<lambda>_. 5) False test_buffer (binding_of binding_params_default)
      (test_socket\<lparr>jst := None, rns2Socket := -1\<rparr>) (starting_kernel\<lparr>k_recvfrom := (\<lambda>_. (n, d, 5, 5))\<rparr>)
    = Inr (if n = 128 then JISBindResult_SUCCESS else JISBindResult_FAILED_SEND_RECV_TEST, s', K')"
    using binds_one [OF _ assms, of "test_socket\<lparr>jst := None, rns2Socket := -1\<rparr>" d] by auto
  show ?thesis
    using b by (auto simp: startup_def active_def guid_of_def ensure_guid_def JACKIE_NULL_GUID_def guid_eq_def init
        start_sockets_def DeallocBindedSockets_def DeallocJIS_def AllocJIS_def fail_with_def assign_ports_def
        create_threads_def binding_params_default_def Let_def)
qed

section \<open>Results of a start\<close>

text \<open>
  C34: After a start that succeeded, of an engine that was well formed and had no table of end points yet, with fewer than
  2 ^ 29 places, the engine is active, its queues are well formed with one for each socket, no receive buffer is taken,
  and the table of end points has the places asked for, is consistent and empty: no end point is active, the list of
  active ones has the size 0, and no address is linked.
\<close>

theorem startup_ready:
  assumes start: "startup W binds maxConn K n = Inr (START_SUCCEED, K', n')"
    and ok: "engine_ok k0 (node_engine n)"
    and new: "maxConnections (node_eps n) = 0" "activeSystemListSize (node_eps n) = 0" and m: "8 * maxConn < 2 ^ 32"
  shows "\<exists>bs. binds = Some bs \<and> engine_ok (length bs) (node_engine n')
    \<and> buffers_ok (node_engine n') \<and> all_buffers (node_engine n') = []
    \<and> endpoints_ok be (node_eps n') \<and> active (node_eps n')
    \<and> maxConnections (node_eps n') = maxConn \<and> activeSystemListSize (node_eps n') = 0
    \<and> length (remoteSystemList (node_eps n')) = maxConn
    \<and> (\<forall>r \<in> set (remoteSystemList (node_eps n')). \<not> isActive r \<and> systemAddress r = JACKIE_NULL_ADDRESS)
    \<and> (\<forall>chain \<in> set (remoteSystemLookup (node_eps n')). chain = [])"
proof -
  obtain n1 t bs where n1: "only_eps n n1" "InitIPAddress (st_hosts W) (node_eps n1) = Inr t" "binds = Some bs" "0 < maxConn"
    and run: "start_sockets W bs maxConn K (set_eps t n1) = Inr (START_SUCCEED, K', n')"
    using startup_steps [OF start] by auto
  have "only_eps n (set_eps t n1)"
    using only_eps_trans [OF n1(1) only_eps_set] InitIPAddress_table [OF n1(2)] by blast
  then obtain n2 where n2: "only_eps n n2" "length (bindedSockets n2) = length bs" "n' = run_node (setup_node W maxConn n2)"
    using start_sockets_eps [OF run] only_eps_trans by blast
  have "engine_ok k0 (node_engine n2)" "maxConnections (node_eps n2) = 0" "activeSystemListSize (node_eps n2) = 0"
    using n2(1) ok new by (auto simp: only_eps_def engine_ok_app engine_ok_sound)
  then show ?thesis
    using run_node_ready [of k0 n2 maxConn] n1(3,4) m n2(2,3) by (auto simp: nobody_known_def)
qed

theorem startup_ready_witness:
  "\<exists>K' n'. startup starting_world (Some [binding_params_default]) 2
      (starting_kernel\<lparr>k_recvfrom := (\<lambda>_. (128, [], 5, 5))\<rparr>) stopped_node = Inr (START_SUCCEED, K', n') \<and>
    engine_ok 1 (node_engine n') \<and> active (node_eps n') \<and> activeSystemListSize (node_eps n') = 0 \<and>
    length (remoteSystemList (node_eps n')) = 2"
proof -
  obtain K' n' where run: "startup starting_world (Some [binding_params_default]) 2
      (starting_kernel\<lparr>k_recvfrom := (\<lambda>_. (128, [], 5, 5))\<rparr>) stopped_node = Inr (START_SUCCEED, K', n')"
    using starts [of 128 "[]"] by auto
  show ?thesis using startup_ready [OF run stopped_node_ok] run by auto
qed

text \<open>
  A start never tells that the address family of a socket is not supported, nor that a port is in use: in the first
  case the socket is deleted twice, in the second the binding goes on for ever.
\<close>

lemma startup_results:
  assumes "startup W binds maxConn K n = Inr (r, K', n')"
  shows "r \<noteq> SOCKET_FAMILY_NOT_SUPPORTED \<and> r \<noteq> SOCKET_PORT_ALREADY_IN_USE"
proof (cases "r \<in> {ALREADY_STARTED, COULD_NOT_GENERATE_GUID}")
  case False
  then obtain n1 bs where run: "start_sockets W bs maxConn K n1 = Inr (r, K', n')"
    using startup_steps [OF assms] by blast
  then obtain n2 K1 n3 failed where b: "bind_sockets W 0 bs K n2 = Inr (failed, K1, n3)"
    and rest: "(case failed of Some r \<Rightarrow> Inr (r, K1, n3) | None \<Rightarrow>
        rbind (rassert (length (bindedSockets n3) = length bs)) (\<lambda>_. rbind (assign_ports W n3) (\<lambda>n.
             Inr (create_threads W (length bs), K1, run_node (setup_node W maxConn n))))) = Inr (r, K', n')"
    by (auto simp: start_sockets_def rbind_eq_Inr)
  show ?thesis
    using rest bind_sockets_result [OF b] by (auto simp: rbind_eq_Inr create_threads_def split: option.splits if_splits)
qed auto


text \<open>
  C35: An engine is started once. After a start that got as far as the sockets, whether it succeeded or not, no later
  start succeeds, with whatever parameters and whatever was done in between: nothing takes the old sockets out of the
  list, which must have just the new ones.
\<close>

theorem started_once:
  assumes "startup W binds maxConn K n = Inr (r, K', n')" and "r \<notin> {ALREADY_STARTED, COULD_NOT_GENERATE_GUID}"
    and "bindedSockets later = bindedSockets n'"
  shows "startup W' binds' maxConn' K'' later \<noteq> Inr (START_SUCCEED, K1, n1)"
  using start_lists_sockets(1) [OF assms(1,2)] start_lists_sockets(2) [of W' binds' maxConn' K'' later START_SUCCEED K1 n1]
    assms(3) by auto

theorem started_once_witness:
  "\<exists>K' n'. startup starting_world (Some [binding_params_default]) 2
      (starting_kernel\<lparr>k_recvfrom := (\<lambda>_. (128, [], 5, 5))\<rparr>) stopped_node = Inr (START_SUCCEED, K', n') \<and>
    (\<forall>K1 n1. startup starting_world (Some [binding_params_default]) 2 starting_kernel
       (set_eps ((node_eps n')\<lparr>endThreads := True\<rparr>) n') \<noteq> Inr (START_SUCCEED, K1, n1))"
proof -
  obtain K' n' where run: "startup starting_world (Some [binding_params_default]) 2
      (starting_kernel\<lparr>k_recvfrom := (\<lambda>_. (128, [], 5, 5))\<rparr>) stopped_node = Inr (START_SUCCEED, K', n')"
    using starts [of 128 "[]"] by auto
  show ?thesis using started_once [OF run, of "set_eps ((node_eps n')\<lparr>endThreads := True\<rparr>) n'"] run by auto
qed

end
