(* ===== verification/Bit_Vectors.thy ===== *)
theory Bit_Vectors
  imports Bit_Serialize
begin

text \<open>
  Vectors with a length, quaternions and orthogonal matrices on the bit stream (\<^verbatim>\<open>include/geco-bit-stream.h\<close>), and the
  form in which a \<^verbatim>\<open>float\<close> is in memory. The template type is \<^verbatim>\<open>float\<close> or \<^verbatim>\<open>double\<close> (\<open>float_type\<close>); as in
  \<open>Bit_Floats\<close> its values are rational numbers, and zero is positive. The square root is the one of \<^verbatim>\<open>float\<close> or of
  \<^verbatim>\<open>double\<close>, as the headers of the C library have it, so it is an argument \<open>sq\<close>: \<open>sqrt32\<close> or \<open>sqrt64\<close>.
\<close>

section \<open>Types and the square root\<close>

datatype float_type = Float | Double

fun rnd :: "float_type \<Rightarrow> rat \<Rightarrow> rat" where
  "rnd Float x = fl32 x"
| "rnd Double x = fl64 x"

fun isqrt :: "nat \<Rightarrow> nat" where
  "isqrt n = (if n = 0 then 0 else let r = 2 * isqrt (n div 4) in if (r + 1) * (r + 1) \<le> n then r + 1 else r)"

declare isqrt.simps [simp del]

text \<open>
  The root is taken of an integer with more than twice the digits, and a half is put behind it where it is not exact,
  which rounds as the root itself does.
\<close>

definition root_near :: "nat \<Rightarrow> rat \<Rightarrow> rat" where
  "root_near p x =
     (let k = int p + 1 - exponent x div 2; y = x * 4 powi k; m = isqrt (nat \<lfloor>y\<rfloor>)
      in (if of_nat (m * m) = y then of_nat m else of_nat m + 1 / 2) / 2 powi k)"

definition fl_sqrt :: "nat \<Rightarrow> int \<Rightarrow> rat \<Rightarrow> rat" where
  "fl_sqrt p emin x = (if x \<le> 0 then 0 else fl p emin (root_near p x))"

definition sqrt32 :: "rat \<Rightarrow> rat" where "sqrt32 = fl_sqrt 24 (-149)"

definition sqrt64 :: "rat \<Rightarrow> rat" where "sqrt64 = fl_sqrt 53 (-1074)"

section \<open>A float in memory\<close>

definition float_bits :: "rat \<Rightarrow> u32" where
  "float_bits v =
     (if v = 0 then 0
      else let q = max (exponent \<bar>v\<bar> - 23) (-149); n = \<lfloor>\<bar>v\<bar> / 2 powi q\<rfloor>
           in of_int ((if v < 0 then 2147483648 else 0) + (if n < 8388608 then n else (q + 150) * 8388608 + (n - 8388608))))"

definition bits_float :: "u32 \<Rightarrow> rat" where
  "bits_float b =
     (let i = uint b; e = i div 8388608 mod 256; m = i mod 8388608;
          a = (if e = 0 then of_int m * 2 powi (-149) else of_int (8388608 + m) * 2 powi (e - 150))
      in if i \<ge> 2147483648 then - a else a)"

definition Write_float :: "bool \<Rightarrow> rat \<Rightarrow> writer" where
  "Write_float be v = Write_int be (float_bits v)"

definition Read_float :: "bool \<Rightarrow> rat reader" where
  "Read_float be s = rbind (Read_int be s) (\<lambda>(b :: u32, s). Inr (bits_float b, s))"

section \<open>Vectors\<close>

text \<open>The limit of the length, \<^verbatim>\<open>0.00001f\<close>.\<close>

definition short_vector :: rat where "short_vector = fl32 (1 / 100000)"

definition write_vector :: "(rat \<Rightarrow> rat) \<Rightarrow> float_type \<Rightarrow> bool \<Rightarrow> rat \<times> rat \<times> rat \<Rightarrow> writer" where
  "write_vector sq ty be = (\<lambda>(x, y, z) s.
     let r = rnd ty;
         magnitude = r (sq (r (r (r (x * x) + r (y * y)) + r (z * z))))
     in rbind (Write_float be (fl32 magnitude) s) (\<lambda>s.
        if magnitude > short_vector then
          rbind (WriteMini_float be (fl32 (r (x / magnitude))) s) (\<lambda>s.
          rbind (WriteMini_float be (fl32 (r (y / magnitude))) s) (WriteMini_float be (fl32 (r (z / magnitude)))))
        else Inr s))"

text \<open>Each part is read as the template type; what it held is left in the low bits of a faulty number.\<close>

fun ReadMini_at :: "float_type \<Rightarrow> bool \<Rightarrow> u32 \<Rightarrow> rat reader" where
  "ReadMini_at Float be junk = ReadMini_float be (ucast junk)"
| "ReadMini_at Double be junk = ReadMini_double be junk"

definition ReadVector :: "float_type \<Rightarrow> bool \<Rightarrow> (nat \<Rightarrow> u32) \<Rightarrow> (rat \<times> rat \<times> rat) reader" where
  "ReadVector ty be junk s =
     rbind (Read_float be s) (\<lambda>(magnitude, s).
       if magnitude > short_vector then
         rbind (ReadMini_at ty be (junk 0) s) (\<lambda>(x, s).
         rbind (ReadMini_at ty be (junk 1) s) (\<lambda>(y, s).
         rbind (ReadMini_at ty be (junk 2) s) (\<lambda>(z, s).
           Inr ((rnd ty (x * magnitude), rnd ty (y * magnitude), rnd ty (z * magnitude)), s))))
       else Inr ((0, 0, 0), s))"

section \<open>Quaternions\<close>

definition quat_word :: "rat \<Rightarrow> u16 res" where
  "quat_word x = float_to_word (fl64 (\<bar>x\<bar> * 65535))"

definition write_normal_quat :: "bool \<Rightarrow> rat \<times> rat \<times> rat \<times> rat \<Rightarrow> writer" where
  "write_normal_quat be = (\<lambda>(w, x, y, z) s.
     rbind (Write_bool (w < 0) s) (\<lambda>s.
     rbind (Write_bool (x < 0) s) (\<lambda>s.
     rbind (Write_bool (y < 0) s) (\<lambda>s.
     rbind (Write_bool (z < 0) s) (\<lambda>s.
     rbind (quat_word x) (\<lambda>cx. rbind (Write_mini_int be True cx s) (\<lambda>s.
     rbind (quat_word y) (\<lambda>cy. rbind (Write_mini_int be True cy s) (\<lambda>s.
     rbind (quat_word z) (\<lambda>cz. Write_mini_int be True cz s))))))))))"

text \<open>The number of a compressed part with its sign, and the part that is not sent.\<close>

definition quat_part :: "float_type \<Rightarrow> bool \<Rightarrow> u16 \<Rightarrow> rat" where
  "quat_part ty neg c = (let x = rnd ty (fl64 (of_nat (unat c) / 65535)) in if neg then - x else x)"

definition quat_rest :: "(rat \<Rightarrow> rat) \<Rightarrow> float_type \<Rightarrow> bool \<Rightarrow> rat \<Rightarrow> rat \<Rightarrow> rat \<Rightarrow> rat" where
  "quat_rest sq ty neg x y z =
     (let r = rnd ty;
          difference = fl32 (r (r (r (1 - r (x * x)) - r (y * y)) - r (z * z)));
          difference = (if difference < 0 then 0 else difference);
          w = r (sq difference)
      in if neg then - w else w)"

definition ReadNormQuat :: "(rat \<Rightarrow> rat) \<Rightarrow> float_type \<Rightarrow> bool \<Rightarrow> (nat \<Rightarrow> u16) \<Rightarrow> (rat \<times> rat \<times> rat \<times> rat) reader" where
  "ReadNormQuat sq ty be junk s =
     rbind (Read_bool s) (\<lambda>(cwNeg, s).
     rbind (Read_bool s) (\<lambda>(cxNeg, s).
     rbind (Read_bool s) (\<lambda>(cyNeg, s).
     rbind (Read_bool s) (\<lambda>(czNeg, s).
     rbind (Read_mini_int be True (junk 0) s) (\<lambda>(cx, s).
     rbind (Read_mini_int be True (junk 1) s) (\<lambda>(cy, s).
     rbind (Read_mini_int be True (junk 2) s) (\<lambda>(cz, s).
       let x = quat_part ty cxNeg cx; y = quat_part ty cyNeg cy; z = quat_part ty czNeg cz
       in Inr ((quat_rest sq ty cwNeg x y z, x, y, z), s))))))))"

section \<open>Orthogonal matrices\<close>

text \<open>The nine numbers row by row. A root is halved exactly; the sign of a zero difference is plus.\<close>

type_synonym matrix = "(rat \<times> rat \<times> rat) \<times> (rat \<times> rat \<times> rat) \<times> (rat \<times> rat \<times> rat)"

definition quat_of_sum :: "(rat \<Rightarrow> rat) \<Rightarrow> rat \<Rightarrow> rat" where
  "quat_of_sum sq v =
     (let total = fl32 v; total = (if total < 0 then 0 else total); q = fl64 (sq total / 2) in if q < 0 then 0 else q)"

definition copysign :: "rat \<Rightarrow> rat \<Rightarrow> rat" where
  "copysign q v = (if v < 0 then - \<bar>q\<bar> else \<bar>q\<bar>)"

definition write_orth_matrix :: "(rat \<Rightarrow> rat) \<Rightarrow> float_type \<Rightarrow> bool \<Rightarrow> matrix \<Rightarrow> writer" where
  "write_orth_matrix sq ty be = (\<lambda>((m00, m01, m02), (m10, m11, m12), (m20, m21, m22)).
     let r = rnd ty;
         qw = quat_of_sum sq (r (r (r (1 + m00) + m11) + m22));
         qx = quat_of_sum sq (r (r (r (1 + m00) - m11) - m22));
         qy = quat_of_sum sq (r (r (r (1 - m00) + m11) - m22));
         qz = quat_of_sum sq (r (r (r (1 - m00) - m11) + m22))
     in write_normal_quat be (qw, copysign qx (r (m21 - m12)), copysign qy (r (m02 - m20)), copysign qz (r (m10 - m01))))"

definition ReadOrthMatrix :: "(rat \<Rightarrow> rat) \<Rightarrow> float_type \<Rightarrow> bool \<Rightarrow> (nat \<Rightarrow> u16) \<Rightarrow> matrix reader" where
  "ReadOrthMatrix sq ty be junk s =
     rbind (ReadNormQuat sq Float be junk s) (\<lambda>((qw, qx, qy, qz), s).
       let r = rnd ty; d = fl64;
           sqw = d (qw * qw); sqx = d (qx * qx); sqy = d (qy * qy); sqz = d (qz * qz);
           m00 = r (d (d (d (sqx - sqy) - sqz) + sqw));
           m11 = r (d (d (d (- sqx + sqy) - sqz) + sqw));
           m22 = r (d (d (d (- sqx - sqy) + sqz) + sqw));
           tmp1 = d (qx * qy); tmp2 = d (qz * qw);
           m10 = r (d (2 * d (tmp1 + tmp2))); m01 = r (d (2 * d (tmp1 - tmp2)));
           tmp1 = d (qx * qz); tmp2 = d (qy * qw);
           m20 = r (d (2 * d (tmp1 - tmp2))); m02 = r (d (2 * d (tmp1 + tmp2)));
           tmp1 = d (qy * qz); tmp2 = d (qx * qw);
           m21 = r (d (2 * d (tmp1 + tmp2))); m12 = r (d (2 * d (tmp1 - tmp2)))
       in Inr (((m00, m01, m02), (m10, m11, m12), (m20, m21, m22)), s))"

section \<open>Both ways\<close>

definition serialize_vector :: "(rat \<Rightarrow> rat) \<Rightarrow> float_type \<Rightarrow> bool \<Rightarrow> (nat \<Rightarrow> u32) \<Rightarrow> (rat \<times> rat \<times> rat) serializer" where
  "serialize_vector sq ty be junk = either_way (write_vector sq ty be) (\<lambda>_. ReadVector ty be junk)"

definition serialize_normal_quat ::
  "(rat \<Rightarrow> rat) \<Rightarrow> float_type \<Rightarrow> bool \<Rightarrow> (nat \<Rightarrow> u16) \<Rightarrow> (rat \<times> rat \<times> rat \<times> rat) serializer" where
  "serialize_normal_quat sq ty be junk = either_way (write_normal_quat be) (\<lambda>_. ReadNormQuat sq ty be junk)"

definition serialize_orth_matrix :: "(rat \<Rightarrow> rat) \<Rightarrow> float_type \<Rightarrow> bool \<Rightarrow> (nat \<Rightarrow> u16) \<Rightarrow> matrix serializer" where
  "serialize_orth_matrix sq ty be junk = either_way (write_orth_matrix sq ty be) (\<lambda>_. ReadOrthMatrix sq ty be junk)"

section \<open>The square root\<close>

lemma isqrt_bounds: "isqrt n * isqrt n \<le> n \<and> n < (isqrt n + 1) * (isqrt n + 1)"
proof (induction n rule: isqrt.induct)
  case (1 n)
  show ?case
  proof (cases "n = 0")
    case False
    define a where "a = isqrt (n div 4)"
    have a: "a * a \<le> n div 4" "n div 4 < (a + 1) * (a + 1)" using 1 [OF False] by (simp_all add: a_def)
    have lo: "2 * a * (2 * a) \<le> n" using a(1) by linarith
    have "n div 4 + 1 \<le> (a + 1) * (a + 1)" using a(2) by simp
    then have "4 * (n div 4 + 1) \<le> 4 * ((a + 1) * (a + 1))" by (rule mult_le_mono2)
    then have hi: "n < (2 * a + 1 + 1) * (2 * a + 1 + 1)" by simp
    have "isqrt n = (if (2 * a + 1) * (2 * a + 1) \<le> n then 2 * a + 1 else 2 * a)"
      using False by (subst isqrt.simps) (simp add: a_def Let_def)
    then show ?thesis using lo hi by auto
  qed (simp add: isqrt.simps)
qed

text \<open>The square of the root before its rounding is close to the number.\<close>

lemma root_near_square:
  assumes "0 < x"
  shows "0 < root_near p x" "\<bar>root_near p x * root_near p x - x\<bar> \<le> x / 2 ^ p"
proof -
  let ?e = "exponent x"
  define k where "k = int p + 1 - ?e div 2"
  define y where "y = x * 4 powi k"
  define n m where "n = nat \<lfloor>y\<rfloor>" and "m = isqrt n"
  define c :: rat where "c = 2 powi k"
  define v :: rat where "v = (if of_nat (m * m) = y then of_nat m else of_nat m + 1 / 2)"
  have root: "root_near p x = v / c" by (simp add: root_near_def k_def y_def n_def m_def v_def c_def Let_def)
  have c: "c > 0" by (simp add: c_def)
  have y: "y = x * (c * c)" using power_int_mult_distrib [of "2 :: rat" 2 k] by (simp add: y_def c_def)
  have y0: "0 < y" using assms c by (simp add: y)
  have n: "of_nat n \<le> y" "y < of_nat n + 1" using y0 by (auto simp: n_def of_nat_nat) linarith
  have big: "(2 :: rat) ^ (2 * p + 2) \<le> y"
  proof -
    have "(2 :: rat) ^ (2 * p + 2) = 2 powi int (2 * p + 2)" by (simp only: power_int_of_nat)
    also have "\<dots> \<le> 2 powi (?e + 2 * k)" by (rule power_int_increasing) (auto simp: k_def)
    also have "\<dots> = 2 powi ?e * (c * c)"
      using power_int_add [of "2 :: rat" ?e "k + k"] power_int_add [of "2 :: rat" k k] unfolding mult_2 c_def by simp
    also have "\<dots> \<le> x * (c * c)" using exponent_le [OF assms] c by (intro mult_right_mono) auto
    finally show ?thesis by (simp add: y)
  qed
  have sq: "m * m \<le> n" "n < (m + 1) * (m + 1)" using isqrt_bounds [of n] by (simp_all add: m_def)
  have m1: "of_nat m * of_nat m \<le> y" using sq(1) n(1) by (metis of_nat_le_iff of_nat_mult order_trans)
  have "n + 1 \<le> (m + 1) * (m + 1)" using sq(2) by simp
  then have "of_nat (n + 1) \<le> (of_nat ((m + 1) * (m + 1)) :: rat)" by (rule of_nat_mono)
  then have m2: "y < (of_nat m + 1) * (of_nat m + 1)" using n(2) by (simp add: algebra_simps)
  have "(2 :: rat) ^ (p + 1) < of_nat m + 1"
  proof (rule ccontr)
    assume "\<not> ?thesis"
    then have "(of_nat m + 1) * (of_nat m + 1) \<le> (2 :: rat) ^ (p + 1) * 2 ^ (p + 1)" by (intro mult_mono) auto
    also have "\<dots> = 2 ^ (2 * p + 2)"
      by (simp only: power_add [symmetric]) (rule arg_cong [where f = "power 2"], simp)
    finally show False using m2 big by linarith
  qed
  then have m3: "(2 :: rat) ^ (p + 1) \<le> of_nat m"
  proof -
    assume "(2 :: rat) ^ (p + 1) < of_nat m + 1"
    then have "of_nat (2 ^ (p + 1)) < (of_nat (m + 1) :: rat)" by simp
    then have "2 ^ (p + 1) \<le> m" unfolding of_nat_less_iff by simp
    then show ?thesis by (metis of_nat_le_iff of_nat_numeral of_nat_power)
  qed
  have m0: "(0 :: rat) < of_nat m" using m3 zero_less_power [of "2 :: rat" "p + 1"] by linarith
  show "0 < root_near p x" using c m0 by (simp add: root v_def)
  have "\<bar>v * v - y\<bar> \<le> of_nat m + 1"
  proof (cases "of_nat (m * m) = y")
    case False
    then show ?thesis using m1 m2 by (auto simp: v_def abs_le_iff algebra_simps)
  qed (simp add: v_def)
  also have "\<dots> \<le> 2 * of_nat m" using m3 one_le_power [of "2 :: rat" "p + 1"] by linarith
  also have "\<dots> \<le> y / 2 ^ p"
  proof -
    have "2 * of_nat m * 2 ^ p = of_nat m * (2 :: rat) ^ (p + 1)" by simp
    also have "\<dots> \<le> of_nat m * of_nat m" using m3 m0 by (intro mult_left_mono) auto
    also have "\<dots> \<le> y" by (rule m1)
    finally show ?thesis by (simp add: pos_le_divide_eq)
  qed
  finally have d: "\<bar>v * v - y\<bar> \<le> y / 2 ^ p" .
  have "root_near p x * root_near p x - x = (v * v - y) / (c * c)" using c by (simp add: root y field_simps)
  then have "\<bar>root_near p x * root_near p x - x\<bar> = \<bar>v * v - y\<bar> / (c * c)" using c by simp
  also have "\<dots> \<le> y / 2 ^ p / (c * c)" using c d by (intro divide_right_mono) auto
  also have "\<dots> = x / 2 ^ p" using c by (simp add: y)
  finally show "\<bar>root_near p x * root_near p x - x\<bar> \<le> x / 2 ^ p" .
qed

section \<open>Rounding of either type\<close>

text \<open>\<open>tiny\<close> is more than what gradual underflow can cost.\<close>

abbreviation tiny :: rat where "tiny \<equiv> 1 / 10000000000000000000000000000000000000000"

lemma rnd_close: "\<bar>rnd ty x - x\<bar> \<le> \<bar>x\<bar> / 16777216 + tiny"
proof (cases ty)
  case Float
  have "(2 :: rat) powi (-149 - 1) \<le> tiny" by (simp add: power_int_minus)
  then show ?thesis using fl_close [of 24 "-149" x] Float by (simp add: fl32_def)
next
  case Double
  have "(2 :: rat) powi (-1074 - 1) \<le> tiny" by (simp add: power_int_minus)
  moreover have "\<bar>x\<bar> / 2 ^ 53 \<le> \<bar>x\<bar> / 16777216" by (rule divide_left_mono) simp_all
  ultimately show ?thesis using fl_close [of 53 "-1074" x] Double by (simp add: fl64_def)
qed

lemma rnd_nonneg [simp]: "0 \<le> x \<Longrightarrow> 0 \<le> rnd ty x"
  by (cases ty) simp_all

text \<open>The bound for numbers of a known size.\<close>

lemma rnd_within: "\<bar>x\<bar> \<le> m \<Longrightarrow> \<bar>rnd ty x - x\<bar> \<le> m / 16777216 + tiny"
  using rnd_close [of ty x] by simp

lemma fl_within: "\<bar>x\<bar> \<le> m \<Longrightarrow> \<bar>fl32 x - x\<bar> \<le> m / 16777216 + tiny" "\<bar>x\<bar> \<le> m \<Longrightarrow> \<bar>fl64 x - x\<bar> \<le> m / 16777216 + tiny"
  using rnd_within [of x m Float] rnd_within [of x m Double] by simp_all

lemma sqrt_nonneg: "sq \<in> {sqrt32, sqrt64} \<Longrightarrow> 0 \<le> sq x"
proof -
  have "0 \<le> fl_sqrt p emin x" for p emin
    using root_near_square(1) [of x p] by (auto simp: fl_sqrt_def intro!: fl_nonneg)
  then show "sq \<in> {sqrt32, sqrt64} \<Longrightarrow> 0 \<le> sq x" by (auto simp: sqrt32_def sqrt64_def)
qed

text \<open>The root of either type, close to a number whose square is close to the argument.\<close>

lemma sqrt_near:
  assumes "sq \<in> {sqrt32, sqrt64}" and "0 < x"
  obtains v where "0 < v" "\<bar>v * v - x\<bar> \<le> x / 16777216" "\<bar>sq x - v\<bar> \<le> v / 16777216 + tiny"
proof -
  have "\<exists>v > 0. \<bar>v * v - x\<bar> \<le> x / 16777216 \<and> \<bar>sq x - v\<bar> \<le> v / 16777216 + tiny"
  proof (cases "sq = sqrt32")
    case True
    show ?thesis
      using root_near_square [OF assms(2), of 24] rnd_close [of Float "root_near 24 x"] assms(2) True
      by (intro exI [of _ "root_near 24 x"]) (simp add: sqrt32_def fl_sqrt_def fl32_def)
  next
    case False
    then have sq: "sq = sqrt64" using assms(1) by simp
    have "x / 2 ^ 53 \<le> x / 16777216" using assms(2) by (intro divide_left_mono) simp_all
    then show ?thesis
      using root_near_square [OF assms(2), of 53] rnd_close [of Double "root_near 53 x"] assms(2) sq
      by (intro exI [of _ "root_near 53 x"]) (simp add: sqrt64_def fl_sqrt_def fl64_def)
  qed
  then show ?thesis using that by blast
qed

lemma square_diff: "\<bar>a - b\<bar> \<le> e \<Longrightarrow> \<bar>b\<bar> \<le> m \<Longrightarrow> \<bar>a * a - b * b\<bar> \<le> e * (2 * m + e)" for a b :: rat
proof -
  assume a: "\<bar>a - b\<bar> \<le> e" and b: "\<bar>b\<bar> \<le> m"
  have "a * a - b * b = (a - b) * (a + b)" by (simp add: algebra_simps)
  then have "\<bar>a * a - b * b\<bar> = \<bar>a - b\<bar> * \<bar>a + b\<bar>" by (simp only: abs_mult)
  also have "\<dots> \<le> e * (2 * m + e)" using a b by (intro mult_mono) linarith+
  finally show ?thesis .
qed

lemma sqrt_square:
  assumes "sq \<in> {sqrt32, sqrt64}" and "0 \<le> x" and "x \<le> 2"
  shows "\<bar>rnd ty (sq x) * rnd ty (sq x) - x\<bar> \<le> 1 / 400000"
proof (cases "x = 0")
  case True
  have "sq 0 = 0" using assms(1) by (auto simp: sqrt32_def sqrt64_def fl_sqrt_def)
  moreover have "rnd ty 0 = 0" by (cases ty) (simp_all add: fl32_def fl64_def fl_def)
  ultimately show ?thesis using True by simp
next
  case False
  then obtain v where v: "0 < v" "\<bar>v * v - x\<bar> \<le> x / 16777216" "\<bar>sq x - v\<bar> \<le> v / 16777216 + tiny"
    using sqrt_near [OF assms(1), of x] assms(2) by auto
  have v2: "v \<le> 2"
  proof (rule ccontr)
    assume "\<not> v \<le> 2"
    then have "2 * 2 < v * v" by (intro mult_strict_mono) auto
    then show False using v(2) assms by linarith
  qed
  have w: "\<bar>rnd ty (sq x) - sq x\<bar> \<le> 3 / 16777216 + tiny" by (rule rnd_within) (use v v2 in linarith)
  have "\<bar>rnd ty (sq x) - v\<bar> \<le> 1 / 3000000" using w v(1,3) v2 by linarith
  have "\<bar>rnd ty (sq x) * rnd ty (sq x) - v * v\<bar> \<le> 1 / 3000000 * (2 * 2 + 1 / 3000000)"
    by (rule square_diff [OF \<open>\<bar>rnd ty (sq x) - v\<bar> \<le> 1 / 3000000\<close>]) (use v(1) v2 in simp)
  then have near: "\<bar>rnd ty (sq x) * rnd ty (sq x) - v * v\<bar> \<le> 1 / 700000" by simp
  have "\<bar>a - x\<bar> \<le> 1 / 400000" if "\<bar>a - b\<bar> \<le> 1 / 700000" "\<bar>b - x\<bar> \<le> x / 16777216" for a b :: rat
    using that assms(3) by linarith
  then show ?thesis using near v(2) by blast
qed

section \<open>Quaternions from a writer to a reader\<close>

text \<open>Where the integer of a part is not one of the sixteen that lose 240.\<close>

definition quat_gap :: "rat \<Rightarrow> bool" where
  "quat_gap x \<longleftrightarrow> 9 \<le> \<bar>\<bar>x\<bar> * 65535 - 248\<bar>"

lemma quat_word_int:
  assumes "\<bar>x\<bar> \<le> 1"
  obtains c where "quat_word x = Inr c" "of_nat (unat c) \<le> \<bar>x\<bar> * 65535 + 1 / 10000000000" "\<bar>x\<bar> * 65535 - 101 / 100 < of_nat (unat c)"
proof -
  have "\<bar>fl64 (\<bar>x\<bar> * 65535) - \<bar>x\<bar> * 65535\<bar> \<le> 65535 / 9007199254740992 + 1 / 2 ^ 200"
    by (rule fl64_close) (use assms in simp)
  moreover have "(1 :: rat) / 2 ^ 200 \<le> tiny" by simp
  ultimately have v: "\<bar>fl64 (\<bar>x\<bar> * 65535) - \<bar>x\<bar> * 65535\<bar> \<le> 1 / 100000000000" by linarith
  then have "fl64 (\<bar>x\<bar> * 65535) < 65536" using assms by linarith
  then obtain c :: u16 where c: "float_to_word (fl64 (\<bar>x\<bar> * 65535)) = Inr c" "of_nat (unat c) \<le> fl64 (\<bar>x\<bar> * 65535)"
    "fl64 (\<bar>x\<bar> * 65535) < of_nat (unat c) + 1"
    using float_to_word_ok [of "fl64 (\<bar>x\<bar> * 65535)", where 'a = 16] by auto
  show ?thesis by (rule that [of c]) (use c v in \<open>unfold quat_word_def, linarith+\<close>)
qed

lemma quat_part_close:
  "\<bar>quat_part ty neg c - (if neg then - (of_nat (unat c) / 65535) else of_nat (unat c) / 65535)\<bar> \<le> 1 / 8000000"
proof -
  define r :: rat where "r = of_nat (unat c) / 65535"
  obtain n where n: "unat c = n" "n < 65536" using unsigned_less [of c] by simp
  then have r: "0 \<le> r" "r \<le> 1" unfolding r_def n(1) by simp_all
  then have f: "\<bar>fl64 r - r\<bar> \<le> 1 / 16777216 + tiny" by (intro fl_within) simp
  have "\<bar>rnd ty (fl64 r) - fl64 r\<bar> \<le> (101 / 100) / 16777216 + tiny" by (rule rnd_within) (use f r in linarith)
  then have "\<bar>rnd ty (fl64 r) - r\<bar> \<le> 1 / 8000000" using f by linarith
  then show ?thesis unfolding quat_part_def r_def [symmetric] Let_def by (cases neg) (simp_all add: abs_minus_commute)
qed

lemma quat_values:
  assumes "\<bar>x\<bar> \<le> 1" and "quat_gap x"
  obtains c where "quat_word x = Inr c" "mini_value True c = c" "\<bar>quat_part ty (x < 0) c - x\<bar> \<le> 1 / 64000"
proof -
  obtain c where c: "quat_word x = Inr c" "of_nat (unat c) \<le> \<bar>x\<bar> * 65535 + 1 / 10000000000" "\<bar>x\<bar> * 65535 - 101 / 100 < of_nat (unat c)"
    using quat_word_int [OF assms(1)] by blast
  show ?thesis
  proof (rule that [OF c(1)])
    have "of_nat (unat c) < (240 :: rat) \<or> (255 :: rat) < of_nat (unat c)"
      using assms(2) c(2,3) unfolding quat_gap_def by linarith
    then have "unat c < 240 \<or> 255 < unat c" by linarith
    then show "mini_value True c = c" using mini_unsigned_lossless [of c] by auto
    have d: "of_nat (unat c) / 65535 = 1 / 65535 * (of_nat (unat c) :: rat)" by simp
    show "\<bar>quat_part ty (x < 0) c - x\<bar> \<le> 1 / 64000"
    proof (cases "x < 0")
      case True
      then have e: "(x < 0) = True" "\<bar>x\<bar> = - x" by simp_all
      show ?thesis using quat_part_close [of ty True c] c(2,3) unfolding d e if_True by linarith
    next
      case False
      then have e: "(x < 0) = False" "\<bar>x\<bar> = x" by simp_all
      show ?thesis using quat_part_close [of ty False c] c(2,3) unfolding d e if_False by linarith
    qed
  qed
qed

lemma part_square:
  assumes "\<bar>a - x\<bar> \<le> 1 / 64000" and "\<bar>x\<bar> \<le> 1"
  shows "\<bar>rnd ty (a * a) - x * x\<bar> \<le> 1 / 31800"
proof -
  have "\<bar>a * a - x * x\<bar> \<le> 1 / 64000 * (2 * 1 + 1 / 64000)" by (rule square_diff [OF assms])
  then have s: "\<bar>a * a - x * x\<bar> \<le> 1 / 31999" by simp
  have "\<bar>a\<bar> \<le> 101 / 100" using assms by linarith
  then have "\<bar>a * a\<bar> \<le> 101 / 100 * (101 / 100)" unfolding abs_mult by (intro mult_mono) auto
  then have "\<bar>a * a\<bar> \<le> 2" by simp
  from rnd_within [OF this, of ty] have r: "\<bar>rnd ty (a * a) - a * a\<bar> \<le> 2 / 16777216 + tiny" .
  have "\<bar>p - q\<bar> \<le> 1 / 31800" if "\<bar>m - q\<bar> \<le> 1 / 31999" "\<bar>p - m\<bar> \<le> 2 / 16777216 + tiny" for p q m :: rat
    using that by linarith
  then show ?thesis using s r by blast
qed

lemma rest_difference:
  assumes "\<bar>a - p\<bar> \<le> 1 / 31800" "\<bar>b - q\<bar> \<le> 1 / 31800" "\<bar>c - u\<bar> \<le> 1 / 31800"
    and "0 \<le> p" "p \<le> 1" "0 \<le> q" "q \<le> 1" "0 \<le> u" "u \<le> 1"
  shows "\<bar>fl32 (rnd ty (rnd ty (rnd ty (1 - a) - b) - c)) - (1 - p - q - u)\<bar> \<le> 1 / 10500"
proof -
  define d1 where "d1 = rnd ty (1 - a)"
  define d2 where "d2 = rnd ty (d1 - b)"
  define d3 where "d3 = rnd ty (d2 - c)"
  have e: "3 / 16777216 + tiny \<le> 1 / 5000000" by simp
  have "\<bar>d1 - (1 - a)\<bar> \<le> 3 / 16777216 + tiny" unfolding d1_def by (rule rnd_within) (use assms in linarith)
  then have 1: "\<bar>d1 - (1 - p)\<bar> \<le> 1 / 31800 + 1 / 5000000" using e assms(1) by linarith
  have "\<bar>d2 - (d1 - b)\<bar> \<le> 3 / 16777216 + tiny" unfolding d2_def by (rule rnd_within) (use 1 assms in linarith)
  then have 2: "\<bar>d2 - (1 - p - q)\<bar> \<le> 2 / 31800 + 2 / 5000000" using e 1 assms(2) by linarith
  have "\<bar>d3 - (d2 - c)\<bar> \<le> 3 / 16777216 + tiny" unfolding d3_def by (rule rnd_within) (use 2 assms in linarith)
  then have 3: "\<bar>d3 - (1 - p - q - u)\<bar> \<le> 3 / 31800 + 3 / 5000000" using e 2 assms(3) by linarith
  have "\<bar>fl32 d3 - d3\<bar> \<le> 3 / 16777216 + tiny" by (rule fl_within(1)) (use 3 assms in linarith)
  then show ?thesis unfolding d1_def [symmetric] d2_def [symmetric] d3_def [symmetric] using e 3 by linarith
qed

text \<open>The part that is not sent, from three that came back.\<close>

lemma quat_rest_close:
  fixes neg :: bool and ty :: float_type
  assumes "sq \<in> {sqrt32, sqrt64}" and "\<bar>a - x\<bar> \<le> 1 / 64000" "\<bar>b - y\<bar> \<le> 1 / 64000" "\<bar>c - z\<bar> \<le> 1 / 64000"
    and "\<bar>x\<bar> \<le> 1" "\<bar>y\<bar> \<le> 1" "\<bar>z\<bar> \<le> 1"
  defines "w \<equiv> quat_rest sq ty neg a b c"
  shows "\<bar>w * w - max 0 (1 - x * x - y * y - z * z)\<bar> \<le> 1 / 10000" "if neg then w \<le> 0 else 0 \<le> w"
proof -
  define d where "d = fl32 (rnd ty (rnd ty (rnd ty (1 - rnd ty (a * a)) - rnd ty (b * b)) - rnd ty (c * c)))"
  define m where "m = max 0 d"
  have sq: "0 \<le> v * v" "v * v \<le> 1" if "\<bar>v\<bar> \<le> 1" for v :: rat
    using that mult_mono [of "\<bar>v\<bar>" 1 "\<bar>v\<bar>" 1] by simp_all
  have d: "\<bar>d - (1 - x * x - y * y - z * z)\<bar> \<le> 1 / 10500"
    unfolding d_def by (intro rest_difference part_square assms sq)
  have m: "0 \<le> m" "\<bar>m - max 0 (1 - x * x - y * y - z * z)\<bar> \<le> 1 / 10500" "m \<le> 2"
  proof -
    have "\<bar>max 0 d - max 0 e\<bar> \<le> 1 / 10500" if "\<bar>d - e\<bar> \<le> 1 / 10500" for e
      using that by (cases "0 \<le> d"; cases "0 \<le> e") auto
    then show "\<bar>m - max 0 (1 - x * x - y * y - z * z)\<bar> \<le> 1 / 10500" using d by (simp add: m_def)
    have "d \<le> 2" using d sq(1) [OF assms(5)] sq(1) [OF assms(6)] sq(1) [OF assms(7)] by linarith
    then show "m \<le> 2" by (simp add: m_def)
  qed (simp add: m_def)
  have w: "w = (if neg then - rnd ty (sq m) else rnd ty (sq m))"
    by (simp add: w_def quat_rest_def Let_def d_def [symmetric] m_def max_def not_le)
  have r: "\<bar>rnd ty (sq m) * rnd ty (sq m) - m\<bar> \<le> 1 / 400000" by (rule sqrt_square [OF assms(1) m(1,3)])
  have "w * w = rnd ty (sq m) * rnd ty (sq m)" by (simp add: w)
  moreover have "\<bar>p - q\<bar> \<le> 1 / 10000" if "\<bar>p - m\<bar> \<le> 1 / 400000" "\<bar>m - q\<bar> \<le> 1 / 10500" for p q :: rat
    using that by linarith
  ultimately show "\<bar>w * w - max 0 (1 - x * x - y * y - z * z)\<bar> \<le> 1 / 10000" using r m(2) by simp
  show "if neg then w \<le> 0 else 0 \<le> w" using sqrt_nonneg [OF assms(1), of m] by (simp add: w)
qed

section \<open>A float written and read\<close>

lemma exponent_gt:
  assumes "0 < x"
  shows "x < 2 powi (exponent x + 1)"
proof -
  obtain a b where ab: "quotient_of x = (a, b)" by fastforce
  then have b: "b > 0" and x: "x = of_int a / of_int b" by (auto simp: quotient_of_denom_pos quotient_of_div)
  then have a: "a > 0" using assms by (simp add: zero_less_divide_iff)
  define m n where "m = floorlog 2 (nat a)" and "n = floorlog 2 (nat b)"
  have "nat a < 2 ^ m" "n \<noteq> 0" "2 ^ (n - 1) \<le> nat b"
    using floorlog_bounds [of "nat a" 2] floorlog_bounds [of "nat b" 2] a b
    by (auto simp: m_def n_def floorlog_eq_zero_iff)
  then have "a < 2 ^ m" "2 ^ (n - 1) \<le> b" using a b by (simp_all add: le_nat_iff nat_less_iff)
  then have "of_int a < (of_int (2 ^ m) :: rat)" "of_int (2 ^ (n - 1)) \<le> (of_int b :: rat)"
    unfolding of_int_le_iff of_int_less_iff .
  then have lo: "of_int a < (2 :: rat) ^ m" and hi: "(2 :: rat) ^ (n - 1) \<le> of_int b" by simp_all
  have "x < 2 ^ m / 2 ^ (n - 1)" unfolding x using lo hi a b by (intro frac_less) simp_all
  also have "\<dots> = 2 powi (int m - int n + 1)"
    using \<open>n \<noteq> 0\<close> by (simp add: power_int_diff power_int_add power_diff)
  finally show ?thesis by (simp add: exponent_def ab m_def n_def Let_def not_le)
qed

lemma two_powi_less: "(2 :: rat) powi a < 2 powi b \<Longrightarrow> a < b"
  using power_int_increasing [of b a "2 :: rat"] by (cases "a < b") auto

lemma pos_factor: "0 < of_int n * (2 :: rat) powi q \<Longrightarrow> 0 < n"
  using zero_less_mult_pos2 [of "of_int n" "2 powi q :: rat"] by simp

text \<open>The positive floats, and the form in which they are stored.\<close>

definition is_float :: "rat \<Rightarrow> bool" where
  "is_float a \<longleftrightarrow> (\<exists>n q. a = of_int n * 2 powi q \<and> 0 < n \<and> n \<le> 16777216 \<and> -149 \<le> q)"

lemma float_form:
  assumes "is_float a"
  defines "q \<equiv> max (exponent a - 23) (-149)"
  obtains n where "a = of_int n * 2 powi q" "0 < n" "n < 16777216" "-149 < q \<Longrightarrow> 8388608 \<le> n"
proof -
  let ?e = "exponent a"
  obtain m r where m: "a = of_int m * 2 powi r" "0 < m" "m \<le> 16777216" "-149 \<le> r" using assms(1) by (auto simp: is_float_def)
  have a: "0 < a" using m(1,2) by simp
  note lo = exponent_le [OF a] and hi = exponent_gt [OF a]
  have "\<exists>n. a = of_int n * 2 powi q"
  proof (cases "?e - 23 \<le> r")
    case True
    then have "q \<le> r" using m(4) by (simp add: q_def)
    then have "2 powi r = of_int (2 ^ nat (r - q)) * (2 :: rat) powi q" by (simp add: power_int_diff flip: power_int_of_nat)
    then show ?thesis using m(1) by (intro exI [of _ "m * 2 ^ nat (r - q)"]) (simp add: mult.assoc)
  next
    case False
    have "a \<le> of_int 16777216 * 2 powi r" unfolding m(1) using m(3) by (intro mult_right_mono) simp_all
    also have "\<dots> = 2 powi (r + 24)" by (simp add: power_int_add)
    finally have "(2 :: rat) powi ?e < 2 powi (r + 25)"
      using lo power_int_strict_increasing [of "r + 24" "r + 25" "2 :: rat"] by linarith
    then have e: "?e = r + 24" using two_powi_less [of ?e "r + 25"] False by simp
    then have "of_int 16777216 * 2 powi r \<le> of_int m * (2 :: rat) powi r" using lo m(1) by (simp add: power_int_add)
    then have "m = 16777216" using m(3) by simp
    then have "a = of_int 8388608 * 2 powi (r + 1)" using m(1) by (simp add: power_int_add)
    moreover have "q = r + 1" using e m(4) by (simp add: q_def)
    ultimately show ?thesis by blast
  qed
  then obtain n where n: "a = of_int n * 2 powi q" by blast
  show ?thesis
  proof (rule that [OF n])
    show "0 < n" by (rule pos_factor) (use a n in simp)
    have "(2 :: rat) powi (?e + 1) \<le> 2 powi (q + 24)" by (rule power_int_increasing) (simp_all add: q_def)
    then have "of_int n * 2 powi q < (2 :: rat) powi (q + 24)" using hi n by linarith
    then have "of_int n * 2 powi q < of_int 16777216 * (2 :: rat) powi q" by (simp add: power_int_add)
    then have "of_int n < (of_int 16777216 :: rat)" by (simp only: mult_less_cancel_right) auto
    then show "n < 16777216" unfolding of_int_less_iff .
    show "8388608 \<le> n" if "-149 < q"
    proof -
      have "q = ?e - 23" using that by (simp add: q_def max_def split: if_splits)
      then have "q + 23 = ?e" by simp
      then have "2 powi (q + 23) \<le> of_int n * (2 :: rat) powi q" using lo n by metis
      then have "of_int 8388608 * 2 powi q \<le> of_int n * (2 :: rat) powi q" by (simp add: power_int_add)
      then show ?thesis by simp
    qed
  qed
qed

text \<open>The bits of a float stand for it, with its sign.\<close>

lemma bits_float_bits:
  assumes "is_float a" and "a < 2 ^ 128" and "v = a \<or> v = - a"
  shows "bits_float (float_bits v) = v"
proof -
  define q where "q = max (exponent a - 23) (-149)"
  obtain n where n: "a = of_int n * 2 powi q" "0 < n" "n < 16777216" "-149 < q \<Longrightarrow> 8388608 \<le> n"
    using float_form [OF assms(1)] unfolding q_def by blast
  have a: "0 < a" using n(1,2) by simp
  have va: "\<bar>v\<bar> = a" "v \<noteq> 0" using assms(3) a by auto
  have "(2 :: rat) powi exponent a < 2 powi 128"
    using exponent_le [OF a] assms(2) by simp
  then have q: "-149 \<le> q" "q \<le> 104" using two_powi_less [of "exponent a" 128] by (simp_all add: q_def)
  define j where "j = (if n < 8388608 then n else (q + 150) * 8388608 + (n - 8388608))"
  define i where "i = (if v < 0 then 2147483648 else 0) + j"
  have fl: "\<lfloor>a / 2 powi q\<rfloor> = n" using n(1) by simp
  have bits: "float_bits v = of_int i" unfolding float_bits_def Let_def va q_def [symmetric] fl i_def j_def using va(2) by simp
  have j: "0 \<le> j" "j < 2139095040" using n(2,3) q by (auto simp: j_def)
  have "0 \<le> i" "i < 2 ^ LENGTH(32)" using j by (auto simp: i_def)
  then have i: "uint (of_int i :: u32) = i" unfolding uint_word_of_int by (rule mod_pos_pos_trivial)
  have parts: "i div 8388608 mod 256 = j div 8388608" "i mod 8388608 = j mod 8388608" "i \<ge> 2147483648 \<longleftrightarrow> v < 0"
  proof -
    have "j div 8388608 < 256" "0 \<le> j div 8388608" using j by simp_all
    moreover have "2147483648 + j = j + 256 * 8388608" by simp
    then have "(2147483648 + j) div 8388608 = j div 8388608 + 256" by (simp only: div_mult_self1)
    ultimately show "i div 8388608 mod 256 = j div 8388608" by (simp add: i_def)
    show "i mod 8388608 = j mod 8388608" using mod_mult_self1 [of j 256 8388608] by (simp add: i_def add.commute)
    show "i \<ge> 2147483648 \<longleftrightarrow> v < 0" using j by (auto simp: i_def)
  qed
  have val: "(if j div 8388608 = 0 then of_int (j mod 8388608) * 2 powi (-149)
      else of_int (8388608 + j mod 8388608) * 2 powi (j div 8388608 - 150)) = a"
  proof (cases "n < 8388608")
    case True
    then have "q = -149" using n(4) q by linarith
    then show ?thesis using True n(1,2) by (simp add: j_def)
  next
    case False
    then have jd: "j = (n - 8388608) + (q + 150) * 8388608" by (simp add: j_def)
    have r: "0 \<le> n - 8388608" "n - 8388608 < 8388608" using False n(3) by simp_all
    have "j div 8388608 = q + 150" "j mod 8388608 = n - 8388608"
      using div_mult_self1 [of 8388608 "n - 8388608" "q + 150"] mod_mult_self1 [of "n - 8388608" "q + 150" 8388608]
      unfolding jd div_pos_pos_trivial [OF r] mod_pos_pos_trivial [OF r] by simp_all
    then show ?thesis using q n(1) by simp
  qed
  have "bits_float (of_int i) = (if v < 0 then - a else a)" unfolding bits_float_def Let_def i parts val ..
  then show ?thesis unfolding bits using assms(3) a by auto
qed

text \<open>What is rounded to a \<^verbatim>\<open>float\<close> is one.\<close>

lemma fl32_is_float:
  assumes "0 < fl32 x"
  shows "is_float (fl32 x)"
proof -
  define q where "q = max (exponent \<bar>x\<bar> - 23) (-149)"
  have x: "x \<noteq> 0" using assms by (auto simp: fl32_def fl_def)
  then have f: "fl32 x = of_int (round_even (x / 2 powi q)) * 2 powi q"
    by (simp add: fl32_def fl_def q_def Let_def)
  have pos: "0 < round_even (x / 2 powi q)" by (rule pos_factor) (use assms f in simp)
  have "\<bar>x\<bar> < 2 powi (exponent \<bar>x\<bar> + 1)" by (rule exponent_gt) (use x in simp)
  also have "\<dots> \<le> 2 powi (q + 24)" by (rule power_int_increasing) (auto simp: q_def)
  finally have "x / 2 powi q < 16777216" by (simp add: power_int_add divide_less_eq)
  then have "\<lfloor>x / 2 powi q\<rfloor> < 16777216" by (simp add: floor_less_iff)
  then have "round_even (x / 2 powi q) \<le> 16777216" by (simp add: round_even_def Let_def)
  then show ?thesis using f pos unfolding is_float_def q_def by (intro exI conjI) auto
qed

lemma emits_Write_float: "emits (Write_float False v) (net_bits (float_bits v))"
  unfolding Write_float_def by (rule emits_Write_int) simp

lemma takes_Read_float:
  assumes "is_float a" and "a < 2 ^ 128"
  shows "takes (Read_float False) (net_bits (float_bits a)) a"
  using takes_map [where f = bits_float, OF takes_Read_int [of "float_bits a" False]] bits_float_bits [OF assms]
  by (simp add: Read_float_def [abs_def])

lemma fl32_float:
  assumes "is_float a"
  shows "fl32 a = a"
proof -
  define q where "q = max (exponent a - 23) (-149)"
  obtain n where n: "a = of_int n * 2 powi q" "0 < n" using float_form [OF assms] unfolding q_def by blast
  have a: "0 < a" using n by simp
  have "a / 2 powi q = of_int n" using n(1) by simp
  then have "round_even (a / 2 powi q) = n" by (simp add: round_even_def)
  then have "fl32 a = of_int n * 2 powi q" using a by (simp add: fl32_def fl_def q_def [symmetric])
  then show ?thesis using n(1) by simp
qed

section \<open>The length of a vector of floats\<close>

definition vector_length :: "(rat \<Rightarrow> rat) \<Rightarrow> rat \<Rightarrow> rat \<Rightarrow> rat \<Rightarrow> rat" where
  "vector_length sq x y z = fl32 (sq (fl32 (fl32 (fl32 (x * x) + fl32 (y * y)) + fl32 (z * z))))"

lemma sum_of_squares_close:
  assumes "0 \<le> a" "0 \<le> b" "0 \<le> c" and "1 / 1000000000 \<le> a + b + c"
  shows "\<bar>fl32 (fl32 (fl32 a + fl32 b) + fl32 c) - (a + b + c)\<bar> \<le> (a + b + c) / 5000000"
proof -
  note close = rnd_close [of Float, unfolded rnd.simps]
  have 1: "\<bar>fl32 a - a\<bar> \<le> a / 16777216 + tiny" "\<bar>fl32 b - b\<bar> \<le> b / 16777216 + tiny" "\<bar>fl32 c - c\<bar> \<le> c / 16777216 + tiny"
    using close [of a] close [of b] close [of c] assms by simp_all
  define d where "d = fl32 (fl32 a + fl32 b)"
  have "0 \<le> fl32 a + fl32 b" using assms by simp
  then have 2: "\<bar>d - (fl32 a + fl32 b)\<bar> \<le> (fl32 a + fl32 b) / 16777216 + tiny"
    using close [of "fl32 a + fl32 b"] by (simp add: d_def)
  have ab: "\<bar>d - (a + b)\<bar> \<le> (a + b) / 8300000 + 4 * tiny" using 1(1,2) 2 assms(1,2) unfolding add_divide_distrib by linarith
  have d0: "0 \<le> d" using assms by (simp add: d_def)
  then have 3: "\<bar>fl32 (d + fl32 c) - (d + fl32 c)\<bar> \<le> (d + fl32 c) / 16777216 + tiny"
    using close [of "d + fl32 c"] assms by simp
  show ?thesis using ab 1(3) 3 assms unfolding d_def [symmetric] add_divide_distrib by linarith
qed

lemma less_of_squares: "a * a < b * b \<Longrightarrow> 0 \<le> b \<Longrightarrow> a < b" for a b :: rat
  using mult_mono [of b a b a] by (cases "a < b") auto

text \<open>The square of the length is that of the vector, but for what rounding costs.\<close>

lemma vector_length_close:
  assumes "sq \<in> {sqrt32, sqrt64}" and "1 / 1000000000 \<le> x * x + y * y + z * z"
  defines "S \<equiv> x * x + y * y + z * z" and "m \<equiv> vector_length sq x y z"
  shows "0 < m" "\<bar>m * m - S\<bar> \<le> S / 1800000"
proof -
  define s where "s = fl32 (fl32 (fl32 (x * x) + fl32 (y * y)) + fl32 (z * z))"
  have S: "1 / 1000000000 \<le> S" using assms(2) by (simp add: S_def)
  have s: "\<bar>s - S\<bar> \<le> S / 5000000" unfolding s_def S_def by (intro sum_of_squares_close assms(2)) simp_all
  then have "0 < s" using S by linarith
  then obtain v where v: "0 < v" "\<bar>v * v - s\<bar> \<le> s / 16777216" "\<bar>sq s - v\<bar> \<le> v / 16777216 + tiny"
    using sqrt_near [OF assms(1)] by metis
  define w where "w = v * v"
  have w: "\<bar>w - S\<bar> \<le> S / 3500000" using s v(2) S unfolding w_def [symmetric] by linarith
  have "1 / 100000 < v"
  proof (rule less_of_squares)
    have "1 / 10000000000 < w" using w S by linarith
    then show "1 / 100000 * (1 / 100000) < v * v" by (simp add: w_def)
  qed (use v(1) in simp)
  moreover have "\<bar>m - sq s\<bar> \<le> \<bar>sq s\<bar> / 16777216 + tiny"
    using rnd_close [of Float "sq s"] by (simp add: m_def vector_length_def s_def)
  ultimately have m: "\<bar>m - v\<bar> \<le> v / 8000000" using v(3) by linarith
  then show "0 < m" using v(1) by linarith
  have "\<bar>m * m - v * v\<bar> \<le> v / 8000000 * (2 * v + v / 8000000)" by (rule square_diff [OF m]) (use v(1) in simp)
  also have "\<dots> = 16000001 / 64000000000000 * w" by (simp add: w_def field_simps)
  finally have "\<bar>m * m - w\<bar> \<le> w / 3999000" using w S unfolding w_def [symmetric] by linarith
  then show "\<bar>m * m - S\<bar> \<le> S / 1800000" using w S by linarith
qed

text \<open>No part is longer than the vector, and the length is not more than what is longer than it.\<close>

lemma vector_part_bounds:
  fixes m :: rat
  assumes "\<bar>m * m - S\<bar> \<le> S / 1800000" and "0 < m" and "x * x \<le> S" and "0 \<le> x \<or> x * x \<le> 98 / 100 * S"
  shows "\<bar>x\<bar> \<le> m * (1 + 1 / 1000000)" "- (99 / 100 * m) \<le> x"
proof -
  have mm: "0 < m * m" using assms(2) by simp
  have "S \<le> M + M / 1500000 \<and> 0 < S" if "\<bar>M - S\<bar> \<le> S / 1800000" "0 < M" for M using that by linarith
  from this [OF assms(1) mm] have S: "S \<le> m * m * (1 + 1 / 1500000)" "0 < S" by (simp_all add: distrib_left)
  have "\<bar>x\<bar> * \<bar>x\<bar> < m * (1 + 1 / 1000000) * (m * (1 + 1 / 1000000))"
  proof -
    have "m * (1 + 1 / 1000000) * (m * (1 + 1 / 1000000)) = m * m * ((1 + 1 / 1000000) * (1 + 1 / 1000000))" by simp
    moreover have "m * m * (1 + 1 / 1500000) < m * m * ((1 + 1 / 1000000) * (1 + 1 / 1000000))"
      using mm by (intro mult_strict_left_mono) simp_all
    ultimately show ?thesis using assms(3) S(1) by simp
  qed
  then have "\<bar>x\<bar> < m * (1 + 1 / 1000000)" by (rule less_of_squares) (use assms(2) in simp)
  then show "\<bar>x\<bar> \<le> m * (1 + 1 / 1000000)" by (rule less_imp_le)
  show "- (99 / 100 * m) \<le> x"
  proof (cases "0 \<le> x")
    case False
    then have "x * x \<le> 98 / 100 * (m * m * (1 + 1 / 1500000))" using assms(4) S(1) by linarith
    also have "\<dots> < 99 / 100 * m * (99 / 100 * m)" using mm by simp
    finally have "- x < 99 / 100 * m" using less_of_squares [of "- x" "99 / 100 * m"] assms(2) by simp
    then show ?thesis by linarith
  qed (use assms(2) in \<open>simp add: order_trans [of _ 0]\<close>)
qed

lemma vector_length_le:
  fixes m :: rat
  assumes "\<bar>m * m - S\<bar> \<le> S / 1800000" and "S \<le> l * l" and "0 < l" and "0 \<le> S"
  shows "m \<le> l * (1 + 1 / 1000000)"
proof -
  have ll: "0 < l * l" using assms(3) by simp
  have "M \<le> S + S / 1800000" if "\<bar>M - S\<bar> \<le> S / 1800000" for M using that by linarith
  from this [OF assms(1)] have "m * m \<le> S * (1 + 1 / 1800000)" by (simp add: distrib_left)
  also have "\<dots> \<le> l * l * (1 + 1 / 1800000)" using assms(2) by (intro mult_right_mono) simp_all
  also have "\<dots> < l * l * ((1 + 1 / 1000000) * (1 + 1 / 1000000))" using ll by (intro mult_strict_left_mono) simp_all
  also have "\<dots> = l * (1 + 1 / 1000000) * (l * (1 + 1 / 1000000))" by simp
  finally have "m < l * (1 + 1 / 1000000)" by (rule less_of_squares) (use assms(3) in simp)
  then show ?thesis by (rule less_imp_le)
qed

end
