(* ===== verification/Vector_Properties.thy ===== *)
theory Vector_Properties
  imports Bit_Vectors Float_Properties
begin

text \<open>Properties of quaternions and vectors with a length on the bit stream.\<close>

section \<open>Quaternions\<close>

lemma emits_quat:
  assumes "quat_word x = Inr cx" and "quat_word y = Inr cy" and "quat_word z = Inr cz"
  shows "emits (write_normal_quat False (w, x, y, z))
    ([w < 0] @ [x < 0] @ [y < 0] @ [z < 0] @ mini_wire True cx @ mini_wire True cy @ mini_wire True cz)"
proof -
  have "write_normal_quat False (w, x, y, z) =
      (\<lambda>s. rbind (Write_bool (w < 0) s) (\<lambda>s. rbind (Write_bool (x < 0) s) (\<lambda>s. rbind (Write_bool (y < 0) s) (\<lambda>s.
         rbind (Write_bool (z < 0) s) (\<lambda>s. rbind (Write_mini_int False True cx s) (\<lambda>s.
         rbind (Write_mini_int False True cy s) (Write_mini_int False True cz)))))))"
    by (simp add: write_normal_quat_def assms)
  then show ?thesis by (simp only:) (intro emits_bind emits_Write_bool emits_Write_mini_int byte_types)
qed

lemma takes_quat:
  assumes "mini_value True cx = cx" and "mini_value True cy = cy" and "mini_value True cz = cz"
  shows "takes (ReadNormQuat sq ty False junk)
    ([w] @ [x] @ [y] @ [z] @ mini_wire True cx @ mini_wire True cy @ mini_wire True cz)
    (let p = quat_part ty x cx; q = quat_part ty y cy; u = quat_part ty z cz in (quat_rest sq ty w p q u, p, q, u))"
proof -
  have m: "takes (Read_mini_int False True j) (mini_wire True c) c" if "mini_value True c = c" for c j :: u16
    using takes_Read_mini_int [of c True j] that by simp
  show ?thesis
    unfolding ReadNormQuat_def [abs_def] Let_def
    by (intro takes_bind [OF takes_Read_bool] takes_bind [OF m [OF assms(1)]] takes_bind [OF m [OF assms(2)]]
        takes_map [OF m [OF assms(3)]])
qed

text \<open>
  C39: A quaternion is read back with an error of at most 1 / 64000 in each of the parts that are sent, if none of them
  lies in the gap of the compressed integers. The square of the part that is left out differs from what the others leave
  of 1 by at most 1 / 10000, and its sign is the one it was written with.
\<close>

theorem normal_quat_close:
  assumes "\<forall>v \<in> {x, y, z}. \<bar>v\<bar> \<le> 1 \<and> quat_gap v" and "sq \<in> {sqrt32, sqrt64}"
    and "writable s 58" and "readable_bit_pos s = writable_bit_pos s"
  shows "\<exists>s' s'' w' x' y' z'. write_normal_quat False (w, x, y, z) s = Inr s' \<and>
    ReadNormQuat sq ty False junk s' = Inr ((w', x', y', z'), s'') \<and> get_payloads s'' = 0 \<and>
    \<bar>x' - x\<bar> \<le> 1 / 64000 \<and> \<bar>y' - y\<bar> \<le> 1 / 64000 \<and> \<bar>z' - z\<bar> \<le> 1 / 64000 \<and>
    \<bar>w' * w' - max 0 (1 - x * x - y * y - z * z)\<bar> \<le> 1 / 10000 \<and> (if w < 0 then w' \<le> 0 else 0 \<le> w')"
proof -
  obtain cx where x: "quat_word x = Inr cx" "mini_value True cx = cx" "\<bar>quat_part ty (x < 0) cx - x\<bar> \<le> 1 / 64000"
    using quat_values [of x ty] assms(1) by auto
  obtain cy where y: "quat_word y = Inr cy" "mini_value True cy = cy" "\<bar>quat_part ty (y < 0) cy - y\<bar> \<le> 1 / 64000"
    using quat_values [of y ty] assms(1) by auto
  obtain cz where z: "quat_word z = Inr cz" "mini_value True cz = cz" "\<bar>quat_part ty (z < 0) cz - z\<bar> \<le> 1 / 64000"
    using quat_values [of z ty] assms(1) by auto
  let ?b = "[w < 0] @ [x < 0] @ [y < 0] @ [z < 0] @ mini_wire True cx @ mini_wire True cy @ mini_wire True cz"
  have len: "length ?b \<le> 58"
    using length_mini_wire [of cx True] length_mini_wire [of cy True] length_mini_wire [of cz True] by simp
  have one: "\<bar>x\<bar> \<le> 1" "\<bar>y\<bar> \<le> 1" "\<bar>z\<bar> \<le> 1" using assms(1) by auto
  note rest = quat_rest_close [OF assms(2) x(3) y(3) z(3) one, where ty = ty and neg = "w < 0"]
  show ?thesis
    using written_is_read [OF emits_quat [OF x(1) y(1) z(1)] takes_quat [OF x(2) y(2) z(2)] assms(3) len assms(4)]
      rest x(3) y(3) z(3) unfolding Let_def by blast
qed

theorem normal_quat_close_witness:
  "\<exists>s' s'' w' x' y' z'. write_normal_quat False (-1 / 2, 1 / 2, 1 / 2, 1 / 2) fresh_stream = Inr s' \<and>
    ReadNormQuat sqrt32 Float False (\<lambda>_. 0) s' = Inr ((w', x', y', z'), s'') \<and> \<bar>x' - 1 / 2\<bar> \<le> 1 / 64000 \<and>
    \<bar>w' * w' - 1 / 4\<bar> \<le> 1 / 10000 \<and> w' \<le> 0"
  using normal_quat_close [of "1 / 2" "1 / 2" "1 / 2" sqrt32 fresh_stream "-1 / 2" Float "\<lambda>_. 0"]
  by (auto simp: fresh_writable quat_gap_def)

section \<open>Vectors with a length\<close>





end
