(* ===== verification/Application_Life.thy ===== *)
theory Application_Life
  imports Startup
begin

text \<open>
  The life of the application object (\<^verbatim>\<open>src/geco_application.cpp\<close>, \<^verbatim>\<open>include/geco_application.h\<close>): its constructor, the
  bodies of the threads, what is done to stop them, and the emptying of the queues, which nothing calls yet. What
  another thread changes meanwhile is an argument: in round \<open>i\<close> of a loop, \<open>ended i\<close> is \<^verbatim>\<open>endThreads\<close>,
  \<open>running i\<close> is whether a receiving thread still runs, and \<open>now i\<close> is the clock.
\<close>

section \<open>The constructor\<close>

text \<open>
  What the constructor leaves unset, the random generators among it, are arguments. Fields it sets that nothing modelled
  here reads (limits, statistics, handlers) are not in the state.
\<close>

definition network_application :: "start_world \<Rightarrow> u8 \<Rightarrow> bool \<Rightarrow> mt \<Rightarrow> mt \<Rightarrow> (nat \<Rightarrow> connection_request) \<Rightarrow>
    (nat \<Rightarrow> network_address) \<Rightarrow> (nat \<Rightarrow> banned) \<Rightarrow> node" where
  "network_application W msg unconnected rng glob junk_r junk_a junk_b =
     (let t = \<lparr>maxConnections = 0, remoteSystemList = [], activeSystemList = [], activeSystemListSize = 0,
               remoteSystemLookup = [], myGuid = JACKIE_NULL_GUID,
               localIPAddrs = replicate MAX_COUNT_LOCAL_IP_ADDR JACKIE_NULL_ADDRESS,
               firstExternalID = JACKIE_NULL_ADDRESS, limitConnFrequencyOfSameClient = False,
               defaultMTUSize = int (mtuSizes ! (mtuSizesCount - 1)), endThreads = True\<rparr>;
          a = \<lparr>eps = t, connReqQ = queue_new junk_r, connReqQLock = 0, connReqCancelQ = queue_new junk_a,
               connReqCancelQLock = 0, allocPacketQ = [], sent = [], calls = [], pluginListNTS_Size = 0,
               banList = list_new junk_b, msgid = msg, secureIncomingConnectionEnabled = False,
               isUnconnectedRecvPrrams = unconnected\<rparr>
      in GenerateGUID W
           \<lparr>node_engine = start_engine 0 a, bindedSockets = [], socket_object = Map.empty, next_object = 0,
            socket_user_index = (\<lambda>_. 0), maxIncomingConnections = 0, rnr = rng, glob_mt = glob\<rparr>)"

lemma network_application_new:
  fixes W msg unc r gl q a b
  defines "n \<equiv> network_application W msg unc r gl q a b"
  shows "engine_ok 0 (node_engine n)" "maxConnections (node_eps n) = 0" "activeSystemListSize (node_eps n) = 0"
    "\<not> active (node_eps n)" "bindedSockets n = []" "localIPAddrs (node_eps n) = replicate MAX_COUNT_LOCAL_IP_ADDR JACKIE_NULL_ADDRESS"
    "g (myGuid (node_eps n)) = CreateUniqueRandness (st_be W) (st_clock W)"
  by (simp_all add: n_def network_application_def GenerateGUID_def engine_ok_def sound_def start_engine_def active_def
      q_ok_def queue_new_def l_ok_def list_new_def Let_def)

section \<open>The threads\<close>

text \<open>The flags the threads set, as the thread that runs changes them.\<close>

record thread_flags =
  isNetworkUpdateThreadActive :: bool
  isRecvPollingThreadActive :: int

fun recv_rounds :: "nat \<Rightarrow> nat \<Rightarrow> (nat \<Rightarrow> bool) \<Rightarrow> nat \<Rightarrow> berkley_socket \<Rightarrow> (nat \<Rightarrow> recv_params) \<Rightarrow> nat \<Rightarrow>
    kernel \<Rightarrow> engine \<Rightarrow> (kernel \<times> engine) res" where
  "recv_rounds 0 fuel ended i sock raw index K e = Inl OutOfFuel"
| "recv_rounds (Suc n) fuel ended i sock raw index K e =
     (if \<not> ended i
      then rbind (RunRecvCycleOnce fuel sock (raw i) index K e) (\<lambda>(K, e).
             recv_rounds n fuel ended (i + 1) sock raw index K e)
      else Inr (K, e))"

definition RunRecvCycleLoop :: "nat \<Rightarrow> nat \<Rightarrow> (nat \<Rightarrow> bool) \<Rightarrow> berkley_socket \<Rightarrow> (nat \<Rightarrow> recv_params) \<Rightarrow> nat \<Rightarrow>
    kernel \<Rightarrow> engine \<Rightarrow> thread_flags \<Rightarrow> (kernel \<times> engine \<times> thread_flags) res" where
  "RunRecvCycleLoop n fuel ended sock raw index K e T =
     (let T = T\<lparr>isRecvPollingThreadActive := isRecvPollingThreadActive T + 1\<rparr>
      in rbind (recv_rounds n fuel ended 0 sock raw index K e) (\<lambda>(K, e).
           Inr (K, e, T\<lparr>isRecvPollingThreadActive := isRecvPollingThreadActive T - 1\<rparr>)))"

fun update_rounds ::
  "nat \<Rightarrow> (nat \<Rightarrow> bool) \<Rightarrow> nat \<Rightarrow> (nat \<Rightarrow> world) \<Rightarrow> cmd \<Rightarrow> network_address \<Rightarrow> engine \<Rightarrow> engine res" where
  "update_rounds 0 ended i w raw addr e = Inl OutOfFuel"
| "update_rounds (Suc n) ended i w raw addr e =
     (if \<not> ended i
      then rbind (RunNetworkUpdateCycleOnce (w i) raw addr e) (update_rounds n ended (i + 1) w raw addr)
      else Inr e)"

definition RunNetworkUpdateCycleLoop :: "nat \<Rightarrow> (nat \<Rightarrow> bool) \<Rightarrow> (nat \<Rightarrow> world) \<Rightarrow> cmd \<Rightarrow> network_address \<Rightarrow> engine \<Rightarrow>
    thread_flags \<Rightarrow> (engine \<times> thread_flags) res" where
  "RunNetworkUpdateCycleLoop n ended w raw addr e T =
     (let T = T\<lparr>isNetworkUpdateThreadActive := True\<rparr>
      in rbind (update_rounds n ended 0 w raw addr e) (\<lambda>e. Inr (e, T\<lparr>isNetworkUpdateThreadActive := False\<rparr>)))"

text \<open>A receiving thread that comes to its end did steps of the engine only, and the count of the threads is as before.\<close>

lemma recv_rounds_steps:
  "recv_rounds n fuel ended i sock raw index K e = Inr (K', e') \<Longrightarrow> engine_steps m e e'"
proof (induction n arbitrary: i K e)
  case (Suc n)
  show ?case
  proof (cases "ended i")
    case False
    then obtain K1 e1 where once: "RunRecvCycleOnce fuel sock (raw i) index K e = Inr (K1, e1)"
      and rest: "recv_rounds n fuel ended (i + 1) sock raw index K1 e1 = Inr (K', e')"
      using Suc.prems by (auto simp: rbind_eq_Inr)
    have "engine_step m e e1" using once by (rule engine_step.receives)
    then show ?thesis using Suc.IH [OF rest] by (rule converse_rtranclp_into_rtranclp)
  qed (use Suc.prems in simp)
qed simp

lemma RunRecvCycleLoop_steps:
  "RunRecvCycleLoop n fuel ended sock raw index K e T = Inr (K', e', T') \<Longrightarrow> engine_steps m e e' \<and> T' = T"
  by (auto simp: RunRecvCycleLoop_def Let_def rbind_eq_Inr intro: recv_rounds_steps)

section \<open>Stopping\<close>

text \<open>The datagram a blocking socket sends to itself, with the zero at its end.\<close>

definition stop_message :: "berkley_socket \<Rightarrow> send_params" where
  "stop_message sock =
     \<lparr>sp_data = map of_char ''This is used to Stop Recv Thread'' @ [0], sp_bytesWritten = 0,
      receiverINetAddress = sock_boundAddress sock, sp_ttl = 0\<rparr>"

fun wake_rounds :: "nat \<Rightarrow> nat \<Rightarrow> (nat \<Rightarrow> bool) \<Rightarrow> (nat \<Rightarrow> u32) \<Rightarrow> u32 \<Rightarrow> nat \<Rightarrow> berkley_socket \<Rightarrow> send_params \<Rightarrow> kernel \<Rightarrow>
    kernel res" where
  "wake_rounds 0 fuel running now timeout i sock sp K = Inl OutOfFuel"
| "wake_rounds (Suc n) fuel running now timeout i sock sp K =
     (if running i \<and> now i < timeout
      then rbind (Socket_Send fuel sock sp K) (\<lambda>(_, sp, K). wake_rounds n fuel running now timeout (i + 1) sock sp K)
      else Inr K)"

definition stop_socket :: "nat \<Rightarrow> nat \<Rightarrow> (nat \<Rightarrow> bool) \<Rightarrow> (nat \<Rightarrow> u32) \<Rightarrow> berkley_socket \<Rightarrow> kernel \<Rightarrow> kernel res" where
  "stop_socket n fuel running now sock K =
     (if isNonBlocking (binding sock) = USE_BLOBKING_SOCKET then
        rbind (Socket_Send fuel sock (stop_message sock) K) (\<lambda>(_, sp, K).
          wake_rounds n fuel running now (now 0 + 1000) 1 sock sp K)
      else Inr K)"

fun stop_sockets :: "nat \<Rightarrow> nat \<Rightarrow> (nat \<Rightarrow> nat \<Rightarrow> bool) \<Rightarrow> (nat \<Rightarrow> nat \<Rightarrow> u32) \<Rightarrow> nat list \<Rightarrow> node \<Rightarrow> kernel \<Rightarrow> kernel res" where
  "stop_sockets n fuel running now [] N K = Inr K"
| "stop_sockets n fuel running now (i # is) N K =
     (case socket_object N i of
        None \<Rightarrow> Inl OutOfBounds
      | Some sock \<Rightarrow> rbind (stop_socket n fuel (running i) (now i) sock K) (stop_sockets n fuel running now is N))"

definition stop_recv_thread ::
  "nat \<Rightarrow> nat \<Rightarrow> (nat \<Rightarrow> nat \<Rightarrow> bool) \<Rightarrow> (nat \<Rightarrow> nat \<Rightarrow> u32) \<Rightarrow> node \<Rightarrow> kernel \<Rightarrow> (node \<times> kernel) res" where
  "stop_recv_thread n fuel running now N K =
     (let N = set_eps ((node_eps N)\<lparr>endThreads := True\<rparr>) N
      in rbind (stop_sockets n fuel running now (bindedSockets N) N K) (\<lambda>K. Inr (N, K)))"

definition stop_network_update_thread :: "node \<Rightarrow> thread_flags \<Rightarrow> node \<times> thread_flags" where
  "stop_network_update_thread N T =
     (set_eps ((node_eps N)\<lparr>endThreads := True\<rparr>) N, T\<lparr>isNetworkUpdateThreadActive := False\<rparr>)"

text \<open>
  The waiting for a receiving thread ends as soon as the thread has or the clock is past the timeout, provided the
  system takes the datagrams.
\<close>

lemma wake_rounds_end:
  assumes send: "\<And>sp K. sp_data sp = d \<Longrightarrow> \<exists>r sp' K'. Socket_Send fuel sock sp K = Inr (r, sp', K') \<and> sp_data sp' = d"
    and last: "\<not> (running j \<and> now j < timeout)"
  shows "i \<le> j \<Longrightarrow> j - i < n \<Longrightarrow> sp_data sp = d \<Longrightarrow> \<exists>K'. wake_rounds n fuel running now timeout i sock sp K = Inr K'"
proof (induction n arbitrary: i sp K)
  case (Suc n)
  show ?case
  proof (cases "running i \<and> now i < timeout")
    case True
    then have "i \<noteq> j" using last by auto
    obtain r sp' K' where s: "Socket_Send fuel sock sp K = Inr (r, sp', K')" "sp_data sp' = d" using send Suc.prems(3) by blast
    have "\<exists>K''. wake_rounds n fuel running now timeout (i + 1) sock sp' K' = Inr K''"
      by (rule Suc.IH) (use Suc.prems \<open>i \<noteq> j\<close> s(2) in auto)
    then show ?thesis using s(1) True by simp
  qed auto
qed simp

section \<open>Emptying the queues\<close>

text \<open>
  The first result is the data that is freed. The queues and the pool are cleared at the end. The data of a buffer is
  part of its value, so freeing it is its reclaiming.
\<close>

definition ClearAllCommandQs :: "engine \<Rightarrow> (command_data list \<times> engine) res" where
  "ClearAllCommandQs e =
     rbind (drain_queue list_pop length (allocCommandQ e)) (\<lambda>(cs, _).
     rbind (drain_queue list_pop length (deAllocCommandQ e)) (\<lambda>(ds, _).
       Inr (List.map_filter cmd_data (cs @ ds),
            e\<lparr>allocCommandQ := [], deAllocCommandQ := [], reclaimed_commands := reclaimed_commands e @ cs @ ds\<rparr>)))"

definition clear_recv_queues :: "nat \<Rightarrow> engine \<Rightarrow> engine res" where
  "clear_recv_queues index e =
     rbind (get_at (allocRecvParamQ e) index) (\<lambda>q.
     rbind (drain_queue list_pop length q) (\<lambda>(xs, _).
     rbind (get_at (deAllocRecvParamQ e) index) (\<lambda>q.
     rbind (drain_queue list_pop length q) (\<lambda>(ys, _).
       Inr (e\<lparr>allocRecvParamQ := (allocRecvParamQ e)[index := []], deAllocRecvParamQ := (deAllocRecvParamQ e)[index := []],
              reclaimed_buffers := reclaimed_buffers e @ map (Pair index) (xs @ ys)\<rparr>)))))"

fun clear_recv_loop :: "nat list \<Rightarrow> engine \<Rightarrow> engine res" where
  "clear_recv_loop [] e = Inr e"
| "clear_recv_loop (index # is) e = rbind (clear_recv_queues index e) (clear_recv_loop is)"

definition ClearAllRecvParamsQs :: "node \<Rightarrow> node res" where
  "ClearAllRecvParamsQs N =
     rbind (clear_recv_loop [0..<length (bindedSockets N)] (node_engine N)) (\<lambda>e. Inr (N\<lparr>node_engine := e\<rparr>))"

text \<open>Of the data of the commands that wait, half is freed; the rest of it nobody has a pointer to any more.\<close>

lemma ClearAllCommandQs_half:
  "\<exists>e'. ClearAllCommandQs e = Inr (List.map_filter cmd_data (first_half (allocCommandQ e) @ first_half (deAllocCommandQ e)), e')
     \<and> allocCommandQ e' = [] \<and> deAllocCommandQ e' = []"
  by (simp add: ClearAllCommandQs_def drain_list)

lemma clear_recv_queues_half:
  assumes "index < length (allocRecvParamQ e)" and "index < length (deAllocRecvParamQ e)"
  shows "clear_recv_queues index e = Inr (e\<lparr>allocRecvParamQ := (allocRecvParamQ e)[index := []],
    deAllocRecvParamQ := (deAllocRecvParamQ e)[index := []], reclaimed_buffers := reclaimed_buffers e @
      map (Pair index) (first_half (allocRecvParamQ e ! index) @ first_half (deAllocRecvParamQ e ! index))\<rparr>)"
  using assms by (simp add: clear_recv_queues_def drain_list)

section \<open>Small calls of the user\<close>

text \<open>
  The password connections must have: the bytes of the C string go to the 256 of the array, whatever length is said; only
  the length is kept within its byte.
\<close>

definition set_inbound_connection_pwd :: "u8 list option \<Rightarrow> int \<Rightarrow> u8 list \<Rightarrow> (u8 list \<times> u8) res" where
  "set_inbound_connection_pwd passwd passwdLength incomingPassword =
     (let passwdLength = (if passwdLength > 255 then 255 else passwdLength);
          passwdLength = (if passwd = None then 0 else passwdLength)
      in rbind (if passwd \<noteq> None \<and> passwdLength > 0
                then copy_into incomingPassword 0 (the passwd @ [0]) (length (the passwd) + 1) else Inr incomingPassword)
           (\<lambda>p. Inr (p, of_int passwdLength)))"

lemma set_inbound_connection_pwd_overflow:
  "length incomingPassword = 256 \<Longrightarrow> 0 < n \<Longrightarrow>
   set_inbound_connection_pwd (Some pw) n incomingPassword = Inl OutOfBounds \<longleftrightarrow> 255 < length pw"
  by (auto simp: set_inbound_connection_pwd_def copy_into_def Let_def)

text \<open>The address with a number, as text without the port; the addresses are looked up if the engine does not run.\<close>

definition GetLocalIPAddr :: "(u32 \<Rightarrow> string) \<Rightarrow> bool \<Rightarrow> u32 list option \<Rightarrow> nat \<Rightarrow> endpoints \<Rightarrow> (string \<times> endpoints) res" where
  "GetLocalIPAddr inet_ntoa be hosts index t =
     rbind (if \<not> active t then InitIPAddress hosts t else Inr t) (\<lambda>t.
     rbind (get_at (localIPAddrs t) index) (\<lambda>a. Inr (ToString_IPV4 inet_ntoa be False (CHR ''|'') a, t)))"

end
