(* ===== verification/Guid_Text.thy ===== *)
theory Guid_Text
  imports Remote_Systems
begin

text \<open>
  Guids (\<^verbatim>\<open>src/geco-net-type.cpp\<close>): their comparisons, their text and its reading. A guid that is written as text and
  read again is the same, except for the null guid, which becomes 0. \<^verbatim>\<open>sprintf\<close> and \<^verbatim>\<open>strtoull\<close> are those of C.
  With them \<^verbatim>\<open>guid_address_wrapper_t\<close> of \<^verbatim>\<open>include/geco-net-type.h\<close>, the name of an end point by guid or address.
\<close>

section \<open>Numbers in text\<close>

text \<open>\<open>%u\<close> of \<^verbatim>\<open>sprintf\<close>.\<close>

fun decimal :: "nat \<Rightarrow> string" where
  "decimal n = (if n < 10 then [hex_digit n] else decimal (n div 10) @ [hex_digit (n mod 10)])"

declare decimal.simps [simp del]

text \<open>\<^verbatim>\<open>strtoull\<close> at base 10: spaces, a sign, digits. Too large a number is the largest one; a minus negates.\<close>

definition strtoull :: "string \<Rightarrow> u64" where
  "strtoull str =
     (let cs = dropWhile is_space str;
          (neg, ds) = (case cs of [] \<Rightarrow> (False, []) | c # rest \<Rightarrow>
            if c = CHR ''-'' then (True, rest) else if c = CHR ''+'' then (False, rest) else (False, c # rest));
          n = atoi_digits 0 ds
      in if n \<ge> 2 ^ 64 then -1 else if neg then - of_int n else of_int n)"

section \<open>Operations\<close>

definition guid_default :: guid where
  "guid_default = \<lparr>g = -1, guid_systemIndex = -1\<rparr>"

definition guid_greater :: "guid \<Rightarrow> guid \<Rightarrow> bool" where
  "guid_greater a right \<longleftrightarrow> g a > g right"

definition guid_less :: "guid \<Rightarrow> guid \<Rightarrow> bool" where
  "guid_less a right \<longleftrightarrow> g a < g right"

definition guid_ToString :: "guid \<Rightarrow> string" where
  "guid_ToString x = (if guid_eq x JACKIE_NULL_GUID then ''JACKIE_INet_GUID_Null'' else decimal (unat (g x)))"

text \<open>The eight results that \<^verbatim>\<open>ToString\<close> without a place to write to hands out in turn.\<close>

definition guid_ToString_static :: "guid \<Rightarrow> u8 \<times> string list \<Rightarrow> nat \<times> u8 \<times> string list" where
  "guid_ToString_static x st =
     (let (strIndex, str) = st; i = unat (strIndex AND 7) in (i, strIndex + 1, str[i := guid_ToString x]))"

definition guid_FromString :: "string option \<Rightarrow> guid \<Rightarrow> bool \<times> guid" where
  "guid_FromString source x = (case source of None \<Rightarrow> (False, x) | Some s \<Rightarrow> (True, x\<lparr>g := strtoull s\<rparr>))"

section \<open>Text and back\<close>

lemma hex_digit_decimal: "d < 10 \<Longrightarrow> is_digit (hex_digit d) \<and> (of_char (hex_digit d) :: int) - 48 = int d
   \<and> \<not> is_space (hex_digit d) \<and> hex_digit d \<noteq> CHR ''-'' \<and> hex_digit d \<noteq> CHR ''+''"
proof -
  assume "d < 10"
  moreover have "\<forall>d \<in> set [0..<10]. is_digit (hex_digit d) \<and> (of_char (hex_digit d) :: int) - 48 = int d
     \<and> \<not> is_space (hex_digit d) \<and> hex_digit d \<noteq> CHR ''-'' \<and> hex_digit d \<noteq> CHR ''+''" by code_simp
  ultimately show ?thesis unfolding set_upt by (metis atLeastLessThan_iff le0)
qed

lemma atoi_digits_append:
  "\<forall>c \<in> set ds. is_digit c \<Longrightarrow> atoi_digits acc (ds @ es) = atoi_digits (atoi_digits acc ds) es"
  by (induction ds arbitrary: acc) simp_all

lemma decimal_digits: "\<forall>c \<in> set (decimal n). is_digit c"
  by (induction n rule: decimal.induct) (subst decimal.simps, auto simp: hex_digit_decimal)

lemma decimal_value: "atoi_digits 0 (decimal n) = int n"
proof (induction n rule: decimal.induct)
  case (1 n)
  show ?case
  proof (cases "n < 10")
    case True
    then show ?thesis using hex_digit_decimal [OF True] by (simp add: decimal.simps [of n])
  next
    case False
    have "n mod 10 < 10" by simp
    then show ?thesis
      using 1 False hex_digit_decimal [of "n mod 10"]
      by (simp add: decimal.simps [of n] atoi_digits_append decimal_digits del: of_nat_mod of_nat_div)
        (metis mult_div_mod_eq of_nat_add of_nat_mult of_nat_numeral)
  qed
qed

lemma decimal_first:
  obtains c cs where "decimal n = c # cs" "\<not> is_space c" "c \<noteq> CHR ''-''" "c \<noteq> CHR ''+''"
proof -
  have "\<exists>d < 10. \<exists>cs. decimal n = hex_digit d # cs"
  proof (induction n rule: decimal.induct)
    case (1 n)
    then show ?case by (cases "n < 10") (subst decimal.simps, auto)+
  qed
  then show ?thesis using that hex_digit_decimal by blast
qed

lemma strtoull_decimal: "n < 2 ^ 64 \<Longrightarrow> strtoull (decimal n) = of_nat n"
proof -
  assume n: "n < 2 ^ 64"
  obtain c cs where c: "decimal n = c # cs" "\<not> is_space c" "c \<noteq> CHR ''-''" "c \<noteq> CHR ''+''" by (rule decimal_first)
  have "int n < 2 ^ 64" using n by simp
  then show ?thesis using decimal_value [of n] c by (simp add: strtoull_def Let_def)
qed

lemma guid_text_round_trip:
  "snd (guid_FromString (Some (guid_ToString x)) y) = y\<lparr>g := if guid_eq x JACKIE_NULL_GUID then 0 else g x\<rparr>"
proof (cases "guid_eq x JACKIE_NULL_GUID")
  case True
  have "strtoull ''JACKIE_INet_GUID_Null'' = 0" by code_simp
  then show ?thesis using True by (simp add: guid_FromString_def guid_ToString_def)
next
  case False
  have "unat (g x) < 2 ^ 64" using unsigned_less [of "g x"] by simp
  then show ?thesis using False strtoull_decimal by (simp add: guid_FromString_def guid_ToString_def)
qed

text \<open>The ninth text overwrites the first.\<close>

lemma guid_ToString_static_place: "fst (guid_ToString_static x (i, str)) = unat i mod 8"
proof -
  have "i AND 7 = take_bit 3 i" by (simp add: take_bit_eq_mask mask_eq_exp_minus_1)
  then have "unat (i AND 7) = unat i mod 8" by (simp add: take_bit_eq_mod unat_mod)
  then show ?thesis by (simp add: guid_ToString_static_def Let_def)
qed

section \<open>Guid or address\<close>

definition wrapper_GetSystemIndex :: "guid_address_wrapper \<Rightarrow> u16" where
  "wrapper_GetSystemIndex w =
     (if \<not> is_null_guid (w_guid w) then guid_systemIndex (w_guid w) else systemIndex (w_systemAddress w))"

definition IsUndefined :: "guid_address_wrapper \<Rightarrow> bool" where
  "IsUndefined w \<longleftrightarrow> is_null_guid (w_guid w) \<and> is_null (w_systemAddress w)"

definition SetUndefined :: "guid_address_wrapper \<Rightarrow> guid_address_wrapper" where
  "SetUndefined w = w\<lparr>w_guid := JACKIE_NULL_GUID, w_systemAddress := JACKIE_NULL_ADDRESS\<rparr>"

definition wrapper_of_address :: "network_address \<Rightarrow> guid_address_wrapper" where
  "wrapper_of_address input = \<lparr>w_guid = JACKIE_NULL_GUID, w_systemAddress = input\<rparr>"

definition wrapper_of_guid :: "guid \<Rightarrow> guid_address_wrapper" where
  "wrapper_of_guid input = \<lparr>w_guid = input, w_systemAddress = JACKIE_NULL_ADDRESS\<rparr>"

definition wrapper_eq :: "guid_address_wrapper \<Rightarrow> guid_address_wrapper \<Rightarrow> bool" where
  "wrapper_eq w right \<longleftrightarrow>
     (\<not> is_null_guid (w_guid w) \<and> guid_eq (w_guid w) (w_guid right)) \<or>
     (\<not> is_null (w_systemAddress w) \<and> address_eq (w_systemAddress w) (w_systemAddress right))"

definition wrapper_ToHashCode :: "(u16 \<Rightarrow> u8 list) \<Rightarrow> (u32 \<Rightarrow> u8 list) \<Rightarrow> guid_address_wrapper \<Rightarrow> u64 res" where
  "wrapper_ToHashCode port_bytes addr_bytes aog =
     (if \<not> is_null_guid (w_guid aog) then Inr (guid_ToUInt32 (w_guid aog))
      else rbind (address_ToHashCode port_bytes addr_bytes (w_systemAddress aog)) (\<lambda>h. Inr (ucast h)))"

definition wrapper_ToString :: "(u32 \<Rightarrow> string) \<Rightarrow> bool \<Rightarrow> bool \<Rightarrow> guid_address_wrapper \<Rightarrow> string" where
  "wrapper_ToString inet_ntoa be writePort w =
     (if \<not> is_null_guid (w_guid w) then guid_ToString (w_guid w)
      else ToString_IPV4 inet_ntoa be writePort (CHR ''|'') (w_systemAddress w))"

text \<open>
  Equality is reflexive just for the names that are defined, as far as addresses are of IPv4, and it is not transitive: a name with guid and address
  equals one with the guid and one with the address only, which are not equal.
\<close>

lemma wrapper_eq_refl: "sin_family (w_systemAddress w) = AF_INET \<Longrightarrow> wrapper_eq w w \<longleftrightarrow> \<not> IsUndefined w"
  by (auto simp: wrapper_eq_def IsUndefined_def guid_eq_def address_eq_def EqualsExcludingPort_def)

lemma wrapper_SetUndefined: "IsUndefined (SetUndefined w)"
  by (simp add: IsUndefined_def SetUndefined_def guid_eq_def address_eq_def EqualsExcludingPort_def
      JACKIE_NULL_ADDRESS_def address_default_def)

lemma wrapper_eq_not_transitive:
  assumes "\<not> is_null_guid x" and "\<not> is_null a" and "sin_family a = AF_INET"
  defines "both \<equiv> \<lparr>w_guid = x, w_systemAddress = a\<rparr>"
  shows "wrapper_eq (wrapper_of_guid x) both" "wrapper_eq both (wrapper_of_address a)"
    "\<not> wrapper_eq (wrapper_of_guid x) (wrapper_of_address a)"
  using assms by (auto simp: wrapper_eq_def wrapper_of_guid_def wrapper_of_address_def guid_eq_def address_eq_def
      EqualsExcludingPort_def)

end
