(* ===== verification/Clock.thy ===== *)
theory Clock
  imports Geco_Prelude
begin

text \<open>
  The clock of \<^verbatim>\<open>include/geco-time.h\<close> and \<^verbatim>\<open>src/geco-time.cpp\<close> on Linux, over what \<^verbatim>\<open>gettimeofday\<close> returns: the time
  since the first call, its forms in milliseconds, the comparison of times that wrap around, and until when a thread sleeps.
\<close>

record timeval =
  tv_sec :: int
  tv_usec :: int

definition in_us :: "timeval \<Rightarrow> u64" where
  "in_us tp = of_int (tv_sec tp) * 1000000 + of_int (tv_usec tp)"

record clock =
  initialized :: bool
  initialTime :: u64

text \<open>\<open>first\<close> is the reading at the first call, if this is it, and \<open>tp\<close> the next one.\<close>

definition GetTimeUS_Linux :: "timeval \<Rightarrow> timeval \<Rightarrow> clock \<Rightarrow> u64 \<times> clock" where
  "GetTimeUS_Linux first tp c =
     (let c = (if \<not> initialized c then \<lparr>initialized = True, initialTime = in_us first\<rparr> else c)
      in (in_us tp - initialTime c, c))"

definition Get64BitsTimeUS :: "timeval \<Rightarrow> timeval \<Rightarrow> clock \<Rightarrow> u64 \<times> clock" where
  "Get64BitsTimeUS = GetTimeUS_Linux"

definition GetTimeMS :: "timeval \<Rightarrow> timeval \<Rightarrow> clock \<Rightarrow> u64 \<times> clock" where
  "GetTimeMS first tp c = (let (t, c) = Get64BitsTimeUS first tp c in (t div 1000, c))"

definition Get32BitsTimeMS :: "timeval \<Rightarrow> timeval \<Rightarrow> clock \<Rightarrow> u32 \<times> clock" where
  "Get32BitsTimeMS first tp c = (let (t, c) = Get64BitsTimeUS first tp c in (ucast (t div 1000), c))"

definition GreaterThan :: "u64 \<Rightarrow> u64 \<Rightarrow> bool" where
  "GreaterThan a b = (let halfSpan = -1 div 2 in b \<noteq> a \<and> b - a > halfSpan)"

definition LessThan :: "u64 \<Rightarrow> u64 \<Rightarrow> bool" where
  "LessThan a b = (let halfSpan = -1 div 2 in b \<noteq> a \<and> b - a < halfSpan)"

text \<open>The time \<^verbatim>\<open>GecoSleep\<close> waits for a condition nobody signals: seconds and nanoseconds.\<close>

definition GecoSleep :: "u32 \<Rightarrow> timeval \<Rightarrow> int \<times> int" where
  "GecoSleep ms now =
     (let seconds = uint (ms div 1000);
          nanoseconds = (uint ms - seconds * 1000) * 1000000;
          sec = tv_sec now + seconds; nsec = tv_usec now * 1000 + nanoseconds
      in if nsec \<ge> 1000000000 then (sec + 1, nsec - 1000000000) else (sec, nsec))"

section \<open>Comparison\<close>

lemma half_span: "(-1 div 2 :: u64) = 0x7FFFFFFFFFFFFFFF"
  by simp

text \<open>
  The two comparisons agree, but for two distances: at half the span less one neither time is less and the other one
  greater, and at half the span each is greater than the other.
\<close>

lemma LessThan_GreaterThan:
  "LessThan a b \<longleftrightarrow> GreaterThan b a \<and> b - a \<noteq> 0x7FFFFFFFFFFFFFFF \<and> b - a \<noteq> 0x8000000000000000"
proof -
  define d where "d = b - a"
  have neg: "a - b = - d" "b \<noteq> a \<longleftrightarrow> d \<noteq> 0" "a \<noteq> b \<longleftrightarrow> d \<noteq> 0" by (auto simp: d_def)
  have "d \<noteq> 0 \<Longrightarrow> unat (- d) = 2 ^ 64 - unat d" using unat_sub_if' [of 0 d] by (simp add: unat_0_iff)
  then have "d \<noteq> 0 \<and> d < 0x7FFFFFFFFFFFFFFF \<longleftrightarrow> d \<noteq> 0 \<and> - d > 0x7FFFFFFFFFFFFFFF \<and> d \<noteq> 0x7FFFFFFFFFFFFFFF \<and> d \<noteq> 0x8000000000000000"
    using unsigned_less [of d] by (auto simp: word_less_nat_alt word_unat_eq_iff)
  then show ?thesis
    unfolding LessThan_def GreaterThan_def Let_def half_span neg d_def [symmetric] by blast
qed

lemma both_greater: "GreaterThan a b \<and> GreaterThan b a \<longleftrightarrow> b - a = 0x8000000000000000"
proof -
  define d where "d = b - a"
  have neg: "a - b = - d" "b \<noteq> a \<longleftrightarrow> d \<noteq> 0" "a \<noteq> b \<longleftrightarrow> d \<noteq> 0" by (auto simp: d_def)
  have "d \<noteq> 0 \<Longrightarrow> unat (- d) = 2 ^ 64 - unat d" using unat_sub_if' [of 0 d] by (simp add: unat_0_iff)
  then have "(d \<noteq> 0 \<and> d > 0x7FFFFFFFFFFFFFFF) \<and> (d \<noteq> 0 \<and> - d > 0x7FFFFFFFFFFFFFFF) \<longleftrightarrow> d = 0x8000000000000000"
    using unsigned_less [of d] by (auto simp: word_less_nat_alt word_unat_eq_iff)
  then show ?thesis unfolding GreaterThan_def Let_def half_span neg d_def [symmetric] .
qed

section \<open>Sleeping\<close>

text \<open>The deadline is just \<open>ms\<close> milliseconds away and in the form the system wants.\<close>

lemma GecoSleep_deadline:
  assumes "0 \<le> tv_usec now" and "tv_usec now < 1000000"
  shows "case GecoSleep ms now of (sec, nsec) \<Rightarrow> 0 \<le> nsec \<and> nsec < 1000000000 \<and>
    sec * 1000000000 + nsec = tv_sec now * 1000000000 + tv_usec now * 1000 + uint ms * 1000000"
proof -
  define m where "m = uint ms"
  have sec: "uint (ms div 1000) = m div 1000" by (simp add: m_def uint_div)
  have "0 \<le> m mod 1000" "m mod 1000 < 1000" "m - m div 1000 * 1000 = m mod 1000"
    by (simp_all add: minus_div_mult_eq_mod)
  then show ?thesis
    using assms unfolding GecoSleep_def Let_def sec m_def [symmetric] by (auto simp: algebra_simps)
qed

text \<open>
  \<^verbatim>\<open>Time\<close> has 64 bits (\<^verbatim>\<open>USE_TIME_MS_64BITS\<close>), so the time in milliseconds does not start over as long as the one in
  microseconds does not; the \<^verbatim>\<open>TimeMS\<close> of 32 bits starts over after \<open>2 ^ 32\<close> of them.
\<close>

lemma GetTimeMS_value:
  assumes "initialized c" and "in_us tp = initialTime c + of_nat us" and "us < 2 ^ 64"
  shows "unat (fst (GetTimeMS first tp c)) = us div 1000"
    and "unat (fst (Get32BitsTimeMS first tp c)) = (us div 1000) mod 2 ^ 32"
proof -
  have "unat (of_nat us :: u64) = us" using assms(3) by (simp add: unat_of_nat take_bit_nat_eq_self)
  then show "unat (fst (GetTimeMS first tp c)) = us div 1000"
    and "unat (fst (Get32BitsTimeMS first tp c)) = (us div 1000) mod 2 ^ 32"
    using assms by (simp_all add: GetTimeMS_def Get32BitsTimeMS_def Get64BitsTimeUS_def GetTimeUS_Linux_def
        unsigned_ucast_eq unat_div take_bit_eq_mod)
qed

end
