(* ===== verification/Uint24.thy ===== *)
theory Uint24
  imports Geco_Prelude
begin

text \<open>
  \<^verbatim>\<open>uint24_t\<close> of \<^verbatim>\<open>include/geco-net-type.h\<close>, the number of a datagram: an integer of 32 bits whose highest byte is
  masked out. The operations with a second \<^verbatim>\<open>uint24_t\<close> and with an unsigned integer are the same where the second is
  masked. The abstraction is the number below \<open>2 ^ 24\<close>.
\<close>

unbundle bit_operations_syntax

definition uint24_of :: "u32 \<Rightarrow> u32" where
  "uint24_of a = a AND 0x00FFFFFF"

definition uint24_inc :: "u32 \<Rightarrow> u32" where "uint24_inc val = (val + 1) AND 0x00FFFFFF"

definition uint24_dec :: "u32 \<Rightarrow> u32" where "uint24_dec val = (val - 1) AND 0x00FFFFFF"

definition uint24_and :: "u32 \<Rightarrow> u32 \<Rightarrow> u32" where "uint24_and val a = uint24_of (val AND a)"

definition uint24_add_to :: "u32 \<Rightarrow> u32 \<Rightarrow> u32" where "uint24_add_to val a = (val + a) AND 0x00FFFFFF"

definition uint24_sub_from :: "u32 \<Rightarrow> u32 \<Rightarrow> u32" where "uint24_sub_from val a = (val - a) AND 0x00FFFFFF"

definition uint24_add :: "u32 \<Rightarrow> u32 \<Rightarrow> u32" where "uint24_add val other = uint24_of (val + other)"

definition uint24_sub :: "u32 \<Rightarrow> u32 \<Rightarrow> u32" where "uint24_sub val other = uint24_of (val - other)"

definition uint24_div :: "u32 \<Rightarrow> u32 \<Rightarrow> u32 res" where
  "uint24_div val other = (if other = 0 then Inl DivisionByZero else Inr (uint24_of (val div other)))"

definition uint24_mul :: "u32 \<Rightarrow> u32 \<Rightarrow> u32" where "uint24_mul val other = uint24_of (val * other)"

definition uint24_eq_uint :: "u32 \<Rightarrow> u32 \<Rightarrow> bool" where "uint24_eq_uint val right \<longleftrightarrow> val = right AND 0x00FFFFFF"

definition uint24_greater_uint :: "u32 \<Rightarrow> u32 \<Rightarrow> bool" where "uint24_greater_uint val right \<longleftrightarrow> val > right AND 0x00FFFFFF"

definition uint24_less_uint :: "u32 \<Rightarrow> u32 \<Rightarrow> bool" where "uint24_less_uint val right \<longleftrightarrow> val < right AND 0x00FFFFFF"

section \<open>Arithmetic modulo \<open>2 ^ 24\<close>\<close>

lemma mask24: "uint (x AND 0x00FFFFFF :: u32) = uint x mod 2 ^ 24"
proof -
  have "x AND 0x00FFFFFF = take_bit 24 x" by (simp add: take_bit_eq_mask mask_eq_exp_minus_1)
  then show ?thesis by (simp add: take_bit_eq_mod uint_mod)
qed

lemma mod_32_24: "(a mod 2 ^ 32) mod 2 ^ 24 = a mod (2 ^ 24 :: int)"
  by (rule mod_mod_cancel) (simp add: le_imp_power_dvd)

lemma uint24_small: "uint (x AND 0x00FFFFFF :: u32) < 2 ^ 24"
  unfolding mask24 by simp

text \<open>Every operation computes modulo \<open>2 ^ 24\<close>, below it and over its edge.\<close>

lemma uint24_arithmetic:
  "uint (uint24_of x) = uint x mod 2 ^ 24"
  "uint (uint24_inc x) = (uint x + 1) mod 2 ^ 24"
  "uint (uint24_dec x) = (uint x - 1) mod 2 ^ 24"
  "uint (uint24_add x y) = (uint x + uint y) mod 2 ^ 24"
  "uint (uint24_add_to x y) = (uint x + uint y) mod 2 ^ 24"
  "uint (uint24_sub x y) = (uint x - uint y) mod 2 ^ 24"
  "uint (uint24_sub_from x y) = (uint x - uint y) mod 2 ^ 24"
  "uint (uint24_mul x y) = (uint x * uint y) mod 2 ^ 24"
proof -
  have plus: "uint (a + b :: u32) mod 2 ^ 24 = (uint a + uint b) mod 2 ^ 24" for a b
    using mod_32_24 [of "uint a + uint b"] by (simp add: uint_word_ariths)
  have minus: "uint (a - b :: u32) mod 2 ^ 24 = (uint a - uint b) mod 2 ^ 24" for a b
    using mod_32_24 [of "uint a - uint b"] by (simp add: uint_word_ariths)
  have times: "uint (a * b :: u32) mod 2 ^ 24 = (uint a * uint b) mod 2 ^ 24" for a b
    using mod_32_24 [of "uint a * uint b"] by (simp add: uint_word_ariths)
  show "uint (uint24_of x) = uint x mod 2 ^ 24" unfolding uint24_of_def mask24 ..
  show "uint (uint24_inc x) = (uint x + 1) mod 2 ^ 24" unfolding uint24_inc_def mask24 plus by simp
  show "uint (uint24_dec x) = (uint x - 1) mod 2 ^ 24" unfolding uint24_dec_def mask24 minus by simp
  show "uint (uint24_add x y) = (uint x + uint y) mod 2 ^ 24" unfolding uint24_add_def uint24_of_def mask24 plus ..
  show "uint (uint24_add_to x y) = (uint x + uint y) mod 2 ^ 24" unfolding uint24_add_to_def mask24 plus ..
  show "uint (uint24_sub x y) = (uint x - uint y) mod 2 ^ 24" unfolding uint24_sub_def uint24_of_def mask24 minus ..
  show "uint (uint24_sub_from x y) = (uint x - uint y) mod 2 ^ 24" unfolding uint24_sub_from_def mask24 minus ..
  show "uint (uint24_mul x y) = (uint x * uint y) mod 2 ^ 24" unfolding uint24_mul_def uint24_of_def mask24 times ..
qed

text \<open>Counting up and down are inverse, over the edge too.\<close>

lemma uint24_inc_dec: "uint x < 2 ^ 24 \<Longrightarrow> uint24_dec (uint24_inc x) = x \<and> uint24_inc (uint24_dec x) = x"
proof -
  assume "uint x < 2 ^ 24"
  then have "uint x mod 2 ^ 24 = uint x" by simp
  then have "uint (uint24_dec (uint24_inc x)) = uint x" "uint (uint24_inc (uint24_dec x)) = uint x"
    unfolding uint24_arithmetic mod_diff_left_eq mod_add_left_eq by simp_all
  then show ?thesis by (simp only: word_uint_eq_iff)
qed

end
