(* ===== verification/Message_Ids.thy ===== *)
theory Message_Ids
  imports Plugins
begin

text \<open>
  The identifiers of messages (\<^verbatim>\<open>include/geco-msg-ids.h\<close>): the enumerators by name in their order, which gives each its
  number. The constants the handlers are modelled with are the numbers of their names, and all numbers fit in a byte.
\<close>

section \<open>The enumerations\<close>

definition OutOfBandIdentifiers :: "string list" where
  "OutOfBandIdentifiers =
    [''ID_NAT_ESTABLISH_UNIDIRECTIONAL'', ''ID_NAT_ESTABLISH_BIDIRECTIONAL'', ''ID_NAT_TYPE_DETECT'',
     ''ID_ROUTER_2_REPLY_TO_SENDER_PORT'', ''ID_ROUTER_2_REPLY_TO_SPECIFIED_PORT'',
     ''ID_ROUTER_2_MINI_PUNCH_REPLY'', ''ID_ROUTER_2_MINI_PUNCH_REPLY_BOUNCE'', ''ID_XBOX_360_VOICE'',
     ''ID_XBOX_360_GET_NETWORK_ROOM'', ''ID_XBOX_360_RETURN_NETWORK_ROOM'', ''ID_NAT_PING'', ''ID_NAT_PONG'']"

text \<open>The first part of \<^verbatim>\<open>MsgEnum\<close>: what the library itself sends or tells the user.\<close>

definition MsgEnum_core :: "string list" where
  "MsgEnum_core =
    [''ID_CONNECTED_PING'', ''ID_UNCONNECTED_PING'', ''ID_UNCONNECTED_PING_OPEN_CONNECTIONS'',
     ''ID_CONNECTED_PONG'', ''ID_DETECT_LOST_CONNECTIONS'', ''ID_OPEN_CONNECTION_REQUEST_1'',
     ''ID_OPEN_CONNECTION_REPLY_1'', ''ID_OPEN_CONNECTION_REQUEST_2'', ''ID_OPEN_CONNECTION_REPLY_2'',
     ''ID_CONNECTION_REQUEST'', ''ID_WECLINOTPASS_SRVPUBKEY_WHENCONNECT'', ''ID_WECLI_SECURE_BUT_SRV_NO'',
     ''ID_PUBLIC_KEY_MISMATCH'', ''ID_OUT_OF_BAND_INTERNAL'', ''ID_SND_RECEIPT_ACKED'', ''ID_SND_RECEIPT_LOSS'',
     ''ID_CONNECTION_REQUEST_ACCEPTED'', ''ID_CONNECTION_ATTEMPT_FAILED'', ''ID_ALREADY_CONNECTED'',
     ''ID_NEW_INCOMING_CONNECTION'', ''ID_CANNOT_ACCEPT_INCOMING_CONNECTIONS'',
     ''ID_DISCONNECTION_NOTIFICATION'', ''ID_CONNECTION_LOST'', ''ID_CONNECTION_BANNED'',
     ''ID_INVALID_PASSWORD'', ''ID_INCOMPATIBLE_PROTOCOL_VERSION'', ''ID_YOU_CONNECT_TOO_OFTEN'',
     ''ID_TIMESTAMP'', ''ID_UNCONNECTED_PONG'', ''ID_ADVERTISE_SYSTEM'']"

text \<open>The other parts: what plugins send.\<close>

definition MsgEnum_plugins :: "string list" where
  "MsgEnum_plugins =
    [''ID_DOWNLOAD_PROGRESS'', ''ID_REMOTE_DISCONNECTION_NOTIFICATION'', ''ID_REMOTE_CONNECTION_LOST'',
     ''ID_REMOTE_NEW_INCOMING_CONNECTION'', ''ID_FILE_LIST_TRANSFER_HEADER'', ''ID_FILE_LIST_TRANSFER_FILE'',
     ''ID_FILE_LIST_REFERENCE_PUSH_ACK'', ''ID_DDT_DOWNLOAD_REQUEST'', ''ID_TRANSPORT_STRING'',
     ''ID_REPLICA_MANAGER_CONSTRUCTION'', ''ID_REPLICA_MANAGER_SCOPE_CHANGE'', ''ID_REPLICA_MANAGER_SERIALIZE'',
     ''ID_REPLICA_MANAGER_DOWNLOAD_STARTED'', ''ID_REPLICA_MANAGER_DOWNLOAD_COMPLETE'',
     ''ID_RAKVOICE_OPEN_CHANNEL_REQUEST'', ''ID_RAKVOICE_OPEN_CHANNEL_REPLY'', ''ID_RAKVOICE_CLOSE_CHANNEL'',
     ''ID_RAKVOICE_DATA'', ''ID_AUTOPATCHER_GET_CHANGELIST_SINCE_DATE'', ''ID_AUTOPATCHER_CREATION_LIST'',
     ''ID_AUTOPATCHER_DELETION_LIST'', ''ID_AUTOPATCHER_GET_PATCH'', ''ID_AUTOPATCHER_PATCH_LIST'',
     ''ID_AUTOPATCHER_REPOSITORY_FATAL_ERROR'', ''ID_AUTOPATCHER_CANNOT_DOWNLOAD_ORIGINAL_UNMODIFIED_FILES'',
     ''ID_AUTOPATCHER_FINISHED_INTERNAL'', ''ID_AUTOPATCHER_FINISHED'', ''ID_AUTOPATCHER_RESTART_APPLICATION'',
     ''ID_NAT_PUNCHTHROUGH_REQUEST'', ''ID_NAT_CONNECT_AT_TIME'', ''ID_NAT_GET_MOST_RECENT_PORT'',
     ''ID_NAT_CLIENT_READY'', ''ID_NAT_TARGET_NOT_CONNECTED'', ''ID_NAT_TARGET_UNRESPONSIVE'',
     ''ID_NAT_CONNECTION_TO_TARGET_LOST'', ''ID_NAT_ALREADY_IN_PROGRESS'', ''ID_NAT_PUNCHTHROUGH_FAILED'',
     ''ID_NAT_PUNCHTHROUGH_SUCCEEDED'', ''ID_READY_EVENT_SET'', ''ID_READY_EVENT_UNSET'',
     ''ID_READY_EVENT_ALL_SET'', ''ID_READY_EVENT_QUERY'', ''ID_LOBBY_GENERAL'', ''ID_RPC_REMOTE_ERROR'',
     ''ID_RPC_PLUGIN'', ''ID_FILE_LIST_REFERENCE_PUSH'', ''ID_READY_EVENT_FORCE_ALL_SET'',
     ''ID_ROOMS_EXECUTE_FUNC'', ''ID_ROOMS_LOGON_STATUS'', ''ID_ROOMS_HANDLE_CHANGE'',
     ''ID_LOBBY2_SEND_MESSAGE'', ''ID_LOBBY2_SERVER_ERROR'', ''ID_FCM2_NEW_HOST'', ''ID_FCM2_REQUEST_FCMGUID'',
     ''ID_FCM2_RESPOND_CONNECTION_COUNT'', ''ID_FCM2_INFORM_FCMGUID'',
     ''ID_FCM2_UPDATE_MIN_TOTAL_CONNECTION_COUNT'']"

definition MsgEnum_services :: "string list" where
  "MsgEnum_services =
    [''ID_FCM2_VERIFIED_JOIN_START'', ''ID_FCM2_VERIFIED_JOIN_CAPABLE'', ''ID_FCM2_VERIFIED_JOIN_FAILED'',
     ''ID_FCM2_VERIFIED_JOIN_ACCEPTED'', ''ID_FCM2_VERIFIED_JOIN_REJECTED'', ''ID_UDP_PROXY_GENERAL'',
     ''ID_SQLite3_EXEC'', ''ID_SQLite3_UNKNOWN_DB'', ''ID_SQLLITE_LOGGER'', ''ID_NAT_TYPE_DETECTION_REQUEST'',
     ''ID_NAT_TYPE_DETECTION_RESULT'', ''ID_ROUTER_2_INTERNAL'', ''ID_ROUTER_2_FORWARDING_NO_PATH'',
     ''ID_ROUTER_2_FORWARDING_ESTABLISHED'', ''ID_ROUTER_2_REROUTED'', ''ID_TEAM_BALANCER_INTERNAL'',
     ''ID_TEAM_BALANCER_REQUESTED_TEAM_FULL'', ''ID_TEAM_BALANCER_REQUESTED_TEAM_LOCKED'',
     ''ID_TEAM_BALANCER_TEAM_REQUESTED_CANCELLED'', ''ID_TEAM_BALANCER_TEAM_ASSIGNED'',
     ''ID_LIGHTSPEED_INTEGRATION'', ''ID_XBOX_LOBBY'', ''ID_TWO_WAY_AUTHENTICATION_INCOMING_CHALLENGE_SUCCESS'',
     ''ID_TWO_WAY_AUTHENTICATION_OUTGOING_CHALLENGE_SUCCESS'',
     ''ID_TWO_WAY_AUTHENTICATION_INCOMING_CHALLENGE_FAILURE'',
     ''ID_TWO_WAY_AUTHENTICATION_OUTGOING_CHALLENGE_FAILURE'',
     ''ID_TWO_WAY_AUTHENTICATION_OUTGOING_CHALLENGE_TIMEOUT'', ''ID_TWO_WAY_AUTHENTICATION_NEGOTIATION'',
     ''ID_CLOUD_POST_REQUEST'', ''ID_CLOUD_RELEASE_REQUEST'', ''ID_CLOUD_GET_REQUEST'',
     ''ID_CLOUD_GET_RESPONSE'', ''ID_CLOUD_UNSUBSCRIBE_REQUEST'', ''ID_CLOUD_SERVER_TO_SERVER_COMMAND'',
     ''ID_CLOUD_SUBSCRIPTION_NOTIFICATION'', ''ID_LIB_VOICE'', ''ID_RELAY_PLUGIN'',
     ''ID_NAT_REQUEST_BOUND_ADDRESSES'', ''ID_NAT_RESPOND_BOUND_ADDRESSES'', ''ID_FCM2_UPDATE_USER_CONTEXT'',
     ''ID_RESERVED_3'', ''ID_RESERVED_4'', ''ID_RESERVED_5'', ''ID_RESERVED_6'', ''ID_RESERVED_7'',
     ''ID_RESERVED_8'', ''ID_RESERVED_9'', ''ID_USER_PACKET_ENUM'']"

definition MsgEnum :: "string list" where
  "MsgEnum = MsgEnum_core @ MsgEnum_plugins @ MsgEnum_services"

fun position_in :: "string \<Rightarrow> string list \<Rightarrow> nat option" where
  "position_in x [] = None"
| "position_in x (y # ys) = (if x = y then Some 0 else map_option Suc (position_in x ys))"

definition message_number :: "string \<Rightarrow> u8 option" where
  "message_number name = map_option of_nat (position_in name MsgEnum)"

section \<open>Their numbers\<close>

lemma position_in_nth: "position_in x xs = Some i \<Longrightarrow> i < length xs \<and> xs ! i = x"
proof (induction xs arbitrary: i)
  case (Cons y ys)
  then show ?case by (cases "x = y") auto
qed simp

text \<open>The constants of the model.\<close>

definition used_ids :: "(string \<times> u8) list" where
  "used_ids =
    [(''ID_UNCONNECTED_PING'', ID_UNCONNECTED_PING), (''ID_UNCONNECTED_PING_OPEN_CONNECTIONS'',
     ID_UNCONNECTED_PING_OPEN_CONNECTIONS), (''ID_OPEN_CONNECTION_REQUEST_1'', ID_OPEN_CONNECTION_REQUEST_1),
     (''ID_OPEN_CONNECTION_REPLY_1'', ID_OPEN_CONNECTION_REPLY_1), (''ID_OPEN_CONNECTION_REQUEST_2'',
     ID_OPEN_CONNECTION_REQUEST_2), (''ID_OPEN_CONNECTION_REPLY_2'', ID_OPEN_CONNECTION_REPLY_2),
     (''ID_CONNECTION_REQUEST'', ID_CONNECTION_REQUEST), (''ID_WECLINOTPASS_SRVPUBKEY_WHENCONNECT'',
     ID_WECLINOTPASS_SRVPUBKEY_WHENCONNECT), (''ID_WECLI_SECURE_BUT_SRV_NO'', ID_WECLI_SECURE_BUT_SRV_NO),
     (''ID_PUBLIC_KEY_MISMATCH'', ID_PUBLIC_KEY_MISMATCH), (''ID_OUT_OF_BAND_INTERNAL'', ID_OUT_OF_BAND_INTERNAL),
     (''ID_CONNECTION_ATTEMPT_FAILED'', ID_CONNECTION_ATTEMPT_FAILED), (''ID_ALREADY_CONNECTED'',
     ID_ALREADY_CONNECTED), (''ID_CANNOT_ACCEPT_INCOMING_CONNECTIONS'', ID_CANNOT_ACCEPT_INCOMING_CONNECTIONS),
     (''ID_CONNECTION_BANNED'', ID_CONNECTION_BANNED), (''ID_INCOMPATIBLE_PROTOCOL_VERSION'',
     ID_INCOMPATIBLE_PROTOCOL_VERSION), (''ID_YOU_CONNECT_TOO_OFTEN'', ID_YOU_CONNECT_TOO_OFTEN),
     (''ID_UNCONNECTED_PONG'', ID_UNCONNECTED_PONG), (''ID_CONNECTION_REQUEST_ACCEPTED'',
     ID_CONNECTION_REQUEST_ACCEPTED), (''ID_NEW_INCOMING_CONNECTION'', ID_NEW_INCOMING_CONNECTION),
     (''ID_DISCONNECTION_NOTIFICATION'', ID_DISCONNECTION_NOTIFICATION), (''ID_CONNECTION_LOST'',
     ID_CONNECTION_LOST), (''ID_INVALID_PASSWORD'', ID_INVALID_PASSWORD), (''ID_TIMESTAMP'', ID_TIMESTAMP)]"

lemma position_in_distinct:
  "distinct xs \<Longrightarrow> i < length xs \<Longrightarrow> position_in (xs ! i) (xs @ ys) = Some i"
proof (induction xs arbitrary: i)
  case (Cons x xs)
  then show ?case by (cases i) auto
qed simp

lemma core_distinct: "distinct MsgEnum_core"
  by (simp add: MsgEnum_core_def)

lemma core_length: "length MsgEnum_core = 30"
  by (simp add: MsgEnum_core_def)

lemma used_ids_core:
  "used_ids = map (\<lambda>i. (MsgEnum_core ! i, of_nat i))
    [1, 2, 5, 6, 7, 8, 9, 10, 11, 12, 13, 17, 18, 20, 23, 25, 26, 28, 16, 19, 21, 22, 24, 27]"
  by (simp add: used_ids_def MsgEnum_core_def)

lemma used_ids_numbered: "(name, n) \<in> set used_ids \<Longrightarrow> message_number name = Some n"
  using position_in_distinct [OF core_distinct, of _ "MsgEnum_plugins @ MsgEnum_services"]
  by (auto simp: used_ids_core message_number_def MsgEnum_def core_length)

lemmas enumerations = MsgEnum_def MsgEnum_core_def MsgEnum_plugins_def MsgEnum_services_def

lemma MsgEnum_length: "length MsgEnum = 135"
  by (simp add: enumerations)

text \<open>No two messages have the same number.\<close>

lemma message_number_inj:
  assumes "message_number a = Some n" and "message_number b = Some n"
  shows "a = b"
proof -
  obtain i j where i: "position_in a MsgEnum = Some i" "n = of_nat i" and j: "position_in b MsgEnum = Some j" "n = of_nat j"
    using assms by (auto simp: message_number_def)
  note p = position_in_nth [OF i(1)] position_in_nth [OF j(1)]
  have "unat (of_nat i :: u8) = i" "unat (of_nat j :: u8) = j" using p by (simp_all add: MsgEnum_length unat_of_nat)
  then have "i = j" using i(2) j(2) by metis
  then show ?thesis using p by simp
qed

end
