(* ===== verification/Small_Calls.thy ===== *)
theory Small_Calls
  imports Application_Life Guid_Text Mersenne_Twister Bit_Floats
begin

text \<open>
  Small operations beside the large components: addresses made from text and the look-up of a domain name
  (\<^verbatim>\<open>src/geco-net-type.cpp\<close>), random numbers as floats (\<^verbatim>\<open>src/geco-random-seed-creator.cpp\<close>), the turning on of
  security and the argument of a receiving thread (\<^verbatim>\<open>src/geco_application.cpp\<close>).
\<close>

section \<open>Addresses from text\<close>

text \<open>\<open>raw\<close> is the memory the address is made in. The result of the parsing is not looked at.\<close>

definition address_of_text ::
  "(string \<Rightarrow> u32) \<Rightarrow> (string \<Rightarrow> string) \<Rightarrow> bool \<Rightarrow> string \<Rightarrow> network_address \<Rightarrow> network_address res" where
  "address_of_text inet_addr resolve be str raw =
     rbind (FromString inet_addr resolve be str (CHR ''|'') (SetPortHostOrder be 0 (raw\<lparr>sin_family := AF_INET\<rparr>)))
       (\<lambda>(_, a). Inr (a\<lparr>systemIndex := -1\<rparr>))"

definition address_of_text_port ::
  "(string \<Rightarrow> u32) \<Rightarrow> (string \<Rightarrow> string) \<Rightarrow> bool \<Rightarrow> string \<Rightarrow> u16 \<Rightarrow> network_address \<Rightarrow> network_address res" where
  "address_of_text_port inet_addr resolve be str port raw =
     rbind (FromStringPort inet_addr resolve be str port (raw\<lparr>sin_family := AF_INET\<rparr>))
       (\<lambda>(_, a). Inr (a\<lparr>systemIndex := -1\<rparr>))"

definition GetIPProtocol :: "network_address \<Rightarrow> u8" where
  "GetIPProtocol a = 0"

definition address_size :: nat where
  "address_size = 4 + 2 + 1"

text \<open>
  The look-up: \<open>gethostbyname\<close> gives the addresses of a host, or \<open>None\<close> for a host it does not know. The 65 characters
  of the result are zeroed where there is none, which makes it the empty text.
\<close>

definition DomainNameToIP_Berkley_IPV4 ::
  "(string \<Rightarrow> u32 list option) \<Rightarrow> (u32 \<Rightarrow> string) \<Rightarrow> string \<Rightarrow> string" where
  "DomainNameToIP_Berkley_IPV4 gethostbyname inet_ntoa domainName =
     (case gethostbyname domainName of
        None \<Rightarrow> []
      | Some [] \<Rightarrow> []
      | Some (addr # _) \<Rightarrow> inet_ntoa addr)"

definition DomainNameToIP :: "(string \<Rightarrow> u32 list option) \<Rightarrow> (u32 \<Rightarrow> string) \<Rightarrow> string \<Rightarrow> string" where
  "DomainNameToIP = DomainNameToIP_Berkley_IPV4"

definition wrapper_of_packet :: "packet \<Rightarrow> guid_address_wrapper" where
  "wrapper_of_packet p = \<lparr>w_guid = packet_guid p, w_systemAddress = packet_address p\<rparr>"

text \<open>An address made from the text of another one is equal to it.\<close>

lemma address_of_text_back:
  assumes "dotted_text inet_addr inet_ntoa" and "\<not> address_eq a JACKIE_NULL_ADDRESS" and "sin_family a = AF_INET"
  shows "\<exists>b. address_of_text inet_addr resolve be (ToString_IPV4 inet_ntoa be True (CHR ''|'') a) raw = Inr b \<and>
    address_eq b a \<and> systemIndex b = -1"
proof -
  have "\<not> is_digit (CHR ''|'')" "\<not> isDomainIPAddr [CHR ''|'']" by code_simp+
  from SetIP4Address_ToString [OF assms(1) this(1) _ this(2) assms(2)] assms(3)
  show ?thesis
    by (simp add: address_of_text_def FromString_def SetPortHostOrder_def address_eq_def EqualsExcludingPort_def)
qed

section \<open>Random floats\<close>

definition frandomMT :: "mt \<Rightarrow> mt \<Rightarrow> (rat \<times> mt \<times> mt) res" where
  "frandomMT glob gen =
     rbind (randomMT glob gen) (\<lambda>(y, glob, gen). Inr (fl32 (fl64 (of_nat (unat y) / 4294967296)), glob, gen))"

definition FrandomMT :: "mt \<Rightarrow> mt \<Rightarrow> (rat \<times> mt \<times> mt) res" where
  "FrandomMT glob gen = frandomMT glob gen"

lemma round_even_le:
  assumes "y \<le> of_int n"
  shows "round_even y \<le> n"
proof (cases "\<lfloor>y\<rfloor> < n")
  case False
  then have "y = of_int n" using assms by (metis floor_less_iff linorder_neqE_linordered_idom linorder_not_less)
  then show ?thesis by (simp add: round_even_def)
qed (simp add: round_even_def Let_def)

text \<open>Rounding does not lead over 1, but may lead to it: the numbers are from 0 to 1 inclusive.\<close>

lemma fl_le_one:
  assumes "x \<le> 1" and "1 \<le> p" and "emin \<le> 0"
  shows "fl p emin x \<le> 1"
proof (cases "0 < x")
  case True
  define k where "k = nat (- max (exponent x - int p + 1) emin)"
  have "(2 :: rat) powi exponent x \<le> 2 powi 0" using exponent_le [OF True] assms(1) by simp
  then have "exponent x \<le> 0" by (metis linorder_not_less one_less_numeral_iff power_int_strict_increasing semiring_norm(76))
  then have k: "max (exponent x - int p + 1) emin = - int k" using assms(2,3) by (simp add: k_def)
  have q: "(2 :: rat) powi (- int k) = 1 / 2 ^ k" by (simp add: power_int_minus divide_inverse)
  have "x * 2 ^ k \<le> of_int (2 ^ k)" using assms(1) by simp
  then have "round_even (x * 2 ^ k) \<le> 2 ^ k" by (rule round_even_le)
  then have "of_int (round_even (x * 2 ^ k)) \<le> (of_int (2 ^ k) :: rat)" unfolding of_int_le_iff .
  then show ?thesis using True by (simp add: fl_def k q Let_def)
next
  case False
  then have "round_even y \<le> 0" if "y \<le> 0" for y using round_even_le [of y 0] that by simp
  then show ?thesis using False
    by (auto simp: fl_def Let_def divide_nonpos_nonneg mult_nonpos_nonneg intro!: order_trans [OF mult_nonpos_nonneg])
qed

lemma frandomMT_unit: "frandomMT glob gen = Inr (v, r) \<Longrightarrow> 0 \<le> v \<and> v \<le> 1"
proof -
  assume "frandomMT glob gen = Inr (v, r)"
  then obtain y :: u32 where v: "v = fl32 (fl64 (of_nat (unat y) / 4294967296))"
    by (auto simp: frandomMT_def rbind_eq_Inr)
  obtain n where n: "unat y = n" "n < 4294967296" using unsigned_less [of y] by simp
  then have "of_nat n \<le> (4294967296 :: rat)" by simp
  then have "(of_nat n / 4294967296 :: rat) \<le> 1" by simp
  then have "fl64 (of_nat n / 4294967296) \<le> 1" unfolding fl64_def by (intro fl_le_one) simp_all
  then have "fl32 (fl64 (of_nat n / 4294967296)) \<le> 1" unfolding fl32_def by (intro fl_le_one) simp_all
  then show ?thesis unfolding v n(1) by simp
qed

section \<open>Turning on security\<close>

text \<open>
  What the server keeps for it. The handshaker is an object of the library \<^verbatim>\<open>cat\<close>: \<open>start keys\<close> is the one
  \<^verbatim>\<open>Initialize\<close> makes, or \<open>None\<close> if it fails, \<open>fill\<close> the cookie jar of a handshaker, \<open>public\<close> the public key.
\<close>

record ('h, 'c) server_security =
  serverHandShaker :: "'h option"
  serverCookie :: "'c option"
  server_public_key :: "u8 list"
  require_client_public_key :: bool

definition enable_secure_inbound_connections ::
  "('k \<Rightarrow> 'h option) \<Rightarrow> ('h \<Rightarrow> 'c) \<Rightarrow> ('k \<Rightarrow> u8 list) \<Rightarrow> 'k \<Rightarrow> bool \<Rightarrow> app \<Rightarrow> ('h, 'c) server_security \<Rightarrow>
     bool \<times> app \<times> ('h, 'c) server_security" where
  "enable_secure_inbound_connections start fill public keys requireClientPublicKey a S =
     (if \<not> endThreads (eps a) then (False, a, S)
      else
        let S = S\<lparr>require_client_public_key := requireClientPublicKey\<rparr>
        in case start keys of
             Some h \<Rightarrow> (True, a\<lparr>secureIncomingConnectionEnabled := True\<rparr>,
                        S\<lparr>serverHandShaker := Some h, serverCookie := Some (fill h), server_public_key := public keys\<rparr>)
           | None \<Rightarrow> (False, a\<lparr>secureIncomingConnectionEnabled := False\<rparr>, S))"

text \<open>A running server is left as it is; on another one the flag says afterwards what the call returns.\<close>

lemma enable_secure_inbound_connections_result:
  assumes "enable_secure_inbound_connections start fill public keys req a S = (b, a', S')"
  shows "if endThreads (eps a) then secureIncomingConnectionEnabled a' = b \<and> b = (start keys \<noteq> None) \<and>
      eps a' = eps a \<and> require_client_public_key S' = req
    else \<not> b \<and> a' = a \<and> S' = S"
  using assms by (auto simp: enable_secure_inbound_connections_def Let_def split: if_splits option.splits)

section \<open>The argument of a receiving thread\<close>

text \<open>The pointer to the application and the number of the socket, one behind the other in fresh memory.\<close>

definition CreateRecvPollingThread :: "bool \<Rightarrow> u64 \<Rightarrow> u32 \<Rightarrow> u8 list" where
  "CreateRecvPollingThread be serv index = mem_bytes be serv @ mem_bytes be index"

definition thread_argument :: "bool \<Rightarrow> u8 list \<Rightarrow> u64 \<times> u32" where
  "thread_argument be arguments = (mem_word be (take 8 arguments), mem_word be (take 4 (drop 8 arguments)))"

lemma thread_argument_back: "thread_argument be (CreateRecvPollingThread be serv index) = (serv, index)"
proof -
  have "length (mem_bytes be serv) = 8" "length (mem_bytes be index) = 4" by (simp_all add: bytes_of_type_def)
  then show ?thesis by (simp add: thread_argument_def CreateRecvPollingThread_def)
qed

end
