(* ===== verification/Sync_Objects.thy ===== *)
theory Sync_Objects
  imports Clock
begin

text \<open>
  What the threads of the engine share by on Linux: the mutex of \<^verbatim>\<open>src/JackieSimpleMutex.cpp\<close> that its holder may take
  again, the event of \<^verbatim>\<open>src/JackieWaitEvent.cpp\<close>, the counters of \<^verbatim>\<open>src/JACKIE_Atomic.cpp\<close> and the start of a thread
  (\<^verbatim>\<open>src/JACKIE_Thread.cpp\<close>).

  The mutex reads its counter and the number of its holder before it has locked anything. So its two routines are cut
  into their accesses to shared memory, and a step relation interleaves these accesses of any number of threads. Memory
  is taken to be sequentially consistent, and \<^verbatim>\<open>pthread_self\<close> never to be 0, which is so on Linux.
\<close>

section \<open>The mutex, called by one thread after the other\<close>

text \<open>\<open>holder\<close> is the thread that has locked the mutex of the system inside.\<close>

record mutex =
  m_count :: u32
  m_threadID :: u64
  holder :: "u64 option"

definition new_mutex :: mutex where
  "new_mutex = \<lparr>m_count = 0, m_threadID = 0, holder = None\<rparr>"

text \<open>A call of \<^verbatim>\<open>Lock\<close> by the thread \<open>self\<close> while no other thread runs: \<open>None\<close> if it waits for ever.\<close>

definition mutex_Lock :: "u64 \<Rightarrow> mutex \<Rightarrow> mutex option" where
  "mutex_Lock self m =
     (if m_count m \<noteq> 0 \<and> m_threadID m = self then Some (m\<lparr>m_count := m_count m + 1\<rparr>)
      else if holder m \<noteq> None then None
      else Some (m\<lparr>holder := Some self, m_count := m_count m + 1, m_threadID := self\<rparr>))"

definition mutex_Unlock :: "mutex \<Rightarrow> mutex" where
  "mutex_Unlock m =
     (if m_count m > 1 then m\<lparr>m_count := m_count m - 1\<rparr>
      else m\<lparr>m_count := m_count m - 1, m_threadID := 0, holder := None\<rparr>)"

text \<open>The mutex taken \<open>n\<close> times by the thread \<open>t\<close>.\<close>

definition taken_times :: "u64 \<Rightarrow> nat \<Rightarrow> mutex" where
  "taken_times t n = (if n = 0 then new_mutex else \<lparr>m_count = of_nat n, m_threadID = t, holder = Some t\<rparr>)"

lemma u32_nat_le: "n < 2 ^ 32 \<Longrightarrow> (of_nat n :: u32) \<le> 1 \<longleftrightarrow> n \<le> 1"
  by (simp add: word_le_nat_alt unat_of_nat take_bit_nat_eq_self)

lemma u32_nat_zero: "n < 2 ^ 32 \<Longrightarrow> (of_nat n :: u32) = 0 \<longleftrightarrow> n = 0"
  by (simp add: word_unat_eq_iff unat_of_nat take_bit_nat_eq_self)

lemma Lock_taken: "Suc n < 2 ^ 32 \<Longrightarrow> mutex_Lock t (taken_times t n) = Some (taken_times t (Suc n))"
  by (simp add: mutex_Lock_def taken_times_def new_mutex_def u32_nat_zero add.commute)

lemma Lock_taken_other: "0 < n \<Longrightarrow> n < 2 ^ 32 \<Longrightarrow> t \<noteq> t' \<Longrightarrow> mutex_Lock t' (taken_times t n) = None"
  by (simp add: mutex_Lock_def taken_times_def)

lemma Unlock_taken: "Suc n < 2 ^ 32 \<Longrightarrow> mutex_Unlock (taken_times t (Suc n)) = taken_times t n"
  using u32_nat_le [of "Suc n"]
  by (cases n) (simp_all add: mutex_Unlock_def taken_times_def new_mutex_def not_less [symmetric])

text \<open>
  One \<^verbatim>\<open>Unlock\<close> too many makes the counter wrap. The next \<^verbatim>\<open>Lock\<close> brings it to 0, and the thread that holds the mutex
  then waits for itself when it takes it again.
\<close>

lemma Unlock_too_often:
  assumes "t \<noteq> 0"
  shows "\<exists>m. mutex_Lock t (mutex_Unlock new_mutex) = Some m \<and> holder m = Some t \<and> mutex_Lock t m = None"
  using assms by (simp add: mutex_Lock_def mutex_Unlock_def new_mutex_def)

section \<open>The mutex, called by many threads at once\<close>

text \<open>Where a thread is: outside the two routines, or before one of the accesses of their lines.\<close>

datatype place = Outside
  | Lock_Count | Lock_Owner | Lock_Again | Lock_Wait | Lock_Add | Lock_Name
  | Unlock_Count | Unlock_Less | Unlock_Sub | Unlock_Clear | Unlock_Release

text \<open>\<open>depth\<close> counts how often a thread has taken the mutex and not given it back; the code has no such variable.\<close>

record lock_run =
  the_mutex :: mutex
  place :: "u64 \<Rightarrow> place"
  depth :: "u64 \<Rightarrow> nat"

definition go :: "u64 \<Rightarrow> place \<Rightarrow> lock_run \<Rightarrow> lock_run" where
  "go t p s = s\<lparr>place := (place s)(t := p)\<rparr>"

definition set_depth :: "u64 \<Rightarrow> nat \<Rightarrow> lock_run \<Rightarrow> lock_run" where
  "set_depth t n s = s\<lparr>depth := (depth s)(t := n)\<rparr>"

definition access :: "(mutex \<Rightarrow> mutex) \<Rightarrow> lock_run \<Rightarrow> lock_run" where
  "access f s = s\<lparr>the_mutex := f (the_mutex s)\<rparr>"

text \<open>The next access of a thread that is inside a routine; \<open>None\<close> while it waits, or if it is outside.\<close>

fun thread_access :: "place \<Rightarrow> u64 \<Rightarrow> lock_run \<Rightarrow> lock_run option" where
  "thread_access Outside t s = None"
| "thread_access Lock_Count t s = Some (go t (if m_count (the_mutex s) \<noteq> 0 then Lock_Owner else Lock_Wait) s)"
| "thread_access Lock_Owner t s = Some (go t (if m_threadID (the_mutex s) = t then Lock_Again else Lock_Wait) s)"
| "thread_access Lock_Again t s =
     Some (go t Outside (set_depth t (Suc (depth s t)) (access (\<lambda>m. m\<lparr>m_count := m_count m + 1\<rparr>) s)))"
| "thread_access Lock_Wait t s =
     (if holder (the_mutex s) = None then Some (go t Lock_Add (access (\<lambda>m. m\<lparr>holder := Some t\<rparr>) s)) else None)"
| "thread_access Lock_Add t s = Some (go t Lock_Name (access (\<lambda>m. m\<lparr>m_count := m_count m + 1\<rparr>) s))"
| "thread_access Lock_Name t s =
     Some (go t Outside (set_depth t (Suc (depth s t)) (access (\<lambda>m. m\<lparr>m_threadID := t\<rparr>) s)))"
| "thread_access Unlock_Count t s = Some (go t (if m_count (the_mutex s) > 1 then Unlock_Less else Unlock_Sub) s)"
| "thread_access Unlock_Less t s =
     Some (go t Outside (set_depth t (depth s t - 1) (access (\<lambda>m. m\<lparr>m_count := m_count m - 1\<rparr>) s)))"
| "thread_access Unlock_Sub t s =
     Some (go t Unlock_Clear (set_depth t (depth s t - 1) (access (\<lambda>m. m\<lparr>m_count := m_count m - 1\<rparr>) s)))"
| "thread_access Unlock_Clear t s = Some (go t Unlock_Release (access (\<lambda>m. m\<lparr>m_threadID := 0\<rparr>) s))"
| "thread_access Unlock_Release t s = Some (go t Outside (access (\<lambda>m. m\<lparr>holder := None\<rparr>) s))"

text \<open>
  A thread calls \<^verbatim>\<open>Unlock\<close> only when it holds the mutex, and does not take it so often that the counter of 32 bits
  would wrap.
\<close>

inductive mutex_step :: "lock_run \<Rightarrow> lock_run \<Rightarrow> bool" where
  call_Lock: "place s t = Outside \<Longrightarrow> t \<noteq> 0 \<Longrightarrow> depth s t < 2 ^ 32 - 1 \<Longrightarrow> mutex_step s (go t Lock_Count s)"
| call_Unlock: "place s t = Outside \<Longrightarrow> 0 < depth s t \<Longrightarrow> mutex_step s (go t Unlock_Count s)"
| next_access: "thread_access (place s t) t s = Some s' \<Longrightarrow> mutex_step s s'"

definition lock_start :: lock_run where
  "lock_start = \<lparr>the_mutex = new_mutex, place = (\<lambda>_. Outside), depth = (\<lambda>_. 0)\<rparr>"

inductive_cases mutex_stepE: "mutex_step s s'"

text \<open>What holds of the mutex while its holder \<open>t\<close> is at a place; there are places where a holder cannot be.\<close>

fun held_at :: "place \<Rightarrow> u64 \<Rightarrow> nat \<Rightarrow> mutex \<Rightarrow> bool" where
  "held_at Lock_Wait t n m = False"
| "held_at Lock_Add t n m = (m_count m = 0 \<and> m_threadID m = 0 \<and> n = 0)"
| "held_at Lock_Name t n m = (m_count m = 1 \<and> m_threadID m = 0 \<and> n = 0)"
| "held_at Unlock_Less t n m = (unat (m_count m) = n \<and> m_threadID m = t \<and> 1 < n)"
| "held_at Unlock_Sub t n m = (m_count m = 1 \<and> m_threadID m = t \<and> n = 1)"
| "held_at Unlock_Clear t n m = (m_count m = 0 \<and> m_threadID m = t \<and> n = 0)"
| "held_at Unlock_Release t n m = (m_count m = 0 \<and> m_threadID m = 0 \<and> n = 0)"
| "held_at Lock_Count t n m = (unat (m_count m) = n \<and> m_threadID m = t \<and> 0 < n \<and> n < 2 ^ 32 - 1)"
| "held_at Lock_Owner t n m = (unat (m_count m) = n \<and> m_threadID m = t \<and> 0 < n \<and> n < 2 ^ 32 - 1)"
| "held_at Lock_Again t n m = (unat (m_count m) = n \<and> m_threadID m = t \<and> 0 < n \<and> n < 2 ^ 32 - 1)"
| "held_at _ t n m = (unat (m_count m) = n \<and> m_threadID m = t \<and> 0 < n)"

fun free_at :: "place \<Rightarrow> nat \<Rightarrow> bool" where
  "free_at Outside n = (n = 0)"
| "free_at Lock_Count n = (n = 0)"
| "free_at Lock_Owner n = (n = 0)"
| "free_at Lock_Wait n = (n = 0)"
| "free_at _ n = False"

definition thread_ok :: "lock_run \<Rightarrow> u64 \<Rightarrow> bool" where
  "thread_ok s t = ((place s t \<noteq> Outside \<longrightarrow> t \<noteq> 0) \<and>
     (if holder (the_mutex s) = Some t then t \<noteq> 0 \<and> held_at (place s t) t (depth s t) (the_mutex s)
      else free_at (place s t) (depth s t)))"

definition lock_run_ok :: "lock_run \<Rightarrow> bool" where
  "lock_run_ok s = ((\<forall>t. thread_ok s t) \<and>
     (holder (the_mutex s) = None \<longrightarrow> m_count (the_mutex s) = 0 \<and> m_threadID (the_mutex s) = 0))"

lemma lock_start_ok: "lock_run_ok lock_start"
  by (simp add: lock_run_ok_def thread_ok_def lock_start_def new_mutex_def)

lemma held_id: "held_at p t n m \<Longrightarrow> m_threadID m = 0 \<or> m_threadID m = t"
  by (cases p) auto

lemma free_depth: "free_at p n \<Longrightarrow> n = 0"
  by (cases p) auto

text \<open>The number of the holder is that of the thread which has locked the mutex, if it is set.\<close>

lemma named_holder:
  assumes "lock_run_ok s" "m_threadID (the_mutex s) \<noteq> 0"
  shows "holder (the_mutex s) = Some (m_threadID (the_mutex s))"
proof (cases "holder (the_mutex s)")
  case None
  then show ?thesis using assms by (simp add: lock_run_ok_def)
next
  case (Some t)
  then have "held_at (place s t) t (depth s t) (the_mutex s)"
    using assms(1) by (auto simp: lock_run_ok_def thread_ok_def dest: spec [of _ t])
  then show ?thesis using held_id assms(2) Some by metis
qed

text \<open>To change a thread and the mutex it has locked keeps the other threads in order.\<close>

lemma holder_moves:
  assumes "lock_run_ok s" "holder (the_mutex s) = Some t" "holder m = Some t" "held_at p t n m"
  shows "lock_run_ok (s\<lparr>the_mutex := m, place := (place s)(t := p), depth := (depth s)(t := n)\<rparr>)"
  using assms by (auto simp: lock_run_ok_def thread_ok_def)

lemma free_moves:
  assumes "lock_run_ok s" "holder (the_mutex s) \<noteq> Some t" "t \<noteq> 0" "free_at p 0"
  shows "lock_run_ok (go t p s)"
  using assms free_depth [of "place s t" "depth s t"]
  by (auto simp: lock_run_ok_def thread_ok_def go_def)

lemma holder_enters:
  assumes "lock_run_ok s" "holder (the_mutex s) = None" "t \<noteq> 0"
  shows "lock_run_ok (go t Lock_Add (access (\<lambda>m. m\<lparr>holder := Some t\<rparr>) s))"
  using assms free_depth [of "place s t" "depth s t"]
  by (auto simp: lock_run_ok_def thread_ok_def go_def access_def)

lemma holder_leaves:
  assumes "lock_run_ok s" "holder (the_mutex s) = Some t" "place s t = Unlock_Release"
  shows "lock_run_ok (go t Outside (access (\<lambda>m. m\<lparr>holder := None\<rparr>) s))"
proof -
  have t: "held_at Unlock_Release t (depth s t) (the_mutex s)"
    using assms by (auto simp: lock_run_ok_def thread_ok_def dest: spec [of _ t])
  have o: "free_at (place s u) (depth s u) \<and> (place s u \<noteq> Outside \<longrightarrow> u \<noteq> 0)" if "u \<noteq> t" for u
    using assms that by (auto simp: lock_run_ok_def thread_ok_def dest: spec [of _ u])
  show ?thesis using t o by (auto simp: lock_run_ok_def thread_ok_def go_def access_def)
qed

lemma unat_less_one: "unat (c :: u32) = n \<Longrightarrow> 0 < n \<Longrightarrow> unat (c - 1) = n - 1"
  by (metis One_nat_def Suc_pred' unat_minus_one unat_0 less_numeral_extra(3))

lemma unat_one_more: "unat (c :: u32) = n \<Longrightarrow> n < 2 ^ 32 - 1 \<Longrightarrow> unat (c + 1) = Suc n"
  by (simp add: unat_word_ariths)

lemma access_of_one:
  assumes "thread_access p t s = Some s'"
  shows "s' = s\<lparr>the_mutex := the_mutex s', place := (place s)(t := place s' t), depth := (depth s)(t := depth s' t)\<rparr>"
  using assms by (cases p) (auto simp: go_def access_def set_depth_def split: if_splits)

lemma holder_access:
  assumes "held_at (place s t) t (depth s t) (the_mutex s)" "holder (the_mutex s) = Some t"
    and "thread_access (place s t) t s = Some s'" "place s t \<noteq> Unlock_Release"
  shows "holder (the_mutex s') = Some t" and "held_at (place s' t) t (depth s' t) (the_mutex s')"
  using assms
  by (cases "place s t"; auto simp: go_def access_def set_depth_def unat_one_more unat_less_one word_less_nat_alt
        word_unat_eq_iff split: if_splits)+

lemma thread_access_ok:
  assumes "lock_run_ok s" "thread_access (place s t) t s = Some s'"
  shows "lock_run_ok s'"
proof -
  have ok: "thread_ok s t" using assms(1) by (simp add: lock_run_ok_def)
  have out: "place s t \<noteq> Outside" using assms(2) by auto
  then have t0: "t \<noteq> 0" using ok by (simp add: thread_ok_def)
  show ?thesis
  proof (cases "holder (the_mutex s) = Some t")
    case True
    have h: "held_at (place s t) t (depth s t) (the_mutex s)" using ok True by (simp add: thread_ok_def)
    show ?thesis
    proof (cases "place s t = Unlock_Release")
      case rel: True
      then show ?thesis using holder_leaves [OF assms(1) True rel] assms(2) by simp
    next
      case False
      show ?thesis
        by (subst access_of_one [OF assms(2)])
          (rule holder_moves [OF assms(1) True holder_access [OF h True assms(2) False]])
    qed
  next
    case False
    have f: "free_at (place s t) (depth s t)" using ok False by (simp add: thread_ok_def)
    have "m_threadID (the_mutex s) \<noteq> t" using named_holder [OF assms(1)] False t0 by auto
    then show ?thesis
      using f assms(2) out free_moves [OF assms(1) False t0] holder_enters [OF assms(1) _ t0]
      by (cases "place s t") (auto split: if_splits)
  qed
qed

lemma holder_there:
  "lock_run_ok s \<Longrightarrow> holder (the_mutex s) = Some t \<Longrightarrow> t \<noteq> 0 \<and> held_at (place s t) t (depth s t) (the_mutex s)"
  by (simp add: lock_run_ok_def thread_ok_def)

lemma free_there: "lock_run_ok s \<Longrightarrow> holder (the_mutex s) \<noteq> Some t \<Longrightarrow> free_at (place s t) (depth s t)"
  by (simp add: lock_run_ok_def thread_ok_def)

lemma call_ok:
  assumes "lock_run_ok s" "t \<noteq> 0"
    and "holder (the_mutex s) = Some t \<Longrightarrow> held_at p t (depth s t) (the_mutex s)"
    and "holder (the_mutex s) \<noteq> Some t \<Longrightarrow> free_at p 0"
  shows "lock_run_ok (go t p s)"
  using holder_moves [OF assms(1) _ _ assms(3)] free_moves [OF assms(1) _ assms(2,4)]
  by (cases "holder (the_mutex s) = Some t") (simp_all add: go_def)

lemma depth_holder: "lock_run_ok s \<Longrightarrow> 0 < depth s t \<Longrightarrow> holder (the_mutex s) = Some t"
  using free_there free_depth by fastforce

lemma mutex_step_ok: "mutex_step s s' \<Longrightarrow> lock_run_ok s \<Longrightarrow> lock_run_ok s'"
proof (induction rule: mutex_step.induct)
  case (call_Lock s t)
  show ?case by (rule call_ok) (use call_Lock holder_there [of s t] in auto)
next
  case (call_Unlock s t)
  note h = depth_holder [OF call_Unlock(3,2)]
  show ?case by (rule call_ok) (use call_Unlock holder_there [OF _ h] h in auto)
qed (rule thread_access_ok)

lemma mutex_run_ok: "mutex_step\<^sup>*\<^sup>* lock_start s \<Longrightarrow> lock_run_ok s"
  by (induction rule: rtranclp_induct) (auto simp: lock_start_ok intro: mutex_step_ok)

lemma holder_waits_not:
  "lock_run_ok s \<Longrightarrow> holder (the_mutex s) = Some t \<Longrightarrow> place s t = Outside \<or> (\<exists>s'. thread_access (place s t) t s = Some s')"
  using holder_there [of s t] by (cases "place s t") auto

text \<open>While no thread is inside the routines, the mutex is what the calls, one after the other, make of it.\<close>

lemma quiet_mutex:
  assumes "lock_run_ok s" "\<And>t. place s t = Outside"
  shows "the_mutex s = (case holder (the_mutex s) of None \<Rightarrow> new_mutex | Some t \<Rightarrow> taken_times t (depth s t))"
proof (cases "holder (the_mutex s)")
  case None
  then show ?thesis using assms(1) by (simp add: lock_run_ok_def new_mutex_def)
next
  case (Some t)
  then have "held_at Outside t (depth s t) (the_mutex s)"
    using holder_there [OF assms(1)] assms(2) by metis
  then have d: "depth s t = unat (m_count (the_mutex s))" and "m_threadID (the_mutex s) = t" "0 < depth s t" by simp_all
  moreover from d have "m_count (the_mutex s) = of_nat (depth s t)" by simp
  ultimately show ?thesis using Some by (simp add: taken_times_def)
qed

text \<open>A run given as a list of what happens.\<close>

datatype happening = Calls_Lock u64 | Calls_Unlock u64 | Goes_on u64

fun happens :: "happening \<Rightarrow> lock_run \<Rightarrow> lock_run option" where
  "happens (Calls_Lock t) s =
     (if place s t = Outside \<and> t \<noteq> 0 \<and> depth s t < 4294967295 then Some (go t Lock_Count s) else None)"
| "happens (Calls_Unlock t) s = (if place s t = Outside \<and> 0 < depth s t then Some (go t Unlock_Count s) else None)"
| "happens (Goes_on t) s = thread_access (place s t) t s"

fun happen_all :: "happening list \<Rightarrow> lock_run \<Rightarrow> lock_run option" where
  "happen_all [] s = Some s"
| "happen_all (h # hs) s = Option.bind (happens h s) (happen_all hs)"

lemma happens_step: "happens h s = Some s' \<Longrightarrow> mutex_step s s'"
  by (cases h) (auto intro: mutex_step.intros split: if_splits)

lemma happen_all_steps: "happen_all hs s = Some s' \<Longrightarrow> mutex_step\<^sup>*\<^sup>* s s'"
  by (induction hs arbitrary: s) (auto simp: bind_eq_Some_conv intro: converse_rtranclp_into_rtranclp happens_step)

text \<open>The states of a run of the threads 1 and 2.\<close>

definition two :: "mutex \<Rightarrow> place \<Rightarrow> place \<Rightarrow> nat \<Rightarrow> nat \<Rightarrow> lock_run" where
  "two m p q a b = \<lparr>the_mutex = m, place = (\<lambda>_. Outside)(1 := p, 2 := q), depth = (\<lambda>_. 0)(1 := a, 2 := b)\<rparr>"

lemma two_simps:
  "the_mutex (two m p q a b) = m" "place (two m p q a b) 1 = p" "place (two m p q a b) 2 = q"
  "depth (two m p q a b) 1 = a" "depth (two m p q a b) 2 = b" "access f (two m p q a b) = two (f m) p q a b"
  "go 1 r (two m p q a b) = two m r q a b" "go 2 r (two m p q a b) = two m p r a b"
  "set_depth 1 n (two m p q a b) = two m p q n b" "set_depth 2 n (two m p q a b) = two m p q a n"
  by (simp_all add: two_def go_def access_def set_depth_def fun_upd_twist)

lemma two_start: "lock_start = two new_mutex Outside Outside 0 0"
  by (simp add: two_def lock_start_def fun_eq_iff)

text \<open>The thread 1 takes the mutex twice, and the thread 2 waits for it.\<close>

definition two_threads :: "happening list" where
  "two_threads =
     [Calls_Lock 1, Goes_on 1, Goes_on 1, Goes_on 1, Goes_on 1, Calls_Lock 1, Goes_on 1, Goes_on 1, Goes_on 1,
      Calls_Lock 2, Goes_on 2, Goes_on 2]"

definition two_threads_end :: lock_run where
  "two_threads_end = two (taken_times 1 2) Outside Lock_Wait 2 0"

lemma two_threads_run: "happen_all two_threads lock_start = Some two_threads_end"
  by (simp add: two_threads_def two_threads_end_def two_start two_simps new_mutex_def taken_times_def numeral_2_eq_2)

text \<open>
  C15: under every interleaving of the accesses of \<^verbatim>\<open>Lock\<close> and \<^verbatim>\<open>Unlock\<close> two different threads never both hold the
  mutex, although the routines read the counter and the number of the holder before they have locked anything.
\<close>

theorem mutex_one_holder:
  assumes "mutex_step\<^sup>*\<^sup>* lock_start s" and "0 < depth s t" and "0 < depth s u"
  shows "t = u"
  using depth_holder [OF mutex_run_ok [OF assms(1)]] assms(2,3) by (metis option.inject)

theorem mutex_one_holder_witness: "depth two_threads_end 1 = 2 \<and> \<not> 0 < depth two_threads_end 2"
proof -
  have d: "depth two_threads_end 1 = 2" by (simp add: two_threads_end_def two_simps)
  have "\<not> 0 < depth two_threads_end 2"
  proof
    assume "0 < depth two_threads_end 2"
    then have "(1 :: u64) = 2" using mutex_one_holder [OF happen_all_steps [OF two_threads_run], of 1 2] d by simp
    then show False by simp
  qed
  then show ?thesis using d by simp
qed

text \<open>
  C16: a thread in \<^verbatim>\<open>Lock\<close> or \<^verbatim>\<open>Unlock\<close> that cannot go on waits for another thread, which has locked the mutex and can
  go on or is outside of both routines with the mutex taken; it never waits for itself, however often it has taken_times the
  mutex.
\<close>

theorem mutex_waits_for_other:
  assumes "mutex_step\<^sup>*\<^sup>* lock_start s" and "place s t \<noteq> Outside" and "thread_access (place s t) t s = None"
  shows "place s t = Lock_Wait \<and> depth s t = 0 \<and> (\<exists>u. u \<noteq> t \<and> holder (the_mutex s) = Some u
    \<and> (if place s u = Outside then 0 < depth s u else thread_access (place s u) u s \<noteq> None))"
proof -
  note ok = mutex_run_ok [OF assms(1)]
  have wait: "place s t = Lock_Wait" "holder (the_mutex s) \<noteq> None"
    using assms(2,3) by (cases "place s t"; simp split: if_splits)+
  then obtain u where u: "holder (the_mutex s) = Some u" by blast
  then have "u \<noteq> t" using holder_waits_not [OF ok] assms(2,3) by fastforce
  moreover have "if place s u = Outside then 0 < depth s u else thread_access (place s u) u s \<noteq> None"
    using holder_waits_not [OF ok u] holder_there [OF ok u] by auto
  moreover have "depth s t = 0" using depth_holder [OF ok, of t] u \<open>u \<noteq> t\<close> by auto
  ultimately show ?thesis using wait u by blast
qed

theorem mutex_waits_for_other_witness:
  "\<exists>u. u \<noteq> 2 \<and> holder (the_mutex two_threads_end) = Some u"
  using mutex_waits_for_other [OF happen_all_steps [OF two_threads_run], of 2]
  by (auto simp: two_threads_end_def two_simps taken_times_def)

section \<open>The event\<close>

text \<open>
  A deadline is a pair of seconds and nanoseconds. \<open>arrived i\<close> says whether another thread has called \<^verbatim>\<open>TriggerEvent\<close>
  since the check before the check number \<open>i\<close>; the check number 0 is the one at the start. When the condition variable
  wakes the thread does not matter: the signal is looked at after each wait, woken or not.
\<close>

definition TriggerEvent :: "bool \<Rightarrow> bool" where
  "TriggerEvent isSignaled = True"

definition check_signal :: "bool \<Rightarrow> bool \<Rightarrow> bool \<times> bool" where
  "check_signal a isSignaled = (let s = (if a then TriggerEvent isSignaled else isSignaled) in (s, if s then False else s))"

definition add_ms :: "int \<Rightarrow> int \<times> int \<Rightarrow> int \<times> int" where
  "add_ms ms ts = (let nsec = snd ts + ms * 1000000
     in if nsec \<ge> 1000000000 then (fst ts + 1, nsec - 1000000000) else (fst ts, nsec))"

text \<open>The deadlines given to \<^verbatim>\<open>pthread_cond_timedwait\<close>, and the signal afterwards.\<close>

function wait_rounds :: "(nat \<Rightarrow> bool) \<Rightarrow> nat \<Rightarrow> int \<Rightarrow> int \<times> int \<Rightarrow> bool \<Rightarrow> (int \<times> int) list \<times> bool" where
  "wait_rounds arrived i timeoutMs ts sig =
     (if timeoutMs > 30
      then let ts = add_ms 30 ts; (found, sig) = check_signal (arrived i) sig
           in if found then ([ts], sig)
              else let (rest, sig) = wait_rounds arrived (Suc i) (timeoutMs - 30) ts sig in (ts # rest, sig)
      else ([add_ms timeoutMs ts], False))"
  by pat_completeness auto
termination
  by (relation "measure (\<lambda>(_, _, timeoutMs, _, _). nat timeoutMs)") auto

definition WaitEvent :: "(nat \<Rightarrow> bool) \<Rightarrow> timeval \<Rightarrow> int \<Rightarrow> bool \<Rightarrow> (int \<times> int) list \<times> bool" where
  "WaitEvent arrived tp timeoutMs sig =
     (let (found, sig) = check_signal (arrived 0) sig
      in if found then ([], sig) else wait_rounds arrived 1 timeoutMs (tv_sec tp, tv_usec tp * 1000) sig)"

declare wait_rounds.simps [simp del]

definition in_ns :: "int \<times> int \<Rightarrow> int" where
  "in_ns ts = fst ts * 1000000000 + snd ts"

lemma add_ms_ns: "in_ns (add_ms ms ts) = in_ns ts + ms * 1000000"
  by (auto simp: in_ns_def add_ms_def Let_def)

lemma add_ms_range:
  "0 \<le> snd ts \<Longrightarrow> snd ts < 1000000000 \<Longrightarrow> 0 \<le> ms \<Longrightarrow> ms \<le> 1000 \<Longrightarrow>
     0 \<le> snd (add_ms ms ts) \<and> snd (add_ms ms ts) < 1000000000"
  by (auto simp: add_ms_def Let_def)

text \<open>After a wait the signal is off, whatever happened.\<close>

lemma check_signal_off: "snd (check_signal a sig) = False"
  by (simp add: check_signal_def Let_def)

lemma wait_rounds_off: "snd (wait_rounds arrived i ms ts sig) = False"
proof (induction arrived i ms ts sig rule: wait_rounds.induct)
  case (1 arrived i ms ts sig)
  obtain found s where c: "check_signal (arrived i) sig = (found, s)" by fastforce
  have "\<not> s" using check_signal_off [of "arrived i" sig] c by simp
  moreover have "\<not> snd (wait_rounds arrived (Suc i) (ms - 30) (add_ms 30 ts) s)" if "ms > 30" "\<not> found"
    using 1 [OF that(1) refl c [symmetric] refl that(2)] by simp
  ultimately show ?case using c by (subst wait_rounds.simps) (auto simp: Let_def split: prod.splits)
qed

lemma WaitEvent_off: "snd (WaitEvent arrived tp ms sig) = False"
  using check_signal_off [of "arrived 0" sig] wait_rounds_off by (auto simp: WaitEvent_def Let_def split: prod.splits)

text \<open>
  Each deadline is a valid time, and no wait ends later than the time asked for: the deadlines are 30 ms apart, counted
  from the call and not from the wakings.
\<close>

lemma wait_rounds_deadlines:
  assumes "0 \<le> snd ts" "snd ts < 1000000000" "0 \<le> ms" "d \<in> set (fst (wait_rounds arrived i ms ts sig))"
  shows "0 \<le> snd d \<and> snd d < 1000000000 \<and> in_ns d \<le> in_ns ts + ms * 1000000"
  using assms
proof (induction arrived i ms ts sig rule: wait_rounds.induct)
  case (1 arrived i ms ts sig)
  show ?case
  proof (cases "ms > 30")
    case True
    define ts' where "ts' = add_ms 30 ts"
    have r: "0 \<le> snd ts'" "snd ts' < 1000000000" "in_ns ts' = in_ns ts + 30000000"
      using add_ms_range [of ts 30] 1(2,3) by (simp_all add: ts'_def add_ms_ns)
    obtain found s where c: "check_signal (arrived i) sig = (found, s)" by fastforce
    have "d = ts' \<or> \<not> found \<and> d \<in> set (fst (wait_rounds arrived (Suc i) (ms - 30) ts' s))"
      using 1(5) True c by (subst (asm) wait_rounds.simps) (auto simp: Let_def ts'_def split: prod.splits if_splits)
    then show ?thesis
    proof
      assume d: "\<not> found \<and> d \<in> set (fst (wait_rounds arrived (Suc i) (ms - 30) ts' s))"
      then show ?thesis using 1(1) [OF True ts'_def c [symmetric] refl] r True by auto
    qed (use r True in auto)
  next
    case False
    then have "d = add_ms ms ts" using 1(5) by (subst (asm) wait_rounds.simps) simp
    then show ?thesis using False 1(2-4) add_ms_range [of ts ms] by (auto simp: add_ms_ns)
  qed
qed

text \<open>Without a signal the last wait ends exactly when the time asked for is over.\<close>

lemma wait_rounds_nonempty: "fst (wait_rounds arrived i ms ts sig) \<noteq> []"
  by (subst wait_rounds.simps) (auto simp: Let_def split: prod.splits)

lemma wait_rounds_last:
  assumes "\<And>j. \<not> arrived j" "\<not> sig"
  shows "in_ns (last (fst (wait_rounds arrived i ms ts sig))) = in_ns ts + ms * 1000000"
  using assms
proof (induction arrived i ms ts sig rule: wait_rounds.induct)
  case (1 arrived i ms ts sig)
  have c: "check_signal (arrived i) sig = (False, False)" using 1(2,3) by (simp add: check_signal_def)
  have IH: "in_ns (last (fst (wait_rounds arrived (Suc i) (ms - 30) (add_ms 30 ts) False)))
      = in_ns (add_ms 30 ts) + (ms - 30) * 1000000" if "ms > 30"
    using 1(1) [OF that refl c [symmetric] refl _ 1(2)] by simp
  show ?case
    using IH c wait_rounds_nonempty [of arrived "Suc i" "ms - 30" "add_ms 30 ts" False]
    by (subst wait_rounds.simps) (auto simp: Let_def add_ms_ns split: prod.splits)
qed

lemma WaitEvent_deadlines:
  assumes "0 \<le> tv_usec tp" "tv_usec tp < 1000000" "0 \<le> ms" "\<And>j. \<not> arrived j"
  shows "fst (WaitEvent arrived tp ms False) \<noteq> []"
    and "in_ns (last (fst (WaitEvent arrived tp ms False))) = tv_sec tp * 1000000000 + tv_usec tp * 1000 + ms * 1000000"
    and "\<forall>d \<in> set (fst (WaitEvent arrived tp ms False)). 0 \<le> snd d \<and> snd d < 1000000000"
proof -
  have w: "WaitEvent arrived tp ms False = wait_rounds arrived 1 ms (tv_sec tp, tv_usec tp * 1000) False"
    using assms(4) by (simp add: WaitEvent_def check_signal_def)
  show "fst (WaitEvent arrived tp ms False) \<noteq> []" unfolding w by (rule wait_rounds_nonempty)
  show "in_ns (last (fst (WaitEvent arrived tp ms False))) = tv_sec tp * 1000000000 + tv_usec tp * 1000 + ms * 1000000"
    unfolding w using wait_rounds_last [of arrived False 1 ms] assms(4) by (simp add: in_ns_def)
  show "\<forall>d \<in> set (fst (WaitEvent arrived tp ms False)). 0 \<le> snd d \<and> snd d < 1000000000"
    unfolding w using wait_rounds_deadlines [of "(tv_sec tp, tv_usec tp * 1000)" ms] assms(1-3) by auto
qed

text \<open>A signal given before the call is taken without a wait, and only once.\<close>

lemma WaitEvent_signalled: "WaitEvent arrived tp ms (TriggerEvent sig) = ([], False)"
  by (simp add: WaitEvent_def check_signal_def TriggerEvent_def Let_def)

section \<open>Counters and the start of a thread\<close>

text \<open>
  The result and the new value. With the intrinsics of gcc the result is the value before, whereas the branches for
  Windows and for the systems with a mutex return the value afterwards.
\<close>

definition Increment :: "u32 \<Rightarrow> u32 \<times> u32" where
  "Increment value = (value, value + 1)"

definition Decrement :: "u32 \<Rightarrow> u32 \<times> u32" where
  "Decrement value = (value, value - 1)"

definition Increment_locked :: "u32 \<Rightarrow> u32 \<times> u32" where
  "Increment_locked value = (let value = value + 1; v = value in (v, value))"

definition Decrement_locked :: "u32 \<Rightarrow> u32 \<times> u32" where
  "Decrement_locked value = (let value = value - 1; v = value in (v, value))"

lemma Increment_Decrement: "snd (Decrement (snd (Increment v))) = v"
  by (simp add: Increment_def Decrement_def)

lemma Increment_differs: "snd (Increment v) = snd (Increment_locked v) \<and> fst (Increment v) \<noteq> fst (Increment_locked v)"
  by (simp add: Increment_def Increment_locked_def Let_def)

text \<open>\<open>res\<close> is what \<^verbatim>\<open>pthread_create\<close> returns: the number of an error is never returned, but stops the program.\<close>

definition Thread_Create :: "int \<Rightarrow> int res" where
  "Thread_Create res = (if res = 0 then Inr res else Inl AssertFailed)"

definition JackieGetCurrentThreadId :: u32 where
  "JackieGetCurrentThreadId = 0"

lemma Thread_Create_returns: "Thread_Create res = Inr n \<longleftrightarrow> res = 0 \<and> n = 0"
  by (auto simp: Thread_Create_def)

end
