(* ===== verification/Spec2Isabelle.thy ===== *)
theory Spec2Isabelle
  imports Stream_Properties Float_Properties Container_Properties Handshake_Properties Cycle_Properties Startup_Properties
    Vector_Properties Application_Life Guid_Text Clock Uint24 Message_Ids Small_Calls
    Sync_Objects
begin

text \<open>
  A model of GECO-NET-CORE, a C++ network engine over UDP after the pattern of RakNet, and what is proved of it. The
  configuration is the one of \<^verbatim>\<open>include/geco-net-config.h\<close> on Linux: no IPv6, several threads, the handshake with
  security compiled in. A \<^verbatim>\<open>Time\<close> has 64 bits there (\<^verbatim>\<open>USE_TIME_MS_64BITS\<close>), a \<^verbatim>\<open>TimeMS\<close> 32 and a \<^verbatim>\<open>TimeUS\<close> 64; where the
  program mixes them the model has the conversion (\<open>ucast\<close>) written out. \<^verbatim>\<open>bs\<close> below stands for \<^verbatim>\<open>geco-bit-stream\<close>, \<^verbatim>\<open>app\<close> for \<^verbatim>\<open>src/geco_application.cpp\<close>.

  \<^bold>\<open>The program.\<close> A user thread calls \<^verbatim>\<open>startup\<close>, \<^verbatim>\<open>Connect\<close>, \<^verbatim>\<open>Send\<close>, \<^verbatim>\<open>AddToBanList\<close> and so on, and fetches
  packets, which the plugins see first. Its calls become commands on a queue. The network thread takes the commands, the
  datagrams the receiving threads have put on theirs (one thread and one queue for each socket), and the requests to
  connect, which it sends again and again until they are answered or given up. A datagram from a stranger is a message of
  the handshake or is ignored; the handshake ends with a place in the list of end points on both sides. Datagrams are
  read and written with bit streams.

  \<^bold>\<open>Shape of the model.\<close> Every operation is a function on explicit state with a result in \<open>fault + 'a\<close>. A fault
  (\<open>AssertFailed\<close>, \<open>OutOfBounds\<close>, \<open>Misaligned\<close>, \<open>NoReturnValue\<close>, \<open>DivisionByZero\<close>) is what the C++ program has an
  assertion or undefined behaviour for; \<open>OutOfFuel\<close> is a loop that is cut off. Integers have the width of the source
  (\<open>Word\<close>); positions and sizes that the source keeps in 32 bits are natural numbers with \<open>add32\<close>, \<open>sub32\<close>, \<open>shl32\<close>
  of \<open>Geco_Prelude\<close> for the arithmetic that wraps. Memory that is read before it is written is given by functions
  (\<open>junk\<close>, \<open>fresh_bytes\<close>). Allocation succeeds.

  \<^bold>\<open>Theories\<close>, in the order they are built on each other:

  \<^item> \<open>Geco_Prelude\<close>: machine types, results and faults, arrays with bounds, \<open>good\<close> (what holds of a result if there is one).
  \<^item> \<open>Bit_Buffer\<close>, \<open>Bit_Write\<close>, \<open>Bit_Read\<close> (\<^verbatim>\<open>include/bs.h\<close>, \<^verbatim>\<open>src/bs.cpp\<close>): the buffer and its growth, \<^verbatim>\<open>WriteBits\<close>,
    \<^verbatim>\<open>ReadBits\<close>. The abstraction is \<open>content\<close>, the list of the bits written, and \<open>payload\<close>, those not yet read.
    \<open>Bit_Codec\<close> has the two contracts writers and readers are composed with: \<open>emits f bs\<close> and \<open>takes f bs x\<close>.
    \<open>Bit_Types\<close> (integers of each width in both byte orders, \<^verbatim>\<open>uint24_t\<close>), \<open>Bit_Mini\<close> (\<^verbatim>\<open>WriteMini\<close>, \<^verbatim>\<open>ReadMini\<close>),
    \<open>Bit_Ranged\<close> (integers of a known range), \<open>Bit_Floats\<close> (numbers with a fraction, over rational numbers rounded as
    IEEE 754 does), \<open>Bit_Stream_Ops\<close> (alignment, arrays of bytes, addresses), \<open>Bit_Stream_Copy\<close> (a stream into another),
    \<open>Bit_Serialize\<close> (one routine for writing and reading: the locales \<open>two_way\<close> and \<open>two_ways\<close>), \<open>Bit_Vectors\<close> (vectors
    with a length, quaternions, matrices, the bits of a float).
  \<^item> \<open>Fast_Hash\<close>, \<open>Text_Numbers\<close>, \<open>Mem_Copy\<close> (\<^verbatim>\<open>src/geco-globals.cpp\<close>): the hashes, \<^verbatim>\<open>Itoa\<close>, \<^verbatim>\<open>SuperFastMemCpy\<close>.
    \<open>Net_Types\<close> (\<^verbatim>\<open>geco-net-type\<close>): addresses, guids, their comparisons and texts. \<open>Mersenne_Twister\<close>
    (\<^verbatim>\<open>src/geco-random-seed-creator.cpp\<close>). \<open>Guid_Text\<close>: guids as text, names of end points by guid or address. \<open>Clock\<close>
    (\<^verbatim>\<open>geco-time\<close>). \<open>Uint24\<close>: the numbers of datagrams. \<open>Message_Ids\<close> (\<^verbatim>\<open>include/geco-msg-ids.h\<close>). \<open>Small_Calls\<close>:
    addresses from text, random floats, the turning on of security. \<open>Sync_Objects\<close> (\<^verbatim>\<open>src/JackieSimpleMutex.cpp\<close>,
    \<^verbatim>\<open>src/JackieWaitEvent.cpp\<close>, \<^verbatim>\<open>src/JACKIE_Atomic.cpp\<close>): the mutex, with the accesses of its two routines by many
    threads interleaved (\<open>mutex_step\<close>), the event with its deadlines, the counters.
  \<^item> \<open>Fifo\<close>: the contract of a queue as a locale, interpreted by \<open>Array_Queue\<close> (\<^verbatim>\<open>JackieArraryQueue.h\<close>) and
    \<open>Spsc_Queue\<close> (\<^verbatim>\<open>JackieSPSCQueue.h\<close>, there also with the two threads interleaved step by step). \<open>Array_List\<close>
    (\<^verbatim>\<open>JackieArrayList.h\<close>) and \<open>Memory_Pool\<close> (\<^verbatim>\<open>JackieMemoryPool.h\<close>, pages as objects in a store, linked in two rings).
  \<^item> \<open>Remote_Systems\<close>, \<open>Connection_Slots\<close>, \<open>Local_Addresses\<close>, \<open>Ban_List\<close> (\<^verbatim>\<open>app\<close>): the end points with the hash table
    over their addresses and the list of the active ones, the choice of a place, the addresses of the machine, the bans.
  \<^item> \<open>Application_State\<close>, \<open>Connection_Requests\<close>, \<open>Offline_Messages\<close>, \<open>Send_Immediate\<close>, \<open>Handshake_Client\<close>,
    \<open>Handshake_Server\<close>, \<open>Offline_Dispatch\<close> (\<^verbatim>\<open>app\<close>): the requests of the user, the loop over them, the handlers of
    the messages of the handshake, and the dispatch of a datagram to them.
  \<^item> \<open>Engine_State\<close>, \<open>Plugins\<close>, \<open>Socket_Calls\<close> (\<^verbatim>\<open>src/network_socket_t.cpp\<close>), \<open>Network_Cycle\<close>: the queues between the
    threads, the user's calls and the plugins, sockets over an operating system that is a record of functions
    (\<open>kernel\<close>: what the n-th call returns), and a cycle of each thread. \<open>Network_Steps\<close> makes whole calls and cycles the
    steps of an inductive relation \<open>engine_step\<close>. \<open>Startup\<close>: \<^verbatim>\<open>startup\<close>, with the socket objects on a heap.
    \<open>Application_Life\<close>: the constructor, the loops the threads run, their stopping, the clearing of the queues.

  The properties are in \<open>Stream_Properties\<close>, \<open>Float_Properties\<close>, \<open>Vector_Properties\<close>, \<open>Container_Properties\<close>,
  \<open>Engine_Properties\<close>, \<open>Handshake_Properties\<close>, \<open>Cycle_Properties\<close> and \<open>Startup_Properties\<close>, those of the mutex at the end
  of its section in \<open>Sync_Objects\<close>; \<open>Handshake_Facts\<close>, \<open>Request_Rounds\<close>, \<open>Server_Slots\<close>, \<open>App_Sound\<close> and
  \<open>Cycle_Facts\<close> hold the lemmas between them and the operations.

  \<^bold>\<open>What the lemmas show.\<close> Streams: \<open>buffer_ok\<close> is kept by each operation, what is written is read back, exactly for
  which values the compressed forms do so, and how close floats, vectors and quaternions come back. Containers: the
  operations refine lists; the pool gives out no cell twice.
  End points: \<open>endpoints_ok\<close> (the table finds each active end point, the list of the active ones holds exactly those)
  is kept by every new client. Handshake: the messages of one side followed through the handlers of the other, the whole
  life of a request, also of one that is posted too late to be ever sent, repeated requests. Threads: \<open>sound\<close> is kept by every handler, \<open>engine_ok\<close> and \<open>buffers_ok\<close> by every
  step from every reachable state, where \<open>buffers_ok\<close> follows each receive buffer by a number the model gives it; a
  datagram, a ban and a packet are followed through the queues; the mutex has one holder under every interleaving, and nobody waits for himself.
  Start: what a started engine looks like, and that no start follows one that got as far as the sockets. Where the
  program does not do what it is for, the property says what it does instead.

  \<^bold>\<open>Fuel.\<close> Loops over an array or a queue have the number of their elements as fuel, which is proved to be enough
  (\<open>request_loop_ends\<close>, the loops of \<open>each_popped\<close>). The loops of \<open>Bind\<close>, \<open>send_tries\<close> and \<open>RecvFromIPV4\<close> over the calls
  of the system may not end; their fuel is a parameter, and \<open>send_returns_iff\<close> and \<open>bind_waits\<close> say when they do.

  \<^bold>\<open>Parameters.\<close> The socket library (\<^verbatim>\<open>inet_addr\<close>, \<^verbatim>\<open>inet_ntoa\<close>, the resolver, the calls on sockets), the clock, the
  cryptographic library \<^verbatim>\<open>cat\<close> (\<open>crypto\<close>), the width of the square root (\<open>sq\<close>), the results of a plugin, and what other
  threads change while one of them runs.

  \<^bold>\<open>Not modelled.\<close> The branches for IPv6, Windows, consoles and the browser; the pointers to
  malloc (\<^verbatim>\<open>geco-malloc-interface\<close>) and the start of the Windows sockets (\<^verbatim>\<open>geco-wsa-singleton\<close>), which only call the
  system; what the mutex does when memory is weaker than sequentially consistent; \<^verbatim>\<open>transport_layer_t\<close>, whose methods print a line and return;
  the key exchange behind \<^verbatim>\<open>enable_secure_inbound_connections\<close>, which is the library \<^verbatim>\<open>cat\<close>; infinities, NaNs and the
  sign of a zero; closing descriptors; the waits for threads to start and end; the packets of the layer for
  reliable messages, which are declared but not used; the inside of
  plugins; the option not to fragment; printing of streams. A cycle of a thread is one step, so interleavings inside a
  cycle are covered for \<open>Spsc_Queue\<close> and \<open>Sync_Objects\<close> only, a full queue between threads is not waited for, and a packet's data is a
  value and not a pointer into the receive buffer it came in. Fields of a command that share memory are separate.
\<close>

end
